(* ===== verification/Prelude.thy ===== *)
theory Prelude
  imports Main "HOL-Library.AList" "HOL-Library.Word" "HOL-Library.Multiset"
begin

text \<open>
  Shared vocabulary of the development: the Go scalar types the components use, Go maps as
  association lists, the library search routine \<open>sort.Search\<close>, and the three interfaces that
  several components implement (an accumulator that is drained, a bounded log with increasing
  ids, a transition system with an invariant).

  Conventions. A Go \<open>string\<close> is a list of bytes (\<^typ>\<open>string\<close>). A Go \<open>int64\<close> whose
  wrap-around matters is a \<^typ>\<open>64 word\<close>. An instant (\<open>time.Time\<close>) is an \<^typ>\<open>int\<close> on one
  fixed scale and a \<open>time.Duration\<close> a difference of two instants. A Go map, and a
  \<open>sync.Map\<close>, is an association list with distinct keys; reading a missing key gives the zero
  value (\<open>mget\<close>).
\<close>

section \<open>Scalar types\<close>

type_synonym int64 = "64 word"
type_synonym uint64 = "64 word"
type_synonym uint16 = "16 word"
type_synonym instant = int
type_synonym duration = int

named_theorems go_map_simps "lookup after update and delete of a Go map"
named_theorems state_inv "one lemma per operation: the operation keeps the component invariant"

text \<open>A Go \<open>int64\<close> (or \<open>int\<close>) kept as an \<^typ>\<open>int\<close>: the wrap-around of one operation.\<close>

definition wrap64 :: "int \<Rightarrow> int" where
  "wrap64 x = (x + 2 ^ 63) mod 2 ^ 64 - 2 ^ 63"

lemma wrap64_small: "- (2 ^ 63) \<le> x \<Longrightarrow> x < 2 ^ 63 \<Longrightarrow> wrap64 x = x"
  by (simp add: wrap64_def mod_pos_pos_trivial)

section \<open>Go maps\<close>

type_synonym ('k, 'v) gomap = "('k \<times> 'v) list"

definition wf_map :: "('k, 'v) gomap \<Rightarrow> bool" where
  "wf_map m \<longleftrightarrow> distinct (map fst m)"

definition mget :: "'v \<Rightarrow> ('k, 'v) gomap \<Rightarrow> 'k \<Rightarrow> 'v" where
  "mget z m k = (case map_of m k of None \<Rightarrow> z | Some v \<Rightarrow> v)"

abbreviation mput :: "'k \<Rightarrow> 'v \<Rightarrow> ('k, 'v) gomap \<Rightarrow> ('k, 'v) gomap" where
  "mput \<equiv> AList.update"

abbreviation mdel :: "'k \<Rightarrow> ('k, 'v) gomap \<Rightarrow> ('k, 'v) gomap" where
  "mdel \<equiv> AList.delete"

text \<open>The Go statement \<open>m[k] += d\<close>.\<close>

definition mbump :: "'k \<Rightarrow> 'v::comm_monoid_add \<Rightarrow> ('k, 'v) gomap \<Rightarrow> ('k, 'v) gomap" where
  "mbump k d m = mput k (mget 0 m k + d) m"

lemma wf_map_Nil [simp, intro]: "wf_map []"
  by (simp add: wf_map_def)

lemma wf_map_put [simp, intro]: "wf_map m \<Longrightarrow> wf_map (mput k v m)"
  by (simp add: wf_map_def distinct_update)

lemma wf_map_del [simp, intro]: "wf_map m \<Longrightarrow> wf_map (mdel k m)"
  by (simp add: wf_map_def distinct_delete)

lemma wf_map_bump [simp, intro]: "wf_map m \<Longrightarrow> wf_map (mbump k d m)"
  by (simp add: mbump_def)

lemma set_mput: "set (mput k v m) \<subseteq> insert (k, v) (set m)"
  by (induction m) auto

lemma set_mdel: "set (mdel k m) \<subseteq> set m"
  by (induction m) auto

lemma map_of_put [simp, go_map_simps]:
  "map_of (mput k v m) k' = (if k' = k then Some v else map_of m k')"
  by (simp add: update_conv')

lemma map_of_del [simp, go_map_simps]:
  "map_of (mdel k m) k' = (if k' = k then None else map_of m k')"
  by (simp add: delete_conv')

lemma mget_Nil [simp, go_map_simps]: "mget z [] k = z"
  by (simp add: mget_def)

lemma mget_put [simp, go_map_simps]: "mget z (mput k v m) k' = (if k' = k then v else mget z m k')"
  by (simp add: mget_def)

lemma mget_del [simp, go_map_simps]: "mget z (mdel k m) k' = (if k' = k then z else mget z m k')"
  by (simp add: mget_def)

lemma mget_bump [simp, go_map_simps]:
  "mget 0 (mbump k d m) k' = (if k' = k then mget 0 m k + d else mget 0 m k')"
  by (simp add: mbump_def)

lemma mput_fresh: "k \<notin> fst ` set m \<Longrightarrow> mput k v m = m @ [(k, v)]"
  by (induction m) auto

lemma map_of_tabulate: "map_of (map (\<lambda>k. (k, f k)) ks) k = (if k \<in> set ks then Some (f k) else None)"
  by (induction ks) auto

lemma mget_notin: "k \<notin> fst ` set m \<Longrightarrow> mget z m k = z"
  by (simp add: mget_def map_of_eq_None_iff [THEN iffD2])

lemma keys_put: "fst ` set (mput k v m) = insert k (fst ` set m)"
  by (induction m) auto

lemma keys_put_mono [simp]: "fst ` set m \<subseteq> fst ` set (mput k v m)"
  by (simp only: keys_put subset_insertI)

lemma keys_del: "fst ` set (mdel k m) = fst ` set m - {k}"
  by (induction m) auto

lemma length_mdel_le: "length (mdel k m) \<le> length m"
  by (rule length_delete_le)

lemma map_of_wf_eq: "wf_map m \<Longrightarrow> map_of m k = Some v \<longleftrightarrow> (k, v) \<in> set m"
  by (simp add: wf_map_def)

text \<open>Mapping the values of a Go map in place (a \<open>Range\<close> that stores back every visited value).\<close>

lemma map_of_map_values:
  "map_of (map (\<lambda>(k, v). (k, f k v)) m) k = map_option (f k) (map_of m k)"
  by (induction m) auto

lemma wf_map_map_values [simp]: "wf_map (map (\<lambda>(k, v). (k, f k v)) m) = wf_map m"
proof -
  have "map fst (map (\<lambda>(k, v). (k, f k v)) m) = map fst m" by (induction m) auto
  then show ?thesis by (simp only: wf_map_def)
qed

lemma map_of_filter_values:
  "wf_map m \<Longrightarrow> map_of (filter (\<lambda>(k, v). P k v) m) k =
    (case map_of m k of None \<Rightarrow> None | Some v \<Rightarrow> if P k v then Some v else None)"
proof (induction m)
  case Nil
  then show ?case by simp
next
  case (Cons a m)
  obtain k0 v0 where a: "a = (k0, v0)" by force
  from Cons.prems a have "wf_map m" and "k0 \<notin> fst ` set m" by (simp_all add: wf_map_def)
  then have k0: "map_of m k0 = None" by (simp add: map_of_eq_None_iff)
  from Cons.IH [OF \<open>wf_map m\<close>] k0 a show ?case by auto
qed

lemma wf_map_filter [simp, intro]: "wf_map m \<Longrightarrow> wf_map (filter P m)"
  by (simp add: wf_map_def distinct_map_filter)

text \<open>Sums over the values of a map used as a table of counters.\<close>

definition msum :: "('k, 'v::comm_monoid_add) gomap \<Rightarrow> 'v" where
  "msum m = sum_list (map snd m)"

lemma msum_Nil [simp]: "msum [] = 0"
  by (simp add: msum_def)

lemma msum_put_fresh: "map_of m k = None \<Longrightarrow> msum (mput k v m) = msum m + v"
  by (induction m) (auto simp: msum_def algebra_simps split: if_splits)

lemma msum_bump [simp]: "msum (mbump k d m) = msum m + d"
proof -
  have "msum (mput k (mget 0 m k + d) m) = msum m + d"
  proof (induction m)
    case Nil
    then show ?case by (simp add: msum_def)
  next
    case (Cons a m)
    then show ?case by (cases a) (auto simp: msum_def mget_def algebra_simps)
  qed
  then show ?thesis by (simp add: mbump_def)
qed

section \<open>Lists\<close>

text \<open>The last \<open>n\<close> elements of a list, oldest first.\<close>

definition lastn :: "nat \<Rightarrow> 'a list \<Rightarrow> 'a list" where
  "lastn n xs = drop (length xs - n) xs"

lemma length_lastn [simp]: "length (lastn n xs) = min n (length xs)"
  by (auto simp: lastn_def)

lemma lastn_all [simp]: "length xs \<le> n \<Longrightarrow> lastn n xs = xs"
  by (simp add: lastn_def)

lemma lastn_snoc_full:
  "length xs = n \<Longrightarrow> 0 < n \<Longrightarrow> lastn n (xs @ [x]) = tl xs @ [x]"
  by (cases xs) (auto simp: lastn_def)

lemma lastn_lastn_snoc: "lastn n (lastn n xs @ [x]) = lastn n (xs @ [x])"
  by (cases "length xs \<le> n") (auto simp: lastn_def drop_Cons' split: nat_diff_split)

lemma set_lastn: "set (lastn n xs) \<subseteq> set xs"
  by (auto simp: lastn_def dest: in_set_dropD)

lemma filter_update_count:
  "i < length xs \<Longrightarrow> length (filter P (xs[i := y])) + (if P (xs ! i) then 1 else 0) =
    length (filter P xs) + (if P y then 1 else 0)"
proof (induction xs arbitrary: i)
  case (Cons x xs)
  then show ?case by (cases i) auto
qed simp

lemma distinct_map_sort_key: "distinct (map g (sort_key f xs)) = distinct (map g xs)"
  by (rule mset_eq_imp_distinct_iff) simp

lemma of_nat_pred: "Suc a = b \<Longrightarrow> (of_nat a :: 'a::ring_1) = of_nat b - 1"
  by auto

lemma sum_list_map_eq_0: "(\<And>x. x \<in> set xs \<Longrightarrow> f x = 0) \<Longrightarrow> sum_list (map f xs) = (0::'a::comm_monoid_add)"
  by (induction xs) auto

lemma find_snoc: "find P (xs @ [x]) = (case find P xs of None \<Rightarrow> if P x then Some x else None | Some y \<Rightarrow> Some y)"
  by (induction xs) auto

lemma find_unique: "distinct (map f xs) \<Longrightarrow> x \<in> set xs \<Longrightarrow> find (\<lambda>y. f y = f x) xs = Some x"
  by (induction xs) auto

section \<open>Machine integers\<close>

lemma sint_of_nat_small: "k < 2 ^ 63 \<Longrightarrow> sint (of_nat k :: int64) = int k"
  by (simp add: signed_of_nat signed_take_bit_int_eq_self)

section \<open>Interfaces shared by several components\<close>

text \<open>
  An accumulator: \<open>bump\<close> adds the amounts of one event to the pending totals, \<open>drain\<close> hands
  the pending totals out and starts again from zero. The node's byte counters and its
  suppressed-noise counters both promise this. A client that bumps and drains in any order gets
  every amount exactly once: \<open>run_conserves\<close>.
\<close>

datatype 'e acc_op = Bump 'e | Drained

locale accumulator =
  fixes bump :: "'s \<Rightarrow> 'e \<Rightarrow> 's"
    and drain :: "'s \<Rightarrow> 's \<times> ('k \<Rightarrow> 'd::comm_monoid_add)"
    and pending :: "'s \<Rightarrow> 'k \<Rightarrow> 'd"
    and amount :: "'e \<Rightarrow> 'k \<Rightarrow> 'd"
    and invar :: "'s \<Rightarrow> bool"
  assumes pending_bump: "invar s \<Longrightarrow> pending (bump s e) k = pending s k + amount e k"
    and drain_out: "invar s \<Longrightarrow> snd (drain s) k = pending s k"
    and drain_reset: "invar s \<Longrightarrow> pending (fst (drain s)) k = 0"
    and invar_bump: "invar s \<Longrightarrow> invar (bump s e)"
    and invar_drain: "invar s \<Longrightarrow> invar (fst (drain s))"
begin

fun run :: "'s \<Rightarrow> 'e acc_op list \<Rightarrow> 's \<times> ('k \<Rightarrow> 'd) list" where
  "run s [] = (s, [])"
| "run s (Bump e # es) = run (bump s e) es"
| "run s (Drained # es) = (let (s', out) = drain s; (s'', outs) = run s' es in (s'', out # outs))"

fun bumped :: "'e acc_op list \<Rightarrow> 'k \<Rightarrow> 'd" where
  "bumped [] k = 0"
| "bumped (Bump e # es) k = amount e k + bumped es k"
| "bumped (Drained # es) k = bumped es k"

lemma run_invar: "invar s \<Longrightarrow> invar (fst (run s es))"
proof (induction es arbitrary: s)
  case (Cons x es)
  then show ?case using invar_bump invar_drain
    by (cases x) (auto simp: Let_def split: prod.splits, metis fst_conv)
qed simp

lemma run_conserves:
  "invar s \<Longrightarrow>
    sum_list (map (\<lambda>out. out k) (snd (run s es))) + pending (fst (run s es)) k =
    pending s k + bumped es k"
proof (induction es arbitrary: s)
  case (Cons x es)
  show ?case
  proof (cases x)
    case (Bump e)
    then show ?thesis using Cons.IH [OF invar_bump [OF Cons.prems, of e]] Cons.prems
      by (simp add: pending_bump algebra_simps)
  next
    case Drained
    have "sum_list (map (\<lambda>out. out k) (snd (run (fst (drain s)) es)))
        + pending (fst (run (fst (drain s)) es)) k = bumped es k"
      using Cons.IH [OF invar_drain [OF Cons.prems]] by (simp add: drain_reset [OF Cons.prems])
    then show ?thesis using drain_out [OF Cons.prems, of k] Drained
      by (simp add: Let_def split_beta algebra_simps)
  qed
qed simp

text \<open>Between two drains the second payload is exactly what was bumped in between: a delta.\<close>

lemma drain_is_delta:
  assumes "invar s"
  shows "snd (drain (foldl bump (fst (drain s)) es)) k = sum_list (map (\<lambda>e. amount e k) es)"
proof -
  have "invar t \<Longrightarrow> invar (foldl bump t es) \<and>
      pending (foldl bump t es) k = pending t k + sum_list (map (\<lambda>e. amount e k) es)" for t
    by (induction es arbitrary: t) (auto simp: invar_bump pending_bump algebra_simps)
  from this [OF invar_drain [OF assms]] show ?thesis
    by (simp add: drain_out drain_reset [OF assms])
qed

end

text \<open>
  A transition system with an invariant: every state on every run from a state that satisfies
  the invariant satisfies it.
\<close>

locale transition_system =
  fixes step :: "'s \<Rightarrow> 'e \<Rightarrow> 's"
    and inv :: "'s \<Rightarrow> bool"
  assumes inv_step: "inv s \<Longrightarrow> inv (step s e)"
begin

lemma inv_run: "inv s \<Longrightarrow> inv (foldl step s es)"
  by (induction es arbitrary: s) (auto simp: inv_step)

end

section \<open>The library search routine\<close>

text \<open>
  \<open>sort.Search(n, f)\<close> of the Go library: binary search for the least index in \<open>[0, n)\<close> where
  \<open>f\<close> holds, \<open>n\<close> when there is none. The loop halves \<open>[i, j)\<close>.
\<close>

function sort_Search_loop :: "(nat \<Rightarrow> bool) \<Rightarrow> nat \<Rightarrow> nat \<Rightarrow> nat" where
  "sort_Search_loop f i j =
     (if i < j then
        (let h = (i + j) div 2
         in if \<not> f h then sort_Search_loop f (h + 1) j else sort_Search_loop f i h)
      else i)"
  by pat_completeness auto
termination
  by (relation "measure (\<lambda>(f, i, j). j - i)") auto

declare sort_Search_loop.simps [simp del]

definition sort_Search :: "nat \<Rightarrow> (nat \<Rightarrow> bool) \<Rightarrow> nat" where
  "sort_Search n f = sort_Search_loop f 0 n"

text \<open>For a predicate that stays true once true, the result splits the range.\<close>

lemma sort_Search_loop_spec:
  "(\<And>a b. a \<le> b \<Longrightarrow> b < n \<Longrightarrow> f a \<Longrightarrow> f b) \<Longrightarrow> i \<le> j \<Longrightarrow> j \<le> n \<Longrightarrow>
    (\<And>k. k < i \<Longrightarrow> \<not> f k) \<Longrightarrow> (\<And>k. j \<le> k \<Longrightarrow> k < n \<Longrightarrow> f k) \<Longrightarrow>
    sort_Search_loop f i j \<le> n \<and>
    (\<forall>k < sort_Search_loop f i j. \<not> f k) \<and>
    (\<forall>k. sort_Search_loop f i j \<le> k \<and> k < n \<longrightarrow> f k)"
proof (induction f i j rule: sort_Search_loop.induct)
  case (1 f i j)
  let ?h = "(i + j) div 2"
  show ?case
  proof (cases "i < j")
    case False
    then have "sort_Search_loop f i j = i" by (subst sort_Search_loop.simps) simp
    then show ?thesis using "1.prems" False by auto
  next
    case True
    then have h: "i \<le> ?h" "?h < j" "?h < n" using "1.prems"(3) by auto
    show ?thesis
    proof (cases "f ?h")
      case True
      then have eq: "sort_Search_loop f i j = sort_Search_loop f i ?h"
        using \<open>i < j\<close> by (subst sort_Search_loop.simps) (simp add: Let_def)
      show ?thesis unfolding eq
      proof (rule "1.IH"(2) [OF \<open>i < j\<close> refl])
        show "f k" if "?h \<le> k" "k < n" for k
          using "1.prems"(1) [of ?h k] that True by blast
      qed (use True "1.prems"(1,4) h in \<open>simp_all\<close>)
    next
      case False
      then have eq: "sort_Search_loop f i j = sort_Search_loop f (?h + 1) j"
        using \<open>i < j\<close> by (subst sort_Search_loop.simps) (simp add: Let_def)
      show ?thesis unfolding eq
      proof (rule "1.IH"(1) [OF \<open>i < j\<close> refl])
        show "\<not> f k" if "k < ?h + 1" for k
          using "1.prems"(1) [of k ?h] that False h(3) by auto
      qed (use False "1.prems"(1,3,5) h in \<open>simp_all\<close>)
    qed
  qed
qed

lemma sort_Search_spec:
  assumes "\<And>a b. a \<le> b \<Longrightarrow> b < n \<Longrightarrow> f a \<Longrightarrow> f b"
  shows "sort_Search n f \<le> n"
    and "k < sort_Search n f \<Longrightarrow> \<not> f k"
    and "sort_Search n f \<le> k \<Longrightarrow> k < n \<Longrightarrow> f k"
  using sort_Search_loop_spec [of n f 0 n] assms by (auto simp: sort_Search_def)

lemma sort_Search_loop_le: "i \<le> j \<Longrightarrow> sort_Search_loop f i j \<le> j"
proof (induction f i j rule: sort_Search_loop.induct)
  case (1 f i j)
  show ?case
  proof (cases "i < j")
    case True
    then have "(i + j) div 2 < j" "i \<le> (i + j) div 2" by auto
    then show ?thesis using "1.IH"(1) [OF True refl] "1.IH"(2) [OF True refl] True
      by (subst sort_Search_loop.simps) (force simp: Let_def)
  qed (use 1 in \<open>simp add: sort_Search_loop.simps\<close>)
qed

lemma sort_Search_le: "sort_Search n f \<le> n"
  by (simp add: sort_Search_def sort_Search_loop_le)

lemma sort_Search_loop_cong:
  "(\<And>k. k < n \<Longrightarrow> f k = g k) \<Longrightarrow> j \<le> n \<Longrightarrow> sort_Search_loop f i j = sort_Search_loop g i j"
proof (induction f i j rule: sort_Search_loop.induct)
  case (1 f i j)
  show ?case
  proof (cases "i < j")
    case True
    then have h: "(i + j) div 2 < n" "(i + j) div 2 \<le> n" using "1.prems"(2) by auto
    then show ?thesis
      using "1.IH"(1) [OF True refl _ "1.prems"] "1.IH"(2) [OF True refl _ "1.prems"(1) h(2)] "1.prems"(1) [OF h(1)]
      by (subst (1 2) sort_Search_loop.simps) (simp add: Let_def)
  qed (simp add: sort_Search_loop.simps)
qed

lemma sort_Search_cong: "(\<And>k. k < n \<Longrightarrow> f k = g k) \<Longrightarrow> sort_Search n f = sort_Search n g"
  by (simp add: sort_Search_def sort_Search_loop_cong [of n f g n])

section \<open>Loops that stop at the first error\<close>

fun foldE :: "('s \<Rightarrow> 'a \<Rightarrow> 'e + 's) \<Rightarrow> 's \<Rightarrow> 'a list \<Rightarrow> 'e + 's" where
  "foldE f s [] = Inr s"
| "foldE f s (x # xs) = (case f s x of Inl e \<Rightarrow> Inl e | Inr s' \<Rightarrow> foldE f s' xs)"

lemma foldE_append:
  "foldE f s (xs @ ys) = (case foldE f s xs of Inl e \<Rightarrow> Inl e | Inr s' \<Rightarrow> foldE f s' ys)"
  by (induction xs arbitrary: s) (simp_all split: sum.splits)

lemma foldE_cong [fundef_cong]:
  "xs = ys \<Longrightarrow> s = t \<Longrightarrow> (\<And>a x. x \<in> set ys \<Longrightarrow> f a x = g a x) \<Longrightarrow> foldE f s xs = foldE g t ys"
  by (induction ys arbitrary: xs s t) (auto split: sum.splits)

end
