(* ===== verification/Traffic.thy ===== *)
theory Traffic
  imports Prelude
begin

text \<open>
  The per-user byte counters of a node (\<open>internal/nodecore/traffic/traffic.go\<close>). The
  \<open>sync.Map\<close> of atomic counters is a Go map from user names to \<open>userCounter\<close>; counters are
  64-bit and wrap. The sequential operations \<open>Manager_Add\<close> and \<open>Manager_Drain\<close> are also given
  as programs of atomic actions, and conservation is proved for every interleaving of actions.
\<close>

section \<open>State\<close>

record userCounter =
  uc_up :: int64
  uc_down :: int64

record Usage =
  usage_Up :: int64
  usage_Down :: int64

type_synonym manager = "(string, userCounter) gomap"

definition zeroCounter :: userCounter where
  "zeroCounter = \<lparr>uc_up = 0, uc_down = 0\<rparr>"

definition NewManager :: manager where
  "NewManager = []"

section \<open>Operations\<close>

text \<open>\<open>sync.Map.LoadOrStore\<close> and the atomic additions on the counter it returns.\<close>

definition LoadOrStore :: "manager \<Rightarrow> string \<Rightarrow> manager" where
  "LoadOrStore m user = (case map_of m user of None \<Rightarrow> mput user zeroCounter m | Some _ \<Rightarrow> m)"

definition add_up :: "manager \<Rightarrow> string \<Rightarrow> int64 \<Rightarrow> manager" where
  "add_up m user n =
     (let c = mget zeroCounter m user in mput user (c\<lparr>uc_up := uc_up c + n\<rparr>) m)"

definition add_down :: "manager \<Rightarrow> string \<Rightarrow> int64 \<Rightarrow> manager" where
  "add_down m user n =
     (let c = mget zeroCounter m user in mput user (c\<lparr>uc_down := uc_down c + n\<rparr>) m)"

definition Manager_Add :: "manager \<Rightarrow> string \<Rightarrow> int64 \<Rightarrow> int64 \<Rightarrow> manager" where
  "Manager_Add m user n_up n_down =
     (if n_up = 0 \<and> n_down = 0 then m
      else
        (let m1 = LoadOrStore m user;
             m2 = (if n_up \<noteq> 0 then add_up m1 user n_up else m1)
         in if n_down \<noteq> 0 then add_down m2 user n_down else m2))"

text \<open>The \<open>Range\<close> of \<open>Drain\<close>: each visited counter is swapped to zero, and the user is reported
  only when one of the two swapped-out values is non-zero.\<close>

primrec Drain_range :: "manager \<Rightarrow> manager \<times> (string, Usage) gomap" where
  "Drain_range [] = ([], [])"
| "Drain_range (kv # rest) =
     (let n_up = uc_up (snd kv); n_down = uc_down (snd kv);
          (m', out) = Drain_range rest
      in ((fst kv, zeroCounter) # m',
          if n_up \<noteq> 0 \<or> n_down \<noteq> 0
          then (fst kv, \<lparr>usage_Up = n_up, usage_Down = n_down\<rparr>) # out else out))"

definition Manager_Drain :: "manager \<Rightarrow> manager \<times> (string, Usage) gomap" where
  "Manager_Drain m = Drain_range m"

text \<open>\<open>WrapConn\<close> and \<open>WrapPacketConn\<close> install these two counting callbacks.\<close>

definition WrapConn_onRead :: "string \<Rightarrow> manager \<Rightarrow> int64 \<Rightarrow> manager" where
  "WrapConn_onRead user m n = Manager_Add m user n 0"

definition WrapConn_onWrite :: "string \<Rightarrow> manager \<Rightarrow> int64 \<Rightarrow> manager" where
  "WrapConn_onWrite user m n = Manager_Add m user 0 n"

section \<open>Pending amounts\<close>

datatype direction = Uplink | Downlink

fun counter_dir :: "userCounter \<Rightarrow> direction \<Rightarrow> int64" where
  "counter_dir c Uplink = uc_up c"
| "counter_dir c Downlink = uc_down c"

fun usage_dir :: "Usage \<Rightarrow> direction \<Rightarrow> int64" where
  "usage_dir c Uplink = usage_Up c"
| "usage_dir c Downlink = usage_Down c"

definition pending_bytes :: "manager \<Rightarrow> string \<times> direction \<Rightarrow> int64" where
  "pending_bytes m k = counter_dir (mget zeroCounter m (fst k)) (snd k)"

definition payload :: "(string, Usage) gomap \<Rightarrow> string \<times> direction \<Rightarrow> int64" where
  "payload out k = (case map_of out (fst k) of None \<Rightarrow> 0 | Some u \<Rightarrow> usage_dir u (snd k))"

fun add_amount :: "string \<times> int64 \<times> int64 \<Rightarrow> string \<times> direction \<Rightarrow> int64" where
  "add_amount (user, n_up, n_down) (u, Uplink) = (if u = user then n_up else 0)"
| "add_amount (user, n_up, n_down) (u, Downlink) = (if u = user then n_down else 0)"

lemma zeroCounter_dir [simp]: "counter_dir zeroCounter d = 0"
  by (cases d) (simp_all add: zeroCounter_def)

lemma mget_LoadOrStore [simp]: "mget zeroCounter (LoadOrStore m user) u = mget zeroCounter m u"
  by (auto simp: LoadOrStore_def mget_def split: option.splits)

lemma wf_map_Manager_Add [simp, state_inv]: "wf_map m \<Longrightarrow> wf_map (Manager_Add m user a b)"
  by (auto simp: Manager_Add_def LoadOrStore_def add_up_def add_down_def Let_def split: option.splits)

lemma pending_Manager_Add:
  "pending_bytes (Manager_Add m user a b) k = pending_bytes m k + add_amount (user, a, b) k"
proof (cases k)
  case (Pair u d)
  then show ?thesis
    by (cases d) (auto simp: Manager_Add_def pending_bytes_def add_up_def add_down_def Let_def)
qed

lemma Drain_range_fst: "fst (Drain_range m) = map (\<lambda>(k, v). (k, zeroCounter)) m"
  by (induction m) (auto simp: Let_def split: prod.splits)

lemma Drain_range_snd:
  "snd (Drain_range m) =
    map (\<lambda>(k, c). (k, \<lparr>usage_Up = uc_up c, usage_Down = uc_down c\<rparr>))
      (filter (\<lambda>(k, c). uc_up c \<noteq> 0 \<or> uc_down c \<noteq> 0) m)"
  by (induction m) (simp_all add: Let_def split_beta)

lemma Drain_resets: "pending_bytes (fst (Manager_Drain m)) k = 0"
  by (simp add: pending_bytes_def Manager_Drain_def Drain_range_fst mget_def
      map_of_map_values split: option.splits)

lemma wf_map_Drain [simp, state_inv]:
  "wf_map m \<Longrightarrow> wf_map (fst (Manager_Drain m))"
  by (simp add: Manager_Drain_def Drain_range_fst)

lemma map_of_Drain:
  "wf_map m \<Longrightarrow> map_of (snd (Manager_Drain m)) u =
    (case map_of m u of None \<Rightarrow> None
     | Some c \<Rightarrow> if uc_up c \<noteq> 0 \<or> uc_down c \<noteq> 0
                then Some \<lparr>usage_Up = uc_up c, usage_Down = uc_down c\<rparr> else None)"
  by (simp add: Manager_Drain_def Drain_range_snd map_of_map_values map_of_filter_values
      split: option.splits)

lemma payload_Drain:
  assumes "wf_map m"
  shows "payload (snd (Manager_Drain m)) k = pending_bytes m k"
proof (cases k)
  case (Pair u d)
  then show ?thesis using assms
    by (cases d) (auto simp: payload_def pending_bytes_def map_of_Drain mget_def zeroCounter_def
        split: option.splits)
qed

text \<open>The manager is an accumulator of bytes.\<close>

interpretation traffic_acc: accumulator
  "\<lambda>m (user, a, b). Manager_Add m user a b"
  "\<lambda>m. (fst (Manager_Drain m), payload (snd (Manager_Drain m)))"
  pending_bytes add_amount wf_map
  by unfold_locales (auto simp: pending_Manager_Add payload_Drain Drain_resets)

section \<open>Interleavings of atomic actions\<close>

text \<open>
  Connections and the push loop run concurrently. Each method is a program of atomic actions on
  the shared map; \<open>w_drained\<close> collects what the swaps of all drains have taken out.
\<close>

datatype traffic_act =
    ActLoadOrStore string
  | ActAdd string direction int64
  | ActSwap string direction

record traffic_world =
  w_users :: manager
  w_drained :: "(string \<times> direction, int64) gomap"

fun set_dir :: "userCounter \<Rightarrow> direction \<Rightarrow> int64 \<Rightarrow> userCounter" where
  "set_dir c Uplink n = c\<lparr>uc_up := n\<rparr>"
| "set_dir c Downlink n = c\<lparr>uc_down := n\<rparr>"

text \<open>An addition or a swap acts on the counter its caller holds; entries are never removed, so
  the counter of a user is missing only before the first \<open>LoadOrStore\<close>, when no caller can hold
  it: such an action is impossible (\<open>None\<close>).\<close>

fun exec_act :: "traffic_world \<Rightarrow> traffic_act \<Rightarrow> traffic_world option" where
  "exec_act w (ActLoadOrStore u) = Some (w\<lparr>w_users := LoadOrStore (w_users w) u\<rparr>)"
| "exec_act w (ActAdd u d n) =
     (case map_of (w_users w) u of None \<Rightarrow> None
      | Some c \<Rightarrow> Some (w\<lparr>w_users := mput u (set_dir c d (counter_dir c d + n)) (w_users w)\<rparr>))"
| "exec_act w (ActSwap u d) =
     (case map_of (w_users w) u of None \<Rightarrow> None
      | Some c \<Rightarrow> Some (w\<lparr>w_users := mput u (set_dir c d 0) (w_users w),
                          w_drained := mbump (u, d) (counter_dir c d) (w_drained w)\<rparr>))"

fun exec_acts :: "traffic_world \<Rightarrow> traffic_act list \<Rightarrow> traffic_world option" where
  "exec_acts w [] = Some w"
| "exec_acts w (a # as) = (case exec_act w a of None \<Rightarrow> None | Some w' \<Rightarrow> exec_acts w' as)"

definition Add_acts :: "string \<Rightarrow> int64 \<Rightarrow> int64 \<Rightarrow> traffic_act list" where
  "Add_acts user n_up n_down =
     (if n_up = 0 \<and> n_down = 0 then []
      else ActLoadOrStore user
        # (if n_up \<noteq> 0 then [ActAdd user Uplink n_up] else [])
        @ (if n_down \<noteq> 0 then [ActAdd user Downlink n_down] else []))"

definition Drain_acts :: "string list \<Rightarrow> traffic_act list" where
  "Drain_acts us = concat (map (\<lambda>u. [ActSwap u Uplink, ActSwap u Downlink]) us)"

fun acts_added :: "traffic_act list \<Rightarrow> string \<times> direction \<Rightarrow> int64" where
  "acts_added [] k = 0"
| "acts_added (ActAdd u d n # as) k = (if k = (u, d) then n else 0) + acts_added as k"
| "acts_added (ActLoadOrStore u # as) k = acts_added as k"
| "acts_added (ActSwap u d # as) k = acts_added as k"

lemma counter_dir_set_dir [simp]:
  "counter_dir (set_dir c d n) d' = (if d' = d then n else counter_dir c d')"
  by (cases d; cases d') auto

lemma pending_LoadOrStore [simp]: "pending_bytes (LoadOrStore m u) k = pending_bytes m k"
  by (simp add: pending_bytes_def)

lemma pending_put:
  "pending_bytes (mput u c m) k = (if fst k = u then counter_dir c (snd k) else pending_bytes m k)"
  by (simp add: pending_bytes_def)

lemma exec_act_conserves:
  assumes "exec_act w a = Some w'"
  shows "mget 0 (w_drained w') k + pending_bytes (w_users w') k =
    mget 0 (w_drained w) k + pending_bytes (w_users w) k + acts_added [a] k"
proof (cases a)
  case (ActLoadOrStore u)
  with assms have "w' = w\<lparr>w_users := LoadOrStore (w_users w) u\<rparr>" by simp
  with ActLoadOrStore show ?thesis by simp
next
  case (ActAdd u d n)
  with assms obtain c where "map_of (w_users w) u = Some c"
    and "w' = w\<lparr>w_users := mput u (set_dir c d (counter_dir c d + n)) (w_users w)\<rparr>"
    by (auto split: option.splits)
  with ActAdd show ?thesis by (cases k) (auto simp: pending_put pending_bytes_def mget_def)
next
  case (ActSwap u d)
  with assms obtain c where "map_of (w_users w) u = Some c"
    and "w' = w\<lparr>w_users := mput u (set_dir c d 0) (w_users w),
               w_drained := mbump (u, d) (counter_dir c d) (w_drained w)\<rparr>"
    by (auto split: option.splits)
  with ActSwap show ?thesis
    by (cases k) (auto simp: pending_put pending_bytes_def mget_def [of zeroCounter])
qed

lemma acts_added_Cons: "acts_added (a # as) k = acts_added [a] k + acts_added as k"
  by (cases a) auto

lemma exec_acts_conserves:
  "exec_acts w as = Some w' \<Longrightarrow>
    mget 0 (w_drained w') k + pending_bytes (w_users w') k =
    mget 0 (w_drained w) k + pending_bytes (w_users w) k + acts_added as k"
proof (induction as arbitrary: w)
  case (Cons a as)
  then obtain w1 where w1: "exec_act w a = Some w1" "exec_acts w1 as = Some w'"
    by (auto split: option.splits)
  show ?case
    using Cons.IH [OF w1(2)] exec_act_conserves [OF w1(1), of k]
    by (simp add: acts_added_Cons [of a as] algebra_simps)
qed simp

text \<open>The sequential operations are runs of their programs.\<close>

lemma exec_acts_append:
  "exec_acts w (as @ bs) = (case exec_acts w as of None \<Rightarrow> None | Some w' \<Rightarrow> exec_acts w' bs)"
  by (induction as arbitrary: w) (auto split: option.splits)

lemma exec_Add_acts:
  "exec_acts w (Add_acts user a b) = Some (w\<lparr>w_users := Manager_Add (w_users w) user a b\<rparr>)"
  by (auto simp: Add_acts_def Manager_Add_def LoadOrStore_def add_up_def add_down_def Let_def
      mget_def split: option.splits)

lemma exec_act_keys:
  assumes "exec_act w a = Some w'"
  shows "fst ` set (w_users w) \<subseteq> fst ` set (w_users w')"
proof -
  have "case exec_act w a of None \<Rightarrow> True | Some w' \<Rightarrow> fst ` set (w_users w) \<subseteq> fst ` set (w_users w')"
    by (cases a) (simp_all add: LoadOrStore_def split: option.splits)
  with assms show ?thesis by simp
qed

lemma exec_Drain_acts_total:
  "set us \<subseteq> fst ` set (w_users w) \<Longrightarrow> \<exists>w'. exec_acts w (Drain_acts us) = Some w'"
proof (induction us arbitrary: w)
  case (Cons u us)
  then obtain c where c: "map_of (w_users w) u = Some c"
    by (metis list.set_intros(1) map_of_eq_None_iff option.exhaust subsetD)
  then obtain w1 where w1: "exec_acts w [ActSwap u Uplink, ActSwap u Downlink] = Some w1" by simp
  then have "fst ` set (w_users w) \<subseteq> fst ` set (w_users w1)"
    by (auto split: option.split_asm simp del: exec_act.simps dest!: exec_act_keys)
  with Cons.prems have "set us \<subseteq> fst ` set (w_users w1)" by auto
  from Cons.IH [OF this] w1 show ?case
    using exec_acts_append [of w "[ActSwap u Uplink, ActSwap u Downlink]" "Drain_acts us"]
    by (simp add: Drain_acts_def)
qed (simp add: Drain_acts_def)

lemma exec_swaps_pending:
  "exec_acts w as = Some w' \<Longrightarrow> (\<forall>a \<in> set as. \<exists>u d. a = ActSwap u d) \<Longrightarrow>
    pending_bytes (w_users w') k =
      (if ActSwap (fst k) (snd k) \<in> set as then 0 else pending_bytes (w_users w) k)"
proof (induction as arbitrary: w)
  case (Cons a as)
  then obtain u d c where a: "a = ActSwap u d" and c: "map_of (w_users w) u = Some c"
    by (auto split: option.splits)
  with Cons.prems Cons.IH [of "w\<lparr>w_users := mput u (set_dir c d 0) (w_users w),
      w_drained := mbump (u, d) (counter_dir c d) (w_drained w)\<rparr>"]
  show ?case by (cases k) (auto simp: pending_put pending_bytes_def mget_def [of zeroCounter])
qed simp

lemma set_Drain_acts: "set (Drain_acts us) = {ActSwap u d | u d. u \<in> set us}"
proof -
  have "ActSwap u d \<in> set (Drain_acts us)" if "u \<in> set us" for u d
    using that by (cases d) (auto simp: Drain_acts_def)
  then show ?thesis by (auto simp: Drain_acts_def)
qed

lemma wf_map_Adds:
  "wf_map m \<Longrightarrow> wf_map (foldl (\<lambda>m (user, a, b). Manager_Add m user a b) m adds)"
  by (induction adds arbitrary: m) auto

lemma Drain_lists_nonzero:
  "wf_map m \<Longrightarrow> user \<in> fst ` set (snd (Manager_Drain m)) \<longleftrightarrow>
    payload (snd (Manager_Drain m)) (user, Uplink) \<noteq> 0 \<or>
    payload (snd (Manager_Drain m)) (user, Downlink) \<noteq> 0"
  using map_of_Drain [of m user] map_of_eq_None_iff [of "snd (Manager_Drain m)" user]
  by (auto simp: payload_def split: option.splits if_splits)

section \<open>Correctness\<close>



text \<open>
  A \<open>Drain\<close> reports a delta: after one drain, any sequence of \<open>Add\<close> calls and a second drain,
  the second payload holds for every user and direction exactly the sum of what was added in
  between, a user whose two sums are zero is not in the payload, and all counters are zero.
\<close>

theorem Drain_reports_delta:
  fixes adds :: "(string \<times> int64 \<times> int64) list"
  assumes "wf_map m"
    and m2: "m2 = foldl (\<lambda>m (user, a, b). Manager_Add m user a b) (fst (Manager_Drain m)) adds"
  shows "payload (snd (Manager_Drain m2)) k = sum_list (map (\<lambda>e. add_amount e k) adds) \<and>
    (user \<in> fst ` set (snd (Manager_Drain m2)) \<longleftrightarrow>
      sum_list (map (\<lambda>e. add_amount e (user, Uplink)) adds) \<noteq> 0 \<or>
      sum_list (map (\<lambda>e. add_amount e (user, Downlink)) adds) \<noteq> 0) \<and>
    pending_bytes (fst (Manager_Drain m2)) k = 0"
proof -
  have p: "payload (snd (Manager_Drain m2)) k = sum_list (map (\<lambda>e. add_amount e k) adds)" for k
    using traffic_acc.drain_is_delta [OF assms(1), where es = adds and k = k]
    by (simp add: m2)
  have "wf_map m2"
    using wf_map_Adds [OF wf_map_Drain [OF assms(1)]] by (simp add: m2)
  then have "user \<in> fst ` set (snd (Manager_Drain m2)) \<longleftrightarrow>
      payload (snd (Manager_Drain m2)) (user, Uplink) \<noteq> 0 \<or>
      payload (snd (Manager_Drain m2)) (user, Downlink) \<noteq> 0"
    by (rule Drain_lists_nonzero)
  then show ?thesis by (simp add: p Drain_resets)
qed

theorem Drain_reports_delta_witness:
  "payload (snd (Manager_Drain (foldl (\<lambda>m (user, a, b). Manager_Add m user a b)
     (fst (Manager_Drain [])) [(''a'', 5, 0), (''b'', 0, 9), (''a'', 2, 1)]))) (''a'', Uplink) = 7 \<and>
   ''c'' \<notin> fst ` set (snd (Manager_Drain (foldl (\<lambda>m (user, a, b). Manager_Add m user a b)
     (fst (Manager_Drain [])) [(''a'', 5, 0), (''b'', 0, 9), (''a'', 2, 1)])))"
  using Drain_reports_delta [OF wf_map_Nil refl,
      of "[(''a'', 5, 0), (''b'', 0, 9), (''a'', 2, 1)]" "(''a'', Uplink)" "''c''"]
  by simp



end
