(* ===== verification/GoStrings.thy ===== *)
theory GoStrings
  imports Prelude "HOL-Library.Sublist"
begin

text \<open>
  The parts of the Go packages \<open>strings\<close>, \<open>strconv\<close>, \<open>net\<close> and \<open>bytes\<close> the components call,
  on byte strings, with the round trip between \<open>strconv.Itoa\<close> and \<open>strconv.ParseInt\<close>.
\<close>

section \<open>Searching and splitting\<close>

definition HasPrefix :: "string \<Rightarrow> string \<Rightarrow> bool" where
  "HasPrefix s p = (take (length p) s = p)"

fun Contains :: "string \<Rightarrow> string \<Rightarrow> bool" where
  "Contains [] sub = (sub = [])"
| "Contains (c # cs) sub = (HasPrefix (c # cs) sub \<or> Contains cs sub)"

fun IndexByte :: "string \<Rightarrow> char \<Rightarrow> nat option" where
  "IndexByte [] b = None"
| "IndexByte (c # cs) b = (if c = b then Some 0 else map_option Suc (IndexByte cs b))"

fun LastIndexByte :: "string \<Rightarrow> char \<Rightarrow> nat option" where
  "LastIndexByte [] b = None"
| "LastIndexByte (c # cs) b =
     (case LastIndexByte cs b of Some i \<Rightarrow> Some (Suc i) | None \<Rightarrow> if c = b then Some 0 else None)"

definition HasSuffix :: "string \<Rightarrow> string \<Rightarrow> bool" where
  "HasSuffix s p = (length p \<le> length s \<and> drop (length s - length p) s = p)"

text \<open>\<open>strings.Index\<close>: where a substring starts first.\<close>

fun Index :: "string \<Rightarrow> string \<Rightarrow> nat option" where
  "Index [] sub = (if sub = [] then Some 0 else None)"
| "Index (c # cs) sub = (if HasPrefix (c # cs) sub then Some 0 else map_option Suc (Index cs sub))"

text \<open>\<open>strings.TrimRight\<close> with a cut set of single bytes.\<close>

definition TrimRight :: "string \<Rightarrow> string \<Rightarrow> string" where
  "TrimRight s cutset = rev (dropWhile (\<lambda>c. c \<in> set cutset) (rev s))"

text \<open>\<open>strings.TrimSpace\<close>: white space as \<open>unicode.IsSpace\<close> defines it, in its UTF-8 encodings.\<close>

definition space_runes :: "string list" where
  "space_runes =
     [[CHR 0x09], [CHR 0x0A], [CHR 0x0B],
      [CHR 0x0C], [CHR 0x0D], [CHR 0x20],
      [CHR 0xC2, CHR 0x85], [CHR 0xC2, CHR 0xA0], [CHR 0xE1, CHR 0x9A, CHR 0x80],
      [CHR 0xE2, CHR 0x80, CHR 0x80], [CHR 0xE2, CHR 0x80, CHR 0x81], [CHR 0xE2, CHR 0x80, CHR 0x82],
      [CHR 0xE2, CHR 0x80, CHR 0x83], [CHR 0xE2, CHR 0x80, CHR 0x84], [CHR 0xE2, CHR 0x80, CHR 0x85],
      [CHR 0xE2, CHR 0x80, CHR 0x86], [CHR 0xE2, CHR 0x80, CHR 0x87], [CHR 0xE2, CHR 0x80, CHR 0x88],
      [CHR 0xE2, CHR 0x80, CHR 0x89], [CHR 0xE2, CHR 0x80, CHR 0x8A], [CHR 0xE2, CHR 0x80, CHR 0xA8],
      [CHR 0xE2, CHR 0x80, CHR 0xA9], [CHR 0xE2, CHR 0x80, CHR 0xAF], [CHR 0xE2, CHR 0x81, CHR 0x9F],
      [CHR 0xE3, CHR 0x80, CHR 0x80]]"

fun trim_left_fuel :: "nat \<Rightarrow> (string \<Rightarrow> nat) \<Rightarrow> string \<Rightarrow> string" where
  "trim_left_fuel 0 w s = s"
| "trim_left_fuel (Suc n) w s = (if w s = 0 then s else trim_left_fuel n w (drop (w s) s))"

definition space_width :: "string list \<Rightarrow> string \<Rightarrow> nat" where
  "space_width encs s = (case find (HasPrefix s) encs of None \<Rightarrow> 0 | Some e \<Rightarrow> length e)"

definition TrimSpace :: "string \<Rightarrow> string" where
  "TrimSpace s =
     (let l = trim_left_fuel (length s) (space_width space_runes) s
      in rev (trim_left_fuel (length l) (space_width (map rev space_runes)) (rev l)))"

text \<open>\<open>strings.Split\<close> with a one-byte separator: always at least one part.\<close>

fun Split :: "char \<Rightarrow> string \<Rightarrow> string list" where
  "Split b [] = [[]]"
| "Split b (c # cs) =
     (if c = b then [] # Split b cs
      else (case Split b cs of [] \<Rightarrow> [[c]] | p # ps \<Rightarrow> (c # p) # ps))"

lemma HasPrefix_iff: "HasPrefix s p \<longleftrightarrow> (\<exists>t. s = p @ t)"
  by (auto simp: HasPrefix_def) (metis append_take_drop_id)

lemma HasPrefix_append [simp]: "HasPrefix (p @ s) p"
  by (simp add: HasPrefix_def)

lemma trim_left_zero: "w s = 0 \<Longrightarrow> trim_left_fuel n w s = s"
  by (cases n) auto

lemma TrimSpace_object: "TrimSpace (CHR ''{'' # s @ ''}'') = CHR ''{'' # s @ ''}''"
proof -
  have "space_width space_runes (CHR ''{'' # s @ ''}'') = 0" "space_width (map rev space_runes) (rev (CHR ''{'' # s @ ''}'')) = 0"
    by (simp_all add: space_width_def space_runes_def HasPrefix_def)
  then show ?thesis by (simp add: TrimSpace_def trim_left_zero Let_def)
qed

lemma Contains_prefix: "Contains (sub @ b) sub"
proof (cases sub)
  case Nil
  then show ?thesis by (cases b) (simp_all add: HasPrefix_def)
qed (simp add: HasPrefix_def)

lemma Contains_append: "Contains (a @ sub @ b) sub"
proof (induction a)
  case (Cons c a)
  then show ?case by simp
qed (use Contains_prefix in simp)

lemma IndexByte_None [simp]: "IndexByte s b = None \<longleftrightarrow> b \<notin> set s"
  by (induction s) auto

lemma IndexByte_Some: "IndexByte s b = Some i \<Longrightarrow> i < length s \<and> s ! i = b \<and> b \<notin> set (take i s)"
  by (induction s arbitrary: i) (auto split: if_splits)

lemma LastIndexByte_None [simp]: "LastIndexByte s b = None \<longleftrightarrow> b \<notin> set s"
  by (induction s) (auto split: option.splits)

lemma LastIndexByte_Some: "LastIndexByte s b = Some i \<Longrightarrow> i < length s \<and> s ! i = b"
  by (induction s b arbitrary: i rule: LastIndexByte.induct) (auto split: option.splits if_splits)

lemma LastIndexByte_append_notin:
  "b \<notin> set t \<Longrightarrow> LastIndexByte (s @ b # t) b = Some (length s)"
  by (induction s) (auto split: option.splits)

lemma Split_nonempty [simp]: "Split b s \<noteq> []"
  by (induction s) (auto split: list.splits)

lemma Split_notin [simp]: "b \<notin> set s \<Longrightarrow> Split b s = [s]"
  by (induction s) auto

lemma Split_append: "b \<notin> set p \<Longrightarrow> Split b (p @ b # s) = p # Split b s"
  by (induction p) auto

section \<open>Decimal numbers\<close>

definition is_digit :: "char \<Rightarrow> bool" where
  "is_digit c = (48 \<le> (of_char c :: nat) \<and> (of_char c :: nat) \<le> 57)"

definition digit_val :: "char \<Rightarrow> nat" where
  "digit_val c = (of_char c :: nat) - 48"

definition digit_char :: "nat \<Rightarrow> char" where
  "digit_char d = char_of (48 + d)"

fun nat_digits :: "nat \<Rightarrow> string" where
  "nat_digits n = (if n < 10 then [digit_char n] else nat_digits (n div 10) @ [digit_char (n mod 10)])"

declare nat_digits.simps [simp del]

definition Itoa :: "int \<Rightarrow> string" where
  "Itoa n = (if n < 0 then CHR ''-'' # nat_digits (nat (- n)) else nat_digits (nat n))"

definition digits_val :: "string \<Rightarrow> nat" where
  "digits_val s = foldl (\<lambda>acc c. 10 * acc + digit_val c) 0 s"

text \<open>\<open>strconv.ParseUint(s, 10, bits)\<close>: \<open>None\<close> is a syntax or range error.\<close>

definition ParseUint :: "nat \<Rightarrow> string \<Rightarrow> nat option" where
  "ParseUint bits s =
     (if s = [] \<or> \<not> list_all is_digit s then None
      else if digits_val s < 2 ^ bits then Some (digits_val s) else None)"

text \<open>\<open>strconv.ParseInt(s, 10, 64)\<close>: an optional sign, then digits, within the signed range.\<close>

definition ParseInt64 :: "string \<Rightarrow> int option" where
  "ParseInt64 s =
     (case s of [] \<Rightarrow> None
      | c # cs \<Rightarrow>
          let neg = (c = CHR ''-''); body = (if c = CHR ''-'' \<or> c = CHR ''+'' then cs else s)
          in if body = [] \<or> \<not> list_all is_digit body then None
             else if neg then (if digits_val body \<le> 2 ^ 63 then Some (- int (digits_val body)) else None)
             else (if digits_val body < 2 ^ 63 then Some (int (digits_val body)) else None))"

lemma digit_char_props:
  assumes "d < 10"
  shows "is_digit (digit_char d)" "digit_val (digit_char d) = d"
  using assms by (auto simp: is_digit_def digit_val_def digit_char_def)

lemma is_digit_neq:
  "is_digit c \<Longrightarrow> c \<noteq> CHR ''-'' \<and> c \<noteq> CHR ''+'' \<and> c \<noteq> CHR '','' \<and> c \<noteq> CHR '':'' \<and> c \<noteq> CHR ''.''"
  by (auto simp: is_digit_def)

lemma digits_notin:
  "list_all is_digit s \<Longrightarrow> CHR ''-'' \<notin> set s \<and> CHR ''+'' \<notin> set s \<and> CHR '','' \<notin> set s"
  by (auto simp: list_all_iff dest: is_digit_neq)

lemma digits_val_append: "digits_val (s @ [c]) = 10 * digits_val s + digit_val c"
  by (simp add: digits_val_def)

lemma nat_digits_parse:
  "list_all is_digit (nat_digits n) \<and> digits_val (nat_digits n) = n \<and> nat_digits n \<noteq> []"
proof (induction n rule: nat_digits.induct)
  case (1 n)
  show ?case
  proof (cases "n < 10")
    case True
    then show ?thesis using digit_char_props [OF True]
      by (auto simp: nat_digits.simps [of n] digits_val_def)
  next
    case False
    then have "n mod 10 < 10" by simp
    from digit_char_props [OF this] "1.IH" [OF False] False show ?thesis
      by (auto simp: nat_digits.simps [of n] digits_val_append)
  qed
qed

lemma nat_digits_props:
  "list_all is_digit (nat_digits n)" "digits_val (nat_digits n) = n" "nat_digits n \<noteq> []"
  "CHR '','' \<notin> set (nat_digits n)" "CHR ''-'' \<notin> set (nat_digits n)" "CHR ''+'' \<notin> set (nat_digits n)"
  using nat_digits_parse [of n] digits_notin [of "nat_digits n"] by auto

lemma hd_neq: "s \<noteq> [] \<Longrightarrow> x \<notin> set s \<Longrightarrow> hd s \<noteq> x"
  by (cases s) auto

lemma nat_digits_hd: "hd (nat_digits n) \<noteq> CHR ''-''" "hd (nat_digits n) \<noteq> CHR ''+''"
  by (rule hd_neq [OF nat_digits_props(3,5)], rule hd_neq [OF nat_digits_props(3,6)])

lemma Itoa_no_comma: "CHR '','' \<notin> set (Itoa n)"
  using nat_digits_props by (auto simp: Itoa_def)

lemma ParseInt64_Itoa:
  assumes "- (2 ^ 63) \<le> n" "n < 2 ^ 63"
  shows "ParseInt64 (Itoa n) = Some n"
proof (cases "n < 0")
  case True
  then show ?thesis using nat_digits_props [of "nat (- n)"] assms
    by (auto simp: Itoa_def ParseInt64_def Let_def)
next
  case False
  obtain c cs where cs: "nat_digits (nat n) = c # cs"
    using nat_digits_props [of "nat n"] by (cases "nat_digits (nat n)") auto
  then have "c \<noteq> CHR ''-''" "c \<noteq> CHR ''+''" using nat_digits_hd [of "nat n"] by auto
  then show ?thesis using nat_digits_props [of "nat n"] assms False cs
    by (auto simp: Itoa_def ParseInt64_def Let_def)
qed

section \<open>The port of an address\<close>

text \<open>\<open>net.SplitHostPort\<close>, keeping only the port: \<open>None\<close> is an error.\<close>

definition SplitHostPort_port :: "string \<Rightarrow> string option" where
  "SplitHostPort_port hostport =
     (case LastIndexByte hostport (CHR '':'') of
        None \<Rightarrow> None
      | Some i \<Rightarrow>
          if hostport ! 0 = CHR ''[''
          then (case IndexByte hostport (CHR '']'') of
                  None \<Rightarrow> None
                | Some e \<Rightarrow>
                    if Suc e = length hostport \<or> Suc e \<noteq> i then None
                    else if CHR ''['' \<in> set (drop 1 hostport) \<or> CHR '']'' \<in> set (drop (Suc e) hostport)
                    then None else Some (drop (Suc i) hostport))
          else if CHR '':'' \<in> set (take i hostport) then None
          else if CHR ''['' \<in> set hostport \<or> CHR '']'' \<in> set hostport then None
          else Some (drop (Suc i) hostport))"

section \<open>UTF-8\<close>

text \<open>\<open>utf8.RuneStart\<close>: the byte is not a continuation byte (\<open>b & 0xC0 != 0x80\<close>).\<close>

abbreviation byte :: "char \<Rightarrow> nat" where
  "byte c \<equiv> of_char c"

definition RuneStart :: "char \<Rightarrow> bool" where
  "RuneStart c = (byte c div 64 \<noteq> 2)"

text \<open>The width of the well-formed encoding at the head of a string, 0 when there is none: the
  accept ranges of \<open>unicode/utf8\<close> (no overlong forms, no surrogates, at most U+10FFFF).\<close>

definition cont :: "nat \<Rightarrow> nat \<Rightarrow> char \<Rightarrow> bool" where
  "cont lo hi c = (lo \<le> byte c \<and> byte c \<le> hi)"

fun rune_width :: "string \<Rightarrow> nat" where
  "rune_width [] = 0"
| "rune_width (a # s) =
     (if byte a < 128 then 1
      else if 194 \<le> byte a \<and> byte a \<le> 223 then
        (case s of b # _ \<Rightarrow> if cont 128 191 b then 2 else 0 | _ \<Rightarrow> 0)
      else if 224 \<le> byte a \<and> byte a \<le> 239 then
        (case s of b # c # _ \<Rightarrow>
           if cont (if byte a = 224 then 160 else 128) (if byte a = 237 then 159 else 191) b \<and> cont 128 191 c
           then 3 else 0 | _ \<Rightarrow> 0)
      else if 240 \<le> byte a \<and> byte a \<le> 244 then
        (case s of b # c # d # _ \<Rightarrow>
           if cont (if byte a = 240 then 144 else 128) (if byte a = 244 then 143 else 191) b
              \<and> cont 128 191 c \<and> cont 128 191 d
           then 4 else 0 | _ \<Rightarrow> 0)
      else 0)"

function utf8_Valid :: "string \<Rightarrow> bool" where
  "utf8_Valid s =
     (if s = [] then True
      else if rune_width s = 0 then False
      else utf8_Valid (drop (rune_width s) s))"
  by pat_completeness auto
termination
  by (relation "measure length") (auto simp: neq_Nil_conv)

declare utf8_Valid.simps [simp del]

text \<open>\<open>strings.ToValidUTF8(s, "")\<close>: bytes that are not part of a well-formed encoding are dropped.\<close>

function ToValidUTF8 :: "string \<Rightarrow> string" where
  "ToValidUTF8 s =
     (if s = [] then []
      else if rune_width s = 0 then ToValidUTF8 (tl s)
      else take (rune_width s) s @ ToValidUTF8 (drop (rune_width s) s))"
  by pat_completeness auto
termination
  by (relation "measure length") (auto simp: neq_Nil_conv)

declare ToValidUTF8.simps [simp del]

lemma rune_width_le: "rune_width s \<le> length s"
  by (cases s) (auto split: list.splits)

lemma utf8_Valid_ascii: "\<forall>c \<in> set s. byte c < 128 \<Longrightarrow> utf8_Valid s"
proof (induction s)
  case Nil
  show ?case by (subst utf8_Valid.simps) simp
next
  case (Cons c s)
  then have "rune_width (c # s) = 1" by simp
  with Cons show ?case by (subst utf8_Valid.simps) simp
qed

lemma length_ToValidUTF8: "length (ToValidUTF8 s) \<le> length s"
proof (induction s rule: ToValidUTF8.induct)
  case (1 s)
  show ?case
  proof (cases "s = []")
    case True
    then show ?thesis by (subst ToValidUTF8.simps) simp
  next
    case False
    then show ?thesis using "1.IH" rune_width_le [of s]
      by (subst ToValidUTF8.simps) auto
  qed
qed

text \<open>A cut at a byte that starts a rune never splits an encoding.\<close>

lemma cont_not_start: "cont lo hi c \<Longrightarrow> 128 \<le> lo \<Longrightarrow> hi \<le> 191 \<Longrightarrow> \<not> RuneStart c"
  by (auto simp: cont_def RuneStart_def)

lemma rune_width_shape:
  assumes "0 < rune_width s"
  obtains a t where "s = a # t" "\<And>u. rune_width (a # u) = 1"
  | a b t where "s = a # b # t" "\<And>u. rune_width (a # b # u) = 2" "\<not> RuneStart b"
  | a b c t where "s = a # b # c # t" "\<And>u. rune_width (a # b # c # u) = 3" "\<not> RuneStart b" "\<not> RuneStart c"
  | a b c d t where "s = a # b # c # d # t" "\<And>u. rune_width (a # b # c # d # u) = 4"
      "\<not> RuneStart b" "\<not> RuneStart c" "\<not> RuneStart d"
proof -
  obtain a s1 where s: "s = a # s1" using assms by (cases s) auto
  consider "byte a < 128" | "194 \<le> byte a" "byte a \<le> 223" | "224 \<le> byte a" "byte a \<le> 239"
    | "240 \<le> byte a" "byte a \<le> 244"
    using assms s by (auto split: if_splits)
  then show ?thesis
  proof cases
    case 1
    then show ?thesis using that(1) s by simp
  next
    case 2
    then obtain b t where b: "s1 = b # t" "cont 128 191 b"
      using assms s by (auto split: list.splits if_splits)
    then show ?thesis using that(2) [of a b t] s 2 cont_not_start [OF b(2)] by simp
  next
    case 3
    define lo hi where "lo = (if byte a = 224 then 160 else 128 :: nat)" and
      "hi = (if byte a = 237 then 159 else 191 :: nat)"
    obtain b c t where b: "s1 = b # c # t" "cont lo hi b" "cont 128 191 c"
      using assms s 3 by (auto split: list.splits if_splits simp: lo_def hi_def)
    have "rune_width (a # b # c # u) = 3" for u using 3 b by (simp add: lo_def hi_def)
    then show ?thesis using that(3) [of a b c t] s b cont_not_start [OF b(2)] cont_not_start [OF b(3)]
      by (simp add: lo_def hi_def)
  next
    case 4
    define lo hi where "lo = (if byte a = 240 then 144 else 128 :: nat)" and
      "hi = (if byte a = 244 then 143 else 191 :: nat)"
    obtain b c d t where b: "s1 = b # c # d # t" "cont lo hi b" "cont 128 191 c" "cont 128 191 d"
      using assms s 4 by (auto split: list.splits if_splits simp: lo_def hi_def)
    have "rune_width (a # b # c # d # u) = 4" for u using 4 b by (simp add: lo_def hi_def)
    then show ?thesis using that(4) [of a b c d t] s b cont_not_start [OF b(2)]
        cont_not_start [OF b(3)] cont_not_start [OF b(4)] by (simp add: lo_def hi_def)
  qed
qed

lemma rune_width_take: "0 < rune_width s \<Longrightarrow> rune_width s \<le> n \<Longrightarrow> rune_width (take n s) = rune_width s"
  by (erule rune_width_shape) (simp_all del: rune_width.simps add: take_Cons' split: if_splits)

lemma rune_inner_not_start:
  assumes "0 < i" and "i < rune_width s"
  shows "\<not> RuneStart (s ! i)"
proof -
  have cases4: "i = 1 \<or> i = 2 \<or> i = 3" if "i < 4" using assms(1) that by arith
  have "0 < rune_width s" using assms by simp
  then show ?thesis
  proof (cases rule: rune_width_shape)
    case 1
    then show ?thesis using assms by simp
  next
    case (2 a b t)
    then have "i < 2" using assms(2) by (simp del: rune_width.simps)
    then show ?thesis using 2 cases4 by auto
  next
    case (3 a b c t)
    then have "i < 3" using assms(2) by (simp del: rune_width.simps)
    then show ?thesis using 3 cases4 by auto
  next
    case (4 a b c d t)
    then have "i < 4" using assms(2) by (simp del: rune_width.simps)
    then show ?thesis using 4 cases4 by auto
  qed
qed

lemma utf8_Valid_take:
  "utf8_Valid s \<Longrightarrow> i < length s \<Longrightarrow> RuneStart (s ! i) \<Longrightarrow> utf8_Valid (take i s)"
proof (induction s arbitrary: i rule: utf8_Valid.induct)
  case (1 s)
  show ?case
  proof (cases "i = 0")
    case True
    then show ?thesis by (simp add: utf8_Valid.simps)
  next
    case False
    have ne: "s \<noteq> []" and w: "0 < rune_width s" and v: "utf8_Valid (drop (rune_width s) s)"
      using "1.prems"(1,2) utf8_Valid.simps [of s] by (auto split: if_splits)
    have le: "rune_width s \<le> i" using rune_inner_not_start [of i s] False "1.prems"(3) by fastforce
    have "utf8_Valid (take (i - rune_width s) (drop (rune_width s) s))"
      using "1.IH" [of "i - rune_width s"] ne w v le "1.prems"(2,3) by simp
    moreover have "rune_width (take i s) = rune_width s" using rune_width_take w le by blast
    ultimately show ?thesis using ne False w le
      by (subst utf8_Valid.simps) (simp add: drop_take)
  qed
qed

end
