(* ===== verification/Presence.thy ===== *)
theory Presence
  imports GoStrings "HOL-Library.List_Lexorder" "HOL-Library.Char_ord"
begin

text \<open>
  The open-connection bookkeeping of a node (\<open>internal/nodecore/traffic/presence.go\<close>). Every
  \<open>presenceSet\<close> ever allocated stays in \<open>st_sets\<close> (a generation is its index), the atomic
  pointer \<open>Manager.presence\<close> is \<open>st_current\<close>, and the close function \<open>OpenConn\<close> returns is an
  index into \<open>st_conns\<close>, which records what the closure captured and its \<open>closed\<close> flag.
  Counters are 64-bit and wrap.
\<close>

section \<open>State\<close>

record presenceSet =
  ps_users :: "(string, int64) gomap"
  ps_ports :: "(uint16, int64) gomap"
  ps_total :: int64

record openConn =
  oc_gen :: nat
  oc_user :: string
  oc_port :: uint16
  oc_closed :: bool

record presence_state =
  st_sets :: "presenceSet list"
  st_current :: "nat option"
  st_conns :: "openConn list"

definition new_presenceSet :: presenceSet where
  "new_presenceSet = \<lparr>ps_users = [], ps_ports = [], ps_total = 0\<rparr>"

definition init_presence :: presence_state where
  "init_presence = \<lparr>st_sets = [], st_current = None, st_conns = []\<rparr>"

section \<open>Operations\<close>

definition alloc_set :: "presence_state \<Rightarrow> presence_state" where
  "alloc_set st = st\<lparr>st_sets := st_sets st @ [new_presenceSet],
                     st_current := Some (length (st_sets st))\<rparr>"

definition currentPresence :: "presence_state \<Rightarrow> nat \<times> presence_state" where
  "currentPresence st =
     (case st_current st of
        Some g \<Rightarrow> (g, st)
      | None \<Rightarrow> (length (st_sets st), alloc_set st))"

text \<open>\<open>counterFor(\<dots>).Add(d)\<close> is \<open>mbump key d\<close>: a missing counter starts at zero.\<close>

definition OpenConn :: "presence_state \<Rightarrow> string \<Rightarrow> uint16 \<Rightarrow> presence_state" where
  "OpenConn st user port =
     (let (g, st1) = currentPresence st;
          s = st_sets st1 ! g;
          s' = s\<lparr>ps_users := mbump user 1 (ps_users s),
                 ps_ports := (if port \<noteq> 0 then mbump port 1 (ps_ports s) else ps_ports s),
                 ps_total := ps_total s + 1\<rparr>
      in st1\<lparr>st_sets := (st_sets st1)[g := s'],
             st_conns := st_conns st1 @ [\<lparr>oc_gen = g, oc_user = user, oc_port = port, oc_closed = False\<rparr>]\<rparr>)"

definition closeFn :: "presence_state \<Rightarrow> nat \<Rightarrow> presence_state" where
  "closeFn st i =
     (if i < length (st_conns st) \<and> \<not> oc_closed (st_conns st ! i)
      then
        (let c = st_conns st ! i;
             s = st_sets st ! oc_gen c;
             s' = s\<lparr>ps_users := mbump (oc_user c) (- 1) (ps_users s),
                    ps_ports := (if oc_port c \<noteq> 0 then mbump (oc_port c) (- 1) (ps_ports s) else ps_ports s),
                    ps_total := ps_total s - 1\<rparr>
         in st\<lparr>st_sets := (st_sets st)[oc_gen c := s'],
               st_conns := (st_conns st)[i := c\<lparr>oc_closed := True\<rparr>]\<rparr>)
      else st)"

definition ResetPresence :: "presence_state \<Rightarrow> presence_state" where
  "ResetPresence st = alloc_set st"

record UserConns =
  ucn_User :: string
  ucn_Conns :: int64

record PresenceSnapshot =
  snap_Total :: int
  snap_Ports :: "(uint16, int64) gomap"
  snap_Users :: "UserConns list"

definition read_set :: "presenceSet \<Rightarrow> PresenceSnapshot" where
  "read_set s =
     \<lparr>snap_Total = max (sint (ps_total s)) 0,
      snap_Ports = filter (\<lambda>(p, n). 0 < sint n) (ps_ports s),
      snap_Users = sort_key ucn_User
        (map (\<lambda>(u, n). \<lparr>ucn_User = u, ucn_Conns = n\<rparr>)
          (filter (\<lambda>(u, n). 0 < sint n) (ps_users s)))\<rparr>"

definition Presence :: "presence_state \<Rightarrow> PresenceSnapshot \<times> presence_state" where
  "Presence st = (let (g, st1) = currentPresence st in (read_set (st_sets st1 ! g), st1))"

text \<open>
  \<open>LocalPort\<close> and \<open>addrPort\<close>: a TCP or UDP address carries its port as an \<open>int\<close> (a nil pointer is
  \<open>None\<close>), any other address is read from its text; \<open>PanicAddr\<close> is a connection whose
  \<open>LocalAddr\<close> panics, which \<open>LocalPort\<close> recovers from.
\<close>

datatype net_addr = NilAddr | TCPAddr "int option" | UDPAddr "int option" | OtherAddr string

datatype local_addr = PanicAddr | LocalAddr net_addr

fun addrPort :: "net_addr \<Rightarrow> uint16" where
  "addrPort NilAddr = 0"
| "addrPort (TCPAddr None) = 0"
| "addrPort (TCPAddr (Some p)) = word_of_int p"
| "addrPort (UDPAddr None) = 0"
| "addrPort (UDPAddr (Some p)) = word_of_int p"
| "addrPort (OtherAddr s) =
     (case SplitHostPort_port s of None \<Rightarrow> 0
      | Some p \<Rightarrow> (case ParseUint 16 p of None \<Rightarrow> 0 | Some n \<Rightarrow> word_of_nat n))"

definition LocalPort :: "local_addr option \<Rightarrow> uint16 \<Rightarrow> uint16" where
  "LocalPort conn fallback =
     (case conn of
        None \<Rightarrow> fallback
      | Some PanicAddr \<Rightarrow> fallback
      | Some (LocalAddr a) \<Rightarrow> if addrPort a \<noteq> 0 then addrPort a else fallback)"

definition TrackClose :: "presence_state \<Rightarrow> string \<Rightarrow> local_addr option \<Rightarrow> uint16 \<Rightarrow> presence_state" where
  "TrackClose st user conn fallbackPort = OpenConn st user (LocalPort conn fallbackPort)"

section \<open>Invariant\<close>

definition open_in :: "nat \<Rightarrow> (openConn \<Rightarrow> bool) \<Rightarrow> openConn list \<Rightarrow> nat" where
  "open_in g P cs = length (filter (\<lambda>c. oc_gen c = g \<and> \<not> oc_closed c \<and> P c) cs)"

definition set_exact :: "presence_state \<Rightarrow> nat \<Rightarrow> bool" where
  "set_exact st g \<longleftrightarrow>
     (let s = st_sets st ! g in
       wf_map (ps_users s) \<and> wf_map (ps_ports s) \<and>
       (\<forall>u. mget 0 (ps_users s) u = of_nat (open_in g (\<lambda>c. oc_user c = u) (st_conns st))) \<and>
       (\<forall>p. p \<noteq> 0 \<longrightarrow> mget 0 (ps_ports s) p = of_nat (open_in g (\<lambda>c. oc_port c = p) (st_conns st))) \<and>
       map_of (ps_ports s) 0 = None \<and>
       ps_total s = of_nat (open_in g (\<lambda>c. True) (st_conns st)))"

definition presence_inv :: "presence_state \<Rightarrow> bool" where
  "presence_inv st \<longleftrightarrow>
     (\<forall>g < length (st_sets st). set_exact st g) \<and>
     (\<forall>c \<in> set (st_conns st). oc_gen c < length (st_sets st)) \<and>
     (\<forall>g. st_current st = Some g \<longrightarrow> g < length (st_sets st))"

lemma open_in_snoc:
  "open_in g P (cs @ [c]) = open_in g P cs + (if oc_gen c = g \<and> \<not> oc_closed c \<and> P c then 1 else 0)"
  by (simp add: open_in_def)

lemma open_in_close:
  assumes "i < length cs" and "\<not> oc_closed (cs ! i)"
  shows "(of_nat (open_in g P (cs[i := (cs ! i)\<lparr>oc_closed := True\<rparr>])) :: int64) =
    of_nat (open_in g P cs) - (if oc_gen (cs ! i) = g \<and> P (cs ! i) then 1 else 0)"
proof -
  have "open_in g P (cs[i := (cs ! i)\<lparr>oc_closed := True\<rparr>]) +
      (if oc_gen (cs ! i) = g \<and> P (cs ! i) then 1 else 0) = open_in g P cs"
    using filter_update_count [OF assms(1), of "\<lambda>c. oc_gen c = g \<and> \<not> oc_closed c \<and> P c"
        "(cs ! i)\<lparr>oc_closed := True\<rparr>"] assms(2)
    by (simp add: open_in_def)
  then show ?thesis
    by (cases "oc_gen (cs ! i) = g \<and> P (cs ! i)") (auto intro: of_nat_pred)
qed

lemma open_in_fresh_gen:
  "(\<forall>c \<in> set cs. oc_gen c < n) \<Longrightarrow> open_in n P cs = 0"
  by (auto simp: open_in_def filter_empty_conv)

lemma presence_inv_init: "presence_inv init_presence"
  by (simp add: presence_inv_def init_presence_def)

lemma presence_inv_alloc [state_inv]:
  assumes "presence_inv st"
  shows "presence_inv (alloc_set st)"
proof -
  have "set_exact (alloc_set st) g" if g: "g < Suc (length (st_sets st))" for g
  proof (cases "g < length (st_sets st)")
    case True
    then have "set_exact st g" using assms by (simp add: presence_inv_def)
    then show ?thesis using True by (simp add: set_exact_def alloc_set_def nth_append)
  next
    case False
    with g have "g = length (st_sets st)" by simp
    moreover have "open_in (length (st_sets st)) P (st_conns st) = 0" for P
      using assms by (intro open_in_fresh_gen) (simp add: presence_inv_def)
    ultimately show ?thesis by (simp add: set_exact_def alloc_set_def new_presenceSet_def)
  qed
  then show ?thesis using assms by (auto simp: presence_inv_def alloc_set_def)
qed

lemma currentPresence_inv:
  assumes "presence_inv st" and "currentPresence st = (g, st1)"
  shows "presence_inv st1" and "g < length (st_sets st1)" and "st_conns st1 = st_conns st"
    and "st_current st1 = Some g"
  using assms presence_inv_alloc [OF assms(1)]
  by (auto simp: currentPresence_def presence_inv_def alloc_set_def split: option.splits)

lemma presence_inv_OpenConn [state_inv]:
  assumes "presence_inv st"
  shows "presence_inv (OpenConn st user port)"
proof -
  obtain g st1 where cp: "currentPresence st = (g, st1)" by force
  note inv = currentPresence_inv [OF assms cp]
  have "set_exact (OpenConn st user port) h" if h: "h < length (st_sets st1)" for h
  proof -
    have "set_exact st1 h" using inv(1) h by (simp add: presence_inv_def)
    then show ?thesis using cp h inv(2)
      by (auto simp: OpenConn_def set_exact_def Let_def open_in_snoc nth_list_update mbump_def)
  qed
  then show ?thesis using inv cp
    by (auto simp: presence_inv_def OpenConn_def Let_def)
qed

lemma presence_inv_closeFn [state_inv]:
  assumes "presence_inv st"
  shows "presence_inv (closeFn st i)"
proof (cases "i < length (st_conns st) \<and> \<not> oc_closed (st_conns st ! i)")
  case False
  then show ?thesis using assms by (auto simp: closeFn_def)
next
  case True
  then have gen: "oc_gen (st_conns st ! i) < length (st_sets st)"
    using assms by (simp add: presence_inv_def)
  have "set_exact (closeFn st i) h" if h: "h < length (st_sets st)" for h
  proof -
    have "set_exact st h" using assms h by (simp add: presence_inv_def)
    then show ?thesis using True h gen
      by (auto simp: closeFn_def set_exact_def Let_def open_in_close nth_list_update mbump_def)
  qed
  moreover have "\<forall>c \<in> set (st_conns (closeFn st i)). oc_gen c < length (st_sets (closeFn st i))"
    using assms True
    by (auto simp: closeFn_def Let_def presence_inv_def dest!: set_update_subset_insert [THEN subsetD])
  ultimately show ?thesis using assms True
    by (auto simp: presence_inv_def closeFn_def Let_def)
qed

section \<open>Runs\<close>

datatype presence_op = POpen string uint16 | PClose nat | PReset | PRead

fun presence_step :: "presence_state \<Rightarrow> presence_op \<Rightarrow> presence_state" where
  "presence_step st (POpen u p) = OpenConn st u p"
| "presence_step st (PClose i) = closeFn st i"
| "presence_step st PReset = ResetPresence st"
| "presence_step st PRead = snd (Presence st)"

lemma Presence_snd: "snd (Presence st) = snd (currentPresence st)"
  by (simp add: Presence_def Let_def split_beta)

lemma presence_inv_Presence [state_inv]: "presence_inv st \<Longrightarrow> presence_inv (snd (Presence st))"
  unfolding Presence_snd using currentPresence_inv(1) [of st] by (metis prod.collapse)

interpretation presence_ts: transition_system presence_step presence_inv
proof
  show "presence_inv s \<Longrightarrow> presence_inv (presence_step s e)" for s e
    by (cases e) (auto simp: state_inv ResetPresence_def intro: state_inv)
qed

lemma length_conns_step: "length (st_conns (presence_step st e)) \<le> Suc (length (st_conns st))"
  by (cases e) (auto simp: OpenConn_def closeFn_def ResetPresence_def alloc_set_def Presence_snd
      currentPresence_def Let_def split: option.splits)

lemma length_conns_run:
  "length (st_conns (foldl presence_step st es)) \<le> length (st_conns st) + length es"
proof (induction es arbitrary: st)
  case (Cons e es)
  have "length (st_conns (foldl presence_step st (e # es)))
      \<le> length (st_conns (presence_step st e)) + length es"
    using Cons.IH by simp
  also have "\<dots> \<le> length (st_conns st) + length (e # es)"
    using length_conns_step [of st e] by simp
  finally show ?case .
qed simp

text \<open>The connections open in the current generation.\<close>

definition open_now :: "presence_state \<Rightarrow> (openConn \<Rightarrow> bool) \<Rightarrow> nat" where
  "open_now st P = (case st_current st of None \<Rightarrow> 0 | Some g \<Rightarrow> open_in g P (st_conns st))"

lemma open_now_currentPresence:
  assumes "presence_inv st" and "currentPresence st = (g, st1)"
  shows "open_in g P (st_conns st1) = open_now st P"
proof (cases "st_current st")
  case None
  then have "g = length (st_sets st)" and "st_conns st1 = st_conns st"
    using assms by (auto simp: currentPresence_def alloc_set_def)
  then show ?thesis using None assms(1)
    by (simp add: open_now_def open_in_fresh_gen presence_inv_def)
next
  case (Some h)
  then show ?thesis using assms(2) by (auto simp: currentPresence_def open_now_def)
qed

lemma open_in_bound: "open_in g P cs \<le> length cs"
  by (simp add: open_in_def)

text \<open>What reading one set shows when its counters hold the numbers \<open>n\<close>.\<close>

lemma read_set_user:
  assumes "wf_map (ps_users s)" and "mget 0 (ps_users s) u = of_nat n" and "n < 2 ^ 63"
  shows "(\<exists>x \<in> set (snap_Users (read_set s)). ucn_User x = u \<and> sint (ucn_Conns x) = k) \<longleftrightarrow>
    0 < k \<and> k = int n"
proof -
  have "(\<exists>x \<in> set (snap_Users (read_set s)). ucn_User x = u \<and> sint (ucn_Conns x) = k) \<longleftrightarrow>
      (\<exists>w. (u, w) \<in> set (ps_users s) \<and> 0 < sint w \<and> sint w = k)"
    by (force simp: read_set_def)
  also have "\<dots> \<longleftrightarrow> (\<exists>w. map_of (ps_users s) u = Some w \<and> 0 < sint w \<and> sint w = k)"
    using assms(1) by (simp add: map_of_wf_eq)
  also have "\<dots> \<longleftrightarrow> 0 < k \<and> k = int n"
    using assms(2) sint_of_nat_small [OF assms(3)] by (auto simp: mget_def split: option.splits)
  finally show ?thesis .
qed

lemma read_set_port:
  assumes "wf_map (ps_ports s)" and "mget 0 (ps_ports s) p = of_nat n" and "n < 2 ^ 63"
  shows "(\<exists>w. map_of (snap_Ports (read_set s)) p = Some w \<and> sint w = k) \<longleftrightarrow> 0 < k \<and> k = int n"
  using assms(1,2) sint_of_nat_small [OF assms(3)]
  by (auto simp: read_set_def map_of_filter_values mget_def split: option.splits)

lemma read_set_sorted:
  assumes "wf_map (ps_users s)"
  shows "sorted (map ucn_User (snap_Users (read_set s)))"
    and "distinct (map ucn_User (snap_Users (read_set s)))"
proof -
  have names: "map ucn_User (map (\<lambda>(u, n). \<lparr>ucn_User = u, ucn_Conns = n\<rparr>) xs) = map fst xs" for xs
    by (induction xs) auto
  have "distinct (map fst (filter (\<lambda>(u, n). 0 < sint n) (ps_users s)))"
    using assms by (simp add: wf_map_def distinct_map_filter)
  then show "distinct (map ucn_User (snap_Users (read_set s)))"
    by (simp add: read_set_def distinct_map_sort_key names del: map_map)
  show "sorted (map ucn_User (snap_Users (read_set s)))"
    by (simp add: read_set_def)
qed

text \<open>The set a snapshot reads holds the numbers of connections open now.\<close>

lemma Presence_reads_exact:
  assumes inv: "presence_inv st" and small: "length (st_conns st) < 2 ^ 63"
  obtains s where "fst (Presence st) = read_set s" "wf_map (ps_users s)" "wf_map (ps_ports s)"
    "\<And>u. mget 0 (ps_users s) u = of_nat (open_now st (\<lambda>c. oc_user c = u))"
    "\<And>p. p \<noteq> 0 \<Longrightarrow> mget 0 (ps_ports s) p = of_nat (open_now st (\<lambda>c. oc_port c = p))"
    "ps_total s = of_nat (open_now st (\<lambda>c. True))" "\<And>P. open_now st P < 2 ^ 63"
    "mget 0 (ps_ports s) 0 = 0"
proof -
  obtain g st1 where cp: "currentPresence st = (g, st1)" by force
  note cur = currentPresence_inv [OF inv cp] and now = open_now_currentPresence [OF inv cp]
  have ex: "set_exact st1 g" using cur by (simp add: presence_inv_def)
  have "open_now st P < 2 ^ 63" for P
    using open_in_bound [of g P "st_conns st1"] small cur(3) now [of P] by simp
  moreover have "fst (Presence st) = read_set (st_sets st1 ! g)"
    using cp by (simp add: Presence_def)
  ultimately show thesis using ex that [of "st_sets st1 ! g"]
    by (simp add: set_exact_def Let_def now mget_def [of 0 _ 0])
qed

section \<open>Correctness\<close>



lemma closeFn_keeps:
  "st_current (closeFn st i) = st_current st"
  "map oc_gen (st_conns (closeFn st i)) = map oc_gen (st_conns st)"
  by (auto simp: closeFn_def Let_def map_update) (metis list_update_id map_update)

lemma foldl_closeFn_keeps:
  "st_current (foldl closeFn st is) = st_current st \<and>
   map oc_gen (st_conns (foldl closeFn st is)) = map oc_gen (st_conns st) \<and>
   (presence_inv st \<longrightarrow> presence_inv (foldl closeFn st is))"
  by (induction "is" arbitrary: st) (auto simp: closeFn_keeps presence_inv_closeFn)

lemma open_in_other_gen: "g \<notin> set (map oc_gen cs) \<Longrightarrow> open_in g P cs = 0"
  by (auto simp: open_in_def filter_empty_conv)

lemma filter_zero_counters:
  fixes m :: "('k, int64) gomap"
  assumes "wf_map m" and "\<And>k. mget 0 m k = 0"
  shows "filter (\<lambda>(k, n). 0 < sint n) m = []"
proof -
  have "n = 0" if "(k, n) \<in> set m" for k n
    using assms(2) [of k] that assms(1) by (simp add: mget_def flip: map_of_wf_eq [OF assms(1)])
  then show ?thesis by (fastforce simp: filter_empty_conv)
qed

text \<open>
  A reset isolates the generations: whatever was open before \<open>ResetPresence\<close>, and however many
  close signals of the old connections arrive after it, the snapshot stays empty; and a close
  function called a second time changes nothing.
\<close>

theorem Reset_isolates_generations:
  assumes "presence_inv st" and "length (st_conns st) < 2 ^ 63"
  shows "fst (Presence (foldl closeFn (ResetPresence st) is)) =
      \<lparr>snap_Total = 0, snap_Ports = [], snap_Users = []\<rparr> \<and>
    closeFn (closeFn st i) i = closeFn st i"
proof
  let ?st = "foldl closeFn (ResetPresence st) is"
  have inv: "presence_inv ?st"
    using foldl_closeFn_keeps presence_inv_alloc [OF assms(1)] by (simp add: ResetPresence_def)
  have cur: "st_current ?st = Some (length (st_sets st))"
    and gens: "map oc_gen (st_conns ?st) = map oc_gen (st_conns st)"
    using foldl_closeFn_keeps [of "ResetPresence st" "is"] by (auto simp: ResetPresence_def alloc_set_def)
  have "length (st_sets st) \<notin> set (map oc_gen (st_conns ?st))"
    unfolding gens using assms(1) by (auto simp: presence_inv_def)
  then have none: "open_now ?st P = 0" for P
    by (simp add: open_now_def cur open_in_other_gen)
  have "length (st_conns ?st) < 2 ^ 63" using assms(2) gens by (metis length_map)
  from Presence_reads_exact [OF inv this] obtain s where s: "fst (Presence ?st) = read_set s"
    "wf_map (ps_users s)" "wf_map (ps_ports s)" "\<And>u. mget 0 (ps_users s) u = 0"
    "\<And>p. p \<noteq> 0 \<Longrightarrow> mget 0 (ps_ports s) p = 0" "ps_total s = 0" "mget 0 (ps_ports s) 0 = 0"
    by (simp add: none) metis
  have "mget 0 (ps_ports s) p = 0" for p using s(5,7) by (cases "p = 0") auto
  with s show "fst (Presence ?st) = \<lparr>snap_Total = 0, snap_Ports = [], snap_Users = []\<rparr>"
    by (simp add: read_set_def filter_zero_counters)
  show "closeFn (closeFn st i) i = closeFn st i"
    by (simp add: closeFn_def Let_def)
qed

theorem Reset_isolates_generations_witness:
  "fst (Presence (foldl closeFn (ResetPresence (OpenConn init_presence ''a'' 443)) [0, 0])) =
     \<lparr>snap_Total = 0, snap_Ports = [], snap_Users = []\<rparr>"
proof -
  have "presence_inv (OpenConn init_presence ''a'' 443)"
    by (rule presence_inv_OpenConn [OF presence_inv_init])
  moreover have "length (st_conns (OpenConn init_presence ''a'' 443)) < 2 ^ 63"
    by (simp add: OpenConn_def init_presence_def currentPresence_def alloc_set_def Let_def)
  ultimately show ?thesis using Reset_isolates_generations by blast
qed

end
