(* ===== verification/ConnGroup.thy ===== *)
theory ConnGroup
  imports Prelude
begin

text \<open>
  The set of client connections one core generation holds
  (\<open>internal/nodecore/traffic/conngroup.go\<close>). A nil \<open>*ConnGroup\<close> is \<open>None\<close>; a release function
  is an index into \<open>cw_handles\<close>; \<open>cw_log\<close> collects the connections whose \<open>Close\<close> was called and
  \<open>cw_released\<close> the ones forgotten by their release function. The bounded pool of goroutines that
  \<open>CloseAll\<close> starts is a transition system of its own.
\<close>

section \<open>State\<close>

record 'c ConnGroup =
  cg_conns :: "(uint64, 'c) gomap"
  cg_next :: uint64
  cg_closed :: bool

datatype release_fn = NoRelease | Release uint64 bool

record 'c cg_world =
  cw_group :: "'c ConnGroup option"
  cw_handles :: "release_fn list"
  cw_log :: "'c list"
  cw_released :: "'c list"

definition NewConnGroup :: "'c ConnGroup" where
  "NewConnGroup = \<lparr>cg_conns = [], cg_next = 0, cg_closed = False\<rparr>"

definition closeWorkers :: nat where
  "closeWorkers = 64"

section \<open>Operations\<close>

definition Hold :: "'c cg_world \<Rightarrow> 'c option \<Rightarrow> 'c cg_world" where
  "Hold w c =
     (case (cw_group w, c) of
        (Some g, Some x) \<Rightarrow>
          if cg_closed g
          then w\<lparr>cw_log := cw_log w @ [x], cw_handles := cw_handles w @ [NoRelease]\<rparr>
          else (let cid = cg_next g + 1
                in w\<lparr>cw_group := Some (g\<lparr>cg_next := cid, cg_conns := mput cid x (cg_conns g)\<rparr>),
                     cw_handles := cw_handles w @ [Release cid False]\<rparr>)
      | _ \<Rightarrow> w\<lparr>cw_handles := cw_handles w @ [NoRelease]\<rparr>)"

definition run_release :: "'c cg_world \<Rightarrow> nat \<Rightarrow> 'c cg_world" where
  "run_release w i =
     (if i < length (cw_handles w) then
        (case (cw_handles w ! i, cw_group w) of
           (Release cid False, Some g) \<Rightarrow>
             w\<lparr>cw_group := Some (g\<lparr>cg_conns := mdel cid (cg_conns g)\<rparr>),
               cw_handles := (cw_handles w)[i := Release cid True],
               cw_released := cw_released w @
                 (case map_of (cg_conns g) cid of None \<Rightarrow> [] | Some x \<Rightarrow> [x])\<rparr>
         | _ \<Rightarrow> w)
      else w)"

text \<open>\<open>Track\<close> returns a close handler: \<open>None\<close> stands for the unchanged \<open>onClose\<close> of a nil group,
  \<open>Some i\<close> for the handler that first runs release function \<open>i\<close>. Calling it yields the new
  world and the \<open>onClose\<close> callbacks invoked.\<close>

definition Track :: "'c cg_world \<Rightarrow> 'c option \<Rightarrow> nat option \<times> 'c cg_world" where
  "Track w c =
     (case cw_group w of
        None \<Rightarrow> (None, w)
      | Some g \<Rightarrow> (Some (length (cw_handles w)), Hold w c))"

definition call_tracked :: "'c cg_world \<Rightarrow> nat option \<Rightarrow> 'o option \<Rightarrow> 'c cg_world \<times> 'o list" where
  "call_tracked w h onClose =
     (let calls = (case onClose of None \<Rightarrow> [] | Some f \<Rightarrow> [f])
      in case h of None \<Rightarrow> (w, calls) | Some i \<Rightarrow> (run_release w i, calls))"

definition Len :: "'c cg_world \<Rightarrow> nat" where
  "Len w = (case cw_group w of None \<Rightarrow> 0 | Some g \<Rightarrow> length (cg_conns g))"

text \<open>\<open>CloseAll\<close> marks the group closed, takes every connection out of the map and hands all of them
  to the pool below, which closes each once; the order in the log is the map's iteration order.\<close>

definition CloseAll :: "'c cg_world \<Rightarrow> 'c cg_world" where
  "CloseAll w =
     (case cw_group w of
        None \<Rightarrow> w
      | Some g \<Rightarrow>
          w\<lparr>cw_group := Some (g\<lparr>cg_closed := True, cg_conns := []\<rparr>),
            cw_log := cw_log w @ map snd (cg_conns g)\<rparr>)"

section \<open>The closing pool\<close>

record 'c close_pool =
  cp_queue :: "'c list"
  cp_busy :: "'c list"
  cp_done :: "'c list"

definition start_pool :: "'c list \<Rightarrow> 'c close_pool" where
  "start_pool conns = \<lparr>cp_queue = conns, cp_busy = [], cp_done = []\<rparr>"

text \<open>The feeder sends the next connection when a worker is free; a worker's \<open>Close\<close> returns. There
  are \<open>min(closeWorkers, len(all))\<close> workers.\<close>

inductive pool_step :: "nat \<Rightarrow> 'c close_pool \<Rightarrow> 'c close_pool \<Rightarrow> bool" where
  pool_take: "cp_queue s = c # q \<Longrightarrow> length (cp_busy s) < workers \<Longrightarrow>
     pool_step workers s (s\<lparr>cp_queue := q, cp_busy := c # cp_busy s\<rparr>)"
| pool_finish: "cp_busy s = xs @ c # ys \<Longrightarrow>
     pool_step workers s (s\<lparr>cp_busy := xs @ ys, cp_done := cp_done s @ [c]\<rparr>)"

inductive_cases pool_stepE: "pool_step workers s t"

definition pool_finished :: "'c close_pool \<Rightarrow> bool" where
  "pool_finished s \<longleftrightarrow> cp_queue s = [] \<and> cp_busy s = []"

definition pool_inv :: "nat \<Rightarrow> 'c list \<Rightarrow> 'c close_pool \<Rightarrow> bool" where
  "pool_inv workers conns s \<longleftrightarrow>
     mset conns = mset (cp_queue s) + mset (cp_busy s) + mset (cp_done s) \<and>
     length (cp_busy s) \<le> workers"

lemma pool_step_inv: "pool_step workers s t \<Longrightarrow> pool_inv workers conns s \<Longrightarrow> pool_inv workers conns t"
  by (induction rule: pool_step.induct) (auto simp: pool_inv_def)

lemma pool_runs_inv:
  "(pool_step workers)\<^sup>*\<^sup>* s t \<Longrightarrow> pool_inv workers conns s \<Longrightarrow> pool_inv workers conns t"
  by (induction rule: rtranclp_induct) (auto intro: pool_step_inv)

lemma pool_progress:
  assumes "\<not> pool_finished s" and "0 < workers"
  shows "\<exists>t. pool_step workers s t"
proof (cases "cp_busy s")
  case Nil
  with assms obtain c q where "cp_queue s = c # q" by (cases "cp_queue s") (auto simp: pool_finished_def)
  with Nil assms(2) show ?thesis using pool_take [of s c q workers] by auto
next
  case (Cons c ys)
  then show ?thesis using pool_finish [of s "[]" c ys workers] by auto
qed

definition pool_measure :: "'c close_pool \<Rightarrow> nat" where
  "pool_measure s = 2 * length (cp_queue s) + length (cp_busy s)"

lemma pool_step_decreases: "pool_step workers s t \<Longrightarrow> pool_measure t < pool_measure s"
  by (induction rule: pool_step.induct) (auto simp: pool_measure_def)

text \<open>From any state the pool can run to the end, whatever has been done so far.\<close>

lemma pool_reaches_end:
  "0 < workers \<Longrightarrow> \<exists>t. (pool_step workers)\<^sup>*\<^sup>* s t \<and> pool_finished t"
proof (induction "pool_measure s" arbitrary: s rule: less_induct)
  case less
  show ?case
  proof (cases "pool_finished s")
    case True
    then show ?thesis by blast
  next
    case False
    then obtain u where u: "pool_step workers s u" using pool_progress less.prems by blast
    from less.hyps [OF pool_step_decreases [OF u] less.prems] u show ?thesis
      by (meson converse_rtranclp_into_rtranclp)
  qed
qed

section \<open>Invariant\<close>

text \<open>After \<open>n\<close> operations the counter is at most \<open>n\<close> and every key of the map is at most the counter,
  so a fresh id never overwrites an entry while \<open>n\<close> is below \<open>2 ^ 64\<close>.\<close>

definition group_inv :: "nat \<Rightarrow> 'c cg_world \<Rightarrow> bool" where
  "group_inv n w \<longleftrightarrow>
     (case cw_group w of None \<Rightarrow> True
      | Some g \<Rightarrow>
          wf_map (cg_conns g) \<and> unat (cg_next g) \<le> n \<and>
          (\<forall>k \<in> fst ` set (cg_conns g). unat k \<le> unat (cg_next g)) \<and>
          (cg_closed g \<longrightarrow> cg_conns g = []))"

datatype 'c cg_op = OpHold "'c option" | OpRelease nat | OpCloseAll

fun cg_step :: "'c cg_world \<Rightarrow> 'c cg_op \<Rightarrow> 'c cg_world" where
  "cg_step w (OpHold c) = Hold w c"
| "cg_step w (OpRelease i) = run_release w i"
| "cg_step w OpCloseAll = CloseAll w"

definition held :: "'c cg_op list \<Rightarrow> 'c list" where
  "held ops = concat (map (\<lambda>x. case x of OpHold (Some c) \<Rightarrow> [c] | _ \<Rightarrow> []) ops)"

definition accounted :: "'c cg_world \<Rightarrow> 'c multiset" where
  "accounted w =
     (case cw_group w of None \<Rightarrow> {#} | Some g \<Rightarrow> mset (map snd (cg_conns g)))
     + mset (cw_log w) + mset (cw_released w)"

lemma mset_snd_put_fresh:
  "map_of m k = None \<Longrightarrow> image_mset snd (mset (mput k v m)) = add_mset v (image_mset snd (mset m))"
  by (induction m) (auto split: if_splits)

lemma mset_snd_del:
  "wf_map m \<Longrightarrow> mset (map snd m) =
     mset (map snd (mdel k m)) + (case map_of m k of None \<Rightarrow> {#} | Some v \<Rightarrow> {#v#})"
proof (induction m)
  case (Cons a m)
  from Cons.prems have wf: "wf_map m" and new: "fst a \<notin> fst ` set m" by (simp_all add: wf_map_def)
  show ?case
  proof (cases "k = fst a")
    case True
    then have "mdel k (a # m) = m" using new by (cases a) (simp add: delete_id)
    then show ?thesis using True by (cases a) simp
  next
    case False
    then show ?thesis using Cons.IH [OF wf] by (cases a) simp
  qed
qed simp

lemma mset_snd_del_cases:
  assumes "wf_map m"
  shows "map_of m k = None \<Longrightarrow> image_mset snd (mset (mdel k m)) = image_mset snd (mset m)"
    and "map_of m k = Some v \<Longrightarrow> add_mset v (image_mset snd (mset (mdel k m))) = image_mset snd (mset m)"
  using mset_snd_del [OF assms, of k] by simp_all

lemma next_id_fresh:
  assumes "group_inv n w" and "cw_group w = Some g" and "Suc n < 2 ^ 64"
  shows "map_of (cg_conns g) (cg_next g + 1) = None" and "unat (cg_next g + 1) = Suc (unat (cg_next g))"
proof -
  have "unat (cg_next g) \<le> n" and keys: "\<forall>k \<in> fst ` set (cg_conns g). unat k \<le> unat (cg_next g)"
    using assms by (auto simp: group_inv_def)
  with assms(3) show u: "unat (cg_next g + 1) = Suc (unat (cg_next g))"
    by (simp add: unat_word_ariths)
  show "map_of (cg_conns g) (cg_next g + 1) = None"
    unfolding map_of_eq_None_iff using keys u by force
qed

text \<open>One step keeps the invariant and accounts for what it was handed.\<close>

lemma Hold_inv [state_inv]:
  assumes "group_inv n w" and "Suc n < 2 ^ 64"
  shows "group_inv (Suc n) (Hold w c)"
proof (cases "cw_group w")
  case (Some g)
  note fresh = next_id_fresh [OF assms(1) Some assms(2)]
  show ?thesis
  proof (cases c)
    case (Some x)
    then show ?thesis using assms(1) \<open>cw_group w = Some g\<close> fresh
      by (auto simp: group_inv_def Hold_def Let_def keys_put le_SucI)
  qed (use assms(1) Some in \<open>auto simp: group_inv_def Hold_def le_SucI\<close>)
qed (use assms(1) in \<open>auto simp: group_inv_def Hold_def\<close>)

lemma release_inv [state_inv]: "group_inv n w \<Longrightarrow> group_inv (Suc n) (run_release w i)"
  by (auto simp: group_inv_def run_release_def AList.delete_eq le_SucI
      split: option.splits release_fn.splits bool.splits)

lemma CloseAll_inv [state_inv]: "group_inv n w \<Longrightarrow> group_inv (Suc n) (CloseAll w)"
  by (auto simp: group_inv_def CloseAll_def split: option.splits)

lemma accounted_Hold:
  assumes "group_inv n w" and "Suc n < 2 ^ 64" and "cw_group w = Some g"
  shows "accounted (Hold w c) = accounted w + mset (held [OpHold c])"
  using next_id_fresh(1) [OF assms(1,3,2)] assms(3)
  by (auto simp: accounted_def Hold_def held_def Let_def mset_snd_put_fresh split: option.splits)

lemma accounted_release:
  "group_inv n w \<Longrightarrow> cw_group w = Some g \<Longrightarrow> accounted (run_release w i) = accounted w"
  by (auto simp: accounted_def run_release_def group_inv_def mset_snd_del_cases
      split: option.splits release_fn.splits bool.splits)

lemma accounted_CloseAll: "accounted (CloseAll w) = accounted w"
  by (auto simp: accounted_def CloseAll_def split: option.splits)

lemma cg_step_group: "(cw_group (cg_step w x) = None) = (cw_group w = None)"
  by (cases x) (auto simp: Hold_def run_release_def CloseAll_def Let_def
      split: option.splits release_fn.splits bool.splits)

lemma cg_run:
  assumes "group_inv n w" and "n + length ops < 2 ^ 64 - 1" and "cw_group w \<noteq> None"
  shows "group_inv (n + length ops) (foldl cg_step w ops) \<and>
    accounted (foldl cg_step w ops) = accounted w + mset (held ops)"
  using assms
proof (induction ops arbitrary: n w)
  case Nil
  then show ?case by (simp add: held_def)
next
  case (Cons x ops)
  then obtain g where g: "cw_group w = Some g" by blast
  have inv: "group_inv (Suc n) (cg_step w x)"
    using Cons.prems by (cases x) (auto intro: state_inv)
  have acc: "accounted (cg_step w x) = accounted w + mset (held [x])"
    using Cons.prems accounted_Hold [of n w g] accounted_release [of n w g] g
    by (cases x) (auto simp: accounted_CloseAll held_def)
  have "held (x # ops) = held [x] @ held ops" by (simp add: held_def)
  with Cons.IH [OF inv] Cons.prems acc cg_step_group [of w x] show ?case by simp
qed

section \<open>Correctness\<close>

definition new_world :: "'c cg_world" where
  "new_world = \<lparr>cw_group = Some NewConnGroup, cw_handles = [], cw_log = [], cw_released = []\<rparr>"

lemma group_inv_new: "group_inv 0 new_world"
  by (simp add: group_inv_def new_world_def NewConnGroup_def)





end
