(* ===== verification/Float64.thy ===== *)
theory Float64
  imports Complex_Main "HOL-Library.Log_Nat"
begin

text \<open>
  Go's \<open>float64\<close> as the load map and the host metrics use it: a rational number that is the
  result of rounding to 53 significant bits, ties to even (IEEE 754 binary64). The exponent
  range is not bounded here: every value in the modelled code is a quotient of two 64-bit
  integers times a constant below \<open>2 ^ 31\<close>, far inside the range of the format. \<open>fl\<close> is the
  rounding of one operation; \<open>a * b\<close> in Go is \<open>fl (a * b)\<close>.
\<close>

definition expo :: "rat \<Rightarrow> int" where
  "expo x = (let (p, q) = quotient_of x; k = bitlen p - bitlen q
             in if 2 powi k \<le> x then k else k - 1)"

definition round_even :: "rat \<Rightarrow> int" where
  "round_even x = (let n = \<lfloor>x\<rfloor>; d = x - of_int n
     in if d < 1 / 2 then n else if d > 1 / 2 then n + 1 else if even n then n else n + 1)"

definition fl :: "rat \<Rightarrow> rat" where
  "fl x = (if x = 0 then 0
           else let u = 2 powi (expo \<bar>x\<bar> - 52) in of_int (round_even (x / u)) * u)"

text \<open>\<open>float64(n)\<close>, \<open>int64(v)\<close> (on amd64, where a value out of range gives the smallest integer) and
  \<open>math.Round\<close>.\<close>

definition float64 :: "int \<Rightarrow> rat" where
  "float64 n = fl (of_int n)"

definition trunc :: "rat \<Rightarrow> int" where
  "trunc v = (if v < 0 then \<lceil>v\<rceil> else \<lfloor>v\<rfloor>)"

definition int64_of :: "rat \<Rightarrow> int" where
  "int64_of v = (if - (2 ^ 63) \<le> trunc v \<and> trunc v < 2 ^ 63 then trunc v else - (2 ^ 63))"

definition math_Round :: "rat \<Rightarrow> rat" where
  "math_Round v = (if v < 0 then - of_int \<lfloor>- v + 1 / 2\<rfloor> else of_int \<lfloor>v + 1 / 2\<rfloor>)"

section \<open>The exponent\<close>

lemma expo_bounds:
  assumes "0 < x"
  shows "2 powi (expo x) \<le> x" and "x < 2 powi (expo x + 1)"
proof -
  obtain p q where pq: "quotient_of x = (p, q)" by fastforce
  have q: "0 < q" and x: "x = of_int p / of_int q" using quotient_of_denom_pos [OF pq] quotient_of_div [OF pq] .
  have p: "0 < p" using assms x q by (simp add: zero_less_divide_iff)
  obtain a where a: "bitlen p = int a + 1" "2 ^ a \<le> p" "p < 2 ^ (a + 1)"
    using bitlen_bounds [OF p] p bitlen_eq_zero_iff [of p] bitlen_nonneg [of p] that [of "nat (bitlen p - 1)"]
    by (smt (verit, del_insts) Suc_eq_plus1 Suc_nat_eq_nat_zadd1 int_nat_eq)
  obtain b where b: "bitlen q = int b + 1" "2 ^ b \<le> q" "q < 2 ^ (b + 1)"
    using bitlen_bounds [OF q] q bitlen_eq_zero_iff [of q] bitlen_nonneg [of q] that [of "nat (bitlen q - 1)"]
    by (smt (verit, del_insts) Suc_eq_plus1 Suc_nat_eq_nat_zadd1 int_nat_eq)
  have pr: "(2::rat) ^ a \<le> of_int p" "(of_int p :: rat) < 2 ^ (a + 1)"
    using a(2,3) by (metis of_int_le_iff of_int_numeral of_int_power, metis of_int_less_iff of_int_numeral of_int_power)
  have qr: "(2::rat) ^ b \<le> of_int q" "(of_int q :: rat) < 2 ^ (b + 1)"
    using b(2,3) by (metis of_int_le_iff of_int_numeral of_int_power, metis of_int_less_iff of_int_numeral of_int_power)
  have up: "x < 2 powi (bitlen p - bitlen q + 1)"
  proof -
    have "x < 2 ^ (a + 1) / 2 ^ b"
      unfolding x using pr qr p by (intro frac_less) auto
    also have "\<dots> = 2 powi (bitlen p - bitlen q + 1)"
      using a(1) b(1) by (simp add: power_int_diff power_int_add)
    finally show ?thesis .
  qed
  have low: "2 powi (bitlen p - bitlen q - 1) \<le> x"
  proof -
    have "2 powi (bitlen p - bitlen q - 1) = 2 ^ a / (2::rat) ^ (b + 1)"
      using a(1) b(1) by (simp add: power_int_diff power_int_add)
    also have "\<dots> \<le> x" unfolding x using pr qr p q by (intro frac_le) auto
    finally show ?thesis .
  qed
  show "2 powi (expo x) \<le> x" using low by (simp add: expo_def pq Let_def)
  show "x < 2 powi (expo x + 1)" using up by (simp add: expo_def pq Let_def)
qed

lemma powi_mono2: "a \<le> b \<Longrightarrow> (2::rat) powi a \<le> 2 powi b"
  by (rule power_int_increasing) auto

lemma powi_less2: "(2::rat) powi a < 2 powi b \<Longrightarrow> a < b"
  by (meson linorder_not_le powi_mono2)

lemma expo_mono:
  assumes "0 < x" and "x \<le> y"
  shows "expo x \<le> expo y"
proof -
  have "2 powi (expo x) < (2 powi (expo y + 1) :: rat)"
    using expo_bounds(1) [OF assms(1)] expo_bounds(2) [of y] assms by linarith
  then show ?thesis using powi_less2 by fastforce
qed

section \<open>Rounding\<close>

lemma round_even_of_int [simp]: "round_even (of_int n) = n"
  by (simp add: round_even_def)

lemma round_even_near: "\<bar>of_int (round_even x) - x\<bar> \<le> 1 / 2"
  unfolding round_even_def Let_def by (auto simp: abs_if) (linarith+)

lemma round_even_mono: "x \<le> y \<Longrightarrow> round_even x \<le> round_even y"
proof (cases "\<lfloor>x\<rfloor> = \<lfloor>y\<rfloor>")
  case False
  assume "x \<le> y"
  then have "\<lfloor>x\<rfloor> + 1 \<le> \<lfloor>y\<rfloor>" using False floor_mono by fastforce
  moreover have "round_even x \<le> \<lfloor>x\<rfloor> + 1" "\<lfloor>y\<rfloor> \<le> round_even y" by (simp_all add: round_even_def Let_def)
  ultimately show ?thesis by linarith
qed (auto simp: round_even_def Let_def)

lemma round_even_minus: "round_even (- x) = - round_even x"
proof (cases "x = of_int \<lfloor>x\<rfloor>")
  case True
  then have "round_even (- of_int \<lfloor>x\<rfloor>) = - round_even (of_int \<lfloor>x\<rfloor>)"
    using round_even_of_int [of "- \<lfloor>x\<rfloor>"] round_even_of_int [of "\<lfloor>x\<rfloor>"] by simp
  with True show ?thesis by simp
next
  case False
  then have "\<lceil>x\<rceil> = \<lfloor>x\<rfloor> + 1" by (metis ceiling_altdef)
  then have "\<lfloor>- x\<rfloor> = - \<lfloor>x\<rfloor> - 1" by (simp add: floor_minus)
  then show ?thesis by (auto simp: round_even_def Let_def)
qed

lemma fl_0 [simp]: "fl 0 = 0"
  by (simp add: fl_def)

lemma fl_minus: "fl (- x) = - fl x"
  by (simp add: fl_def Let_def round_even_minus)

lemma fl_pos_bounds:
  assumes "0 < x"
  shows "2 powi (expo x) \<le> fl x" and "fl x \<le> 2 powi (expo x + 1)"
proof -
  let ?u = "2 powi (expo x - 52) :: rat"
  have u: "0 < ?u" by simp
  have lo: "of_int (2 ^ 52) * ?u = 2 powi (expo x)" and hi: "of_int (2 ^ 53) * ?u = 2 powi (expo x + 1)"
    by (simp_all add: power_int_diff power_int_add field_simps)
  have "(of_int (2 ^ 52) :: rat) \<le> x / ?u" "x / ?u \<le> of_int (2 ^ 53)"
    using expo_bounds [OF assms] u lo hi by (simp_all add: pos_le_divide_eq pos_divide_le_eq)
  then have "2 ^ 52 \<le> round_even (x / ?u)" "round_even (x / ?u) \<le> 2 ^ 53"
    by (metis round_even_mono round_even_of_int)+
  then have "of_int (2 ^ 52) * ?u \<le> of_int (round_even (x / ?u)) * ?u" "of_int (round_even (x / ?u)) * ?u \<le> of_int (2 ^ 53) * ?u"
    using u by (simp_all only: mult_le_cancel_right_pos of_int_le_iff)
  then show "2 powi (expo x) \<le> fl x" "fl x \<le> 2 powi (expo x + 1)"
    unfolding lo hi using assms by (simp_all add: fl_def Let_def)
qed

lemma fl_pos: "0 < x \<Longrightarrow> 0 < fl x"
  using fl_pos_bounds(1) [of x] zero_less_power_int [of "2 :: rat" "expo x"] by linarith

lemma fl_mono_pos:
  assumes "0 < x" and "x \<le> y"
  shows "fl x \<le> fl y"
proof (cases "expo x = expo y")
  case True
  then show ?thesis using assms
    by (simp add: fl_def Let_def mult_right_mono round_even_mono divide_right_mono)
next
  case False
  then have "expo x + 1 \<le> expo y" using expo_mono [OF assms] by linarith
  then have "fl x \<le> 2 powi (expo y)" using fl_pos_bounds(2) [OF assms(1)] powi_mono2 order_trans by blast
  also have "\<dots> \<le> fl y" using assms fl_pos_bounds(1) [of y] by simp
  finally show ?thesis .
qed

lemma fl_mono: "x \<le> y \<Longrightarrow> fl x \<le> fl y"
proof -
  assume xy: "x \<le> y"
  consider "0 < x" | "x \<le> 0" "0 \<le> y" | "y < 0" using xy by linarith
  then show ?thesis
  proof cases
    case 2
    have "fl x \<le> 0" using 2(1) fl_pos [of "- x"] by (cases "x = 0") (auto simp: fl_minus)
    moreover have "0 \<le> fl y" using 2(2) fl_pos [of y] by (cases "y = 0") auto
    ultimately show ?thesis by linarith
  next
    case 3
    then show ?thesis using fl_mono_pos [of "- y" "- x"] xy by (simp add: fl_minus)
  qed (use xy fl_mono_pos in auto)
qed

lemma fl_nonneg: "0 \<le> x \<Longrightarrow> 0 \<le> fl x"
  using fl_mono [of 0 x] by simp

text \<open>An integer of at most 53 bits is a \<open>float64\<close>.\<close>

lemma fl_dyadic:
  assumes "0 < n" and "n < 2 ^ 53"
  shows "fl (of_int n / 2 ^ j) = of_int n / 2 ^ j"
proof -
  define x :: rat where "x = of_int n / 2 ^ j"
  have x: "0 < x" using assms by (simp add: x_def)
  have "(of_int n :: rat) < of_int (2 ^ 53)" using assms(2) by (simp only: of_int_less_iff)
  then have "x < 2 ^ 53 / 2 ^ j" by (simp add: x_def divide_strict_right_mono)
  also have "\<dots> = 2 powi (53 - int j)" by (simp add: power_int_diff)
  finally have "2 powi (expo x) < (2 powi (53 - int j) :: rat)" using expo_bounds(1) [OF x] by linarith
  then have "expo x + int j \<le> 52" using powi_less2 by fastforce
  then obtain k where "52 - expo x - int j = int k"
    using zero_le_imp_eq_int [of "52 - expo x - int j"] by auto
  then have k: "52 - expo x = int (k + j)" by simp
  have "x / 2 powi (expo x - 52) = x * 2 powi (52 - expo x)"
    by (metis divide_inverse minus_diff_eq power_int_minus)
  also have "\<dots> = of_int (n * 2 ^ k)"
    unfolding k power_int_of_nat by (simp add: x_def power_add)
  finally have q: "x / 2 powi (expo x - 52) = of_int (n * 2 ^ k)" .
  have "fl x = of_int (n * 2 ^ k) * 2 powi (expo x - 52)"
    using x q round_even_of_int [of "n * 2 ^ k"] by (simp add: fl_def Let_def)
  also have "\<dots> = x" unfolding q [symmetric] by simp
  finally show ?thesis by (simp add: x_def)
qed

lemma fl_of_int: "\<bar>n\<bar> < 2 ^ 53 \<Longrightarrow> fl (of_int n) = of_int n"
  using fl_dyadic [of n 0] fl_dyadic [of "- n" 0] fl_minus [of "of_int n"]
  by (cases "n = 0"; cases "0 < n") auto

lemma float64_exact: "\<bar>n\<bar> < 2 ^ 53 \<Longrightarrow> float64 n = of_int n"
  by (simp add: float64_def fl_of_int)

text \<open>The error of one operation: half a unit in the last place.\<close>

lemma fl_error:
  assumes "0 < x"
  shows "\<bar>fl x - x\<bar> \<le> x / 2 ^ 53"
proof -
  let ?u = "2 powi (expo x - 52) :: rat"
  have u: "0 < ?u" by simp
  have "fl x - x = (of_int (round_even (x / ?u)) - x / ?u) * ?u"
    using assms u by (simp add: fl_def Let_def field_simps)
  then have "\<bar>fl x - x\<bar> \<le> 1 / 2 * ?u"
    using round_even_near [of "x / ?u"] u by (simp add: abs_mult mult_right_mono)
  also have "\<dots> = 2 powi (expo x) / 2 ^ 53" by (simp add: power_int_diff field_simps)
  also have "\<dots> \<le> x / 2 ^ 53" using expo_bounds(1) [OF assms] by (simp add: divide_right_mono)
  finally show ?thesis .
qed

lemma trunc_of_int [simp]: "trunc (of_int n) = n"
  by (simp add: trunc_def)

lemma int64_of_int: "- (2 ^ 63) \<le> n \<Longrightarrow> n < 2 ^ 63 \<Longrightarrow> int64_of (of_int n) = n"
  by (simp add: int64_of_def)

text \<open>Rounding to an integer and the rounding of the format do not interfere as long as the value is
  not so close to a tie that it is rounded onto it.\<close>

lemma math_Round_fl:
  assumes "0 \<le> x" and "x < 2 ^ 51" and "\<And>k. x \<noteq> of_int k + 1 / 2 \<Longrightarrow> x / 2 ^ 53 < \<bar>x - (of_int k + 1 / 2)\<bar>"
  shows "math_Round (fl x) = of_int \<lfloor>x + 1 / 2\<rfloor>"
proof (cases "x = 0")
  case False
  with assms(1) have pos: "0 < x" by simp
  have err: "\<bar>fl x - x\<bar> \<le> x / 2 ^ 53" using pos by (rule fl_error)
  define n where "n = \<lfloor>x + 1 / 2\<rfloor>"
  have n: "of_int n \<le> x + 1 / 2" "x + 1 / 2 < of_int n + 1" unfolding n_def by linarith+
  have low: "of_int n \<le> fl x + 1 / 2"
  proof (cases "x = of_int (n - 1) + 1 / 2")
    case True
    then have x: "x = of_int (2 * n - 1) / 2 ^ 1" by (simp add: field_simps)
    have "(of_int (2 * n - 1) :: rat) < of_int (2 ^ 53)" "(0::rat) < of_int (2 * n - 1)" using x assms(2) pos by simp_all
    then have "0 < 2 * n - 1" "2 * n - 1 < 2 ^ 53" by (simp_all only: of_int_less_iff of_int_0_less_iff)
    then have "fl x = x" unfolding x by (rule fl_dyadic)
    then show ?thesis using n by simp
  next
    case False
    then show ?thesis using assms(3) [of "n - 1"] err n by (simp add: abs_if split: if_splits)
  qed
  have "x \<noteq> of_int n + 1 / 2" using n by linarith
  then have "fl x + 1 / 2 < of_int n + 1" using assms(3) [of n] err n by (simp add: abs_if split: if_splits)
  with low have "\<lfloor>fl x + 1 / 2\<rfloor> = n" by (simp add: floor_eq_iff)
  then show ?thesis using fl_pos [OF pos] by (simp add: math_Round_def n_def)
qed (simp add: math_Round_def)

end
