(* ===== verification/TunnelHealth.thy ===== *)
theory TunnelHealth
  imports Prelude Float64 "HOL-Library.Sublist" "HOL-Library.List_Lexorder" "HOL-Library.Char_ord"
begin

text \<open>
  The WireGuard tunnel monitor (\<open>internal/tunnelhealth/monitor.go\<close>): one entry per tracked
  tunnel with a hysteresis over consecutive probe results. The injected functions of \<open>Options\<close>
  enter as arguments: what \<open>Discover\<close> returns, when \<open>Now\<close> is called, and in which order the
  probe goroutines deliver their results.
\<close>

section \<open>State\<close>

record Options =
  opt_Interval :: duration
  opt_DownAfter :: int
  opt_UpAfter :: int
  opt_ProbeTimeout :: duration

text \<open>What a probe returns: a round-trip time, or an error that may be \<open>ErrMissing\<close>.\<close>

datatype probe_result = ProbeOk duration | ProbeErr bool string

record entry =
  e_Name :: string
  e_Present :: bool
  e_Up :: bool
  e_Probed :: bool
  e_RTT :: duration
  e_Error :: string
  e_CheckedAt :: instant
  e_Since :: instant
  e_okStreak :: int
  e_failStreak :: int

record Monitor =
  mo_opts :: Options
  mo_entries :: "(string, entry) gomap"
  mo_watched :: "string list"

section \<open>Operations\<close>

text \<open>Durations are nanoseconds.\<close>

definition Monitor_New :: "Options \<Rightarrow> Monitor" where
  "Monitor_New opts =
     \<lparr>mo_opts =
        \<lparr>opt_Interval = (if opt_Interval opts \<le> 0 then 5 * 1000000000 else opt_Interval opts),
         opt_DownAfter = (if opt_DownAfter opts \<le> 0 then 2 else opt_DownAfter opts),
         opt_UpAfter = (if opt_UpAfter opts \<le> 0 then 3 else opt_UpAfter opts),
         opt_ProbeTimeout = (if opt_ProbeTimeout opts \<le> 0 then 4 * 1000000000 else opt_ProbeTimeout opts)\<rparr>,
      mo_entries = [], mo_watched = []\<rparr>"

definition Monitor_Watch :: "Monitor \<Rightarrow> string list \<Rightarrow> Monitor" where
  "Monitor_Watch m names = m\<lparr>mo_watched := remdups (filter (\<lambda>n. n \<noteq> []) names)\<rparr>"

definition trackedNames :: "Monitor \<Rightarrow> string list \<Rightarrow> string list" where
  "trackedNames m discovered = sort (remdups (discovered @ mo_watched m))"

definition new_entry :: "string \<Rightarrow> instant \<Rightarrow> entry" where
  "new_entry name now =
     \<lparr>e_Name = name, e_Present = False, e_Up = False, e_Probed = False, e_RTT = 0, e_Error = [],
      e_CheckedAt = 0, e_Since = now, e_okStreak = 0, e_failStreak = 0\<rparr>"

text \<open>The body of \<open>record\<close> after the entry was found or created.\<close>

definition record_entry :: "Options \<Rightarrow> bool \<Rightarrow> instant \<Rightarrow> probe_result \<Rightarrow> entry \<Rightarrow> entry" where
  "record_entry opts first now r e =
     (let wasUp = e_Up e;
          e1 = e\<lparr>e_CheckedAt := now\<rparr>;
          e2 = (case r of
                  ProbeOk rtt \<Rightarrow>
                    (let a = e1\<lparr>e_Present := True, e_RTT := rtt, e_Error := [],
                                e_okStreak := e_okStreak e1 + 1, e_failStreak := 0\<rparr>
                     in if first \<or> (\<not> e_Up a \<and> opt_UpAfter opts \<le> e_okStreak a)
                        then a\<lparr>e_Up := True\<rparr> else a)
                | ProbeErr missing msg \<Rightarrow>
                    (let a = e1\<lparr>e_Present := \<not> missing, e_RTT := 0, e_Error := msg,
                                e_failStreak := e_failStreak e1 + 1, e_okStreak := 0\<rparr>
                     in if first \<or> missing \<or> (e_Up a \<and> opt_DownAfter opts \<le> e_failStreak a)
                        then a\<lparr>e_Up := False\<rparr> else a));
          e3 = e2\<lparr>e_Probed := True\<rparr>
      in if e_Up e3 \<noteq> wasUp \<or> first then e3\<lparr>e_Since := now\<rparr> else e3)"

definition record_probe :: "Monitor \<Rightarrow> string \<times> instant \<times> probe_result \<Rightarrow> Monitor" where
  "record_probe m x =
     (case x of (name, now, r) \<Rightarrow>
        (let e = map_of (mo_entries m) name;
             first = (e = None);
             e0 = (case e of None \<Rightarrow> new_entry name now | Some e' \<Rightarrow> e')
         in m\<lparr>mo_entries := mput name (record_entry (mo_opts m) first now r e0) (mo_entries m)\<rparr>))"

text \<open>One round: every tracked tunnel is probed once, the results are recorded in the order they
  arrive, and entries of tunnels no longer tracked are dropped.\<close>

definition Monitor_Tick :: "Monitor \<Rightarrow> string list \<Rightarrow> (string \<times> instant \<times> probe_result) list \<Rightarrow> Monitor" where
  "Monitor_Tick m discovered arrivals =
     (let names = trackedNames m discovered; m1 = foldl record_probe m arrivals
      in m1\<lparr>mo_entries := filter (\<lambda>(n, e). n \<in> set names) (mo_entries m1)\<rparr>)"

definition Monitor_Up :: "Monitor \<Rightarrow> string \<Rightarrow> bool" where
  "Monitor_Up m name =
     (case map_of (mo_entries m) name of
        None \<Rightarrow> True
      | Some e \<Rightarrow> if \<not> e_Probed e then True else e_Up e)"

definition Monitor_Status :: "Monitor \<Rightarrow> string \<Rightarrow> entry option" where
  "Monitor_Status m name = map_of (mo_entries m) name"

text \<open>\<open>hostmetrics.TunnelHealth\<close>; the round-trip time is a \<open>float64\<close> of milliseconds.\<close>

record TunnelHealth =
  th_Present :: bool
  th_Up :: bool
  th_ProbeMs :: "rat option"
  th_Error :: string
  th_FallbackActive :: bool

definition Monitor_Health :: "Monitor \<Rightarrow> string list \<Rightarrow> (string, TunnelHealth) gomap" where
  "Monitor_Health m discovered =
     map (\<lambda>(name, e). (name, \<lparr>th_Present = e_Present e, th_Up = e_Up e,
           th_ProbeMs = (if e_Up e \<and> 0 < e_RTT e then Some (fl (float64 (e_RTT e div 1000) / 1000)) else None),
           th_Error = e_Error e, th_FallbackActive = False\<rparr>))
       (filter (\<lambda>(name, e). name \<in> set discovered \<and> e_Probed e) (mo_entries m))"

section \<open>Invariant\<close>

definition entry_inv :: "Options \<Rightarrow> entry \<Rightarrow> bool" where
  "entry_inv opts e \<longleftrightarrow>
     e_Probed e \<and> 0 \<le> e_okStreak e \<and> 0 \<le> e_failStreak e \<and>
     (0 < e_okStreak e \<longleftrightarrow> e_failStreak e = 0) \<and>
     (e_Up e \<longrightarrow> e_failStreak e < opt_DownAfter opts) \<and>
     (\<not> e_Up e \<longrightarrow> e_okStreak e < opt_UpAfter opts) \<and>
     (e_Up e \<longrightarrow> e_Present e) \<and> (0 < e_failStreak e \<longrightarrow> e_RTT e = 0)"

definition opts_ok :: "Options \<Rightarrow> bool" where
  "opts_ok opts \<longleftrightarrow> 0 < opt_DownAfter opts \<and> 0 < opt_UpAfter opts"

definition monitor_inv :: "Monitor \<Rightarrow> bool" where
  "monitor_inv m \<longleftrightarrow>
     opts_ok (mo_opts m) \<and> wf_map (mo_entries m) \<and>
     (\<forall>(n, e) \<in> set (mo_entries m). entry_inv (mo_opts m) e \<and> e_Name e = n)"

lemma opts_ok_New [simp]: "opts_ok (mo_opts (Monitor_New opts))"
  by (simp add: Monitor_New_def opts_ok_def)

lemma monitor_inv_New: "monitor_inv (Monitor_New opts)"
  by (simp add: monitor_inv_def) (simp add: Monitor_New_def)

lemmas record_entry_simps = record_entry_def Let_def entry_inv_def opts_ok_def

lemma record_entry_inv:
  assumes "opts_ok opts" and "first \<or> entry_inv opts e"
    and "first \<Longrightarrow> e_okStreak e = 0 \<and> e_failStreak e = 0"
  shows "entry_inv opts (record_entry opts first now r e)"
proof (cases r)
  case (ProbeOk rtt)
  with assms show ?thesis by (cases first) (auto simp: record_entry_simps)
next
  case (ProbeErr missing msg)
  with assms show ?thesis by (cases first) (auto simp: record_entry_simps)
qed

lemma record_entry_frame [simp]: "e_Name (record_entry opts first now r e) = e_Name e"
  by (simp add: record_entry_def Let_def split: probe_result.splits)

lemma record_probe_frame [simp]:
  "mo_opts (record_probe m x) = mo_opts m" "mo_watched (record_probe m x) = mo_watched m"
  by (simp_all add: record_probe_def Let_def split: prod.splits)

lemma monitor_inv_record [state_inv]:
  assumes "monitor_inv m"
  shows "monitor_inv (record_probe m x)"
proof -
  obtain name now r where x: "x = (name, now, r)" by (cases x)
  have wf: "wf_map (mo_entries m)" and opts: "opts_ok (mo_opts m)"
    using assms by (auto simp: monitor_inv_def)
  define e where "e = (case map_of (mo_entries m) name of None \<Rightarrow> new_entry name now | Some e' \<Rightarrow> e')"
  define new where "new = record_entry (mo_opts m) (map_of (mo_entries m) name = None) now r e"
  have old: "entry_inv (mo_opts m) e' \<and> e_Name e' = n" if "map_of (mo_entries m) n = Some e'" for n e'
    using assms map_of_SomeD [OF that] by (auto simp: monitor_inv_def)
  have "entry_inv (mo_opts m) new" unfolding new_def
    by (rule record_entry_inv [OF opts]) (auto simp: e_def new_entry_def old split: option.splits)
  moreover have "e_Name new = name"
    by (auto simp: new_def e_def new_entry_def old split: option.splits)
  moreover have "mo_entries (record_probe m x) = mput name new (mo_entries m)"
    by (simp add: record_probe_def x Let_def new_def e_def)
  moreover have "entry_inv (mo_opts m) e' \<and> e_Name e' = n"
    if "(n, e') \<in> set (mput name new (mo_entries m))" for n e'
    using map_of_wf_eq [OF wf_map_put [OF wf], of name new n e'] that old calculation(1,2)
    by (auto split: if_splits)
  ultimately show ?thesis using wf opts by (auto simp: monitor_inv_def)
qed

lemma monitor_inv_records: "monitor_inv m \<Longrightarrow> monitor_inv (foldl record_probe m xs)"
  by (induction xs arbitrary: m) (auto intro: state_inv)

lemma monitor_inv_Tick [state_inv]: "monitor_inv m \<Longrightarrow> monitor_inv (Monitor_Tick m discovered arrivals)"
  using monitor_inv_records [of m arrivals] by (auto simp: Monitor_Tick_def Let_def monitor_inv_def)

lemma monitor_inv_Watch [state_inv]: "monitor_inv m \<Longrightarrow> monitor_inv (Monitor_Watch m names)"
  by (simp add: Monitor_Watch_def monitor_inv_def)

section \<open>Runs of results for one tunnel\<close>

fun is_ok :: "probe_result \<Rightarrow> bool" where
  "is_ok (ProbeOk rtt) = True"
| "is_ok (ProbeErr missing msg) = False"

fun is_fail :: "probe_result \<Rightarrow> bool" where
  "is_fail (ProbeOk rtt) = False"
| "is_fail (ProbeErr missing msg) = (\<not> missing)"

definition record_all :: "Options \<Rightarrow> entry \<Rightarrow> (instant \<times> probe_result) list \<Rightarrow> entry" where
  "record_all opts e rs = foldl (\<lambda>e (now, r). record_entry opts False now r e) e rs"

lemma record_all_simps [simp]:
  "record_all opts e [] = e"
  "record_all opts e ((now, r) # rs) = record_all opts (record_entry opts False now r e) rs"
  "record_all opts e (rs @ [(now, r)]) = record_entry opts False now r (record_all opts e rs)"
  by (simp_all add: record_all_def)

lemma record_next_inv:
  "opts_ok opts \<Longrightarrow> entry_inv opts e \<Longrightarrow> entry_inv opts (record_entry opts False now r e)"
  by (rule record_entry_inv) simp_all

lemma record_all_inv: "opts_ok opts \<Longrightarrow> entry_inv opts e \<Longrightarrow> entry_inv opts (record_all opts e rs)"
proof (induction rs arbitrary: e)
  case (Cons x rs)
  then show ?case by (cases x) (simp add: record_next_inv)
qed simp

lemma record_ok [simp]:
  "e_Up (record_entry opts False now (ProbeOk rtt) e) \<longleftrightarrow> e_Up e \<or> opt_UpAfter opts \<le> e_okStreak e + 1"
  "e_okStreak (record_entry opts False now (ProbeOk rtt) e) = e_okStreak e + 1"
  "e_failStreak (record_entry opts False now (ProbeOk rtt) e) = 0"
  by (auto simp: record_entry_def Let_def)

lemma record_err [simp]:
  "e_Up (record_entry opts False now (ProbeErr missing msg) e) \<longleftrightarrow>
     e_Up e \<and> \<not> missing \<and> e_failStreak e + 1 < opt_DownAfter opts"
  "e_failStreak (record_entry opts False now (ProbeErr missing msg) e) = e_failStreak e + 1"
  "e_okStreak (record_entry opts False now (ProbeErr missing msg) e) = 0"
  by (auto simp: record_entry_def Let_def)

lemma record_all_failing:
  "opts_ok opts \<Longrightarrow> entry_inv opts e \<Longrightarrow> list_all (\<lambda>x. is_fail (snd x)) rs \<Longrightarrow>
    e_Up (record_all opts e rs) \<longleftrightarrow>
      e_Up e \<and> e_failStreak e + int (length rs) < opt_DownAfter opts"
proof (induction rs arbitrary: e)
  case Nil
  then show ?case by (auto simp: entry_inv_def)
next
  case (Cons x rs)
  then obtain now msg where x: "x = (now, ProbeErr False msg)"
    by (cases x; cases "snd x") auto
  show ?case
    using Cons.IH [OF Cons.prems(1) record_next_inv [OF Cons.prems(1,2), of now "snd x"]]
      Cons.prems x by (auto simp: algebra_simps)
qed

lemma record_all_good:
  "opts_ok opts \<Longrightarrow> entry_inv opts e \<Longrightarrow> list_all (\<lambda>x. is_ok (snd x)) rs \<Longrightarrow>
    e_Up (record_all opts e rs) \<longleftrightarrow>
      e_Up e \<or> opt_UpAfter opts \<le> e_okStreak e + int (length rs)"
proof (induction rs arbitrary: e)
  case Nil
  then show ?case by (auto simp: entry_inv_def)
next
  case (Cons x rs)
  then obtain now rtt where x: "x = (now, ProbeOk rtt)"
    by (cases x; cases "snd x") auto
  show ?case
    using Cons.IH [OF Cons.prems(1) record_next_inv [OF Cons.prems(1,2), of now "snd x"]]
      Cons.prems x by (auto simp: algebra_simps)
qed

text \<open>The success streak is the length of the trailing run of good results.\<close>

lemma okStreak_trailing:
  "e_okStreak e = 0 \<Longrightarrow>
    e_okStreak (record_all opts e rs) = int (length (takeWhile (\<lambda>x. is_ok (snd x)) (rev rs)))"
proof (induction rs rule: rev_induct)
  case (snoc x rs)
  then show ?case by (cases x; cases "snd x") auto
qed simp

lemma sublist_snoc: "sublist ys xs \<Longrightarrow> sublist ys (xs @ [x])"
  unfolding sublist_def by (metis append.assoc)

lemma takeWhile_rev_block:
  assumes "n \<le> length (takeWhile P (rev xs))"
  shows "\<exists>ys. sublist ys xs \<and> length ys = n \<and> list_all P ys"
proof -
  let ?ys = "rev (take n (takeWhile P (rev xs)))"
  have "prefix (take n (takeWhile P (rev xs))) (rev xs)"
    by (meson prefix_order.trans take_is_prefix takeWhile_is_prefix)
  then have "suffix ?ys xs" by (simp add: suffix_to_prefix)
  then have "sublist ?ys xs" by (rule suffix_imp_sublist)
  moreover have "list_all P ?ys"
    by (auto simp: list_all_iff dest: in_set_takeD set_takeWhileD)
  ultimately show ?thesis using assms by (intro exI [of _ ?ys]) auto
qed

lemma recovery_needs_streak:
  assumes "opts_ok opts" and "e_okStreak e = 0" and "\<not> e_Up e"
  shows "e_Up (record_all opts e rs) \<Longrightarrow>
    \<exists>ys. sublist ys rs \<and> int (length ys) = opt_UpAfter opts \<and> list_all (\<lambda>x. is_ok (snd x)) ys"
proof (induction rs rule: rev_induct)
  case Nil
  then show ?case using assms by simp
next
  case (snoc x rs)
  obtain now r where x: "x = (now, r)" by force
  show ?case
  proof (cases "e_Up (record_all opts e rs)")
    case True
    then obtain ys where "sublist ys rs" "int (length ys) = opt_UpAfter opts"
      "list_all (\<lambda>x. is_ok (snd x)) ys" using snoc.IH by blast
    moreover from this(1) have "sublist ys (rs @ [x])" by (rule sublist_snoc)
    ultimately show ?thesis by blast
  next
    case False
    with snoc.prems x obtain rtt where r: "r = ProbeOk rtt"
      by (cases r) auto
    have "opt_UpAfter opts \<le> int (length (takeWhile (\<lambda>x. is_ok (snd x)) (rev (rs @ [x]))))"
      using snoc.prems False x r okStreak_trailing [OF assms(2), of opts "rs @ [x]"] by simp
    then have "nat (opt_UpAfter opts) \<le> length (takeWhile (\<lambda>x. is_ok (snd x)) (rev (rs @ [x])))"
      by linarith
    from takeWhile_rev_block [OF this] assms(1) show ?thesis
      by (auto simp: opts_ok_def)
  qed
qed

section \<open>One round\<close>

definition old_entry :: "Monitor \<Rightarrow> string \<Rightarrow> instant \<Rightarrow> entry" where
  "old_entry m n now = (case map_of (mo_entries m) n of None \<Rightarrow> new_entry n now | Some e \<Rightarrow> e)"

lemma record_probe_lookup:
  "map_of (mo_entries (record_probe m (n, now, r))) k =
    (if k = n then Some (record_entry (mo_opts m) (map_of (mo_entries m) n = None) now r (old_entry m n now))
     else map_of (mo_entries m) k)"
  by (simp add: record_probe_def Let_def old_entry_def)

lemma records_frame [simp]:
  "mo_opts (foldl record_probe m xs) = mo_opts m"
  "mo_watched (foldl record_probe m xs) = mo_watched m"
  by (induction xs arbitrary: m) simp_all

lemma records_lookup:
  "distinct (map fst xs) \<Longrightarrow>
    map_of (mo_entries (foldl record_probe m xs)) k =
      (case map_of xs k of None \<Rightarrow> map_of (mo_entries m) k
       | Some (now, r) \<Rightarrow>
           Some (record_entry (mo_opts m) (map_of (mo_entries m) k = None) now r (old_entry m k now)))"
proof (induction xs arbitrary: m)
  case (Cons x xs)
  obtain n now r where x: "x = (n, now, r)" by (cases x)
  with Cons.prems have "map_of xs n = None" by (simp add: map_of_eq_None_iff)
  with Cons x show ?case
    by (auto simp: record_probe_lookup old_entry_def split: option.splits)
qed simp

section \<open>Correctness\<close>

lemma Tick_status:
  assumes "monitor_inv m" and "mset (map fst arrivals) = mset (trackedNames m discovered)"
  shows "Monitor_Status (Monitor_Tick m discovered arrivals) n =
      (case map_of arrivals n of None \<Rightarrow> None
       | Some (now, r) \<Rightarrow>
           Some (record_entry (mo_opts m) (Monitor_Status m n = None) now r (old_entry m n now))) \<and>
    (map_of arrivals n = None \<longleftrightarrow> n \<notin> set discovered \<union> set (mo_watched m)) \<and>
    monitor_inv (Monitor_Tick m discovered arrivals)"
proof -
  have dist: "distinct (map fst arrivals)"
    using mset_eq_imp_distinct_iff [OF assms(2)] by (simp add: trackedNames_def)
  have names: "fst ` set arrivals = set (trackedNames m discovered)"
    using mset_eq_setD [OF assms(2)] by simp
  have wf: "wf_map (mo_entries (foldl record_probe m arrivals))"
    using monitor_inv_records [OF assms(1)] by (simp add: monitor_inv_def)
  have iff: "map_of arrivals n = None \<longleftrightarrow> n \<notin> set (trackedNames m discovered)" for n
    by (simp add: map_of_eq_None_iff names)
  have "Monitor_Status (Monitor_Tick m discovered arrivals) n =
      (case map_of arrivals n of None \<Rightarrow> None
       | Some (now, r) \<Rightarrow>
           Some (record_entry (mo_opts m) (Monitor_Status m n = None) now r (old_entry m n now)))"
    using iff [of n]
    by (auto simp: Monitor_Status_def Monitor_Tick_def Let_def map_of_filter_values [OF wf]
        records_lookup [OF dist] split: option.splits)
  with iff [of n] monitor_inv_Tick [OF assms(1)] show ?thesis by (auto simp: trackedNames_def)
qed

text \<open>
  A probe round is independent of the order in which the probes answer: whatever permutation of
  the tracked tunnels the results arrive in, every tracked tunnel ends with exactly its own
  result recorded once on its previous entry, every other tunnel is forgotten, and the monitor's
  invariant is kept.
\<close>

theorem Tick_records_each_tunnel_once:
  assumes "monitor_inv m" and "mset (map fst arrivals) = mset (trackedNames m discovered)"
  shows "Monitor_Status (Monitor_Tick m discovered arrivals) n =
      (case map_of arrivals n of None \<Rightarrow> None
       | Some (now, r) \<Rightarrow>
           Some (record_entry (mo_opts m) (Monitor_Status m n = None) now r (old_entry m n now))) \<and>
    (map_of arrivals n = None \<longleftrightarrow> n \<notin> set discovered \<union> set (mo_watched m)) \<and>
    monitor_inv (Monitor_Tick m discovered arrivals)"
  using assms by (rule Tick_status)

theorem Tick_records_each_tunnel_once_witness:
  "Monitor_Status (Monitor_Tick (Monitor_New \<lparr>opt_Interval = 0, opt_DownAfter = 0, opt_UpAfter = 0, opt_ProbeTimeout = 0\<rparr>)
     [''wg1'', ''wg0''] [(''wg1'', 7, ProbeErr True ''gone''), (''wg0'', 8, ProbeOk 5)]) ''wg2'' = None"
proof -
  let ?m = "Monitor_New \<lparr>opt_Interval = 0, opt_DownAfter = 0, opt_UpAfter = 0, opt_ProbeTimeout = 0\<rparr>"
  have "mset (map fst [(''wg1'', 7::int, ProbeErr True ''gone''), (''wg0'', 8, ProbeOk 5)]) =
      mset (trackedNames ?m [''wg1'', ''wg0''])"
    by (simp add: trackedNames_def Monitor_New_def)
  from Tick_records_each_tunnel_once [OF monitor_inv_New this, of "''wg2''"] show ?thesis by simp
qed

text \<open>
  The verdict has hysteresis in both directions. A healthy tunnel (no failure pending) stays up
  under \<open>k\<close> consecutive failed probes exactly while \<open>k < DownAfter\<close>; a down tunnel (no success
  pending) is up after \<open>k\<close> consecutive good probes exactly from \<open>k = UpAfter\<close> on; and a down
  tunnel is never declared up by any mixture of results that does not contain \<open>UpAfter\<close>
  consecutive good ones. A missing interface is down at once.
\<close>

theorem tunnel_hysteresis:
  assumes "opts_ok opts" and "entry_inv opts e"
  shows "(e_Up e \<and> e_failStreak e = 0 \<and> list_all (\<lambda>x. is_fail (snd x)) rs \<longrightarrow>
      (e_Up (record_all opts e rs) \<longleftrightarrow> int (length rs) < opt_DownAfter opts)) \<and>
    (\<not> e_Up e \<and> e_okStreak e = 0 \<and> list_all (\<lambda>x. is_ok (snd x)) rs \<longrightarrow>
      (e_Up (record_all opts e rs) \<longleftrightarrow> opt_UpAfter opts \<le> int (length rs))) \<and>
    (\<not> e_Up e \<and> e_okStreak e = 0 \<and> e_Up (record_all opts e rs) \<longrightarrow>
      (\<exists>ys. sublist ys rs \<and> int (length ys) = opt_UpAfter opts \<and> list_all (\<lambda>x. is_ok (snd x)) ys)) \<and>
    \<not> e_Up (record_entry opts first now (ProbeErr True msg) e)"
  using record_all_failing [OF assms] record_all_good [OF assms] recovery_needs_streak [OF assms(1)]
  by (auto simp: record_entry_def Let_def)

theorem tunnel_hysteresis_witness:
  "\<exists>e. e_Up e \<and> e_Up (record_all \<lparr>opt_Interval = 5, opt_DownAfter = 2, opt_UpAfter = 3, opt_ProbeTimeout = 4\<rparr>
      e [(1, ProbeErr False ''x'')])"
proof -
  let ?o = "\<lparr>opt_Interval = 5, opt_DownAfter = 2, opt_UpAfter = 3, opt_ProbeTimeout = 4\<rparr>"
  let ?e = "record_entry ?o True 0 (ProbeOk 9) (new_entry ''wg0'' 0)"
  have "opts_ok ?o" and "entry_inv ?o ?e" and "e_Up ?e" and "e_failStreak ?e = 0"
    by (simp_all add: record_entry_simps new_entry_def)
  with tunnel_hysteresis [of ?o ?e "[(1, ProbeErr False ''x'')]"] show ?thesis
    by (intro exI [of _ ?e]) simp
qed

section \<open>The health interface\<close>

text \<open>What the fallback supervisor relies on: a tunnel without a verdict counts as usable.\<close>

locale health_provider =
  fixes up :: "'m \<Rightarrow> string \<Rightarrow> bool"
    and verdict :: "'m \<Rightarrow> string \<Rightarrow> bool option"
  assumes up_verdict: "up m iface = (case verdict m iface of None \<Rightarrow> True | Some v \<Rightarrow> v)"
begin

lemma up_unknown: "verdict m iface = None \<Longrightarrow> up m iface"
  by (simp add: up_verdict)

lemma down_iff: "\<not> up m iface \<longleftrightarrow> verdict m iface = Some False"
  by (auto simp: up_verdict split: option.splits)

end

definition Monitor_verdict :: "Monitor \<Rightarrow> string \<Rightarrow> bool option" where
  "Monitor_verdict m iface =
     (case Monitor_Status m iface of Some e \<Rightarrow> if e_Probed e then Some (e_Up e) else None | None \<Rightarrow> None)"

interpretation monitor_health: health_provider Monitor_Up Monitor_verdict
  by unfold_locales
    (simp add: Monitor_Up_def Monitor_verdict_def Monitor_Status_def split: option.splits)

end
