(* ===== verification/Fallback.thy ===== *)
theory Fallback
  imports TunnelHealth
begin

text \<open>
  The fallback supervisor (\<open>internal/nodecore/fallback.go\<close>): it keeps every selector outbound
  on its tunnel member while the tunnel is healthy and on the direct member while it is not. The
  running sing-box instance is third-party code: its outbound manager and selectors are the
  parameter \<open>api\<close>, a record of the three calls the code makes, and what the code relies on is
  \<open>selector_laws\<close>.
\<close>

section \<open>The outbound manager\<close>

text \<open>\<open>box_lookup b tag\<close>: \<open>None\<close> when no outbound has the tag, otherwise whether it is a selector.\<close>

record 'b box_api =
  box_lookup :: "'b \<Rightarrow> string \<Rightarrow> bool option"
  box_select :: "'b \<Rightarrow> string \<Rightarrow> string \<Rightarrow> bool \<times> 'b"
  box_now :: "'b \<Rightarrow> string \<Rightarrow> string"

datatype core_error =
    NoOutbound string
  | NotSelector string
  | NoMember string string

definition selectorGroup :: "'b box_api \<Rightarrow> 'b \<Rightarrow> string \<Rightarrow> core_error option" where
  "selectorGroup api b grp =
     (case box_lookup api b grp of
        None \<Rightarrow> Some (NoOutbound grp)
      | Some is_selector \<Rightarrow> if is_selector then None else Some (NotSelector grp))"

definition SelectOutbound :: "'b box_api \<Rightarrow> 'b \<Rightarrow> string \<Rightarrow> string \<Rightarrow> core_error option \<times> 'b" where
  "SelectOutbound api b grp member =
     (case selectorGroup api b grp of
        Some err \<Rightarrow> (Some err, b)
      | None \<Rightarrow>
          (case box_select api b grp member of
             (ok, b') \<Rightarrow> (if ok then None else Some (NoMember grp member), b')))"

definition SelectedOutbound :: "'b box_api \<Rightarrow> 'b \<Rightarrow> string \<Rightarrow> core_error + string" where
  "SelectedOutbound api b grp =
     (case selectorGroup api b grp of
        Some err \<Rightarrow> Inl err
      | None \<Rightarrow> Inr (box_now api b grp))"

section \<open>The supervisor\<close>

record FallbackGroup =
  fg_Group :: string
  fg_Primary :: string
  fg_Fallback :: string
  fg_Interface :: string

datatype sup_log =
    LogReadSelection string core_error
  | LogSwitch string string core_error
  | LogTunnelDown string string
  | LogTunnelBack string string

record 'b supervisor =
  su_box :: 'b
  su_active :: "(string, bool) gomap"
  su_log :: "sup_log list"

definition active_key :: "string \<Rightarrow> string \<Rightarrow> string" where
  "active_key iface grp = iface @ [CHR 0x00] @ grp"

definition setActive :: "'b supervisor \<Rightarrow> string \<Rightarrow> string \<Rightarrow> bool \<Rightarrow> 'b supervisor" where
  "setActive s iface grp fallback = s\<lparr>su_active := mput (active_key iface grp) fallback (su_active s)\<rparr>"

definition wanted :: "(string \<Rightarrow> bool) \<Rightarrow> FallbackGroup \<Rightarrow> string" where
  "wanted up g = (if \<not> up (fg_Interface g) then fg_Fallback g else fg_Primary g)"

text \<open>One iteration of the loop of \<open>Reconcile\<close>; \<open>foreign\<close> is the optional \<open>Foreign\<close> function.\<close>

definition reconcile_group ::
  "'b box_api \<Rightarrow> (string \<Rightarrow> bool) \<Rightarrow> (string \<Rightarrow> bool) option \<Rightarrow> 'b supervisor \<Rightarrow> FallbackGroup \<Rightarrow> 'b supervisor" where
  "reconcile_group api up foreign s g =
     (let want = wanted up g in
      case SelectedOutbound api (su_box s) (fg_Group g) of
        Inl err \<Rightarrow> s\<lparr>su_log := su_log s @ [LogReadSelection (fg_Group g) err]\<rparr>
      | Inr current \<Rightarrow>
          if current \<noteq> want then
            (case SelectOutbound api (su_box s) (fg_Group g) want of
               (Some err, b') \<Rightarrow>
                 s\<lparr>su_box := b', su_log := su_log s @ [LogSwitch (fg_Group g) want err]\<rparr>
             | (None, b') \<Rightarrow>
                 (let line =
                    (if foreign \<noteq> None \<and> the foreign (fg_Interface g) then []
                     else if want = fg_Fallback g
                     then [LogTunnelDown (fg_Group g) (fg_Interface g)]
                     else [LogTunnelBack (fg_Group g) (fg_Interface g)])
                  in setActive (s\<lparr>su_box := b', su_log := su_log s @ line\<rparr>)
                       (fg_Interface g) (fg_Group g) (want = fg_Fallback g)))
          else setActive s (fg_Interface g) (fg_Group g) (want = fg_Fallback g))"

definition Reconcile ::
  "'b box_api \<Rightarrow> (string \<Rightarrow> bool) \<Rightarrow> (string \<Rightarrow> bool) option \<Rightarrow> FallbackGroup list \<Rightarrow> 'b supervisor \<Rightarrow> 'b supervisor" where
  "Reconcile api up foreign groups s = foldl (reconcile_group api up foreign) s groups"

definition ActiveByInterface :: "FallbackGroup list \<Rightarrow> 'b supervisor \<Rightarrow> (string, bool) gomap" where
  "ActiveByInterface groups s =
     foldl (\<lambda>out g. if mget False (su_active s) (active_key (fg_Interface g) (fg_Group g))
                    then mput (fg_Interface g) True out else out) [] groups"

section \<open>What the code relies on\<close>

text \<open>
  The documented behaviour of sing-box selectors: selecting succeeds exactly for a member, a
  successful selection is what \<open>Now\<close> reports, a failed one changes nothing, and selecting in one
  group leaves every other group, and the set of outbounds and members, as they were.
\<close>

definition selector_laws :: "'b box_api \<Rightarrow> ('b \<Rightarrow> string \<Rightarrow> string \<Rightarrow> bool) \<Rightarrow> bool" where
  "selector_laws api member \<longleftrightarrow>
     (\<forall>b g m ok b'. box_select api b g m = (ok, b') \<longrightarrow>
        (ok \<longleftrightarrow> member b g m) \<and> (\<not> ok \<longrightarrow> b' = b) \<and> (ok \<longrightarrow> box_now api b' g = m) \<and>
        (\<forall>g'. g' \<noteq> g \<longrightarrow> box_now api b' g' = box_now api b g') \<and>
        (\<forall>g'. box_lookup api b' g' = box_lookup api b g') \<and>
        (\<forall>g' m'. member b' g' m' = member b g' m'))"

definition group_usable ::
  "'b box_api \<Rightarrow> ('b \<Rightarrow> string \<Rightarrow> string \<Rightarrow> bool) \<Rightarrow> 'b \<Rightarrow> FallbackGroup \<Rightarrow> bool" where
  "group_usable api member b g \<longleftrightarrow>
     box_lookup api b (fg_Group g) = Some True \<and>
     member b (fg_Group g) (fg_Primary g) \<and> member b (fg_Group g) (fg_Fallback g)"

text \<open>What one iteration does to the selectors: nothing to other groups, nothing to the inventory.\<close>

lemma reconcile_group_frame:
  assumes "selector_laws api member"
  shows "box_lookup api (su_box (reconcile_group api up foreign s g)) t = box_lookup api (su_box s) t \<and>
    member (su_box (reconcile_group api up foreign s g)) t x = member (su_box s) t x \<and>
    (t \<noteq> fg_Group g \<longrightarrow>
      box_now api (su_box (reconcile_group api up foreign s g)) t = box_now api (su_box s) t)"
proof -
  obtain ok b' where sel: "box_select api (su_box s) (fg_Group g) (wanted up g) = (ok, b')" by force
  with assms have "box_lookup api b' t = box_lookup api (su_box s) t" "member b' t x = member (su_box s) t x"
    "t \<noteq> fg_Group g \<Longrightarrow> box_now api b' t = box_now api (su_box s) t"
    unfolding selector_laws_def by blast+
  with sel show ?thesis
    by (auto simp: reconcile_group_def SelectedOutbound_def SelectOutbound_def setActive_def Let_def
        split: option.splits)
qed

lemma reconcile_group_active_other:
  "k \<noteq> active_key (fg_Interface g) (fg_Group g) \<Longrightarrow>
    map_of (su_active (reconcile_group api up foreign s g)) k = map_of (su_active s) k"
  by (auto simp: reconcile_group_def setActive_def Let_def split: option.splits sum.splits prod.splits)

lemma reconcile_group_usable:
  assumes "selector_laws api member" and "group_usable api member (su_box s) g"
  shows "box_now api (su_box (reconcile_group api up foreign s g)) (fg_Group g) = wanted up g \<and>
    map_of (su_active (reconcile_group api up foreign s g)) (active_key (fg_Interface g) (fg_Group g))
      = Some (wanted up g = fg_Fallback g)"
proof -
  obtain ok b' where sel: "box_select api (su_box s) (fg_Group g) (wanted up g) = (ok, b')" by force
  have "member (su_box s) (fg_Group g) (wanted up g)"
    using assms(2) by (simp add: group_usable_def wanted_def)
  then have "ok" and "box_now api b' (fg_Group g) = wanted up g"
    using assms(1) sel unfolding selector_laws_def by blast+
  with sel assms(2) show ?thesis
    by (auto simp: reconcile_group_def SelectedOutbound_def SelectOutbound_def selectorGroup_def
        group_usable_def setActive_def Let_def)
qed

lemma group_usable_frame:
  "selector_laws api member \<Longrightarrow>
    group_usable api member (su_box (reconcile_group api up foreign s g)) h =
    group_usable api member (su_box s) h"
  by (simp add: group_usable_def reconcile_group_frame)

lemma active_key_inject:
  assumes "CHR 0x00 \<notin> set i" and "CHR 0x00 \<notin> set i'"
  shows "active_key i t = active_key i' t' \<longleftrightarrow> i = i' \<and> t = t'"
proof
  assume "active_key i t = active_key i' t'"
  then have "i = i' \<and> CHR 0x00 # t = CHR 0x00 # t'"
    using assms by (auto simp: active_key_def append_eq_append_conv2 append_eq_Cons_conv Cons_eq_append_conv)
  then show "i = i' \<and> t = t'" by simp
qed simp

lemma reconcile_keeps_settled:
  assumes laws: "selector_laws api member"
    and "fg_Group g \<notin> fg_Group ` set hs"
    and nul: "\<forall>h \<in> insert g (set hs). CHR 0x00 \<notin> set (fg_Interface h)"
  shows "box_now api (su_box (foldl (reconcile_group api up foreign) s hs)) (fg_Group g) =
      box_now api (su_box s) (fg_Group g) \<and>
    map_of (su_active (foldl (reconcile_group api up foreign) s hs)) (active_key (fg_Interface g) (fg_Group g))
      = map_of (su_active s) (active_key (fg_Interface g) (fg_Group g))"
  using assms(2) nul
proof (induction hs arbitrary: s)
  case (Cons h hs)
  have "active_key (fg_Interface g) (fg_Group g) \<noteq> active_key (fg_Interface h) (fg_Group h)"
    using Cons.prems active_key_inject [of "fg_Interface g" "fg_Interface h"] by auto
  then have act: "map_of (su_active (reconcile_group api up foreign s h)) (active_key (fg_Interface g) (fg_Group g))
      = map_of (su_active s) (active_key (fg_Interface g) (fg_Group g))"
    by (rule reconcile_group_active_other)
  have "fg_Group g \<noteq> fg_Group h" using Cons.prems by auto
  then have "box_now api (su_box (reconcile_group api up foreign s h)) (fg_Group g) =
      box_now api (su_box s) (fg_Group g)"
    using reconcile_group_frame [OF laws, of up foreign s h] by blast
  with act Cons.IH [of "reconcile_group api up foreign s h"] Cons.prems show ?case by simp
qed simp

lemma Reconcile_settles:
  assumes laws: "selector_laws api member" and "distinct (map fg_Group groups)"
    and "\<forall>h \<in> set groups. CHR 0x00 \<notin> set (fg_Interface h)"
    and "g \<in> set groups" and "group_usable api member (su_box s) g"
  shows "box_now api (su_box (Reconcile api up foreign groups s)) (fg_Group g) = wanted up g \<and>
    map_of (su_active (Reconcile api up foreign groups s)) (active_key (fg_Interface g) (fg_Group g))
      = Some (wanted up g = fg_Fallback g)"
  unfolding Reconcile_def using assms(2-)
proof (induction groups arbitrary: s)
  case (Cons h hs)
  show ?case
  proof (cases "g = h")
    case True
    with Cons.prems have "fg_Group g \<notin> fg_Group ` set hs" by auto
    from reconcile_keeps_settled [OF laws this, of up foreign "reconcile_group api up foreign s g"]
      reconcile_group_usable [OF laws Cons.prems(4), of up foreign] Cons.prems(2) True
    show ?thesis by simp
  next
    case False
    then show ?thesis using Cons.IH [of "reconcile_group api up foreign s h"] Cons.prems
      by (simp add: group_usable_frame [OF laws])
  qed
qed simp

lemma ActiveByInterface_lookup:
  "mget False (ActiveByInterface groups s) iface \<longleftrightarrow>
    (\<exists>g \<in> set groups. fg_Interface g = iface \<and>
       mget False (su_active s) (active_key (fg_Interface g) (fg_Group g)))"
proof -
  have "mget False (foldl (\<lambda>out g. if mget False (su_active s) (active_key (fg_Interface g) (fg_Group g))
        then mput (fg_Interface g) True out else out) out groups) iface \<longleftrightarrow>
      mget False out iface \<or> (\<exists>g \<in> set groups. fg_Interface g = iface \<and>
       mget False (su_active s) (active_key (fg_Interface g) (fg_Group g)))" for out
    by (induction groups arbitrary: out) auto
  then show ?thesis by (simp add: ActiveByInterface_def)
qed

section \<open>Correctness\<close>

text \<open>
  One pass of the supervisor puts every usable exit on the right member, whatever the state of
  the other exits. For a group whose selector runs and has both members, after \<open>Reconcile\<close> the
  selector routes to \<open>Primary\<close> exactly when the health source says its tunnel is up and to
  \<open>Fallback\<close> otherwise, and the tunnel is reported on fallback exactly when one of its exits was
  sent to the fallback; groups that are missing or broken do not disturb the others.
\<close>

theorem Reconcile_routes_by_health:
  assumes "selector_laws api member" and "distinct (map fg_Group groups)"
    and "\<forall>h \<in> set groups. CHR 0x00 \<notin> set (fg_Interface h)"
    and "g \<in> set groups" and "group_usable api member (su_box s) g"
    and "fg_Primary g \<noteq> fg_Fallback g"
  shows "box_now api (su_box (Reconcile api up foreign groups s)) (fg_Group g) =
      (if up (fg_Interface g) then fg_Primary g else fg_Fallback g) \<and>
    (\<not> up (fg_Interface g) \<longrightarrow>
      mget False (ActiveByInterface groups (Reconcile api up foreign groups s)) (fg_Interface g)) \<and>
    ((\<forall>h \<in> set groups. fg_Interface h = fg_Interface g \<longrightarrow>
        group_usable api member (su_box s) h \<and> fg_Primary h \<noteq> fg_Fallback h) \<and> up (fg_Interface g) \<longrightarrow>
      \<not> mget False (ActiveByInterface groups (Reconcile api up foreign groups s)) (fg_Interface g))"
proof -
  let ?s = "Reconcile api up foreign groups s"
  have settle: "box_now api (su_box ?s) (fg_Group h) = wanted up h"
    "mget False (su_active ?s) (active_key (fg_Interface h) (fg_Group h)) = (\<not> up (fg_Interface h))"
    if "h \<in> set groups" "group_usable api member (su_box s) h" "fg_Primary h \<noteq> fg_Fallback h" for h
    using Reconcile_settles [OF assms(1-3) that(1,2), of up foreign] that(3)
    by (auto simp: mget_def wanted_def)
  have "\<not> mget False (ActiveByInterface groups ?s) (fg_Interface g)"
    if all: "\<forall>h \<in> set groups. fg_Interface h = fg_Interface g \<longrightarrow>
        group_usable api member (su_box s) h \<and> fg_Primary h \<noteq> fg_Fallback h" "up (fg_Interface g)"
    unfolding ActiveByInterface_lookup using all settle(2) by metis
  moreover have "mget False (ActiveByInterface groups ?s) (fg_Interface g)" if "\<not> up (fg_Interface g)"
    unfolding ActiveByInterface_lookup using that settle(2) [OF assms(4-6)] assms(4) by blast
  ultimately show ?thesis using settle(1) [OF assms(4-6)] by (simp add: wanted_def)
qed

text \<open>A concrete selector table for the witness: tag, members, selected member.\<close>

definition table_api :: "(string \<Rightarrow> (string list \<times> string) option) box_api" where
  "table_api =
     \<lparr>box_lookup = (\<lambda>b t. map_option (\<lambda>_. True) (b t)),
      box_select = (\<lambda>b t m. case b t of
          Some (ms, cur) \<Rightarrow> if m \<in> set ms then (True, b(t \<mapsto> (ms, m))) else (False, b)
        | None \<Rightarrow> (False, b)),
      box_now = (\<lambda>b t. case b t of Some (ms, cur) \<Rightarrow> cur | None \<Rightarrow> [])\<rparr>"

definition table_member :: "(string \<Rightarrow> (string list \<times> string) option) \<Rightarrow> string \<Rightarrow> string \<Rightarrow> bool" where
  "table_member b t m = (case b t of Some (ms, cur) \<Rightarrow> m \<in> set ms | None \<Rightarrow> False)"

lemma table_laws: "selector_laws table_api table_member"
  by (auto simp: selector_laws_def table_api_def table_member_def split: option.splits if_splits)

theorem Reconcile_routes_by_health_witness:
  "box_now table_api (su_box (Reconcile table_api (\<lambda>i. False) None
      [\<lparr>fg_Group = ''de'', fg_Primary = ''de-wg'', fg_Fallback = ''de-direct'', fg_Interface = ''wg0''\<rparr>]
      \<lparr>su_box = [''de'' \<mapsto> ([''de-wg'', ''de-direct''], ''de-wg'')], su_active = [], su_log = []\<rparr>)) ''de''
    = ''de-direct''"
  using Reconcile_routes_by_health [OF table_laws,
      of "[\<lparr>fg_Group = ''de'', fg_Primary = ''de-wg'', fg_Fallback = ''de-direct'', fg_Interface = ''wg0''\<rparr>]"
        "\<lparr>fg_Group = ''de'', fg_Primary = ''de-wg'', fg_Fallback = ''de-direct'', fg_Interface = ''wg0''\<rparr>"
        "\<lparr>su_box = [''de'' \<mapsto> ([''de-wg'', ''de-direct''], ''de-wg'')], su_active = [], su_log = []\<rparr>"
        "\<lambda>i. False" None]
  by (simp add: group_usable_def table_api_def table_member_def)

end
