(* ===== verification/LogRing.thy ===== *)
theory LogRing
  imports GoStrings
begin

text \<open>
  The two log buffers of the system: the node's (\<open>internal/nodelog/ring.go\<close>) and the panel's
  (\<open>internal/logstream/ring.go\<close>). Both are a fixed slice used as a ring with ids that strictly
  increase, and both answer "everything after this id" by binary search. They promise the same
  contract, the locale \<open>bounded_log\<close>, in which the client lemmas are proved once.
\<close>

section \<open>The ring representation\<close>

definition ring_at :: "'e list \<Rightarrow> nat \<Rightarrow> nat \<Rightarrow> 'e" where
  "ring_at buf start i = buf ! ((start + i) mod length buf)"

definition ring_list :: "'e list \<Rightarrow> nat \<Rightarrow> nat \<Rightarrow> 'e list" where
  "ring_list buf start n = map (ring_at buf start) [0..<n]"

text \<open>The write at the end of both \<open>Add\<close> methods: the new slice, start index and count.\<close>

definition ring_push :: "'e list \<Rightarrow> nat \<Rightarrow> nat \<Rightarrow> 'e \<Rightarrow> 'e list \<times> nat \<times> nat" where
  "ring_push buf start n e =
     (if n < length buf then (buf[(start + n) mod length buf := e], start, n + 1)
      else (buf[start := e], (start + 1) mod length buf, n))"

definition ring_ok :: "'e list \<Rightarrow> nat \<Rightarrow> nat \<Rightarrow> bool" where
  "ring_ok buf start n \<longleftrightarrow> 0 < length buf \<and> start < length buf \<and> n \<le> length buf"

lemma length_ring_list [simp]: "length (ring_list buf start n) = n"
  by (simp add: ring_list_def)

lemma ring_list_nth [simp]: "i < n \<Longrightarrow> ring_list buf start n ! i = ring_at buf start i"
  by (simp add: ring_list_def)

lemma mod_offset_inject:
  assumes "(a + i) mod L = (a + j) mod L" and "i < L" and "j < (L::nat)"
  shows "i = j"
proof (rule ccontr)
  assume "i \<noteq> j"
  then consider "i < j" | "j < i" by linarith
  then show False
  proof cases
    case 1
    then have "L dvd (a + j) - (a + i)" using assms(1) by (metis mod_eq_dvd_iff_nat add_le_cancel_left less_imp_le_nat)
    then show False using 1 assms(3) by (auto dest: dvd_imp_le)
  next
    case 2
    then have "L dvd (a + i) - (a + j)" using assms(1) by (metis mod_eq_dvd_iff_nat add_le_cancel_left less_imp_le_nat)
    then show False using 2 assms(2) by (auto dest: dvd_imp_le)
  qed
qed

lemma ring_push_list:
  assumes ok: "ring_ok buf start n" and push: "ring_push buf start n e = (buf', start', n')"
  shows "ring_list buf' start' n' = lastn (length buf) (ring_list buf start n @ [e])"
    and "ring_ok buf' start' n'" and "length buf' = length buf"
proof -
  let ?L = "length buf"
  have L: "0 < ?L" "start < ?L" "n \<le> ?L" using ok by (auto simp: ring_ok_def)
  show "ring_ok buf' start' n'" and len: "length buf' = ?L"
    using push L by (auto simp: ring_push_def ring_ok_def split: if_splits)
  show "ring_list buf' start' n' = lastn ?L (ring_list buf start n @ [e])"
  proof (cases "n < ?L")
    case True
    then have b: "buf' = buf[(start + n) mod ?L := e]" "start' = start" "n' = n + 1"
      using push by (auto simp: ring_push_def)
    have "ring_list buf' start' n' = ring_list buf start n @ [e]"
    proof (rule nth_equalityI)
      show "ring_list buf' start' n' ! i = (ring_list buf start n @ [e]) ! i"
        if "i < length (ring_list buf' start' n')" for i
        using that b True L mod_offset_inject [of start i ?L n]
        by (auto simp: ring_at_def nth_append nth_list_update less_Suc_eq)
    qed (simp add: b)
    then show ?thesis using True by simp
  next
    case False
    then have b: "buf' = buf[start := e]" "start' = (start + 1) mod ?L" "n' = n" and n: "n = ?L"
      using push L by (auto simp: ring_push_def)
    have "ring_list buf' start' n' = tl (ring_list buf start n) @ [e]"
    proof (rule nth_equalityI)
      show "ring_list buf' start' n' ! i = (tl (ring_list buf start n) @ [e]) ! i"
        if "i < length (ring_list buf' start' n')" for i
      proof (cases "i < ?L - 1")
        case True
        then have "Suc i < ?L" by arith
        then have "(start + Suc i) mod ?L \<noteq> start"
          using mod_offset_inject [of start "Suc i" ?L 0] L by auto
        moreover have "((start + 1) mod ?L + i) mod ?L = (start + Suc i) mod ?L"
          by (simp add: mod_add_left_eq)
        ultimately show ?thesis using True b n L
          by (simp add: ring_at_def nth_append nth_tl nth_list_update)
      next
        case False
        then have i: "i = ?L - 1" using that b n by simp
        have "((start + 1) mod ?L + i) mod ?L = (start + 1 + i) mod ?L" by (rule mod_add_left_eq)
        moreover have "start + 1 + i = start + ?L" using i L by arith
        ultimately have "((start + 1) mod ?L + i) mod ?L = (start + ?L) mod ?L" by (simp only:)
        then have "((start + 1) mod ?L + i) mod ?L = start" using L by simp
        then show ?thesis using i b n L by (simp add: ring_at_def nth_append)
      qed
    qed (use b n L in simp)
    moreover have "lastn ?L (ring_list buf start n @ [e]) = tl (ring_list buf start n) @ [e]"
      using lastn_snoc_full [of "ring_list buf start n" ?L e] n L by simp
    ultimately show ?thesis by simp
  qed
qed

text \<open>On a list with increasing ids, the entries from the searched index on are those after the id,
  and those after the last of the first \<open>n\<close> are the rest.\<close>

lemma filter_eq_drop:
  assumes below: "\<And>i. i < k \<Longrightarrow> i < length xs \<Longrightarrow> \<not> P (xs ! i)"
    and above: "\<And>i. k \<le> i \<Longrightarrow> i < length xs \<Longrightarrow> P (xs ! i)"
  shows "filter P xs = drop k xs"
proof -
  have "filter P (take k xs) = []"
    using below by (auto simp: filter_empty_conv in_set_conv_nth)
  moreover have "filter P (drop k xs) = drop k xs"
    using above by (auto simp: filter_id_conv in_set_conv_nth)
  ultimately show ?thesis by (metis append_take_drop_id filter_append append_Nil)
qed

lemma sorted_ids_less:
  "sorted_wrt (<) (map eid xs) \<Longrightarrow> i < j \<Longrightarrow> j < length xs \<Longrightarrow> (eid (xs ! i) :: int) < eid (xs ! j)"
  using sorted_wrt_nth_less [of "(<)" "map eid xs" i j] by simp

lemma sorted_ids_le:
  "sorted_wrt (<) (map eid xs) \<Longrightarrow> i \<le> j \<Longrightarrow> j < length xs \<Longrightarrow> (eid (xs ! i) :: int) \<le> eid (xs ! j)"
  using sorted_ids_less [of eid xs i j] by (cases "i = j") auto

lemma drop_search_filter:
  fixes eid :: "'e \<Rightarrow> int"
  assumes "sorted_wrt (<) (map eid xs)"
  shows "drop (sort_Search (length xs) (\<lambda>i. after < eid (xs ! i))) xs = filter (\<lambda>e. after < eid e) xs"
proof -
  have mono: "after < eid (xs ! b)" if "a \<le> b" "b < length xs" "after < eid (xs ! a)" for a b
    using that sorted_ids_le [OF assms, of a b] by linarith
  have "filter (\<lambda>e. after < eid e) xs = drop (sort_Search (length xs) (\<lambda>i. after < eid (xs ! i))) xs"
  proof (rule filter_eq_drop)
    show "\<not> after < eid (xs ! i)"
      if "i < sort_Search (length xs) (\<lambda>i. after < eid (xs ! i))" "i < length xs" for i
      using sort_Search_spec(2) [where f = "\<lambda>i. after < eid (xs ! i)"] mono that by blast
    show "after < eid (xs ! i)"
      if "sort_Search (length xs) (\<lambda>i. after < eid (xs ! i)) \<le> i" "i < length xs" for i
      using sort_Search_spec(3) [where f = "\<lambda>i. after < eid (xs ! i)"] mono that by blast
  qed
  then show ?thesis by simp
qed

lemma filter_after_last:
  fixes eid :: "'e \<Rightarrow> int"
  assumes "sorted_wrt (<) (map eid ys)" and "0 < n" and "ys \<noteq> []"
  shows "filter (\<lambda>e. eid (last (take n ys)) < eid e) ys = drop n ys"
proof -
  define j where "j = min n (length ys) - 1"
  have j: "j < length ys" "j < n" "\<And>i. i < n \<Longrightarrow> i < length ys \<Longrightarrow> i \<le> j"
    using assms(2,3) by (cases ys; auto simp: j_def)+
  have "last (take n ys) = ys ! j"
    using assms(2,3) by (simp add: last_conv_nth j_def min.commute)
  moreover have "filter (\<lambda>e. eid (ys ! j) < eid e) ys = drop n ys"
  proof (rule filter_eq_drop)
    show "\<not> eid (ys ! j) < eid (ys ! i)" if "i < n" "i < length ys" for i
      using sorted_ids_le [OF assms(1) j(3) [OF that] j(1)] by simp
    show "eid (ys ! j) < eid (ys ! i)" if "n \<le> i" "i < length ys" for i
      using sorted_ids_less [OF assms(1) _ that(2), of j] j(2) that(1) by simp
  qed
  ultimately show ?thesis by simp
qed

lemma sorted_ids_lastn_snoc:
  fixes eid :: "'e \<Rightarrow> int"
  assumes "sorted_wrt (<) (map eid xs)" and "\<forall>e \<in> set xs. eid e \<le> l" and "l < eid x"
  shows "sorted_wrt (<) (map eid (lastn k (xs @ [x]))) \<and> (\<forall>e \<in> set (lastn k (xs @ [x])). eid e \<le> eid x)"
proof -
  have "sorted_wrt (<) (map eid (xs @ [x]))"
    using assms by (fastforce simp: sorted_wrt_append)
  then have "sorted_wrt (<) (map eid (lastn k (xs @ [x])))"
    by (simp only: lastn_def drop_map [symmetric] sorted_wrt_drop)
  moreover have "\<forall>e \<in> set (xs @ [x]). eid e \<le> eid x" using assms(2,3) by fastforce
  ultimately show ?thesis using set_lastn [of k "xs @ [x]"] by blast
qed

text \<open>The id of a new entry: the clock, or one more than the newest id when the clock is not past it.\<close>

definition next_id :: "int \<Rightarrow> int \<Rightarrow> int" where
  "next_id l now = (if now \<le> l then l + 1 else now)"

lemma next_id_greater: "l < next_id l now"
  by (simp add: next_id_def)

section \<open>The contract\<close>

text \<open>
  \<open>add r x\<close> stores the entry \<open>entry_of r x\<close>; \<open>since r after limit\<close> reads. A reader that keeps
  passing the last id it received is \<open>poll\<close>; a writer may add lines between its reads.
\<close>

datatype 'x log_op = Write 'x | Read int

locale bounded_log =
  fixes contents :: "'r \<Rightarrow> 'e list"
    and cap :: "'r \<Rightarrow> nat"
    and eid :: "'e \<Rightarrow> int"
    and add :: "'r \<Rightarrow> 'x \<Rightarrow> 'r"
    and entry_of :: "'r \<Rightarrow> 'x \<Rightarrow> 'e"
    and since :: "'r \<Rightarrow> int \<Rightarrow> int \<Rightarrow> 'e list"
    and invar :: "'r \<Rightarrow> bool"
  assumes contents_add: "invar r \<Longrightarrow> contents (add r x) = lastn (cap r) (contents r @ [entry_of r x])"
    and cap_add: "invar r \<Longrightarrow> cap (add r x) = cap r"
    and invar_add: "invar r \<Longrightarrow> invar (add r x)"
    and ids_sorted: "invar r \<Longrightarrow> sorted_wrt (<) (map eid (contents r))"
    and since_filter: "invar r \<Longrightarrow> 0 < limit \<Longrightarrow>
      since r after limit = take (nat limit) (filter (\<lambda>e. after < eid e) (contents r))"
begin

lemma invar_run: "invar r \<Longrightarrow> invar (foldl add r xs) \<and> cap (foldl add r xs) = cap r"
  by (induction xs rule: rev_induct) (auto simp: invar_add cap_add)

text \<open>What is held after any writes: the newest \<open>cap\<close> lines, seen through any view that does not
  depend on the id.\<close>

lemma contents_run:
  assumes "invar r" and "length (contents r) \<le> cap r" and view: "\<And>r x. view (entry_of r x) = look x"
  shows "map view (contents (foldl add r xs)) = lastn (cap r) (map view (contents r) @ map look xs)"
proof (induction xs rule: rev_induct)
  case Nil
  then show ?case using assms(2) by simp
next
  case (snoc x xs)
  have map_lastn: "map view (lastn k ys) = lastn k (map view ys)" for k ys
    by (simp add: lastn_def drop_map)
  have "map view (contents (foldl add r (xs @ [x]))) =
      lastn (cap r) (map view (contents (foldl add r xs)) @ [look x])"
    using invar_run [OF assms(1), of xs] by (simp add: contents_add map_lastn view)
  then show ?case using snoc.IH by (simp add: lastn_lastn_snoc)
qed

lemma since_ids_above: "invar r \<Longrightarrow> 0 < limit \<Longrightarrow> e \<in> set (since r after limit) \<Longrightarrow> after < eid e"
  by (auto simp: since_filter dest: in_set_takeD)

lemma since_ids_sorted: "invar r \<Longrightarrow> 0 < limit \<Longrightarrow> sorted_wrt (<) (map eid (since r after limit))"
  using ids_sorted [of r]
  by (auto simp: since_filter sorted_wrt_map take_map intro: sorted_wrt_filter sorted_wrt_take)

definition next_after :: "int \<Rightarrow> 'e list \<Rightarrow> int" where
  "next_after after xs = (if xs = [] then after else eid (last xs))"

text \<open>Two consecutive reads of an unchanged log are one longer read: no gap, no repetition.\<close>

lemma since_resume:
  assumes "invar r" and "0 < k" and "0 < l"
  shows "since r after k @ since r (next_after after (since r after k)) l = since r after (k + l)"
proof -
  define ys where "ys = filter (\<lambda>e. after < eid e) (contents r)"
  define n where "n = nat k"
  have since: "since r a m = take (nat m) (filter (\<lambda>e. a < eid e) (contents r))" if "0 < m" for a m
    using that assms(1) by (rule since_filter [rotated])
  have sorted: "sorted_wrt (<) (map eid ys)"
    using ids_sorted [OF assms(1)] by (auto simp: ys_def sorted_wrt_map intro: sorted_wrt_filter)
  have rest: "filter (\<lambda>e. next_after after (take n ys) < eid e) (contents r) = drop n ys"
  proof (cases "ys = []")
    case True
    then show ?thesis by (simp add: next_after_def ys_def)
  next
    case False
    then have ne: "take n ys \<noteq> []" and n: "0 < n" using assms(2) by (auto simp: n_def)
    have "after < eid (last (take n ys))"
      using last_in_set [OF ne] by (auto simp: ys_def dest: in_set_takeD)
    then have "filter (\<lambda>e. eid (last (take n ys)) < eid e) (contents r) =
        filter (\<lambda>e. eid (last (take n ys)) < eid e) ys"
      by (auto simp: ys_def intro!: filter_cong)
    then show ?thesis using filter_after_last [OF sorted n False] ne by (simp add: next_after_def)
  qed
  have "since r after k = take n ys" using since [OF assms(2)] by (simp add: ys_def n_def)
  moreover have "since r (next_after after (take n ys)) l = take (nat l) (drop n ys)"
    using since [OF assms(3)] rest by simp
  moreover have "since r after (k + l) = take (n + nat l) ys"
    using since [of "k + l" after] assms(2,3) by (simp add: ys_def n_def nat_add_distrib)
  ultimately show ?thesis by (simp add: take_add)
qed

text \<open>With writes in between, a reader still receives strictly increasing ids.\<close>

fun session :: "'r \<Rightarrow> int \<Rightarrow> 'x log_op list \<Rightarrow> 'e list" where
  "session r after [] = []"
| "session r after (Write x # ops) = session (add r x) after ops"
| "session r after (Read k # ops) =
     (let xs = since r after k in xs @ session r (next_after after xs) ops)"

lemma session_increasing:
  "invar r \<Longrightarrow> (\<forall>k. Read k \<in> set ops \<longrightarrow> 0 < k) \<Longrightarrow>
    sorted_wrt (<) (map eid (session r after ops)) \<and> (\<forall>e \<in> set (session r after ops). after < eid e)"
proof (induction ops arbitrary: r after)
  case (Cons x ops)
  show ?case
  proof (cases x)
    case (Write y)
    have "\<forall>k. Read k \<in> set ops \<longrightarrow> 0 < k" using Cons.prems(2) by simp
    then show ?thesis using Cons.IH [OF invar_add [OF Cons.prems(1), of y], of after] Write by simp
  next
    case (Read k)
    define xs where "xs = since r after k"
    have k: "0 < k" using Cons.prems(2) Read by auto
    have s: "sorted_wrt (<) (map eid xs)" "\<forall>e \<in> set xs. after < eid e"
      using since_ids_sorted since_ids_above Cons.prems(1) k by (auto simp: xs_def)
    have IH: "sorted_wrt (<) (map eid (session r (next_after after xs) ops))"
      "\<forall>e \<in> set (session r (next_after after xs) ops). next_after after xs < eid e"
      using Cons.IH [OF Cons.prems(1), of "next_after after xs"] Cons.prems(2) by auto
    have le: "eid e \<le> next_after after xs" if "e \<in> set xs" for e
      using that s(1) by (cases xs rule: rev_cases) (auto simp: next_after_def sorted_wrt_append)
    have ge: "after \<le> next_after after xs"
      using s(2) by (cases xs rule: rev_cases) (auto simp: next_after_def)
    show ?thesis using s IH le ge Read
      by (force simp: Let_def sorted_wrt_append simp flip: xs_def)
  qed
qed simp

end

end
