(* ===== verification/NodeLog.thy ===== *)
theory NodeLog
  imports LogRing "HOL-Library.List_Lexorder" "HOL-Library.Char_ord"
begin

text \<open>
  The node's log path (\<open>internal/nodelog\<close>): the ring of kept lines (\<open>ring.go\<close>), the counters of
  suppressed noise (\<open>aggregate.go\<close>), the recogniser of benign noise (\<open>classify.go\<close>) and the
  capture of the core's output that ties them together (\<open>capture.go\<close>). The clock readings
  (\<open>now\<close>) are arguments; the three regular expressions are written out as matchers (every one
  of them is deterministic: no choice of theirs ever has to be taken back).
\<close>

section \<open>The ring of kept lines\<close>

record Entry =
  ID :: int
  Level :: string
  Text :: string

record Ring =
  r_buf :: "Entry list"
  r_start :: nat
  r_n :: nat
  r_last :: int

definition DefaultRingSize :: int where
  "DefaultRingSize = 5000"

definition maxLineBytes :: nat where
  "maxLineBytes = 16384"

definition zero_Entry :: Entry where
  "zero_Entry = \<lparr>ID = 0, Level = [], Text = []\<rparr>"

definition NewRing :: "int \<Rightarrow> Ring" where
  "NewRing capacity =
     (let capacity = (if capacity \<le> 0 then DefaultRingSize else capacity)
      in \<lparr>r_buf = replicate (nat capacity) zero_Entry, r_start = 0, r_n = 0, r_last = 0\<rparr>)"

text \<open>The loop that moves the cut back to the start of a rune.\<close>

fun rune_cut :: "string \<Rightarrow> nat \<Rightarrow> nat" where
  "rune_cut text 0 = 0"
| "rune_cut text (Suc c) = (if RuneStart (text ! Suc c) then Suc c else rune_cut text c)"

definition cut_line :: "string \<Rightarrow> string" where
  "cut_line text =
     (if length text > maxLineBytes then take (rune_cut text maxLineBytes) text @ ''...(truncated)''
      else text)"

definition Ring_Add :: "Ring \<Rightarrow> instant \<Rightarrow> string \<Rightarrow> string \<Rightarrow> Ring \<times> int" where
  "Ring_Add r now level text =
     (let text = cut_line text;
          id = next_id (r_last r) now;
          e = \<lparr>ID = id, Level = level, Text = text\<rparr>;
          (buf, start, n) = ring_push (r_buf r) (r_start r) (r_n r) e
      in (\<lparr>r_buf = buf, r_start = start, r_n = n, r_last = id\<rparr>, id))"

definition Ring_at :: "Ring \<Rightarrow> nat \<Rightarrow> Entry" where
  "Ring_at r i = ring_at (r_buf r) (r_start r) i"

definition firstAfter :: "Ring \<Rightarrow> int \<Rightarrow> nat" where
  "firstAfter r after = sort_Search (r_n r) (\<lambda>i. ID (Ring_at r i) > after)"

definition Ring_Since :: "Ring \<Rightarrow> int \<Rightarrow> int \<Rightarrow> Entry list" where
  "Ring_Since r after limit =
     (let from = firstAfter r after;
          count = r_n r - from;
          count = (if limit \<ge> 0 \<and> int count > limit then nat limit else count)
      in map (Ring_at r) [from ..< from + count])"

definition Ring_Newest :: "Ring \<Rightarrow> int \<Rightarrow> Entry list" where
  "Ring_Newest r n =
     (let n = (if n > int (r_n r) then int (r_n r) else n);
          n = (if n < 0 then 0 else n)
      in map (Ring_at r) [r_n r - nat n ..< r_n r])"

definition OldestID :: "Ring \<Rightarrow> int" where
  "OldestID r = (if r_n r = 0 then 0 else ID (Ring_at r 0))"

definition NewestID :: "Ring \<Rightarrow> int" where
  "NewestID r = r_last r"

definition Ring_Len :: "Ring \<Rightarrow> nat" where
  "Ring_Len r = r_n r"

text \<open>\<open>jsonTee.Write\<close>: what one write of the agent's own logger adds to the ring.\<close>

definition jsonLevel :: "string \<Rightarrow> string" where
  "jsonLevel line =
     (let head = (if length line > 160 then take 160 line else line);
          levelKey = CHR 0x22 # ''level'' @ [CHR 0x22, CHR '':'', CHR 0x22]
      in case Index head levelKey of
           None \<Rightarrow> ''info''
         | Some i \<Rightarrow>
             (let v = drop (i + length levelKey) head
              in if HasPrefix v ''ERROR'' then ''error''
                 else if HasPrefix v ''WARN'' then ''warn''
                 else if HasPrefix v ''DEBUG'' then ''debug''
                 else ''info''))"

definition jsonTee_Write :: "Ring \<Rightarrow> instant \<Rightarrow> string \<Rightarrow> Ring" where
  "jsonTee_Write r now p =
     foldl (\<lambda>r line.
        let line = TrimRight line [CHR 13]
        in if line = [] then r else fst (Ring_Add r now (jsonLevel line) line))
       r (Split (CHR 10) p)"

section \<open>Invariant of the ring, and its contract\<close>

definition ring_contents :: "Ring \<Rightarrow> Entry list" where
  "ring_contents r = ring_list (r_buf r) (r_start r) (r_n r)"

definition ring_inv :: "Ring \<Rightarrow> bool" where
  "ring_inv r \<longleftrightarrow> ring_ok (r_buf r) (r_start r) (r_n r)
     \<and> sorted_wrt (<) (map ID (ring_contents r)) \<and> (\<forall>e \<in> set (ring_contents r). ID e \<le> r_last r)"

lemma ring_inv_NewRing [state_inv]: "ring_inv (NewRing capacity)"
  by (simp add: ring_inv_def NewRing_def ring_ok_def ring_contents_def ring_list_def Let_def
      DefaultRingSize_def)

lemma Ring_Add_contents:
  assumes "ring_inv r"
  shows "ring_contents (fst (Ring_Add r now level text)) =
      lastn (length (r_buf r)) (ring_contents r @ [\<lparr>ID = next_id (r_last r) now, Level = level, Text = cut_line text\<rparr>])"
    and "ring_inv (fst (Ring_Add r now level text))"
    and "length (r_buf (fst (Ring_Add r now level text))) = length (r_buf r)"
proof -
  define e where "e = \<lparr>ID = next_id (r_last r) now, Level = level, Text = cut_line text\<rparr>"
  obtain buf start n where push: "ring_push (r_buf r) (r_start r) (r_n r) e = (buf, start, n)"
    using prod_cases3 by blast
  have add: "fst (Ring_Add r now level text) = \<lparr>r_buf = buf, r_start = start, r_n = n, r_last = ID e\<rparr>"
    using push by (simp add: Ring_Add_def Let_def e_def)
  have ok: "ring_ok (r_buf r) (r_start r) (r_n r)" using assms by (simp add: ring_inv_def)
  note list = ring_push_list [OF ok push]
  show c: "ring_contents (fst (Ring_Add r now level text)) = lastn (length (r_buf r)) (ring_contents r @ [e])"
    using list(1) add by (simp add: ring_contents_def)
  show "length (r_buf (fst (Ring_Add r now level text))) = length (r_buf r)"
    using list(3) add by simp
  have "r_last r < ID e" by (simp add: e_def next_id_greater)
  then have "sorted_wrt (<) (map ID (lastn (length (r_buf r)) (ring_contents r @ [e])))
      \<and> (\<forall>x \<in> set (lastn (length (r_buf r)) (ring_contents r @ [e])). ID x \<le> ID e)"
    using assms by (intro sorted_ids_lastn_snoc [where l = "r_last r"]) (auto simp: ring_inv_def)
  then show "ring_inv (fst (Ring_Add r now level text))"
    using list(2) c add by (simp add: ring_inv_def)
qed

lemma Ring_Since_filter:
  assumes "ring_inv r" and "0 \<le> limit"
  shows "Ring_Since r after limit = take (nat limit) (filter (\<lambda>e. after < ID e) (ring_contents r))"
proof -
  let ?xs = "ring_contents r" and ?from = "firstAfter r after"
  have len: "length ?xs = r_n r" by (simp add: ring_contents_def)
  have "sort_Search (r_n r) (\<lambda>i. after < ID (Ring_at r i)) = sort_Search (length ?xs) (\<lambda>i. after < ID (?xs ! i))"
    unfolding len by (rule sort_Search_cong) (simp add: ring_contents_def Ring_at_def)
  then have filt: "filter (\<lambda>e. after < ID e) ?xs = drop ?from ?xs"
    using drop_search_filter [of ID ?xs after] assms(1) by (simp add: firstAfter_def ring_inv_def)
  have slice: "map (Ring_at r) [?from ..< ?from + c] = take c (drop ?from ?xs)" if "?from + c \<le> r_n r" for c
    using that by (intro nth_equalityI) (auto simp: len ring_contents_def Ring_at_def)
  have from_le: "?from \<le> r_n r"
    unfolding firstAfter_def by (rule sort_Search_le)
  show ?thesis
  proof (cases "int (r_n r - ?from) > limit")
    case True
    then have "?from + nat limit \<le> r_n r" using assms(2) by linarith
    then show ?thesis using slice [of "nat limit"] True assms(2)
      by (simp add: Ring_Since_def filt Let_def)
  next
    case False
    then have "take (nat limit) (drop ?from ?xs) = drop ?from ?xs"
      using assms(2) len by (intro take_all) simp
    then show ?thesis using slice [of "r_n r - ?from"] False from_le len
      by (simp add: Ring_Since_def filt Let_def)
  qed
qed

type_synonym log_line = "instant \<times> string \<times> string"

definition ring_add_line :: "Ring \<Rightarrow> log_line \<Rightarrow> Ring" where
  "ring_add_line r l = (case l of (now, level, text) \<Rightarrow> fst (Ring_Add r now level text))"

definition ring_entry_of :: "Ring \<Rightarrow> log_line \<Rightarrow> Entry" where
  "ring_entry_of r l =
     (case l of (now, level, text) \<Rightarrow> \<lparr>ID = next_id (r_last r) now, Level = level, Text = cut_line text\<rparr>)"

interpretation node_ring: bounded_log ring_contents "\<lambda>r. length (r_buf r)" ID
  ring_add_line ring_entry_of Ring_Since ring_inv
proof unfold_locales
  show "sorted_wrt (<) (map ID (ring_contents r))" if "ring_inv r" for r
    using that by (simp add: ring_inv_def)
qed (simp_all add: ring_add_line_def ring_entry_of_def Ring_Add_contents Ring_Since_filter split: prod.splits)

section \<open>Counters of suppressed noise\<close>

text \<open>\<open>ag_now k\<close> is the \<open>k\<close>-th reading of the field \<open>now\<close>; \<open>ag_reads\<close> counts the readings.\<close>

record Aggregator =
  ag_window :: "(string, int64) gomap"
  ag_total :: "(string, int64) gomap"
  ag_since :: instant
  ag_now :: "nat \<Rightarrow> instant"
  ag_reads :: nat

record flush_line =
  fl_total :: int64
  fl_window_seconds :: int
  fl_counts :: "(string \<times> int64) list"

definition NewAggregator :: "(nat \<Rightarrow> instant) \<Rightarrow> instant \<Rightarrow> Aggregator" where
  "NewAggregator now start =
     \<lparr>ag_window = [], ag_total = [], ag_since = start, ag_now = now, ag_reads = 0\<rparr>"

definition Agg_Count :: "Aggregator \<Rightarrow> string \<Rightarrow> Aggregator" where
  "Agg_Count a kind =
     a\<lparr>ag_window := mbump kind 1 (ag_window a), ag_total := mbump kind 1 (ag_total a)\<rparr>"

definition Agg_Totals :: "Aggregator \<Rightarrow> (string, int64) gomap" where
  "Agg_Totals a = foldl (\<lambda>out (k, v). mput k v out) [] (ag_total a)"

text \<open>\<open>d.Round(time.Second)/time.Second\<close> of a duration in nanoseconds: halves away from zero.\<close>

definition round_seconds :: "duration \<Rightarrow> int" where
  "round_seconds d =
     (if d < 0 then - ((- d + 500000000) div 1000000000) else (d + 500000000) div 1000000000)"

definition Agg_Flush :: "Aggregator \<Rightarrow> Aggregator \<times> flush_line option" where
  "Agg_Flush a =
     (let window = ag_window a;
          now = ag_now a (ag_reads a);
          elapsed = now - ag_since a;
          a' = a\<lparr>ag_window := [], ag_since := now, ag_reads := ag_reads a + 1\<rparr>
      in if window = [] then (a', None)
         else
           (let kinds = sort (map fst window);
                sum = foldl (\<lambda>s (k, v). s + v) 0 window
            in (a', Some \<lparr>fl_total = sum, fl_window_seconds = round_seconds elapsed,
                          fl_counts = map (\<lambda>k. (k, mget 0 window k)) kinds\<rparr>)))"

definition agg_inv :: "Aggregator \<Rightarrow> bool" where
  "agg_inv a \<longleftrightarrow> wf_map (ag_window a) \<and> wf_map (ag_total a)"

definition agg_drain :: "Aggregator \<Rightarrow> Aggregator \<times> (string \<Rightarrow> int64)" where
  "agg_drain a =
     (case Agg_Flush a of (a', out) \<Rightarrow>
        (a', \<lambda>k. case out of None \<Rightarrow> 0 | Some l \<Rightarrow> mget 0 (fl_counts l) k))"

lemma agg_drain_counts: "snd (agg_drain a) k = mget 0 (ag_window a) k"
proof (cases "ag_window a = []")
  case False
  have "mget 0 (map (\<lambda>k. (k, mget 0 (ag_window a) k)) (sort (map fst (ag_window a)))) k = mget 0 (ag_window a) k"
    using mget_notin [of k "ag_window a" 0]
    by (auto simp: mget_def [of 0 "map _ _"] map_of_tabulate)
  with False show ?thesis by (simp add: agg_drain_def Agg_Flush_def Let_def)
qed (simp add: agg_drain_def Agg_Flush_def)

lemma agg_drain_state: "fst (agg_drain a) =
    a\<lparr>ag_window := [], ag_since := ag_now a (ag_reads a), ag_reads := ag_reads a + 1\<rparr>"
  by (simp add: agg_drain_def Agg_Flush_def Let_def)

interpretation noise_acc: accumulator Agg_Count agg_drain "\<lambda>a. mget 0 (ag_window a)"
  "\<lambda>kind k. if k = kind then 1 else 0" agg_inv
  by unfold_locales
    (simp_all add: agg_drain_counts agg_drain_state Agg_Count_def agg_inv_def)

lemma foldl_mput_total: "wf_map m \<Longrightarrow> fst ` set m \<inter> fst ` set acc = {} \<Longrightarrow>
    foldl (\<lambda>out (k, v). mput k v out) acc m = acc @ m"
proof (induction m arbitrary: acc)
  case (Cons a m)
  obtain k v where a: "a = (k, v)" by force
  have "mput k v acc = acc @ [(k, v)]"
    using Cons.prems(2) a by (intro mput_fresh) auto
  then show ?case using Cons.IH [of "acc @ [(k, v)]"] Cons.prems a
    by (auto simp: wf_map_def)
qed simp

section \<open>Recognising benign noise\<close>

text \<open>\<open>ansiEscape\<close> is \<^verbatim>\<open>\x1b\[[0-9;?]*[ -/]*[@-~]\<close>; every match is removed.\<close>

definition ansi_tail :: "string \<Rightarrow> string option" where
  "ansi_tail s =
     (let r = dropWhile (\<lambda>c. is_digit c \<or> c = CHR '';'' \<or> c = CHR ''?'') s;
          r = dropWhile (\<lambda>c. 32 \<le> byte c \<and> byte c \<le> 47) r
      in case r of [] \<Rightarrow> None
         | c # rest \<Rightarrow> if 64 \<le> byte c \<and> byte c \<le> 126 then Some rest else None)"

lemma ansi_tail_shorter: "ansi_tail s = Some r \<Longrightarrow> length r < length s"
proof -
  assume a: "ansi_tail s = Some r"
  define s1 where "s1 = dropWhile (\<lambda>c. is_digit c \<or> c = CHR '';'' \<or> c = CHR ''?'') s"
  define s2 where "s2 = dropWhile (\<lambda>c. 32 \<le> byte c \<and> byte c \<le> 47) s1"
  have "length r < length s2" using a by (auto simp: ansi_tail_def s1_def s2_def split: list.splits if_splits)
  also have "length s2 \<le> length s" unfolding s2_def s1_def
    by (meson length_dropWhile_le order_trans)
  finally show ?thesis .
qed

function ansi_ReplaceAll :: "string \<Rightarrow> string" where
  "ansi_ReplaceAll s =
     (case s of
        [] \<Rightarrow> []
      | c # rest \<Rightarrow>
          (case (if HasPrefix s [CHR 27, CHR ''[''] then ansi_tail (drop 2 s) else None) of
             Some r \<Rightarrow> ansi_ReplaceAll r
           | None \<Rightarrow> c # ansi_ReplaceAll rest))"
  by pat_completeness auto
termination
  by (relation "measure length")
    (auto split: if_splits dest!: ansi_tail_shorter simp: less_le_trans [OF _ diff_le_self])

declare ansi_ReplaceAll.simps [simp del]

definition StripANSI :: "string \<Rightarrow> string" where
  "StripANSI s = (if \<not> Contains s [CHR 27] then s else ansi_ReplaceAll s)"

text \<open>\<open>linePrefix\<close>: an optional timestamp (\<open>s\<close> stands for a sign and \<open>d\<close> for a digit), the
  level, optional bracketed seconds, and a space. The result is the level's name and the rest.\<close>

definition ts_shape :: string where
  "ts_shape = ''sdddd dddd-dd-dd dd:dd:dd ''"

definition shape_char :: "char \<Rightarrow> char \<Rightarrow> bool" where
  "shape_char p c = (if p = CHR ''s'' then c = CHR ''+'' \<or> c = CHR ''-''
                     else if p = CHR ''d'' then is_digit c else c = p)"

definition skip_timestamp :: "string \<Rightarrow> string" where
  "skip_timestamp line =
     (if length line \<ge> length ts_shape \<and> list_all2 shape_char ts_shape (take (length ts_shape) line)
      then drop (length ts_shape) line else line)"

definition skip_seconds :: "string \<Rightarrow> string" where
  "skip_seconds s =
     (case s of
        [] \<Rightarrow> s
      | c # r \<Rightarrow>
          if c = CHR ''['' \<and> takeWhile is_digit r \<noteq> [] \<and> HasPrefix (dropWhile is_digit r) '']''
          then drop 1 (dropWhile is_digit r) else s)"

definition linePrefix :: "string \<Rightarrow> (string \<times> string) option" where
  "linePrefix line =
     (let s = skip_timestamp line
      in case find (HasPrefix s) [''TRACE'', ''DEBUG'', ''INFO'', ''WARN'', ''ERROR'', ''FATAL'', ''PANIC''] of
           None \<Rightarrow> None
         | Some l \<Rightarrow>
             (let r = skip_seconds (drop (length l) s)
              in if HasPrefix r '' '' then Some (l, drop 1 r) else None))"

definition ParseLine :: "string \<Rightarrow> string \<times> string \<times> bool" where
  "ParseLine line =
     (case linePrefix line of
        None \<Rightarrow> ([], line, False)
      | Some (l, rest) \<Rightarrow>
          ((if l = ''TRACE'' \<or> l = ''DEBUG'' then ''debug''
            else if l = ''INFO'' then ''info''
            else if l = ''WARN'' then ''warn''
            else ''error''), rest, True))"

text \<open>The result of the classifiers: \<open>None\<close> when the line is not benign, else its kind.\<close>

definition benignTail :: "string \<Rightarrow> string option" where
  "benignTail cause =
     (let cause = TrimSpace cause
      in if cause = ''EOF'' \<or> HasSuffix cause '': EOF'' \<or> HasSuffix cause ''unexpected EOF''
         then Some ''client_eof''
         else if Contains cause ''connection reset by peer''
              \<or> Contains cause ''forcibly closed by the remote host'' then Some ''client_reset''
         else if Contains cause ''broken pipe'' then Some ''broken_pipe''
         else if Contains cause ''use of closed network connection'' then Some ''closed_conn''
         else if Contains cause ''context canceled'' then Some ''context_canceled''
         else if Contains cause ''i/o timeout'' \<or> Contains cause ''connection timed out''
         then Some ''client_timeout''
         else None)"

definition isBadHandshake :: "string \<Rightarrow> bool" where
  "isBadHandshake cause \<longleftrightarrow>
     cause = ''bad header'' \<or> cause = ''bad request'' \<or> HasSuffix cause '': fallback disabled''
     \<or> Contains cause ''message authentication failed''"

definition classifyInbound :: "string \<Rightarrow> string option" where
  "classifyInbound rest =
     (case Index rest '': '' of
        None \<Rightarrow> None
      | Some sep \<Rightarrow>
          (let cause = drop (sep + 2) rest
           in if HasPrefix cause ''TLS handshake'' then Some ''tls_handshake''
              else if Contains cause ''unknown UUID'' \<or> Contains cause ''unknown user''
              then Some ''unknown_uuid''
              else if isBadHandshake cause then Some ''bad_handshake''
              else if HasPrefix cause ''flow mismatch'' then Some ''flow_mismatch''
              else if Contains cause ''mux connection closed''
              then (case benignTail cause of Some _ \<Rightarrow> Some ''mux_closed'' | None \<Rightarrow> None)
              else benignTail cause))"

text \<open>\<open>dialLine\<close>: the outbound's type, its tag (empty when it has none) and the cause.\<close>

definition re_space :: "char \<Rightarrow> bool" where
  "re_space c = (c \<in> set [CHR 9, CHR 10, CHR 12, CHR 13, CHR '' ''])"

definition dial_head :: "string \<Rightarrow> string option" where
  "dial_head text =
     (if HasPrefix text ''open connection to ''
      then (let s = drop (length ''open connection to '') text
            in if takeWhile (\<lambda>c. \<not> re_space c) s = [] then None
               else Some (dropWhile (\<lambda>c. \<not> re_space c) s))
      else if HasPrefix text ''listen packet connection using''
      then Some (drop (length ''listen packet connection using'') text)
      else None)"

definition dial_tag :: "string \<Rightarrow> (string \<times> string) option" where
  "dial_tag s =
     (if HasPrefix s ''[''
      then (let tag = takeWhile (\<lambda>c. c \<noteq> CHR '']'') (drop 1 s);
                r = dropWhile (\<lambda>c. c \<noteq> CHR '']'') (drop 1 s)
            in if tag = [] \<or> r = [] then None else Some (tag, drop 1 r))
      else Some ([], s))"

definition dialLine :: "string \<Rightarrow> (string \<times> string \<times> string) option" where
  "dialLine text =
     (case dial_head text of
        None \<Rightarrow> None
      | Some s \<Rightarrow>
          (let u = dropWhile re_space s
           in if takeWhile re_space s = [] \<or> \<not> HasPrefix u ''using outbound/'' then None
              else
                (let v = drop (length ''using outbound/'') u;
                     typeChar = (\<lambda>c. c \<noteq> CHR ''['' \<and> \<not> re_space c \<and> c \<noteq> CHR '':'');
                     m1 = takeWhile typeChar v
                 in if m1 = [] then None
                    else (case dial_tag (dropWhile typeChar v) of
                            None \<Rightarrow> None
                          | Some (m2, r) \<Rightarrow>
                              if HasPrefix r '': '' \<and> CHR 10 \<notin> set (drop 2 r)
                              then Some (m1, m2, drop 2 r) else None))))"

definition isNameNotFound :: "string \<Rightarrow> bool" where
  "isNameNotFound cause \<longleftrightarrow>
     Contains cause ''NXDOMAIN'' \<or> Contains cause ''no such host'' \<or> Contains cause ''server misbehaving''"

definition classifyDial :: "string \<Rightarrow> string option" where
  "classifyDial text =
     (case dialLine text of
        None \<Rightarrow> None
      | Some (m1, m2, cause) \<Rightarrow>
          (let tag = (if m2 = [] then m1 else m2)
           in if HasPrefix cause ''lookup '' \<and> isNameNotFound cause then Some (''dns_failure:'' @ tag)
              else if \<not> Contains cause ''dial '' then None
              else if Contains cause ''i/o timeout'' \<or> Contains cause ''connection timed out''
              then Some (''dial_timeout:'' @ tag)
              else if Contains cause ''connection refused'' \<or> Contains cause ''actively refused''
              then Some (''dial_refused:'' @ tag)
              else if Contains cause ''unreachable'' \<or> Contains cause ''no route to host''
              then Some (''dial_unreachable:'' @ tag)
              else None))"

fun closed_marker :: "string list \<Rightarrow> string \<Rightarrow> string option" where
  "closed_marker [] text = None"
| "closed_marker (marker # ms) text =
     (case Index text marker of
        Some i \<Rightarrow> benignTail (drop (i + length marker) text)
      | None \<Rightarrow> closed_marker ms text)"

definition Classify :: "string \<Rightarrow> string \<Rightarrow> string option" where
  "Classify level text =
     (if level \<noteq> ''error'' \<and> level \<noteq> ''warn'' then None
      else case Index text ''open connection to '' of
        Some i \<Rightarrow> classifyDial (drop i text)
      | None \<Rightarrow>
          (case Index text ''listen packet connection using'' of
             Some i \<Rightarrow> classifyDial (drop i text)
           | None \<Rightarrow>
               (case Index text ''process connection from '' of
                  Some i \<Rightarrow> classifyInbound (drop (i + length ''process connection from '') text)
                | None \<Rightarrow>
                    closed_marker [''connection upload closed: '', ''connection download closed: ''] text)))"

section \<open>The capture\<close>

text \<open>\<open>cp_out\<close> is the sequence of writes to the real error stream. A line needs one clock reading
  when it is kept.\<close>

record Capture =
  cp_ring :: Ring
  cp_agg :: Aggregator
  cp_out :: "string list"
  cp_lastLevel :: string

definition NewCapture :: "Ring \<Rightarrow> Aggregator \<Rightarrow> Capture" where
  "NewCapture ring agg = \<lparr>cp_ring = ring, cp_agg = agg, cp_out = [], cp_lastLevel = ''info''\<rparr>"

definition forward :: "Capture \<Rightarrow> string \<Rightarrow> Capture" where
  "forward c raw = c\<lparr>cp_out := cp_out c @ [raw @ [CHR 10]]\<rparr>"

definition handle :: "Capture \<Rightarrow> instant \<Rightarrow> string \<Rightarrow> Capture" where
  "handle c now raw =
     (let line = StripANSI raw;
          (level, text, parsed) = ParseLine line
      in if parsed
         then (let c1 = c\<lparr>cp_lastLevel := level\<rparr>
               in case Classify level text of
                    Some kind \<Rightarrow> c1\<lparr>cp_agg := Agg_Count (cp_agg c1) kind\<rparr>
                  | None \<Rightarrow> forward (c1\<lparr>cp_ring := fst (Ring_Add (cp_ring c1) now level text)\<rparr>) raw)
         else forward (c\<lparr>cp_ring := fst (Ring_Add (cp_ring c) now (cp_lastLevel c) text)\<rparr>) raw)"

text \<open>\<open>Process\<close> over what \<open>ReadLine\<close> returns (the fragment and \<open>isPrefix\<close>) until it fails.\<close>

fun Process_loop :: "Capture \<Rightarrow> string \<Rightarrow> (instant \<times> string \<times> bool) list \<Rightarrow> instant \<Rightarrow> Capture" where
  "Process_loop c long [] now = (if length long > 0 then handle c now long else c)"
| "Process_loop c long ((t, frag, isPrefix) # reads) now =
     (if isPrefix
      then Process_loop c (if length long < maxLineBytes then long @ frag else long) reads now
      else if length long > 0 then Process_loop (handle c t (long @ frag)) [] reads now
      else Process_loop (handle c t frag) [] reads now)"

definition Process :: "Capture \<Rightarrow> (instant \<times> string \<times> bool) list \<Rightarrow> instant \<Rightarrow> Capture" where
  "Process c reads now = Process_loop c [] reads now"

section \<open>Correctness of the log path\<close>

text \<open>The cut keeps a stored line bounded and well-formed.\<close>

lemma rune_cut_le: "rune_cut text n \<le> n"
  by (induction n) auto

lemma rune_cut_start: "rune_cut text n = 0 \<or> RuneStart (text ! rune_cut text n)"
  by (induction n) auto

lemma cut_line_bounded: "length (cut_line text) \<le> maxLineBytes + 14"
  using rune_cut_le [of "text" maxLineBytes] by (auto simp: cut_line_def)

lemma utf8_Valid_append: "utf8_Valid s \<Longrightarrow> utf8_Valid u \<Longrightarrow> utf8_Valid (s @ u)"
proof (induction s rule: utf8_Valid.induct)
  case (1 s)
  show ?case
  proof (cases "s = []")
    case False
    then have w: "0 < rune_width s" "utf8_Valid (drop (rune_width s) s)"
      using "1.prems"(1) utf8_Valid.simps [of s] by (auto split: if_splits)
    have "rune_width (s @ u) = rune_width s"
      using rune_width_take [of "s @ u" "length s"] w(1)
      by (cases rule: rune_width_shape [OF w(1)]) (simp_all del: rune_width.simps)
    then show ?thesis using "1.IH" [OF False _ w(2) "1.prems"(2)] w False rune_width_le [of s]
      by (subst utf8_Valid.simps) simp
  qed (use 1 in simp)
qed

lemma cut_line_valid: "utf8_Valid text \<Longrightarrow> utf8_Valid (cut_line text)"
proof (cases "length text > maxLineBytes")
  case True
  assume v: "utf8_Valid text"
  have "utf8_Valid (take (rune_cut text maxLineBytes) text)"
  proof (cases "rune_cut text maxLineBytes = 0")
    case False
    then show ?thesis using utf8_Valid_take [OF v] rune_cut_start [of "text" maxLineBytes]
        rune_cut_le [of "text" maxLineBytes] True by auto
  qed (simp add: utf8_Valid.simps)
  moreover have "utf8_Valid ''...(truncated)''" by (rule utf8_Valid_ascii) simp
  ultimately show ?thesis using True by (simp add: cut_line_def utf8_Valid_append)
qed (simp add: cut_line_def)

text \<open>The node's ring, whatever its requested capacity and however the clock jumps: it holds
  exactly the newest lines, in order, each with its level and its (cut) text, under strictly
  increasing ids; no stored text is longer than 16 KiB and the truncation mark, and a cut never
  makes a well-formed text ill-formed.\<close>

theorem node_ring_keeps_newest:
  "let r = foldl ring_add_line (NewRing capacity) lines;
       held = ring_contents r
   in sorted_wrt (<) (map ID held)
      \<and> map (\<lambda>e. (Level e, Text e)) held =
          lastn (if capacity \<le> 0 then 5000 else nat capacity) (map (\<lambda>(now, level, text). (level, cut_line text)) lines)
      \<and> (\<forall>text. length (cut_line text) \<le> 16384 + 14 \<and> (utf8_Valid text \<longrightarrow> utf8_Valid (cut_line text)))"
proof -
  let ?r = "NewRing capacity"
  have inv: "ring_inv ?r" by (rule ring_inv_NewRing)
  have new: "ring_contents ?r = []" "length (r_buf ?r) = (if capacity \<le> 0 then 5000 else nat capacity)"
    by (simp_all add: NewRing_def ring_contents_def ring_list_def DefaultRingSize_def Let_def)
  have "sorted_wrt (<) (map ID (ring_contents (foldl ring_add_line ?r lines)))"
    using node_ring.invar_run [OF inv] node_ring.ids_sorted by blast
  moreover have "map (\<lambda>e. (Level e, Text e)) (ring_contents (foldl ring_add_line ?r lines)) =
      lastn (length (r_buf ?r)) (map (\<lambda>e. (Level e, Text e)) (ring_contents ?r)
        @ map (\<lambda>(now, level, text). (level, cut_line text)) lines)"
    by (rule node_ring.contents_run [OF inv]) (auto simp: new ring_entry_of_def split: prod.splits)
  ultimately show ?thesis
    using cut_line_bounded cut_line_valid by (simp add: Let_def new maxLineBytes_def)
qed

theorem node_ring_keeps_newest_witness:
  "let r = foldl ring_add_line (NewRing 2) [(5, ''info'', ''a''), (5, ''warn'', ''b''), (3, ''info'', ''c'')]
   in map (\<lambda>e. (ID e, Text e)) (ring_contents r) = [(6, ''b''), (7, ''c'')]
      \<and> sorted_wrt (<) (map ID (ring_contents r))"
  using node_ring_keeps_newest [of 2 "[(5, ''info'', ''a''), (5, ''warn'', ''b''), (3, ''info'', ''c'')]"]
  by (simp add: Let_def ring_add_line_def Ring_Add_def next_id_def NewRing_def ring_push_def ring_contents_def
      ring_list_def ring_at_def cut_line_def maxLineBytes_def upt_rec numeral_2_eq_2)

text \<open>A reader of the node's log that passes back the last id it received: two reads with
  nothing written between them are one longer read (no gap, nothing twice), and over any
  interleaving of writes and reads it receives strictly increasing ids above the one it started
  from.\<close>

theorem node_ring_reader_no_gap:
  assumes "0 < k" and "0 < l" and "\<forall>m. Read m \<in> set ops \<longrightarrow> 0 < m"
  shows "let r = foldl ring_add_line (NewRing capacity) lines;
             first = Ring_Since r after k;
             resume = (if first = [] then after else ID (last first));
             received = node_ring.session r after ops
         in first @ Ring_Since r resume l = Ring_Since r after (k + l)
            \<and> sorted_wrt (<) (map ID received) \<and> (\<forall>e \<in> set received. after < ID e)"
proof -
  have inv: "ring_inv (foldl ring_add_line (NewRing capacity) lines)"
    using node_ring.invar_run [OF ring_inv_NewRing] by blast
  show ?thesis
    using node_ring.since_resume [OF inv assms(1,2), of after] node_ring.session_increasing [OF inv assms(3), of after]
    by (simp add: Let_def node_ring.next_after_def)
qed

theorem node_ring_reader_no_gap_witness:
  "let r = foldl ring_add_line (NewRing 4) [(5, ''info'', ''a''), (6, ''info'', ''b'')];
       first = Ring_Since r 0 1
   in first @ Ring_Since r (if first = [] then 0 else ID (last first)) 1 = Ring_Since r 0 (1 + 1)"
  using node_ring_reader_no_gap
    [of 1 1 "[Read 1, Write (9, ''warn'', ''c''), Read 3]" 4 "[(5, ''info'', ''a''), (6, ''info'', ''b'')]" 0]
  by (simp add: Let_def)

text \<open>The counters: every flush hands out the window, the totals keep everything.\<close>

lemma Agg_Totals_eq: "agg_inv a \<Longrightarrow> Agg_Totals a = ag_total a"
  using foldl_mput_total [of "ag_total a" "[]"] by (simp add: Agg_Totals_def agg_inv_def)

lemma Agg_Count_total:
  "mget 0 (ag_total (Agg_Count a kind)) k = mget 0 (ag_total a) k + (if k = kind then 1 else 0)"
  by (simp add: Agg_Count_def)

lemma Agg_run_totals:
  "mget 0 (ag_total (fst (noise_acc.run a ops))) k = mget 0 (ag_total a) k + noise_acc.bumped ops k"
proof (induction ops arbitrary: a)
  case (Cons x ops)
  show ?case
  proof (cases x)
    case (Bump kind)
    then show ?thesis using Cons.IH [of "Agg_Count a kind"]
      by (simp add: Agg_Count_total algebra_simps)
  next
    case Drained
    have "fst (noise_acc.run a (x # ops)) = fst (noise_acc.run (fst (agg_drain a)) ops)"
      using Drained by (simp add: Let_def split_beta)
    then show ?thesis using Cons.IH [of "fst (agg_drain a)"] Drained
      by (simp add: agg_drain_state)
  qed
qed simp

lemma foldl_plus_msum: "foldl (\<lambda>s (k, v). s + v) z m = z + msum (m :: ('k, int64) gomap)"
  by (induction m arbitrary: z) (auto simp: msum_def algebra_simps)

text \<open>The noise counters: over any sequence of counts and flushes, what the flush lines
  reported for a kind plus what is still in the window is what was counted, and the totals the
  live report shows are everything counted since the start; the \<open>total\<close> of a flush line is the
  sum of the window it reports, and it lists the kinds in order.\<close>

theorem Aggregator_loses_no_count:
  "let (a, reported) = noise_acc.run (NewAggregator now start) ops
   in sum_list (map (\<lambda>line. line k) reported) + mget 0 (ag_window a) k = noise_acc.bumped ops k
      \<and> mget 0 (Agg_Totals a) k = noise_acc.bumped ops k
      \<and> (case snd (Agg_Flush a) of
            None \<Rightarrow> ag_window a = []
          | Some line \<Rightarrow> fl_total line = msum (ag_window a) \<and> sorted (map fst (fl_counts line)))"
proof -
  have inv: "agg_inv (NewAggregator now start)" by (simp add: agg_inv_def NewAggregator_def)
  obtain a reported where run: "noise_acc.run (NewAggregator now start) ops = (a, reported)" by force
  have "agg_inv a" using noise_acc.run_invar [OF inv, of ops] run by simp
  then have totals: "mget 0 (Agg_Totals a) k = noise_acc.bumped ops k"
    using Agg_run_totals [of "NewAggregator now start" ops k] run
    by (simp add: Agg_Totals_eq NewAggregator_def)
  have "sum_list (map (\<lambda>line. line k) reported) + mget 0 (ag_window a) k = noise_acc.bumped ops k"
    using noise_acc.run_conserves [OF inv, of k ops] run by (simp add: NewAggregator_def)
  moreover have "map (fst \<circ> (\<lambda>k. (k, mget 0 (ag_window a) k))) ks = ks" for ks
    by (simp add: comp_def)
  ultimately show ?thesis using run totals
    by (simp add: Agg_Flush_def Let_def foldl_plus_msum)
qed

text \<open>What the reads of \<open>Process\<close> amount to: whole lines, a long one cut once it passes the
  limit. The kind under which a raw line is dropped, if it is.\<close>

fun read_lines :: "string \<Rightarrow> (instant \<times> string \<times> bool) list \<Rightarrow> instant \<Rightarrow> (instant \<times> string) list" where
  "read_lines long [] now = (if long = [] then [] else [(now, long)])"
| "read_lines long ((t, frag, isPrefix) # reads) now =
     (if isPrefix then read_lines (if length long < maxLineBytes then long @ frag else long) reads now
      else (t, long @ frag) # read_lines [] reads now)"

definition suppressed :: "string \<Rightarrow> string option" where
  "suppressed raw =
     (case ParseLine (StripANSI raw) of (level, text, parsed) \<Rightarrow> if parsed then Classify level text else None)"

lemma Process_loop_lines:
  "Process_loop c long reads now = foldl (\<lambda>c (t, raw). handle c t raw) c (read_lines long reads now)"
  by (induction c long reads now rule: Process_loop.induct) auto

lemma handle_effect:
  "cp_out (handle c now raw) =
      cp_out c @ (if suppressed raw = None then [raw @ [CHR 10]] else [])"
  "mget 0 (ag_total (cp_agg (handle c now raw))) k =
      mget 0 (ag_total (cp_agg c)) k + (if suppressed raw = Some k then 1 else 0)"
  "\<exists>level text. cp_ring (handle c now raw) =
      (if suppressed raw = None then ring_add_line (cp_ring c) (now, level, text) else cp_ring c)
      \<and> text = fst (snd (ParseLine (StripANSI raw)))"
  by (auto simp: handle_def suppressed_def forward_def Agg_Count_def ring_add_line_def Let_def
      split: prod.splits option.splits)

abbreviation handle_all :: "Capture \<Rightarrow> (instant \<times> string) list \<Rightarrow> Capture" where
  "handle_all \<equiv> foldl (\<lambda>c (t, raw). handle c t raw)"

abbreviation is_kept :: "instant \<times> string \<Rightarrow> bool" where
  "is_kept l \<equiv> suppressed (snd l) = None"

lemma handle_all_out: "cp_out (handle_all c ls) = cp_out c @ map (\<lambda>l. snd l @ [CHR 10]) (filter is_kept ls)"
  by (induction ls rule: rev_induct) (auto simp: handle_effect(1))

lemma handle_all_totals: "mget 0 (ag_total (cp_agg (handle_all c ls))) k =
    mget 0 (ag_total (cp_agg c)) k + of_nat (length (filter (\<lambda>l. suppressed (snd l) = Some k) ls))"
  by (induction ls rule: rev_induct) (auto simp: handle_effect(2))

lemma handle_all_ring: "\<exists>kept. cp_ring (handle_all c ls) = foldl ring_add_line (cp_ring c) kept
    \<and> map (\<lambda>l. snd (snd l)) kept = map (\<lambda>l. fst (snd (ParseLine (StripANSI (snd l))))) (filter is_kept ls)"
proof (induction ls rule: rev_induct)
  case (snoc l ls)
  then obtain kept where kept: "cp_ring (handle_all c ls) = foldl ring_add_line (cp_ring c) kept"
    "map (\<lambda>l. snd (snd l)) kept = map (\<lambda>l. fst (snd (ParseLine (StripANSI (snd l))))) (filter is_kept ls)"
    by blast
  obtain t raw where l: "l = (t, raw)" by force
  obtain level "text" where step: "cp_ring (handle (handle_all c ls) t raw) =
      (if suppressed raw = None then ring_add_line (cp_ring (handle_all c ls)) (t, level, text)
       else cp_ring (handle_all c ls))" "text = fst (snd (ParseLine (StripANSI raw)))"
    using handle_effect(3) [of "handle_all c ls" t raw] by blast
  show ?case
    by (rule exI [of _ "if suppressed raw = None then kept @ [(t, level, text)] else kept"])
      (use kept step l in \<open>auto\<close>)
qed simp

text \<open>C25. The capture accounts for every line of the core's output, from the start of the node:
  a line that is not recognised as noise is written on unchanged, in order, and filed in the
  ring; a recognised one adds exactly one to the total of its kind; so kept and counted lines
  together are all lines. A line is only ever dropped when its level is error or warn.\<close>

theorem Capture_accounts_every_line:
  "let c = Process (NewCapture (NewRing capacity) (NewAggregator now start)) reads end_time;
       ls = read_lines [] reads end_time;
       kept = filter is_kept ls
   in cp_out c = map (\<lambda>l. snd l @ [CHR 10]) kept
      \<and> map Text (ring_contents (cp_ring c)) =
          lastn (if capacity \<le> 0 then 5000 else nat capacity)
            (map (\<lambda>l. cut_line (fst (snd (ParseLine (StripANSI (snd l)))))) kept)
      \<and> (\<forall>k. mget 0 (ag_total (cp_agg c)) k = of_nat (length (filter (\<lambda>l. suppressed (snd l) = Some k) ls)))
      \<and> length (filter (\<lambda>l. suppressed (snd l) \<noteq> None) ls) + length (cp_out c) = length ls
      \<and> (\<forall>raw. suppressed raw \<noteq> None \<longrightarrow> fst (ParseLine (StripANSI raw)) \<in> {''error'', ''warn''})"
proof -
  define c0 where "c0 = NewCapture (NewRing capacity) (NewAggregator now start)"
  define ls where "ls = read_lines [] reads end_time"
  have c: "Process c0 reads end_time = handle_all c0 ls"
    by (simp add: Process_def Process_loop_lines ls_def)
  have new: "cp_out c0 = []" "cp_ring c0 = NewRing capacity" "ag_total (cp_agg c0) = []"
    by (simp_all add: c0_def NewCapture_def NewAggregator_def)
  obtain kept where kept: "cp_ring (handle_all c0 ls) = foldl ring_add_line (NewRing capacity) kept"
    "map (\<lambda>l. snd (snd l)) kept = map (\<lambda>l. fst (snd (ParseLine (StripANSI (snd l))))) (filter is_kept ls)"
    using handle_all_ring [of c0 ls] new(2) by auto
  have cont0: "ring_contents (NewRing capacity) = []"
    "length (r_buf (NewRing capacity)) = (if capacity \<le> 0 then 5000 else nat capacity)"
    by (simp_all add: NewRing_def ring_contents_def ring_list_def DefaultRingSize_def Let_def)
  have "map Text (ring_contents (foldl ring_add_line (NewRing capacity) kept)) =
      lastn (length (r_buf (NewRing capacity))) (map Text (ring_contents (NewRing capacity))
        @ map (cut_line \<circ> (\<lambda>l. snd (snd l))) kept)"
    by (rule node_ring.contents_run [OF ring_inv_NewRing])
      (auto simp: cont0 ring_entry_of_def split: prod.splits)
  then have ring: "map Text (ring_contents (cp_ring (handle_all c0 ls))) =
      lastn (if capacity \<le> 0 then 5000 else nat capacity)
        (map (\<lambda>l. cut_line (fst (snd (ParseLine (StripANSI (snd l)))))) (filter is_kept ls))"
    using kept(1) arg_cong [OF kept(2), of "map cut_line"] by (simp add: cont0 comp_def)
  have level: "fst (ParseLine (StripANSI raw)) \<in> {''error'', ''warn''}" if "suppressed raw \<noteq> None" for raw
    using that by (auto simp: suppressed_def Classify_def split: prod.splits if_splits)
  have "length (filter (\<lambda>l. suppressed (snd l) \<noteq> None) ls) + length (filter is_kept ls) = length ls"
    using sum_length_filter_compl [of is_kept ls] by (simp add: add.commute)
  then show ?thesis
    using ring level handle_all_out [of c0 ls] handle_all_totals [of c0 ls]
    by (simp add: c Let_def new flip: c0_def ls_def)
qed

theorem Capture_accounts_every_line_witness:
  "suppressed ''WARN process connection from c: EOF'' = Some ''client_eof''
   \<and> cp_out (Process (NewCapture (NewRing 3) (NewAggregator (\<lambda>_. 9) 0))
        [(1, ''WARN process connection from c: EOF'', False),
         (2, ''INFO[1] up'', False)] 3) = [''INFO[1] up'' @ [CHR 10]]"
proof -
  have s: "suppressed ''WARN process connection from c: EOF'' = Some ''client_eof''"
    by code_simp
  have k: "suppressed ''INFO[1] up'' = None" by code_simp
  show ?thesis
    using Capture_accounts_every_line [of 3 "\<lambda>_. 9" 0
        "[(1, ''WARN process connection from c: EOF'', False),
          (2, ''INFO[1] up'', False)]" 3] s k
    by (simp add: Let_def)
qed

text \<open>A dial failure in the wording of the core is matched whatever the address, type and tag.\<close>

lemma takeWhile_stop: "\<forall>c \<in> set a. P c \<Longrightarrow> \<not> P x \<Longrightarrow> takeWhile P (a @ x # b) = a"
  and dropWhile_stop: "\<forall>c \<in> set a. P c \<Longrightarrow> \<not> P x \<Longrightarrow> dropWhile P (a @ x # b) = x # b"
  by (induction a) auto

lemma dialLine_match:
  assumes "addr \<noteq> []" "\<forall>c \<in> set addr. \<not> re_space c"
    and "typ \<noteq> []" "\<forall>c \<in> set typ. c \<noteq> CHR ''['' \<and> \<not> re_space c \<and> c \<noteq> CHR '':''"
    and "tag \<noteq> []" "CHR '']'' \<notin> set tag" and "CHR 10 \<notin> set cause"
  shows "dialLine (''open connection to '' @ addr @ '' using outbound/'' @ typ @ ''['' @ tag @ '']: '' @ cause)
    = Some (typ, tag, cause)"
proof -
  let ?u = "''using outbound/'' @ typ @ ''['' @ tag @ '']: '' @ cause"
  have sp: "re_space (CHR '' '')" "\<not> re_space (CHR ''u'')" by (simp_all add: re_space_def)
  have head: "dial_head (''open connection to '' @ addr @ CHR '' '' # ?u) = Some (CHR '' '' # ?u)"
    using assms(1,2) sp(1) takeWhile_stop [of addr "\<lambda>c. \<not> re_space c" "CHR '' ''" ?u]
      dropWhile_stop [of addr "\<lambda>c. \<not> re_space c" "CHR '' ''" ?u]
    by (simp add: dial_head_def HasPrefix_def)
  have u: "takeWhile re_space (CHR '' '' # ?u) \<noteq> []" "dropWhile re_space (CHR '' '' # ?u) = ?u"
    "HasPrefix ?u ''using outbound/''" "drop (length ''using outbound/'') ?u = typ @ CHR ''['' # tag @ '']: '' @ cause"
    using sp by (simp_all add: HasPrefix_def)
  have v: "takeWhile (\<lambda>c. c \<noteq> CHR ''['' \<and> \<not> re_space c \<and> c \<noteq> CHR '':'') (typ @ CHR ''['' # tag @ '']: '' @ cause) = typ"
    "dropWhile (\<lambda>c. c \<noteq> CHR ''['' \<and> \<not> re_space c \<and> c \<noteq> CHR '':'') (typ @ CHR ''['' # tag @ '']: '' @ cause) =
      CHR ''['' # tag @ '']: '' @ cause"
    by (rule takeWhile_stop [OF assms(4)], simp) (rule dropWhile_stop [OF assms(4)], simp)
  have "\<forall>c \<in> set tag. c \<noteq> CHR '']''" using assms(6) by blast
  then have "dial_tag (CHR ''['' # tag @ '']: '' @ cause) = Some (tag, '': '' @ cause)"
    using assms(5) takeWhile_stop [of tag "\<lambda>c. c \<noteq> CHR '']''" "CHR '']''"] dropWhile_stop [of tag "\<lambda>c. c \<noteq> CHR '']''" "CHR '']''"]
    by (simp add: dial_tag_def HasPrefix_def Let_def)
  then show ?thesis using head u v assms(3,7)
    by (simp add: dialLine_def Let_def HasPrefix_def)
qed

text \<open>A dial that timed out, in the core's wording, is counted under the tag of the outbound
  that failed, for every destination, outbound type and tag: the counters say which exit is
  unhealthy.\<close>

theorem dial_timeout_names_outbound:
  assumes "addr \<noteq> []" "\<forall>c \<in> set addr. \<not> re_space c"
    and "typ \<noteq> []" "\<forall>c \<in> set typ. c \<noteq> CHR ''['' \<and> \<not> re_space c \<and> c \<noteq> CHR '':''"
    and "tag \<noteq> []" "CHR '']'' \<notin> set tag"
  shows "Classify ''error'' (''connection: open connection to '' @ addr @ '' using outbound/'' @ typ @ ''['' @ tag
      @ '']: dial tcp '' @ addr @ '': i/o timeout'') = Some (''dial_timeout:'' @ tag)"
proof -
  let ?cause = "''dial tcp '' @ addr @ '': i/o timeout''"
  have "CHR 10 \<notin> set ?cause" using assms(2) by (auto simp: re_space_def)
  note line = dialLine_match [OF assms this]
  have "Contains ?cause ''i/o timeout''"
    using Contains_append [of "''dial tcp '' @ addr @ '': ''" "''i/o timeout''" "[]"] by simp
  moreover have "Contains ?cause ''dial ''" by (simp add: HasPrefix_def)
  moreover have "\<not> HasPrefix ?cause ''lookup ''" by (simp add: HasPrefix_def)
  ultimately have dial: "classifyDial (''open connection to '' @ addr @ '' using outbound/'' @ typ @ ''['' @ tag
      @ '']: '' @ ?cause) = Some (''dial_timeout:'' @ tag)"
    using line assms(5) by (simp add: classifyDial_def)
  have "Index (''connection: open connection to '' @ s) ''open connection to '' = Some 12" for s
    by (simp add: HasPrefix_def)
  from this [of "addr @ '' using outbound/'' @ typ @ ''['' @ tag @ '']: dial tcp '' @ addr @ '': i/o timeout''"]
  show ?thesis using dial by (simp add: Classify_def del: Index.simps)
qed

theorem dial_timeout_names_outbound_witness:
  "Classify ''error'' (''connection: open connection to '' @ ''5.6.7.8:443'' @ '' using outbound/'' @ ''direct'' @ ''['' @ ''germany~wg''
      @ '']: dial tcp '' @ ''5.6.7.8:443'' @ '': i/o timeout'') = Some ''dial_timeout:germany~wg''"
  using dial_timeout_names_outbound [of "''5.6.7.8:443''" "''direct''" "''germany~wg''"]
  by (simp add: re_space_def)

end
