(* ===== verification/LogStream.thy ===== *)
theory LogStream
  imports LogRing
begin

text \<open>
  The panel's log stream (\<open>internal/logstream\<close>): the ring every process logs into
  (\<open>ring.go\<close>), the handler that fills it (\<open>handler.go\<close>) and the publisher that mirrors it into a
  capped Redis list (\<open>publisher.go\<close>). Parameters: \<open>ToLower\<close> of the Unicode tables, the
  time format, and the Redis round trip, which either applies the pipelined commands or fails.
\<close>

section \<open>Entries and levels\<close>

record sEntry =
  sID :: int
  sTS :: string
  sLevel :: string
  sLine :: string

definition RingSize :: nat where
  "RingSize = 2000"

definition MaxLineBytes :: nat where
  "MaxLineBytes = 16384"

definition LevelRank :: "(string \<Rightarrow> string) \<Rightarrow> string \<Rightarrow> nat \<times> bool" where
  "LevelRank ToLower level =
     (let l = ToLower (TrimSpace level)
      in if l \<in> set [''debug'', ''trace''] then (0, True)
         else if l = ''info'' then (1, True)
         else if l \<in> set [''warn'', ''warning''] then (2, True)
         else if l \<in> set [''error'', ''fatal'', ''panic''] then (3, True)
         else (0, False))"

definition NormalizeLevel :: "(string \<Rightarrow> string) \<Rightarrow> string \<Rightarrow> string" where
  "NormalizeLevel ToLower level =
     (case LevelRank ToLower level of (rank, ok) \<Rightarrow>
        if \<not> ok then ''info''
        else if rank = 0 then ''debug''
        else if rank = 2 then ''warn''
        else if rank = 3 then ''error''
        else ''info'')"

text \<open>\<open>slog\<close> levels: debug is -4, info 0, warn 4, error 8.\<close>

definition FromSlogLevel :: "int \<Rightarrow> string" where
  "FromSlogLevel l =
     (if l < 0 then ''debug'' else if l < 4 then ''info'' else if l < 8 then ''warn'' else ''error'')"

definition Matches :: "(string \<Rightarrow> string) \<Rightarrow> sEntry \<Rightarrow> nat \<Rightarrow> string \<Rightarrow> bool" where
  "Matches ToLower e minRank needle =
     (if minRank > 0 \<and> fst (LevelRank ToLower (sLevel e)) < minRank then False
      else needle = [] \<or> Contains (ToLower (sLine e)) needle)"

section \<open>The ring\<close>

record sRing =
  sr_buf :: "sEntry list"
  sr_start :: nat
  sr_n :: nat
  sr_lastID :: int

definition zero_sEntry :: sEntry where
  "zero_sEntry = \<lparr>sID = 0, sTS = [], sLevel = [], sLine = []\<rparr>"

definition sNewRing :: "int \<Rightarrow> sRing" where
  "sNewRing capacity =
     (let capacity = (if capacity < 1 then int RingSize else capacity)
      in \<lparr>sr_buf = replicate (nat capacity) zero_sEntry, sr_start = 0, sr_n = 0, sr_lastID = 0\<rparr>)"

text \<open>A time is \<open>None\<close> when it is the zero time; \<open>now\<close> is the reading of the clock, \<open>fmt\<close> the
  format RFC3339Nano.\<close>

definition cut_stream_line :: "string \<Rightarrow> string" where
  "cut_stream_line line =
     (if length line > MaxLineBytes then ToValidUTF8 (take MaxLineBytes line) @ ''...'' else line)"

definition sRing_Add ::
  "(instant \<Rightarrow> string) \<Rightarrow> instant \<Rightarrow> sRing \<Rightarrow> instant option \<Rightarrow> string \<Rightarrow> string \<Rightarrow> sRing \<times> sEntry" where
  "sRing_Add fmt now r t level line =
     (let t = (case t of None \<Rightarrow> now | Some t \<Rightarrow> t);
          line = cut_stream_line line;
          id = t;
          id = (if id \<le> sr_lastID r then sr_lastID r + 1 else id);
          e = \<lparr>sID = id, sTS = fmt t, sLevel = level, sLine = line\<rparr>;
          (buf, start, n) = ring_push (sr_buf r) (sr_start r) (sr_n r) e
      in (\<lparr>sr_buf = buf, sr_start = start, sr_n = n, sr_lastID = id\<rparr>, e))"

definition sRing_at :: "sRing \<Rightarrow> nat \<Rightarrow> sEntry" where
  "sRing_at r i = ring_at (sr_buf r) (sr_start r) i"

definition sRing_After :: "sRing \<Rightarrow> int \<Rightarrow> int \<Rightarrow> sEntry list" where
  "sRing_After r after limit =
     (let first = sort_Search (sr_n r) (\<lambda>i. sID (sRing_at r i) > after);
          count = sr_n r - first;
          count = (if limit > 0 \<and> int count > limit then nat limit else count)
      in map (\<lambda>i. sRing_at r (first + i)) [0..<count])"

definition sRing_Tail :: "sRing \<Rightarrow> int \<Rightarrow> sEntry list" where
  "sRing_Tail r n =
     (let n = (if n > int (sr_n r) \<or> n \<le> 0 then sr_n r else nat n)
      in map (\<lambda>i. sRing_at r (sr_n r - n + i)) [0..<n])"

definition sRing_Len :: "sRing \<Rightarrow> nat" where
  "sRing_Len r = sr_n r"

definition LastID :: "sRing \<Rightarrow> int" where
  "LastID r = sr_lastID r"

definition Key :: "string \<Rightarrow> string" where
  "Key source = ''logs:'' @ source"

definition NodeSource :: "int \<Rightarrow> string" where
  "NodeSource nodeID = ''node:'' @ Itoa nodeID"

definition NodeSeqKey :: "int \<Rightarrow> string" where
  "NodeSeqKey nodeID = ''logs:nodeseq:'' @ Itoa nodeID"

definition WatchKey :: "int \<Rightarrow> string" where
  "WatchKey nodeID = ''logs:watch:node:'' @ Itoa nodeID"

text \<open>\<open>core.Write\<close>: the rendered line of a record with its level and time, under the handler's lock.\<close>

definition Handler_Handle ::
  "(instant \<Rightarrow> string) \<Rightarrow> instant \<Rightarrow> sRing \<Rightarrow> int \<Rightarrow> instant option \<Rightarrow> string \<Rightarrow> sRing" where
  "Handler_Handle fmt now r level at_time p =
     fst (sRing_Add fmt now r at_time (FromSlogLevel level) (TrimRight p [CHR 13, CHR 10]))"

section \<open>Invariant and contract\<close>

definition stream_contents :: "sRing \<Rightarrow> sEntry list" where
  "stream_contents r = ring_list (sr_buf r) (sr_start r) (sr_n r)"

definition stream_inv :: "sRing \<Rightarrow> bool" where
  "stream_inv r \<longleftrightarrow> ring_ok (sr_buf r) (sr_start r) (sr_n r)
     \<and> sorted_wrt (<) (map sID (stream_contents r)) \<and> (\<forall>e \<in> set (stream_contents r). sID e \<le> sr_lastID r)"

type_synonym stream_line = "instant \<times> instant option \<times> string \<times> string"

definition stream_add :: "(instant \<Rightarrow> string) \<Rightarrow> sRing \<Rightarrow> stream_line \<Rightarrow> sRing" where
  "stream_add fmt r l = (case l of (now, t, level, line) \<Rightarrow> fst (sRing_Add fmt now r t level line))"

definition stream_entry_of :: "(instant \<Rightarrow> string) \<Rightarrow> sRing \<Rightarrow> stream_line \<Rightarrow> sEntry" where
  "stream_entry_of fmt r l =
     (case l of (now, t, level, line) \<Rightarrow>
        \<lparr>sID = next_id (sr_lastID r) (case t of None \<Rightarrow> now | Some t \<Rightarrow> t),
         sTS = fmt (case t of None \<Rightarrow> now | Some t \<Rightarrow> t), sLevel = level, sLine = cut_stream_line line\<rparr>)"

lemma stream_inv_new [state_inv]: "stream_inv (sNewRing capacity)"
  by (simp add: stream_inv_def sNewRing_def ring_ok_def stream_contents_def ring_list_def Let_def
      RingSize_def)

lemma stream_new:
  "stream_contents (sNewRing capacity) = []"
  "sr_lastID (sNewRing capacity) = 0"
  "length (sr_buf (sNewRing capacity)) = (if capacity < 1 then 2000 else nat capacity)"
  by (simp_all add: sNewRing_def stream_contents_def ring_list_def RingSize_def Let_def)

lemma stream_add_contents:
  assumes "stream_inv r"
  shows "stream_contents (stream_add fmt r l) =
      lastn (length (sr_buf r)) (stream_contents r @ [stream_entry_of fmt r l])"
    and "stream_inv (stream_add fmt r l)"
    and "length (sr_buf (stream_add fmt r l)) = length (sr_buf r)"
proof -
  define e where "e = stream_entry_of fmt r l"
  obtain buf start n where push: "ring_push (sr_buf r) (sr_start r) (sr_n r) e = (buf, start, n)"
    using prod_cases3 by blast
  have add: "stream_add fmt r l = \<lparr>sr_buf = buf, sr_start = start, sr_n = n, sr_lastID = sID e\<rparr>"
    using push by (auto simp: stream_add_def sRing_Add_def stream_entry_of_def Let_def e_def next_id_def split: prod.splits)
  have ok: "ring_ok (sr_buf r) (sr_start r) (sr_n r)" using assms by (simp add: stream_inv_def)
  note list = ring_push_list [OF ok push]
  show c: "stream_contents (stream_add fmt r l) = lastn (length (sr_buf r)) (stream_contents r @ [e])"
    using list(1) add by (simp add: stream_contents_def)
  show "length (sr_buf (stream_add fmt r l)) = length (sr_buf r)" using list(3) add by simp
  have "sr_lastID r < sID e" by (auto simp: e_def stream_entry_of_def next_id_greater split: prod.splits)
  then have "sorted_wrt (<) (map sID (lastn (length (sr_buf r)) (stream_contents r @ [e])))
      \<and> (\<forall>x \<in> set (lastn (length (sr_buf r)) (stream_contents r @ [e])). sID x \<le> sID e)"
    using assms by (intro sorted_ids_lastn_snoc [where l = "sr_lastID r"]) (auto simp: stream_inv_def)
  then show "stream_inv (stream_add fmt r l)" using list(2) c add by (simp add: stream_inv_def)
qed

lemma sRing_After_filter:
  assumes "stream_inv r"
  shows "sRing_After r after limit =
    (let xs = filter (\<lambda>e. after < sID e) (stream_contents r) in if 0 < limit then take (nat limit) xs else xs)"
proof -
  let ?xs = "stream_contents r"
  let ?first = "sort_Search (sr_n r) (\<lambda>i. after < sID (sRing_at r i))"
  have len: "length ?xs = sr_n r" by (simp add: stream_contents_def)
  have "?first = sort_Search (length ?xs) (\<lambda>i. after < sID (?xs ! i))"
    unfolding len by (rule sort_Search_cong) (simp add: stream_contents_def sRing_at_def)
  then have filt: "filter (\<lambda>e. after < sID e) ?xs = drop ?first ?xs"
    using drop_search_filter [of sID ?xs after] assms by (simp add: stream_inv_def)
  have le: "?first \<le> sr_n r" by (rule sort_Search_le)
  have slice: "map (\<lambda>i. sRing_at r (?first + i)) [0..<c] = take c (drop ?first ?xs)" if "?first + c \<le> sr_n r" for c
    using that by (intro nth_equalityI) (auto simp: len stream_contents_def sRing_at_def)
  have all: "take c (drop ?first ?xs) = drop ?first ?xs" if "sr_n r - ?first \<le> c" for c
    using that len by (intro take_all) simp
  show ?thesis using slice [of "nat limit"] slice [of "sr_n r - ?first"] le all [of "nat limit"] all [of "sr_n r - ?first"]
    by (auto simp: sRing_After_def filt Let_def)
qed

interpretation stream_ring: bounded_log stream_contents "\<lambda>r. length (sr_buf r)" sID
  "stream_add fmt" "stream_entry_of fmt" sRing_After stream_inv for fmt
proof unfold_locales
  show "sorted_wrt (<) (map sID (stream_contents r))" if "stream_inv r" for r
    using that by (simp add: stream_inv_def)
qed (simp_all add: stream_add_contents sRing_After_filter Let_def)

section \<open>The publisher\<close>

text \<open>The Redis commands of one flush, and what a list key holds after them. \<open>LTRIM\<close> with negative
  indices counts from the end.\<close>

datatype 'j redis_cmd = RPush string "'j list" | LTrim string int int

definition list_index :: "'a list \<Rightarrow> int \<Rightarrow> int" where
  "list_index xs i = (if i < 0 then max 0 (int (length xs) + i) else i)"

fun redis_exec :: "(string \<Rightarrow> 'j list) \<Rightarrow> 'j redis_cmd \<Rightarrow> string \<Rightarrow> 'j list" where
  "redis_exec store (RPush key vals) = store(key := store key @ vals)"
| "redis_exec store (LTrim key start stop) =
     store(key := drop (nat (list_index (store key) start)) (take (nat (list_index (store key) stop + 1)) (store key)))"

definition pushChunk :: nat where
  "pushChunk = 500"

function chunk_ranges :: "nat \<Rightarrow> nat \<Rightarrow> (nat \<times> nat) list" where
  "chunk_ranges start len =
     (if start < len then (start, min (start + pushChunk) len) # chunk_ranges (start + pushChunk) len else [])"
  by pat_completeness auto
termination
  by (relation "measure (\<lambda>(start, len). len - start)") (auto simp: pushChunk_def)

declare chunk_ranges.simps [simp del]

record Publisher =
  pb_source :: string
  pb_last :: int
  pb_failing :: bool

definition NewPublisher :: "string \<Rightarrow> Publisher" where
  "NewPublisher source = \<lparr>pb_source = source, pb_last = 0, pb_failing = False\<rparr>"

text \<open>The answer of the pipeline: every command was applied, or an error after the first \<open>k\<close> took
  effect (the pipeline is not a transaction).\<close>

datatype exec_result = Exec_ok | Exec_err nat

definition flush_cmds :: "(sEntry \<Rightarrow> 'j) \<Rightarrow> string \<Rightarrow> sEntry list \<Rightarrow> 'j redis_cmd list" where
  "flush_cmds Encode key entries =
     map (\<lambda>(start, stop). RPush key (map Encode (take (stop - start) (drop start entries))))
       (chunk_ranges 0 (length entries))
     @ [LTrim key (- int RingSize) (- 1)]"

definition Publisher_Flush ::
  "(sEntry \<Rightarrow> 'j) \<Rightarrow> Publisher \<Rightarrow> sRing \<Rightarrow> (string \<Rightarrow> 'j list) \<Rightarrow> exec_result
    \<Rightarrow> Publisher \<times> (string \<Rightarrow> 'j list) \<times> bool" where
  "Publisher_Flush Encode p ring store res =
     (let entries = sRing_After ring (pb_last p) 0
      in if length entries = 0 then (p, store, True)
         else
           (let entries = (if length entries > RingSize then drop (length entries - RingSize) entries else entries);
                cmds = flush_cmds Encode (Key (pb_source p)) entries
            in case res of
                 Exec_err k \<Rightarrow> (p, foldl redis_exec store (take k cmds), False)
               | Exec_ok \<Rightarrow> (p\<lparr>pb_last := sID (last entries)\<rparr>, foldl redis_exec store cmds, True)))"

text \<open>\<open>report\<close>: the new state and the line logged, if any (\<open>True\<close>: recovered).\<close>

definition Publisher_report :: "Publisher \<Rightarrow> bool \<Rightarrow> Publisher \<times> bool option" where
  "Publisher_report p ok =
     (if \<not> ok \<and> \<not> pb_failing p then (p\<lparr>pb_failing := True\<rparr>, Some False)
      else if ok \<and> pb_failing p then (p\<lparr>pb_failing := False\<rparr>, Some True)
      else (p, None))"

lemma chunk_ranges_concat:
  "start \<le> length xs \<Longrightarrow>
    concat (map (\<lambda>(a, b). take (b - a) (drop a xs)) (chunk_ranges start (length xs))) = drop start xs"
proof (induction start "length xs" rule: chunk_ranges.induct)
  case (1 start)
  show ?case
  proof (cases "start < length xs")
    case True
    have "take (min (start + pushChunk) (length xs) - start) (drop start xs) @ drop (start + pushChunk) xs = drop start xs"
    proof (cases "start + pushChunk \<le> length xs")
      case True
      then have "drop (start + pushChunk) xs = drop pushChunk (drop start xs)" by (simp add: add.commute)
      then show ?thesis using True by (simp only: min_absorb1 add_diff_cancel_left' append_take_drop_id)
    qed simp
    moreover have "concat (map (\<lambda>(a, b). take (b - a) (drop a xs)) (chunk_ranges (start + pushChunk) (length xs))) =
        drop (start + pushChunk) xs"
      using "1.hyps" [OF True] by (cases "start + pushChunk \<le> length xs") (simp_all add: chunk_ranges.simps)
    ultimately show ?thesis using True by (subst chunk_ranges.simps) simp
  qed (use 1 in \<open>simp add: chunk_ranges.simps\<close>)
qed

lemma redis_pushes:
  "foldl redis_exec store (map (\<lambda>x. RPush key (f x)) xs) = store(key := store key @ concat (map f xs))"
  by (induction xs arbitrary: store) auto

lemma ltrim_newest:
  "0 < n \<Longrightarrow> drop (nat (list_index ys (- int n))) (take (nat (list_index ys (- 1) + 1)) ys) = lastn n ys"
proof -
  assume n: "0 < n"
  have "nat (list_index ys (- 1) + 1) = (if ys = [] then 1 else length ys)"
    by (auto simp: list_index_def max_def)
  moreover have "nat (list_index ys (- int n)) = length ys - n"
  proof -
    have "nat (max 0 x) = nat x" for x :: int by (simp add: max_def)
    moreover have "nat (int (length ys) - int n) = length ys - n" by (simp add: nat_diff_distrib')
    ultimately show ?thesis using n by (simp add: list_index_def)
  qed
  ultimately show ?thesis by (simp add: lastn_def)
qed

lemma redis_flush:
  "foldl redis_exec store (flush_cmds Encode key entries) =
    store(key := lastn RingSize (store key @ map Encode entries))"
proof -
  define f where "f = (\<lambda>x. map Encode (case x of (a, b) \<Rightarrow> take (b - a) (drop a entries)))"
  have "concat (map f (chunk_ranges 0 (length entries))) = map Encode entries"
    using arg_cong [OF chunk_ranges_concat [of 0 entries], of "map Encode"] by (simp add: map_concat comp_def f_def)
  moreover have "flush_cmds Encode key entries =
      map (\<lambda>x. RPush key (f x)) (chunk_ranges 0 (length entries)) @ [LTrim key (- int RingSize) (- 1)]"
    by (auto simp: flush_cmds_def f_def)
  ultimately show ?thesis
    using ltrim_newest [of RingSize "store key @ map Encode entries"] by (simp add: redis_pushes RingSize_def del: drop_append take_append)
qed

text \<open>A process that logs lines and, between them, publishes; a failed publish leaves Redis as it was.\<close>

datatype stream_op = Log_line stream_line | Tick bool

type_synonym 'j stream_state = "sRing \<times> Publisher \<times> (string \<Rightarrow> 'j list)"

fun stream_step :: "(instant \<Rightarrow> string) \<Rightarrow> (sEntry \<Rightarrow> 'j) \<Rightarrow> 'j stream_state \<Rightarrow> stream_op \<Rightarrow> 'j stream_state" where
  "stream_step fmt Encode (r, p, store) (Log_line l) = (stream_add fmt r l, p, store)"
| "stream_step fmt Encode (r, p, store) (Tick applied) =
     (case Publisher_Flush Encode p r store (if applied then Exec_ok else Exec_err 0) of
        (p', store', ok) \<Rightarrow> (r, fst (Publisher_report p' ok), store'))"

definition published :: "(sEntry \<Rightarrow> 'j) \<Rightarrow> 'j stream_state \<Rightarrow> sEntry list \<Rightarrow> bool" where
  "published Encode s mirrored \<longleftrightarrow>
     (case s of (r, p, store) \<Rightarrow>
        stream_inv r \<and> length (sr_buf r) \<le> RingSize
        \<and> store (Key (pb_source p)) = map Encode mirrored
        \<and> sorted_wrt (<) (map sID mirrored) \<and> (\<forall>e \<in> set mirrored. sID e \<le> pb_last p)
        \<and> pb_last p \<le> sr_lastID r \<and> length mirrored \<le> RingSize
        \<and> suffix (filter (\<lambda>e. sID e \<le> pb_last p) (stream_contents r)) mirrored)"

definition stream_ok :: "(sEntry \<Rightarrow> 'j) \<Rightarrow> 'j stream_state \<Rightarrow> bool" where
  "stream_ok Encode s \<longleftrightarrow> (\<exists>mirrored. published Encode s mirrored)"

lemma suffix_lastn: "suffix (lastn n xs) xs"
  by (simp add: lastn_def suffix_drop)

lemma suffix_filter: "suffix xs ys \<Longrightarrow> suffix (filter P xs) (filter P ys)"
  by (auto simp: suffix_def)

lemma suffix_lastn_of: "suffix xs ys \<Longrightarrow> length xs \<le> n \<Longrightarrow> suffix xs (lastn n ys)"
  by (auto simp: suffix_def lastn_def)

lemma sorted_ids_split:
  "sorted_wrt (<) (map eid xs) \<Longrightarrow> xs = filter (\<lambda>e. eid e \<le> (k::int)) xs @ filter (\<lambda>e. k < eid e) xs"
proof (induction xs)
  case (Cons x xs)
  show ?case
  proof (cases "eid x \<le> k")
    case False
    then have "\<forall>e \<in> set xs. k < eid e" using Cons.prems by auto
    then have "filter (\<lambda>e. eid e \<le> k) xs = []" "filter (\<lambda>e. k < eid e) xs = xs"
      by (auto simp: filter_empty_conv filter_id_conv)
    then show ?thesis using False by simp
  qed (use Cons in auto)
qed simp

lemma stream_add_last: "sr_lastID r < sr_lastID (stream_add fmt r l)"
  "e = stream_entry_of fmt r l \<Longrightarrow> sr_lastID r < sID e"
  by (auto simp: stream_add_def sRing_Add_def stream_entry_of_def next_id_greater Let_def split: prod.splits)

lemma published_Log:
  assumes "published Encode (r, p, store) mirrored"
  shows "published Encode (stream_add fmt r l, p, store) mirrored"
proof -
  let ?e = "stream_entry_of fmt r l" and ?P = "\<lambda>e. sID e \<le> pb_last p"
  have r: "stream_inv r" "pb_last p \<le> sr_lastID r" and
    suf: "suffix (filter ?P (stream_contents r)) mirrored"
    using assms by (simp_all add: published_def)
  have "suffix (filter ?P (stream_contents (stream_add fmt r l))) (filter ?P (stream_contents r @ [?e]))"
    using stream_add_contents(1) [OF r(1)] suffix_lastn suffix_filter by metis
  moreover have "filter ?P (stream_contents r @ [?e]) = filter ?P (stream_contents r)"
    using stream_add_last(2) [of ?e fmt r l] r(2) by simp
  ultimately have "suffix (filter ?P (stream_contents (stream_add fmt r l))) mirrored"
    using suf suffix_order.trans by metis
  then show ?thesis using assms stream_add_contents [OF r(1), of fmt l] stream_add_last(1) [of r fmt l]
    by (simp add: published_def)
qed

lemma published_Tick:
  assumes pub: "published Encode (r, p, store) mirrored"
    and flush: "Publisher_Flush Encode p r store Exec_ok = (p', store', ok)"
  obtains mirrored' where "published Encode (r, p', store') mirrored'"
    and "suffix (stream_contents r) mirrored'" and "ok"
proof -
  define new where "new = filter (\<lambda>e. pb_last p < sID e) (stream_contents r)"
  define old where "old = filter (\<lambda>e. sID e \<le> pb_last p) (stream_contents r)"
  have inv: "stream_inv r" "length (sr_buf r) \<le> RingSize" and suf: "suffix old mirrored"
    and store: "store (Key (pb_source p)) = map Encode mirrored"
    using pub by (simp_all add: published_def old_def)
  have sorted: "sorted_wrt (<) (map sID (stream_contents r))" and le: "\<forall>e \<in> set (stream_contents r). sID e \<le> sr_lastID r"
    and len: "length (stream_contents r) \<le> RingSize"
    using inv by (auto simp: stream_inv_def stream_contents_def ring_ok_def)
  have split: "stream_contents r = old @ new" unfolding old_def new_def by (rule sorted_ids_split [OF sorted])
  have entries: "sRing_After r (pb_last p) 0 = new" using sRing_After_filter [OF inv(1)] by (simp add: new_def)
  show thesis
  proof (cases "new = []")
    case True
    then have "p' = p" "store' = store" "ok" using flush entries by (auto simp: Publisher_Flush_def)
    then show thesis using that [of mirrored] pub suf split True by simp
  next
    case False
    define m where "m = lastn RingSize (mirrored @ new)"
    have "length new \<le> RingSize" using len split by simp
    then have p': "p' = p\<lparr>pb_last := sID (last new)\<rparr>" "ok" and
      st: "store' = store(Key (pb_source p) := lastn RingSize (map Encode (mirrored @ new)))"
      using flush entries False by (auto simp: Publisher_Flush_def redis_flush store)
    have sufm: "suffix (stream_contents r) m"
      unfolding m_def using suf split len by (intro suffix_lastn_of) (auto simp: suffix_def)
    have "sorted_wrt (<) (map sID (old @ new))" using sorted unfolding split .
    then have new_sorted: "sorted_wrt (<) (map sID new)" by (simp add: sorted_wrt_append)
    have above: "\<forall>e \<in> set new. pb_last p < sID e" by (simp add: new_def)
    have below: "\<forall>e \<in> set mirrored. sID e \<le> pb_last p" and ms: "sorted_wrt (<) (map sID mirrored)"
      using pub by (auto simp: published_def)
    have "sID x < sID y" if "x \<in> set mirrored" "y \<in> set new" for x y
      using that above below by (meson le_less_trans)
    then have "sorted_wrt (<) (map sID (mirrored @ new))"
      using ms new_sorted by (simp add: sorted_wrt_append)
    then have m_sorted: "sorted_wrt (<) (map sID m)"
      unfolding m_def lastn_def drop_map [symmetric] by (rule sorted_wrt_drop)
    have last_max: "sID e \<le> sID (last new)" if "e \<in> set new" for e
      using that new_sorted False by (cases new rule: rev_cases) (auto simp: sorted_wrt_append)
    have above_last: "pb_last p < sID (last new)" using above False by simp
    have m_le: "\<forall>e \<in> set m. sID e \<le> sID (last new)"
    proof
      fix e assume "e \<in> set m"
      then have "e \<in> set mirrored \<or> e \<in> set new" using set_lastn [of RingSize "mirrored @ new"] by (auto simp: m_def)
      then show "sID e \<le> sID (last new)" using below last_max above_last by force
    qed
    then have "filter (\<lambda>e. sID e \<le> sID (last new)) (stream_contents r) = stream_contents r"
      using sufm by (auto simp: filter_id_conv suffix_def)
    moreover have "sID (last new) \<le> sr_lastID r" using le split False by auto
    moreover have "lastn RingSize (map Encode (mirrored @ new)) = map Encode m"
      by (simp add: m_def lastn_def drop_map)
    moreover have "length m \<le> RingSize" by (simp add: m_def)
    ultimately have "published Encode (r, p', store') m"
      using inv p' st m_sorted m_le sufm by (simp add: published_def)
    then show thesis using that sufm p'(2) by blast
  qed
qed

lemma published_report: "published Encode (r, fst (Publisher_report p ok), store) m = published Encode (r, p, store) m"
  by (simp add: published_def Publisher_report_def)

interpretation stream_ts: transition_system "stream_step fmt Encode" "stream_ok Encode" for fmt Encode
proof unfold_locales
  show "stream_ok Encode (stream_step fmt Encode s x)" if ok: "stream_ok Encode s" for s x
  proof -
    obtain r p store where s: "s = (r, p, store)" using prod_cases3 by blast
    obtain m where m: "published Encode (r, p, store) m" using ok s by (auto simp: stream_ok_def)
    show ?thesis
    proof (cases x)
      case (Log_line l)
      then show ?thesis using published_Log [OF m, of fmt l] s unfolding stream_ok_def by fastforce
    next
      case (Tick applied)
      show ?thesis
      proof (cases applied)
        case True
        obtain p' store' ok where f: "Publisher_Flush Encode p r store Exec_ok = (p', store', ok)"
          using prod_cases3 by blast
        then obtain m' where "published Encode (r, p', store') m'" using published_Tick [OF m f] by blast
        then show ?thesis using s Tick True f by (auto simp: stream_ok_def published_report)
      next
        case False
        have "Publisher_Flush Encode p r store (Exec_err 0) = (p, store, sRing_After r (pb_last p) 0 = [])"
          by (simp add: Publisher_Flush_def Let_def)
        then show ?thesis using s Tick False m by (auto simp: stream_ok_def published_report)
      qed
    qed
  qed
qed

section \<open>Properties\<close>

text \<open>The panel's log ring behaves as its contract says, for any capacity, stamps and clock:
  it holds the newest lines in order under strictly increasing ids, and a reader that walks
  forward with limited reads sees each held entry above its cursor exactly once; without a
  limit a read returns all of them.\<close>

theorem stream_ring_contract:
  assumes "0 < k" and "0 < l"
  shows "let r = foldl (stream_add fmt) (sNewRing capacity) lines;
             first = sRing_After r after k;
             resume = (if first = [] then after else sID (last first))
         in map (\<lambda>e. (sLevel e, sLine e)) (stream_contents r) =
              lastn (if capacity < 1 then 2000 else nat capacity)
                (map (\<lambda>(now, t, level, line). (level, cut_stream_line line)) lines)
            \<and> sorted_wrt (<) (map sID (stream_contents r))
            \<and> first @ sRing_After r resume l = sRing_After r after (k + l)
            \<and> sRing_After r after 0 = filter (\<lambda>e. after < sID e) (stream_contents r)"
proof -
  let ?r = "foldl (stream_add fmt) (sNewRing capacity) lines"
  have inv: "stream_inv ?r" using stream_ring.invar_run [OF stream_inv_new] by blast
  have "map (\<lambda>e. (sLevel e, sLine e)) (stream_contents ?r) =
      lastn (length (sr_buf (sNewRing capacity))) (map (\<lambda>e. (sLevel e, sLine e)) (stream_contents (sNewRing capacity))
        @ map (\<lambda>(now, t, level, line). (level, cut_stream_line line)) lines)"
    by (rule stream_ring.contents_run [OF stream_inv_new])
      (auto simp: stream_new stream_entry_of_def split: prod.splits)
  then show ?thesis
    using stream_ring.since_resume [OF inv assms, of after] stream_ring.ids_sorted [OF inv] sRing_After_filter [OF inv, of after 0]
    by (simp add: Let_def stream_new stream_ring.next_after_def)
qed

theorem stream_ring_contract_witness:
  "let r = foldl (stream_add (\<lambda>_. [])) (sNewRing 2)
             [(5, None, ''info'', ''a''), (6, Some 4, ''warn'', ''b''), (7, Some 9, ''info'', ''c'')];
       first = sRing_After r 0 1
   in map sLine (stream_contents r) = [''b'', ''c'']
      \<and> first @ sRing_After r (if first = [] then 0 else sID (last first)) 1 = sRing_After r 0 (1 + 1)"
proof -
  let ?ls = "[(5, None, ''info'', ''a''), (6, Some 4, ''warn'', ''b''), (7, Some 9, ''info'', ''c'')] :: stream_line list"
  let ?r = "foldl (stream_add (\<lambda>_. [])) (sNewRing 2) ?ls"
  note contract = stream_ring_contract [of 1 1 "\<lambda>_. []" 2 ?ls 0]
  have "map (\<lambda>e. (sLevel e, sLine e)) (stream_contents ?r) = [(''warn'', ''b''), (''info'', ''c'')]"
    using contract by (simp add: Let_def lastn_def cut_stream_line_def MaxLineBytes_def)
  then have "map snd (map (\<lambda>e. (sLevel e, sLine e)) (stream_contents ?r)) = [''b'', ''c'']" by simp
  then show ?thesis using contract by (simp add: Let_def comp_def)
qed


end
