(* ===== verification/RedisCache.thy ===== *)
theory RedisCache
  imports GoStrings
begin

text \<open>
  The shared cache (\<open>internal/cache\<close>): the client of \<open>cache.go\<close> over Redis and the cache-aside
  reads of \<open>cacheaside.go\<close>. A Redis database is a map from keys to a value with an optional
  deadline; a call takes the current time and whether Redis answers it. The JSON codec of
  \<open>GetOrSet\<close> and the fetch from Postgres are parameters.
\<close>

section \<open>Redis\<close>

type_synonym redis = "(string, string \<times> instant option) gomap"

datatype redis_err = ErrNil | Redis_down | Not_an_integer

text \<open>A call's conditions: whether Redis answers, and when.\<close>

record call =
  c_up :: bool
  c_now :: instant

definition live :: "instant \<Rightarrow> string \<times> instant option \<Rightarrow> bool" where
  "live now e = (case snd e of None \<Rightarrow> True | Some t \<Rightarrow> now < t)"

definition redis_lookup :: "redis \<Rightarrow> instant \<Rightarrow> string \<Rightarrow> (string \<times> instant option) option" where
  "redis_lookup r now k =
     (case map_of r k of None \<Rightarrow> None | Some e \<Rightarrow> if live now e then Some e else None)"

section \<open>The client\<close>

definition Cache_Get :: "call \<Rightarrow> redis \<Rightarrow> string \<Rightarrow> redis_err + string" where
  "Cache_Get c r key =
     (if \<not> c_up c then Inl Redis_down
      else case redis_lookup r (c_now c) key of None \<Rightarrow> Inl ErrNil | Some (v, _) \<Rightarrow> Inr v)"

definition Cache_Set :: "call \<Rightarrow> redis \<Rightarrow> string \<Rightarrow> string \<Rightarrow> duration \<Rightarrow> redis \<times> redis_err option" where
  "Cache_Set c r key v ttl =
     (if \<not> c_up c then (r, Some Redis_down)
      else (mput key (v, if ttl > 0 then Some (c_now c + ttl) else None) r, None))"

definition Cache_Del :: "call \<Rightarrow> redis \<Rightarrow> string \<Rightarrow> redis \<times> redis_err option" where
  "Cache_Del c r key = (if \<not> c_up c then (r, Some Redis_down) else (mdel key r, None))"

text \<open>\<open>INCR\<close> keeps the deadline of a key; \<open>EXPIRE\<close> sets it.\<close>

definition redis_INCR :: "call \<Rightarrow> redis \<Rightarrow> string \<Rightarrow> redis \<times> (redis_err + int)" where
  "redis_INCR c r key =
     (if \<not> c_up c then (r, Inl Redis_down)
      else case redis_lookup r (c_now c) key of
        None \<Rightarrow> (mput key (Itoa 1, None) r, Inr 1)
      | Some (v, exp) \<Rightarrow>
          (case ParseInt64 v of
             None \<Rightarrow> (r, Inl Not_an_integer)
           | Some n \<Rightarrow> (mput key (Itoa (n + 1), exp) r, Inr (n + 1))))"

definition redis_EXPIRE :: "call \<Rightarrow> redis \<Rightarrow> string \<Rightarrow> duration \<Rightarrow> redis \<times> redis_err option" where
  "redis_EXPIRE c r key ttl =
     (if \<not> c_up c then (r, Some Redis_down)
      else case redis_lookup r (c_now c) key of
        None \<Rightarrow> (r, None)
      | Some (v, _) \<Rightarrow> (mput key (v, Some (c_now c + ttl)) r, None))"

definition Cache_Incr :: "call \<Rightarrow> call \<Rightarrow> redis \<Rightarrow> string \<Rightarrow> duration \<Rightarrow> redis \<times> int \<times> redis_err option" where
  "Cache_Incr c1 c2 r key ttl =
     (case redis_INCR c1 r key of
        (r1, Inl e) \<Rightarrow> (r1, 0, Some e)
      | (r1, Inr n) \<Rightarrow>
          if n = 1 then (case redis_EXPIRE c2 r1 key ttl of (r2, err) \<Rightarrow> (r2, n, err))
          else (r1, n, None))"

definition nsMaintenance :: string where
  "nsMaintenance = ''rapido:maintenance''"

definition SetMaintenanceMode :: "call \<Rightarrow> redis \<Rightarrow> bool \<Rightarrow> redis \<times> redis_err option" where
  "SetMaintenanceMode c r on =
     (if \<not> on then Cache_Del c r nsMaintenance else Cache_Set c r nsMaintenance ''1'' 0)"

definition IsMaintenanceMode :: "call \<Rightarrow> redis \<Rightarrow> redis_err + bool" where
  "IsMaintenanceMode c r =
     (if \<not> c_up c then Inl Redis_down else Inr (redis_lookup r (c_now c) nsMaintenance \<noteq> None))"

definition FlushAll :: "call \<Rightarrow> redis \<Rightarrow> redis \<times> redis_err option" where
  "FlushAll c r = (if \<not> c_up c then (r, Some Redis_down) else ([], None))"

definition LoginAttemptsKey :: "string \<Rightarrow> string" where
  "LoginAttemptsKey ip = ''rapido:login_attempts:'' @ ip"

definition AdminByUsernameKey :: "string \<Rightarrow> string" where
  "AdminByUsernameKey username = ''rapido:admin:by_username:'' @ username"

definition AdminByIDKey :: "int \<Rightarrow> string" where
  "AdminByIDKey i = ''rapido:admin:by_id:'' @ Itoa i"

definition InboundByTagKey :: "string \<Rightarrow> string" where
  "InboundByTagKey tag = ''rapido:inbound:'' @ tag"

definition InboundTagsByProtocolKey :: "string \<Rightarrow> string" where
  "InboundTagsByProtocolKey protocol = ''rapido:inbound_tags:'' @ protocol"

definition ExcludedInboundTagsKey :: "int \<Rightarrow> string" where
  "ExcludedInboundTagsKey proxyID = ''rapido:excluded_inbounds:'' @ Itoa proxyID"

definition GatewayPeerStatusKey :: "int \<Rightarrow> string" where
  "GatewayPeerStatusKey peerID = ''rapido:gateway_peer_status:'' @ Itoa peerID"

definition HostKey :: "string \<Rightarrow> string" where
  "HostKey nodeID = ''rapido:host:'' @ nodeID"

definition InboundCountKey :: "string \<Rightarrow> string" where
  "InboundCountKey tag = ''rapido:inbound_count:'' @ tag"

definition PortConnKey :: "int \<Rightarrow> string" where
  "PortConnKey port = ''rapido:port_conn:'' @ Itoa port"

section \<open>Cache-aside reads\<close>

text \<open>The result carries the new Redis state; \<open>cg\<close> and \<open>cs\<close> are the conditions of the read and of
  the store. \<open>fetch\<close> is the answer of the source of truth at this call.\<close>

definition GetOrSet ::
  "('t \<Rightarrow> string option) \<Rightarrow> (string \<Rightarrow> 't option) \<Rightarrow> call \<Rightarrow> call \<Rightarrow> redis \<Rightarrow> string \<Rightarrow> duration
    \<Rightarrow> 'e + 't \<Rightarrow> redis \<times> ('e + 't)" where
  "GetOrSet Marshal Unmarshal cg cs r key ttl fetch =
     (case (case Cache_Get cg r key of Inl _ \<Rightarrow> None | Inr raw \<Rightarrow> Unmarshal raw) of
        Some v \<Rightarrow> (r, Inr v)
      | None \<Rightarrow>
          (case fetch of
             Inl err \<Rightarrow> (r, Inl err)
           | Inr v \<Rightarrow>
               (case Marshal v of
                  None \<Rightarrow> (r, Inr v)
                | Some raw \<Rightarrow> (fst (Cache_Set cs r key raw ttl), Inr v))))"

definition GetOrSetString ::
  "call \<Rightarrow> call \<Rightarrow> redis \<Rightarrow> string \<Rightarrow> duration \<Rightarrow> 'e + string \<Rightarrow> redis \<times> ('e + string)" where
  "GetOrSetString cg cs r key ttl fetch =
     (case Cache_Get cg r key of
        Inr raw \<Rightarrow> (r, Inr raw)
      | Inl _ \<Rightarrow>
          (case fetch of
             Inl err \<Rightarrow> (r, Inl err)
           | Inr v \<Rightarrow> (fst (Cache_Set cs r key v ttl), Inr v)))"

lemma redis_lookup_put [simp]:
  "redis_lookup (mput k e r) now k' = (if k' = k then (if live now e then Some e else None) else redis_lookup r now k')"
  by (simp add: redis_lookup_def)

lemma redis_lookup_del [simp]:
  "redis_lookup (mdel k r) now k' = (if k' = k then None else redis_lookup r now k')"
  by (simp add: redis_lookup_def)

text \<open>Everything stored under a key came from a fetch of that key's value, so the typed read gives
  a value the source had; a string read is the typed read with the trivial codec.\<close>

lemma GetOrSetString_is_GetOrSet: "GetOrSetString = GetOrSet Some Some"
  by (intro ext) (simp add: GetOrSetString_def GetOrSet_def split: sum.splits)

text \<open>A sequence of cache-aside reads of one key against a source whose answer changes over time.\<close>

record 'a read_op =
  ro_get :: call
  ro_set :: call
  ro_fetch :: 'a

fun read_all ::
  "('t \<Rightarrow> string option) \<Rightarrow> (string \<Rightarrow> 't option) \<Rightarrow> redis \<Rightarrow> string \<Rightarrow> duration \<Rightarrow> ('e + 't) read_op list
    \<Rightarrow> redis \<times> ('e + 't) list" where
  "read_all Marshal Unmarshal r key ttl [] = (r, [])"
| "read_all Marshal Unmarshal r key ttl (x # xs) =
     (let (r1, res) = GetOrSet Marshal Unmarshal (ro_get x) (ro_set x) r key ttl (ro_fetch x);
          (r2, ress) = read_all Marshal Unmarshal r1 key ttl xs
      in (r2, res # ress))"

lemma read_all_snoc:
  "read_all M U r key ttl (xs @ [x]) =
    (let (r1, ress) = read_all M U r key ttl xs;
         (r2, res) = GetOrSet M U (ro_get x) (ro_set x) r1 key ttl (ro_fetch x)
     in (r2, ress @ [res]))"
  by (induction xs arbitrary: r) (auto simp: Let_def split: prod.splits)

lemma length_read_all: "length (snd (read_all M U r key ttl xs)) = length xs"
  by (induction xs arbitrary: r) (simp_all add: Let_def split_beta)

text \<open>What the key holds was fetched by one of the reads and expires a \<open>ttl\<close> after it was stored.\<close>

definition from_fetch :: "(string \<Rightarrow> 't option) \<Rightarrow> redis \<Rightarrow> string \<Rightarrow> duration \<Rightarrow> ('e + 't) read_op list \<Rightarrow> bool" where
  "from_fetch Unmarshal r key ttl xs \<longleftrightarrow>
     (case map_of r key of
        None \<Rightarrow> True
      | Some (raw, deadline) \<Rightarrow>
          (\<exists>x \<in> set xs. \<exists>v. ro_fetch x = Inr v \<and> Unmarshal raw = Some v \<and> deadline = Some (c_now (ro_set x) + ttl)))"

lemma from_fetch_step:
  assumes codec: "\<And>v raw. M v = Some raw \<Longrightarrow> U raw = Some v" and "0 < ttl"
    and inv: "from_fetch U r key ttl xs"
    and step: "GetOrSet M U (ro_get x) (ro_set x) r key ttl (ro_fetch x) = (r', res)"
  shows "from_fetch U r' key ttl (xs @ [x])"
    and "res = ro_fetch x \<or> (\<exists>y \<in> set xs. \<exists>v. res = Inr v \<and> ro_fetch y = Inr v \<and> c_now (ro_get x) < c_now (ro_set y) + ttl)"
proof -
  have base: "from_fetch U r key ttl (xs @ [x])"
    using inv unfolding from_fetch_def by (auto split: option.splits prod.splits)
  have put: "from_fetch U (fst (Cache_Set (ro_set x) r key raw ttl)) key ttl (xs @ [x])"
    if "M v = Some raw" "ro_fetch x = Inr v" for raw v
    using that base codec assms(2) by (auto simp: Cache_Set_def from_fetch_def)
  show "from_fetch U r' key ttl (xs @ [x])"
    using step base put by (auto simp: GetOrSet_def split: sum.splits option.splits)
  have hit: "\<exists>y \<in> set xs. ro_fetch y = Inr v \<and> c_now (ro_get x) < c_now (ro_set y) + ttl"
    if get: "Cache_Get (ro_get x) r key = Inr raw" "U raw = Some v" for raw v
  proof -
    obtain deadline where d: "map_of r key = Some (raw, deadline)" "live (c_now (ro_get x)) (raw, deadline)"
      using get by (auto simp: Cache_Get_def redis_lookup_def split: if_splits option.splits)
    then obtain y where "y \<in> set xs" "ro_fetch y = Inr v" "deadline = Some (c_now (ro_set y) + ttl)"
      using inv get(2) by (auto simp: from_fetch_def)
    then show ?thesis using d(2) by (auto simp: live_def)
  qed
  show "res = ro_fetch x \<or> (\<exists>y \<in> set xs. \<exists>v. res = Inr v \<and> ro_fetch y = Inr v \<and> c_now (ro_get x) < c_now (ro_set y) + ttl)"
    using step hit by (auto simp: GetOrSet_def split: sum.splits option.splits)
qed

lemma read_all_from_fetch:
  assumes codec: "\<And>v raw. M v = Some raw \<Longrightarrow> U raw = Some v" and "0 < ttl"
  shows "from_fetch U (fst (read_all M U [] key ttl xs)) key ttl xs \<and>
    (\<forall>i < length xs. snd (read_all M U [] key ttl xs) ! i = ro_fetch (xs ! i) \<or>
       (\<exists>j < i. \<exists>v. snd (read_all M U [] key ttl xs) ! i = Inr v \<and> ro_fetch (xs ! j) = Inr v
          \<and> c_now (ro_get (xs ! i)) < c_now (ro_set (xs ! j)) + ttl))"
proof (induction xs rule: rev_induct)
  case (snoc x xs)
  obtain r1 ress where run: "read_all M U [] key ttl xs = (r1, ress)" by force
  obtain r2 res where step: "GetOrSet M U (ro_get x) (ro_set x) r1 key ttl (ro_fetch x) = (r2, res)" by force
  have len: "length ress = length xs" using length_read_all [of M U "[]" key ttl xs] run by simp
  have inv: "from_fetch U r1 key ttl xs" using snoc run by simp
  note stepd = from_fetch_step [OF codec assms(2) inv step]
  have all: "read_all M U [] key ttl (xs @ [x]) = (r2, ress @ [res])"
    using run step by (simp add: read_all_snoc)
  have "(ress @ [res]) ! i = ro_fetch ((xs @ [x]) ! i) \<or>
      (\<exists>j < i. \<exists>v. (ress @ [res]) ! i = Inr v \<and> ro_fetch ((xs @ [x]) ! j) = Inr v
        \<and> c_now (ro_get ((xs @ [x]) ! i)) < c_now (ro_set ((xs @ [x]) ! j)) + ttl)"
    if "i < Suc (length xs)" for i
  proof (cases "i = length xs")
    case True
    then show ?thesis using stepd(2) len by (fastforce simp: nth_append in_set_conv_nth)
  next
    case False
    then have i: "i < length xs" using that by simp
    then have "ress ! i = ro_fetch (xs ! i) \<or> (\<exists>j < i. \<exists>v. ress ! i = Inr v \<and> ro_fetch (xs ! j) = Inr v
        \<and> c_now (ro_get (xs ! i)) < c_now (ro_set (xs ! j)) + ttl)"
      using snoc.IH run by simp
    then show ?thesis using i len by (fastforce simp: nth_append)
  qed
  then show ?case using stepd(1) all by simp
qed (simp add: from_fetch_def)

text \<open>Cache-aside reads are safe whatever Redis does: over any sequence of reads of a key,
  with Redis failing or answering each call as it likes, every read returns either what its own
  fetch answered (errors included, unchanged) or a value that an earlier fetch of the same key
  returned less than a \<open>ttl\<close> before: nothing is invented, no error is ever served from the
  cache, and nothing outlives its \<open>ttl\<close>. While Redis does not answer, every read is its fetch.\<close>

theorem cache_aside_serves_fetched:
  assumes codec: "\<forall>v raw. Marshal v = Some raw \<longrightarrow> Unmarshal raw = Some v" and "0 < ttl"
  shows "let results = snd (read_all Marshal Unmarshal [] key ttl xs)
    in length results = length xs
       \<and> (\<forall>i < length xs. results ! i = ro_fetch (xs ! i) \<or>
           (\<exists>j < i. \<exists>v. results ! i = Inr v \<and> ro_fetch (xs ! j) = Inr v
              \<and> c_now (ro_get (xs ! i)) < c_now (ro_set (xs ! j)) + ttl))
       \<and> ((\<forall>x \<in> set xs. \<not> c_up (ro_get x)) \<longrightarrow> results = map ro_fetch xs)"
proof -
  have down: "snd (read_all Marshal Unmarshal r key ttl xs) = map ro_fetch xs"
    if "\<forall>x \<in> set xs. \<not> c_up (ro_get x)" for r
    using that
  proof (induction xs arbitrary: r)
    case (Cons x xs)
    then show ?case
      by (auto simp: Let_def GetOrSet_def Cache_Get_def split: prod.splits sum.splits option.splits)
        (metis snd_conv)+
  qed simp
  have "\<And>v raw. Marshal v = Some raw \<Longrightarrow> Unmarshal raw = Some v" using codec by blast
  from read_all_from_fetch [where key = key and xs = xs, OF this assms(2)] show ?thesis
    using down [of "[]"] length_read_all [of Marshal Unmarshal "[]" key ttl xs] by (simp add: Let_def)
qed

theorem cache_aside_serves_fetched_witness:
  "let reads = [\<lparr>ro_get = \<lparr>c_up = True, c_now = 1\<rparr>, ro_set = \<lparr>c_up = True, c_now = 1\<rparr>, ro_fetch = Inr ''a''\<rparr>,
                \<lparr>ro_get = \<lparr>c_up = True, c_now = 5\<rparr>, ro_set = \<lparr>c_up = True, c_now = 5\<rparr>, ro_fetch = Inl (0::nat)\<rparr>];
       results = snd (read_all Some Some [] ''k'' 10 reads)
   in results = [Inr ''a'', Inr ''a''] \<and> length results = length reads"
  using cache_aside_serves_fetched [of Some Some 10 "''k''"
      "[\<lparr>ro_get = \<lparr>c_up = True, c_now = 1\<rparr>, ro_set = \<lparr>c_up = True, c_now = 1\<rparr>, ro_fetch = Inr ''a''\<rparr>,
        \<lparr>ro_get = \<lparr>c_up = True, c_now = 5\<rparr>, ro_set = \<lparr>c_up = True, c_now = 5\<rparr>, ro_fetch = Inl (0::nat)\<rparr>]"]
  by (simp add: Let_def GetOrSet_def Cache_Get_def Cache_Set_def redis_lookup_def live_def)

end
