(* ===== verification/Auth.thy ===== *)
theory Auth
  imports RedisCache
begin

text \<open>
  Authentication of the panel's API: the memo of password checks (\<open>internal/auth/verifycache.go\<close>),
  the token issuer (\<open>jwt.go\<close>), the middleware that resolves a request's identity
  (\<open>middleware.go\<close>) and the login handler with its failure limiter
  (\<open>internal/httpapi/admin.go\<close>). Parameters: bcrypt's comparison \<open>verify\<close>, the keyed hash \<open>mac\<close>,
  the JWT library and the admin lookup. Times are nanoseconds.
\<close>

section \<open>The memo of password checks\<close>

definition second :: duration where "second = 1000000000"

definition verifyHitTTL :: duration where "verifyHitTTL = 300 * second"
definition verifyMissTTL :: duration where "verifyMissTTL = 60 * second"
definition verifyMaxEntries :: nat where "verifyMaxEntries = 4096"

record verifyEntry =
  ve_ok :: bool
  ve_expires :: instant

type_synonym 'k vcache = "('k, verifyEntry) gomap"

text \<open>The bytes fed to the hash: each string after its length as four big-endian bytes
  (\<open>uint32(len(s))\<close>, which wraps).\<close>

definition be32 :: "nat \<Rightarrow> string" where
  "be32 n = map (\<lambda>k. char_of (n div 256 ^ k mod 256)) [3, 2, 1, 0]"

definition key_bytes :: "string \<Rightarrow> string \<Rightarrow> string \<Rightarrow> string" where
  "key_bytes username plain hashed =
     concat (map (\<lambda>s. be32 (length s mod 2 ^ 32) @ s) [username, plain, hashed])"

definition vc_key :: "(string \<Rightarrow> 'k) \<Rightarrow> string \<Rightarrow> string \<Rightarrow> string \<Rightarrow> 'k" where
  "vc_key mac username plain hashed = mac (key_bytes username plain hashed)"

text \<open>The iteration order of a Go map is unspecified: \<open>pick\<close> chooses the arbitrary victim.\<close>

definition evictLocked :: "nat \<Rightarrow> 'k vcache \<Rightarrow> instant \<Rightarrow> 'k vcache" where
  "evictLocked pick entries now =
     (let entries = filter (\<lambda>(k, e). now < ve_expires e) entries
      in if length entries < verifyMaxEntries then entries
         else mdel (fst (entries ! (pick mod length entries))) entries)"

text \<open>\<open>Verify\<close> holds the lock twice: once to look the verdict up, and once to store a fresh one.\<close>

definition Verify_lookup :: "(string \<Rightarrow> 'k) \<Rightarrow> 'k vcache \<Rightarrow> instant \<Rightarrow> string \<Rightarrow> string \<Rightarrow> string \<Rightarrow> bool option" where
  "Verify_lookup mac entries now username plain hashed =
     (case map_of entries (vc_key mac username plain hashed) of
        Some e \<Rightarrow> if now < ve_expires e then Some (ve_ok e) else None
      | None \<Rightarrow> None)"

definition Verify_store ::
  "(string \<Rightarrow> 'k) \<Rightarrow> nat \<Rightarrow> 'k vcache \<Rightarrow> instant \<Rightarrow> string \<Rightarrow> string \<Rightarrow> string \<Rightarrow> bool \<Rightarrow> 'k vcache" where
  "Verify_store mac pick entries now username plain hashed ok =
     (let ttl = (if ok then verifyHitTTL else verifyMissTTL);
          entries = (if length entries \<ge> verifyMaxEntries then evictLocked pick entries now else entries)
      in mput (vc_key mac username plain hashed) \<lparr>ve_ok = ok, ve_expires = now + ttl\<rparr> entries)"

definition Verify ::
  "(string \<Rightarrow> 'k) \<Rightarrow> (string \<Rightarrow> string \<Rightarrow> bool) \<Rightarrow> nat \<Rightarrow> 'k vcache \<Rightarrow> instant \<Rightarrow> string \<Rightarrow> string \<Rightarrow> string
    \<Rightarrow> 'k vcache \<times> bool" where
  "Verify mac verify pick entries now username plain hashed =
     (case Verify_lookup mac entries now username plain hashed of
        Some ok \<Rightarrow> (entries, ok)
      | None \<Rightarrow>
          (let ok = verify plain hashed
           in (Verify_store mac pick entries now username plain hashed ok, ok)))"

subsection \<open>The key determines the triple\<close>

lemma be32_inj: "be32 m = be32 n \<Longrightarrow> m < 2 ^ 32 \<Longrightarrow> n < 2 ^ 32 \<Longrightarrow> m = n"
proof -
  assume eq: "be32 m = be32 n" and m: "m < 2 ^ 32" and n: "n < 2 ^ 32"
  have digits: "k = 16777216 * (k div 16777216 mod 256) + 65536 * (k div 65536 mod 256) + 256 * (k div 256 mod 256) + k mod 256"
    if "k < 2 ^ 32" for k :: nat
  proof -
    have a: "k = 256 * (k div 256) + k mod 256" by simp
    have b: "k div 256 = 256 * (k div 65536) + k div 256 mod 256"
      using mult_div_mod_eq [of 256 "k div 256"] by (simp add: div_mult2_eq [symmetric])
    have c: "k div 65536 = 256 * (k div 16777216) + k div 65536 mod 256"
      using mult_div_mod_eq [of 256 "k div 65536"] by (simp add: div_mult2_eq [symmetric])
    have d: "k div 16777216 mod 256 = k div 16777216" using that by simp
    show ?thesis unfolding d using a b c by linarith
  qed
  have "(of_char (char_of (a mod 256) :: char) :: nat) = a mod 256" for a :: nat by simp
  then have b: "a mod 256 = b mod 256" if "(char_of (a mod 256) :: char) = char_of (b mod 256)" for a b :: nat
    using that by metis
  have "m div 16777216 mod 256 = n div 16777216 mod 256" "m div 65536 mod 256 = n div 65536 mod 256"
    "m div 256 mod 256 = n div 256 mod 256" "m mod 256 = n mod 256"
    using eq by (auto simp: be32_def intro!: b)
  then show ?thesis using digits [OF m] digits [OF n] by linarith
qed

lemma length_be32 [simp]: "length (be32 n) = 4"
  by (simp add: be32_def)

lemma prefixed_inj:
  assumes "be32 (length s mod 2 ^ 32) @ s @ u = be32 (length s' mod 2 ^ 32) @ s' @ u'"
    and "length s < 2 ^ 32" and "length s' < 2 ^ 32"
  shows "s = s' \<and> u = u'"
proof -
  have "be32 (length s) = be32 (length s')" "s @ u = s' @ u'"
    using assms by (simp_all add: append_eq_append_conv)
  then show ?thesis using be32_inj [of "length s" "length s'"] assms(2,3) by simp
qed

lemma key_bytes_inj:
  assumes "key_bytes u p h = key_bytes u' p' h'"
    and "length u < 2 ^ 32" "length p < 2 ^ 32" "length h < 2 ^ 32"
    and "length u' < 2 ^ 32" "length p' < 2 ^ 32" "length h' < 2 ^ 32"
  shows "u = u' \<and> p = p' \<and> h = h'"
proof -
  have "be32 (length u mod 2 ^ 32) @ u @ be32 (length p mod 2 ^ 32) @ p @ be32 (length h mod 2 ^ 32) @ h @ [] =
      be32 (length u' mod 2 ^ 32) @ u' @ be32 (length p' mod 2 ^ 32) @ p' @ be32 (length h' mod 2 ^ 32) @ h' @ []"
    using assms(1) by (simp only: key_bytes_def list.map concat.simps append_assoc append_Nil2)
  note u = prefixed_inj [OF this assms(2,5)]
  note p = prefixed_inj [OF conjunct2 [OF u] assms(3,6)]
  note h = prefixed_inj [OF conjunct2 [OF p] assms(4,7)]
  from u p h show ?thesis by blast
qed

subsection \<open>The memo never changes a verdict\<close>

text \<open>What other requests may do between any two of our own steps: a whole call, or only the store of
  a call that was still comparing.\<close>

datatype vc_op =
  VCall nat instant string string string
| VStore nat instant string string string

fun vc_step :: "(string \<Rightarrow> 'k) \<Rightarrow> (string \<Rightarrow> string \<Rightarrow> bool) \<Rightarrow> 'k vcache \<Rightarrow> vc_op \<Rightarrow> 'k vcache" where
  "vc_step mac verify entries (VCall pick now u p h) = fst (Verify mac verify pick entries now u p h)"
| "vc_step mac verify entries (VStore pick now u p h) = Verify_store mac pick entries now u p h (verify p h)"

fun op_triple :: "vc_op \<Rightarrow> string \<times> string \<times> string" where
  "op_triple (VCall pick now u p h) = (u, p, h)"
| "op_triple (VStore pick now u p h) = (u, p, h)"

definition verdict_ok ::
  "(string \<Rightarrow> 'k) \<Rightarrow> (string \<Rightarrow> string \<Rightarrow> bool) \<Rightarrow> (string \<times> string \<times> string) set \<Rightarrow> 'k \<times> verifyEntry \<Rightarrow> bool" where
  "verdict_ok mac verify T x \<longleftrightarrow> (\<exists>(u, p, h) \<in> T. fst x = vc_key mac u p h \<and> ve_ok (snd x) = verify p h)"

definition vc_inv ::
  "(string \<Rightarrow> 'k) \<Rightarrow> (string \<Rightarrow> string \<Rightarrow> bool) \<Rightarrow> (string \<times> string \<times> string) set \<Rightarrow> 'k vcache \<Rightarrow> bool" where
  "vc_inv mac verify T entries \<longleftrightarrow>
     wf_map entries \<and> length entries \<le> verifyMaxEntries
     \<and> (\<forall>x \<in> set entries. verdict_ok mac verify T x)"

lemma length_mput_le: "length (mput k v m) \<le> Suc (length m)"
  by (induction m) auto

lemma length_mdel_less: "k \<in> fst ` set m \<Longrightarrow> length (mdel k m) < length m"
proof (induction m)
  case (Cons a m)
  then show ?case using length_delete_le [of k m] by (cases a) (auto simp: image_iff)
qed simp

lemma evictLocked_bound: "wf_map m \<Longrightarrow> length m \<le> verifyMaxEntries \<Longrightarrow>
    length (evictLocked pick m now) < verifyMaxEntries \<and> wf_map (evictLocked pick m now) \<and> set (evictLocked pick m now) \<subseteq> set m"
proof -
  assume wf: "wf_map m" and len: "length m \<le> verifyMaxEntries"
  define f where "f = filter (\<lambda>(k, e). now < ve_expires e) m"
  have f: "wf_map f" "length f \<le> verifyMaxEntries" "set f \<subseteq> set m"
    using wf len by (auto simp: f_def intro: le_trans [OF length_filter_le])
  have victim: "fst (f ! (pick mod length f)) \<in> fst ` set f" if "\<not> length f < verifyMaxEntries"
    using that by (intro imageI nth_mem mod_less_divisor) (cases f; simp add: verifyMaxEntries_def)
  show ?thesis
    using f length_mdel_less [OF victim] set_mdel [of _ f]
    by (auto simp: evictLocked_def Let_def simp flip: f_def)
qed

lemma vc_inv_store:
  assumes "vc_inv mac verify T entries" and "(u, p, h) \<in> T"
  shows "vc_inv mac verify T (Verify_store mac pick entries now u p h (verify p h))"
proof -
  define m where "m = (if length entries \<ge> verifyMaxEntries then evictLocked pick entries now else entries)"
  have m: "wf_map m" "length m < verifyMaxEntries" "set m \<subseteq> set entries"
    using assms(1) evictLocked_bound [of entries pick now] by (auto simp: m_def vc_inv_def)
  define e where "e = \<lparr>ve_ok = verify p h, ve_expires = now + (if verify p h then verifyHitTTL else verifyMissTTL)\<rparr>"
  have store: "Verify_store mac pick entries now u p h (verify p h) = mput (vc_key mac u p h) e m"
    by (simp add: Verify_store_def Let_def m_def e_def)
  have "\<forall>x \<in> set m. verdict_ok mac verify T x" using m(3) assms(1) by (auto simp: vc_inv_def)
  moreover have "verdict_ok mac verify T (vc_key mac u p h, e)"
    unfolding verdict_ok_def by (rule bexI [OF _ assms(2)]) (simp add: e_def)
  ultimately have "\<forall>x \<in> set (mput (vc_key mac u p h) e m). verdict_ok mac verify T x"
    using set_mput [of "vc_key mac u p h" e m] by blast
  then show ?thesis using m length_mput_le [of "vc_key mac u p h" e m]
    by (simp add: vc_inv_def store)
qed

lemma vc_inv_run:
  "vc_inv mac verify T entries \<Longrightarrow> op_triple ` set ops \<subseteq> T \<Longrightarrow> vc_inv mac verify T (foldl (vc_step mac verify) entries ops)"
proof (induction ops arbitrary: entries)
  case (Cons x ops)
  have "vc_inv mac verify T (vc_step mac verify entries x)"
    using Cons.prems vc_inv_store
    by (cases x) (auto simp: Verify_def Let_def split: option.splits)
  then show ?case using Cons.IH Cons.prems(2) by simp
qed simp

lemma Verify_lookup_correct:
  assumes inv: "vc_inv mac verify T entries" and inj: "inj_on (\<lambda>(u, p, h). vc_key mac u p h) (insert (u, p, h) T)"
    and hit: "Verify_lookup mac entries now u p h = Some ok"
  shows "ok = verify p h"
proof -
  obtain e where e: "(vc_key mac u p h, e) \<in> set entries" "ok = ve_ok e"
    using hit by (auto simp: Verify_lookup_def split: option.splits if_splits dest: map_of_SomeD)
  then obtain u' p' h' where t: "(u', p', h') \<in> T" "vc_key mac u p h = vc_key mac u' p' h'" "ve_ok e = verify p' h'"
    using inv by (fastforce simp: vc_inv_def verdict_ok_def)
  then have "(u, p, h) = (u', p', h')" using inj_onD [OF inj, of "(u, p, h)" "(u', p', h')"] by auto
  then show ?thesis using e(2) t(3) by simp
qed

lemma vc_key_inj:
  assumes "inj_on mac ((\<lambda>(u, p, h). key_bytes u p h) ` T)"
    and "\<forall>(u, p, h) \<in> T. length u < 2 ^ 32 \<and> length p < 2 ^ 32 \<and> length h < 2 ^ 32"
  shows "inj_on (\<lambda>(u, p, h). vc_key mac u p h) T"
proof (rule inj_onI)
  fix x y assume xy: "x \<in> T" "y \<in> T" "(case x of (u, p, h) \<Rightarrow> vc_key mac u p h) = (case y of (u, p, h) \<Rightarrow> vc_key mac u p h)"
  obtain u p h u' p' h' where [simp]: "x = (u, p, h)" "y = (u', p', h')" using prod_cases3 by metis
  have "key_bytes u p h = key_bytes u' p' h'"
    by (rule inj_onD [OF assms(1)]) (use xy in \<open>auto simp: vc_key_def image_iff intro: bexI [rotated]\<close>)
  moreover have "length u < 2 ^ 32" "length p < 2 ^ 32" "length h < 2 ^ 32"
    "length u' < 2 ^ 32" "length p' < 2 ^ 32" "length h' < 2 ^ 32"
    using bspec [OF assms(2) xy(1)] bspec [OF assms(2) xy(2)] by simp_all
  ultimately have "u = u' \<and> p = p' \<and> h = h'" by (rule key_bytes_inj)
  then show "x = y" by simp
qed

text \<open>C27. The memo of password checks is transparent: after any history of concurrent calls, with the
  clock anywhere and any eviction order, a check returns exactly what the real comparison of
  that password with that stored hash returns, and at most 4096 verdicts are kept. The keyed
  hash is only assumed to have no collision among the byte strings actually hashed; that these
  byte strings differ for different triples is proved.\<close>

theorem VerifyCache_transparent:
  assumes "inj_on mac ((\<lambda>(u, p, h). key_bytes u p h) ` insert (username, plain, hashed) (op_triple ` set history))"
    and "\<forall>(u, p, h) \<in> insert (username, plain, hashed) (op_triple ` set history).
           length u < 2 ^ 32 \<and> length p < 2 ^ 32 \<and> length h < 2 ^ 32"
  shows "let entries = foldl (vc_step mac verify) [] history;
             (entries', verdict) = Verify mac verify pick entries now username plain hashed
         in verdict = verify plain hashed
            \<and> length entries \<le> 4096 \<and> length entries' \<le> 4096"
proof -
  let ?T = "insert (username, plain, hashed) (op_triple ` set history)"
  let ?entries = "foldl (vc_step mac verify) [] history"
  have inv: "vc_inv mac verify ?T ?entries"
    by (rule vc_inv_run) (auto simp: vc_inv_def)
  have "vc_inv mac verify ?T (fst (Verify mac verify pick ?entries now username plain hashed))"
    using inv vc_inv_store [OF inv, of username plain hashed] by (auto simp: Verify_def Let_def split: option.splits)
  moreover have "snd (Verify mac verify pick ?entries now username plain hashed) = verify plain hashed"
    using Verify_lookup_correct [OF inv, of username plain hashed now] vc_key_inj [OF assms]
    by (auto simp: Verify_def Let_def insert_absorb split: option.splits)
  ultimately show ?thesis using inv
    by (auto simp: Let_def vc_inv_def verifyMaxEntries_def split: prod.splits)
qed

theorem VerifyCache_transparent_witness:
  "let verify = (\<lambda>p h. p = h);
       entries = foldl (vc_step (\<lambda>x. x) verify) [] [VCall 0 10 ''ann'' ''x'' ''y'', VStore 3 11 ''bob'' ''z'' ''z'']
   in snd (Verify (\<lambda>x. x) verify 0 entries 12 ''ann'' ''x'' ''y'') = False \<and> length entries \<le> 4096"
  using VerifyCache_transparent [of "\<lambda>x. x" "''ann''" "''x''" "''y''"
      "[VCall 0 10 ''ann'' ''x'' ''y'', VStore 3 11 ''bob'' ''z'' ''z'']" "\<lambda>p h. p = h" 0 12]
  by (simp add: Let_def split_beta)

section \<open>Tokens\<close>

record Claims =
  cl_username :: string
  cl_access :: string
  cl_iat :: "instant option"
  cl_exp :: "instant option"

definition Claims_IsSudo :: "Claims \<Rightarrow> bool" where
  "Claims_IsSudo c = (cl_access c = ''sudo'')"

text \<open>The JWT library: \<open>NewNumericDate\<close>, signing with a secret, and parsing a token at an instant
  (\<open>None\<close> when the signature, the algorithm or the expiry is not accepted).\<close>

record jwt_api =
  numeric_date :: "instant \<Rightarrow> instant"
  jwt_sign :: "string \<Rightarrow> Claims \<Rightarrow> string option"
  jwt_parse :: "string \<Rightarrow> instant \<Rightarrow> string \<Rightarrow> Claims option"

record TokenIssuer =
  ti_secret :: string
  ti_ttl :: duration

definition Issue :: "jwt_api \<Rightarrow> TokenIssuer \<Rightarrow> instant \<Rightarrow> instant \<Rightarrow> string \<Rightarrow> bool \<Rightarrow> string option" where
  "Issue jwt i now now2 username isSudo =
     (let access = (if isSudo then ''sudo'' else ''admin'');
          claims = \<lparr>cl_username = username, cl_access = access, cl_iat = Some (numeric_date jwt now),
                    cl_exp = (if ti_ttl i > 0 then Some (numeric_date jwt (now2 + ti_ttl i)) else None)\<rparr>
      in jwt_sign jwt (ti_secret i) claims)"

definition Verify_token :: "jwt_api \<Rightarrow> TokenIssuer \<Rightarrow> instant \<Rightarrow> string \<Rightarrow> Claims option" where
  "Verify_token jwt i now tokenString =
     (case jwt_parse jwt (ti_secret i) now tokenString of
        None \<Rightarrow> None
      | Some claims \<Rightarrow>
          if cl_username claims = [] \<or> (cl_access claims \<noteq> ''admin'' \<and> cl_access claims \<noteq> ''sudo'')
          then None else Some claims)"

text \<open>What the code relies on of the library: a date is cut to its second, and a token that was signed
  with the secret gives its claims back until it expires.\<close>

definition jwt_laws :: "jwt_api \<Rightarrow> bool" where
  "jwt_laws jwt \<longleftrightarrow>
     (\<forall>t. numeric_date jwt t \<le> t \<and> t < numeric_date jwt t + second)
     \<and> (\<forall>secret claims tok now. jwt_sign jwt secret claims = Some tok \<longrightarrow>
          jwt_parse jwt secret now tok =
            (case cl_exp claims of Some e \<Rightarrow> if now < e then Some claims else None | None \<Rightarrow> Some claims))"

section \<open>The middleware\<close>

record admin_row =
  ar_id :: int
  ar_hashed :: string
  ar_is_sudo :: bool
  ar_is_owner :: bool
  ar_reset_at :: "instant option"

record Identity =
  id_AdminID :: int
  id_Username :: string
  id_IsSudo :: bool
  id_IsOwner :: bool

datatype auth_reason = NoBearer | BadToken | UnknownAdmin | PasswordReset

text \<open>\<open>ResolveAdmin\<close> is a parameter (\<open>None\<close>: an error, or no such admin).\<close>

definition resolve ::
  "jwt_api \<Rightarrow> TokenIssuer \<Rightarrow> (string \<Rightarrow> admin_row option) \<Rightarrow> string \<Rightarrow> instant \<Rightarrow> string \<Rightarrow> auth_reason + Identity" where
  "resolve jwt issuer resolver sudoUsername now header =
     (if \<not> HasPrefix header ''Bearer '' then Inl NoBearer
      else case Verify_token jwt issuer now (drop (length ''Bearer '') header) of
        None \<Rightarrow> Inl BadToken
      | Some claims \<Rightarrow>
          if Claims_IsSudo claims \<and> sudoUsername \<noteq> [] \<and> cl_username claims = sudoUsername
          then Inr \<lparr>id_AdminID = 0, id_Username = cl_username claims, id_IsSudo = True, id_IsOwner = True\<rparr>
          else (case resolver (cl_username claims) of
                  None \<Rightarrow> Inl UnknownAdmin
                | Some a \<Rightarrow>
                    if (case ar_reset_at a of
                          None \<Rightarrow> False
                        | Some r \<Rightarrow> (case cl_iat claims of None \<Rightarrow> True | Some iat \<Rightarrow> r > iat))
                    then Inl PasswordReset
                    else Inr \<lparr>id_AdminID = ar_id a, id_Username = cl_username claims,
                              id_IsSudo = ar_is_sudo a, id_IsOwner = ar_is_owner a\<rparr>))"

datatype auth_resp = Unauthorized401 auth_reason | Forbidden403 | Passed Identity

definition RequireAdmin :: "auth_reason + Identity \<Rightarrow> auth_resp" where
  "RequireAdmin res = (case res of Inl reason \<Rightarrow> Unauthorized401 reason | Inr i \<Rightarrow> Passed i)"

definition RequireSudo :: "auth_reason + Identity \<Rightarrow> auth_resp" where
  "RequireSudo res =
     (case res of
        Inl reason \<Rightarrow> Unauthorized401 reason
      | Inr i \<Rightarrow> if \<not> id_IsSudo i then Forbidden403 else Passed i)"

section \<open>Login\<close>

definition loginRateLimitWindow :: duration where "loginRateLimitWindow = 60 * second"
definition loginRateLimitMax :: int where "loginRateLimitMax = 20"

definition tooManyFailedLogins :: "call \<Rightarrow> redis \<Rightarrow> string \<Rightarrow> bool" where
  "tooManyFailedLogins c r ip =
     (case Cache_Get c r (LoginAttemptsKey ip) of
        Inl _ \<Rightarrow> False
      | Inr v \<Rightarrow> (case ParseInt64 v of None \<Rightarrow> False | Some n \<Rightarrow> n \<ge> loginRateLimitMax))"

definition recordFailedLogin :: "call \<Rightarrow> call \<Rightarrow> redis \<Rightarrow> string \<Rightarrow> redis" where
  "recordFailedLogin c1 c2 r ip = fst (Cache_Incr c1 c2 r (LoginAttemptsKey ip) loginRateLimitWindow)"

definition clearFailedLogins :: "call \<Rightarrow> redis \<Rightarrow> string \<Rightarrow> redis" where
  "clearFailedLogins c r ip = fst (Cache_Del c r (LoginAttemptsKey ip))"

datatype login_resp = TooManyRequests | IncorrectLogin | IssueFailed | AccessToken string

record 'k login_env =
  le_mac :: "string \<Rightarrow> 'k"
  le_verify :: "string \<Rightarrow> string \<Rightarrow> bool"
  le_sudoUsername :: string
  le_sudoPassword :: string
  le_jwt :: jwt_api
  le_issuer :: TokenIssuer

text \<open>The conditions of one request: of each Redis call, the clock at the memo and at the issuer, and
  the answer of the admin lookup.\<close>

record login_req =
  lq_peek :: call
  lq_incr :: call
  lq_expire :: call
  lq_del :: call
  lq_now :: instant
  lq_pick :: nat
  lq_admins :: "string \<Rightarrow> admin_row option"
  lq_ip :: string
  lq_username :: string
  lq_password :: string

definition handleLogin ::
  "'k login_env \<Rightarrow> login_req \<Rightarrow> redis \<Rightarrow> 'k vcache \<Rightarrow> redis \<times> 'k vcache \<times> login_resp" where
  "handleLogin env q r entries =
     (let username = lq_username q; password = lq_password q; ip = lq_ip q;
          succeed = (\<lambda>entries isSudo.
            case Issue (le_jwt env) (le_issuer env) (lq_now q) (lq_now q) username isSudo of
              None \<Rightarrow> (r, entries, IssueFailed)
            | Some token \<Rightarrow> (clearFailedLogins (lq_del q) r ip, entries, AccessToken token));
          refuse = (\<lambda>entries. (recordFailedLogin (lq_incr q) (lq_expire q) r ip, entries, IncorrectLogin))
      in if tooManyFailedLogins (lq_peek q) r ip then (r, entries, TooManyRequests)
         else if le_sudoUsername env \<noteq> [] \<and> username = le_sudoUsername env \<and> password = le_sudoPassword env
         then succeed entries True
         else (case lq_admins q username of
                 None \<Rightarrow> refuse entries
               | Some admin \<Rightarrow>
                   (case Verify (le_mac env) (le_verify env) (lq_pick q) entries (lq_now q) username password (ar_hashed admin) of
                      (entries', ok) \<Rightarrow> if \<not> ok then refuse entries' else succeed entries' (ar_is_sudo admin))))"

section \<open>Properties of tokens and logins\<close>

lemma Verify_token_issued:
  assumes "jwt_laws jwt" and "Issue jwt i t t2 username isSudo = Some tok" and "username \<noteq> []"
  shows "Verify_token jwt i now tok =
    (if ti_ttl i > 0 \<and> \<not> now < numeric_date jwt (t2 + ti_ttl i) then None
     else Some \<lparr>cl_username = username, cl_access = (if isSudo then ''sudo'' else ''admin''),
                cl_iat = Some (numeric_date jwt t),
                cl_exp = (if ti_ttl i > 0 then Some (numeric_date jwt (t2 + ti_ttl i)) else None)\<rparr>)"
  using assms by (auto simp: jwt_laws_def Issue_def Verify_token_def Let_def)

lemma resolve_issued:
  assumes "jwt_laws jwt" and "Issue jwt i t t2 username isSudo = Some tok" and "username \<noteq> []"
    and "\<not> (isSudo \<and> sudoUsername \<noteq> [] \<and> username = sudoUsername)"
  shows "resolve jwt i resolver sudoUsername now (''Bearer '' @ tok) =
    (if ti_ttl i > 0 \<and> \<not> now < numeric_date jwt (t2 + ti_ttl i) then Inl BadToken
     else case resolver username of
       None \<Rightarrow> Inl UnknownAdmin
     | Some a \<Rightarrow>
         if (case ar_reset_at a of None \<Rightarrow> False | Some r \<Rightarrow> numeric_date jwt t < r) then Inl PasswordReset
         else Inr \<lparr>id_AdminID = ar_id a, id_Username = username, id_IsSudo = ar_is_sudo a, id_IsOwner = ar_is_owner a\<rparr>)"
proof -
  have "\<not> ((if isSudo then ''sudo'' else ''admin'') = ''sudo'' \<and> sudoUsername \<noteq> [] \<and> username = sudoUsername)"
    using assms(4) by simp
  moreover define header where "header = ''Bearer '' @ tok"
  moreover have "HasPrefix header ''Bearer ''" "drop (length ''Bearer '') header = tok"
    by (simp_all add: header_def HasPrefix_def)
  ultimately show ?thesis
    unfolding header_def [symmetric] resolve_def
    by (auto simp: Claims_IsSudo_def Verify_token_issued [OF assms(1-3)] split: option.splits)
qed

text \<open>C28. What a token is worth is decided by the current admin row, not by the token. A token issued
  before the admin's last password change is refused at any later time; one issued a second or
  more after it is accepted until it expires, with exactly the sudo and owner flags the row has
  now, whatever access level was written into the token; and an admin who is gone is refused.
  (The environment's own account, the exception the code makes, is excluded.)\<close>

theorem token_follows_admin_row:
  assumes "jwt_laws jwt" and "Issue jwt i t t2 username isSudo = Some tok" and "username \<noteq> []"
    and "\<not> (isSudo \<and> sudoUsername \<noteq> [] \<and> username = sudoUsername)"
  shows "case resolver username of
     None \<Rightarrow> (\<exists>reason. resolve jwt i resolver sudoUsername now (''Bearer '' @ tok) = Inl reason)
   | Some a \<Rightarrow>
       (case ar_reset_at a of
          Some changed \<Rightarrow>
            (t < changed \<longrightarrow> (\<exists>reason. resolve jwt i resolver sudoUsername now (''Bearer '' @ tok) = Inl reason))
            \<and> (changed + second \<le> t \<and> (ti_ttl i > 0 \<longrightarrow> now < numeric_date jwt (t2 + ti_ttl i)) \<longrightarrow>
                 resolve jwt i resolver sudoUsername now (''Bearer '' @ tok) =
                   Inr \<lparr>id_AdminID = ar_id a, id_Username = username, id_IsSudo = ar_is_sudo a, id_IsOwner = ar_is_owner a\<rparr>)
        | None \<Rightarrow>
            (ti_ttl i > 0 \<longrightarrow> now < numeric_date jwt (t2 + ti_ttl i)) \<longrightarrow>
              resolve jwt i resolver sudoUsername now (''Bearer '' @ tok) =
                Inr \<lparr>id_AdminID = ar_id a, id_Username = username, id_IsSudo = ar_is_sudo a, id_IsOwner = ar_is_owner a\<rparr>)"
proof -
  have nd: "numeric_date jwt t \<le> t" "t < numeric_date jwt t + second"
    using assms(1) by (auto simp: jwt_laws_def)
  show ?thesis
  proof (cases "resolver username")
    case None
    then show ?thesis unfolding resolve_issued [OF assms] by simp
  next
    case (Some a)
    then show ?thesis unfolding resolve_issued [OF assms] using nd by (cases "ar_reset_at a") auto
  qed
qed

text \<open>A library with these laws: the token is the key into the claims that were signed.\<close>

definition memo_jwt :: "(Claims \<Rightarrow> string) \<Rightarrow> (string \<Rightarrow> Claims) \<Rightarrow> jwt_api" where
  "memo_jwt enc dec = \<lparr>numeric_date = (\<lambda>t. t div second * second),
     jwt_sign = (\<lambda>secret c. if dec (enc c) = c then Some (enc c) else None),
     jwt_parse = (\<lambda>secret now tok.
       case cl_exp (dec tok) of Some e \<Rightarrow> if now < e then Some (dec tok) else None | None \<Rightarrow> Some (dec tok))\<rparr>"

lemma memo_jwt_laws: "jwt_laws (memo_jwt enc dec)"
proof -
  have a: "t div second * second \<le> t" "t < t div second * second + second" for t
  proof -
    have "0 < second" by (simp add: second_def)
    then have "0 \<le> t mod second" "t mod second < second" by simp_all
    moreover have "t = t div second * second + t mod second" by simp
    ultimately show "t div second * second \<le> t" "t < t div second * second + second" by linarith+
  qed
  then show ?thesis by (auto simp: jwt_laws_def memo_jwt_def split: if_splits option.splits)
qed

theorem token_follows_admin_row_witness:
  "let c = \<lparr>cl_username = ''ann'', cl_access = ''sudo'', cl_iat = Some 0, cl_exp = None\<rparr>;
       jwt = memo_jwt (\<lambda>_. ''tok'') (\<lambda>_. c);
       i = \<lparr>ti_secret = ''s'', ti_ttl = 0\<rparr>;
       a = \<lparr>ar_id = 7, ar_hashed = [], ar_is_sudo = False, ar_is_owner = False, ar_reset_at = Some 9\<rparr>
   in Issue jwt i 5 5 ''ann'' True = Some ''tok''
      \<and> (\<exists>reason. resolve jwt i (\<lambda>_. Some a) [] 10 (''Bearer '' @ ''tok'') = Inl reason)"
proof -
  let ?c = "\<lparr>cl_username = ''ann'', cl_access = ''sudo'', cl_iat = Some 0, cl_exp = None\<rparr>"
  let ?jwt = "memo_jwt (\<lambda>_. ''tok'') (\<lambda>_. ?c)"
  let ?i = "\<lparr>ti_secret = ''s'', ti_ttl = 0\<rparr>"
  let ?a = "\<lparr>ar_id = 7, ar_hashed = [], ar_is_sudo = False, ar_is_owner = False, ar_reset_at = Some 9\<rparr>"
  have tok: "Issue ?jwt ?i 5 5 ''ann'' True = Some ''tok''"
    by (simp add: Issue_def memo_jwt_def Let_def second_def)
  from token_follows_admin_row [OF memo_jwt_laws tok, of "[]" "\<lambda>_. Some ?a" 10]
  have "\<exists>reason. resolve ?jwt ?i (\<lambda>_. Some ?a) [] 10 (''Bearer '' @ ''tok'') = Inl reason" by simp
  with tok show ?thesis by (simp add: Let_def)
qed

text \<open>The failure counter of an address while Redis answers.\<close>

abbreviation up_at :: "instant \<Rightarrow> call" where
  "up_at t \<equiv> \<lparr>c_up = True, c_now = t\<rparr>"

definition fail_all :: "string \<Rightarrow> redis \<Rightarrow> instant list \<Rightarrow> redis" where
  "fail_all ip = foldl (\<lambda>r t. recordFailedLogin (up_at t) (up_at t) r ip)"

lemma window_pos: "0 < loginRateLimitWindow"
  by (simp add: loginRateLimitWindow_def second_def)

lemma fail_first:
  "redis_lookup r t (LoginAttemptsKey ip) = None \<Longrightarrow>
    recordFailedLogin (up_at t) (up_at t) r ip =
      mput (LoginAttemptsKey ip) (Itoa 1, Some (t + loginRateLimitWindow)) (mput (LoginAttemptsKey ip) (Itoa 1, None) r)"
  by (simp add: recordFailedLogin_def Cache_Incr_def redis_INCR_def redis_EXPIRE_def live_def)

lemma fail_next:
  assumes "redis_lookup r t (LoginAttemptsKey ip) = Some (Itoa n, deadline)" and "0 < n" and "n < 2 ^ 63"
  shows "recordFailedLogin (up_at t) (up_at t) r ip = mput (LoginAttemptsKey ip) (Itoa (n + 1), deadline) r"
  using assms by (simp add: recordFailedLogin_def Cache_Incr_def redis_INCR_def ParseInt64_Itoa)

lemma fail_all_counter:
  assumes "redis_lookup r t (LoginAttemptsKey ip) = None"
    and "\<forall>s \<in> set ts. t \<le> s \<and> s < t + loginRateLimitWindow" and "length ts < 2 ^ 62"
  shows "map_of (fail_all ip r (t # ts)) (LoginAttemptsKey ip) =
      Some (Itoa (int (length (t # ts))), Some (t + loginRateLimitWindow))
    \<and> (\<forall>k. k \<noteq> LoginAttemptsKey ip \<longrightarrow> map_of (fail_all ip r (t # ts)) k = map_of r k)"
  using assms(2,3)
proof (induction ts rule: rev_induct)
  case Nil
  then show ?case using fail_first [OF assms(1)] by (simp add: fail_all_def)
next
  case (snoc s ts)
  let ?r = "fail_all ip r (t # ts)"
  have IH: "map_of ?r (LoginAttemptsKey ip) = Some (Itoa (int (length (t # ts))), Some (t + loginRateLimitWindow))"
    "\<forall>k. k \<noteq> LoginAttemptsKey ip \<longrightarrow> map_of ?r k = map_of r k"
    using snoc by auto
  then have "redis_lookup ?r s (LoginAttemptsKey ip) = Some (Itoa (int (length (t # ts))), Some (t + loginRateLimitWindow))"
    using snoc.prems(1) by (simp add: redis_lookup_def live_def)
  moreover have "int (length (t # ts)) < 2 ^ 63" using snoc.prems(2) by simp
  ultimately have "recordFailedLogin (up_at s) (up_at s) ?r ip =
      mput (LoginAttemptsKey ip) (Itoa (int (length (t # ts)) + 1), Some (t + loginRateLimitWindow)) ?r"
    by (intro fail_next) auto
  then show ?case using IH(2) by (simp add: fail_all_def add.commute)
qed

text \<open>C29. The login limiter. After \<open>n\<close> failed logins from an address within a minute of the first (and
  Redis answering), a login from it in that minute is turned away, before any password is
  compared, exactly when \<open>n\<close> is at least 20; other addresses are not affected; and once the
  minute is over nothing is turned away any more.\<close>

theorem login_limiter_counts_failures:
  assumes "redis_lookup r t (LoginAttemptsKey ip) = None"
    and "\<forall>s \<in> set ts. t \<le> s \<and> s < t + loginRateLimitWindow" and "length ts < 2 ^ 62"
    and "c_up (lq_peek q)" and "lq_ip q = ip"
  shows "let r' = fail_all ip r (t # ts)
    in (t \<le> c_now (lq_peek q) \<and> c_now (lq_peek q) < t + loginRateLimitWindow \<longrightarrow>
          (handleLogin env q r' entries = (r', entries, TooManyRequests)) = (20 \<le> length (t # ts)))
       \<and> (t + loginRateLimitWindow \<le> c_now (lq_peek q) \<longrightarrow>
            snd (snd (handleLogin env q r' entries)) \<noteq> TooManyRequests)
       \<and> (\<forall>other c. other \<noteq> ip \<longrightarrow> tooManyFailedLogins c r' other = tooManyFailedLogins c r other)"
proof -
  define r' where "r' = fail_all ip r (t # ts)"
  have c: "map_of r' (LoginAttemptsKey ip) = Some (Itoa (int (length (t # ts))), Some (t + loginRateLimitWindow))"
    "\<And>k. k \<noteq> LoginAttemptsKey ip \<Longrightarrow> map_of r' k = map_of r k"
    using fail_all_counter [OF assms(1-3)] by (auto simp: r'_def)
  have small: "int (length (t # ts)) < 2 ^ 63" using assms(3) by simp
  have peek: "tooManyFailedLogins (lq_peek q) r' ip =
      (c_now (lq_peek q) < t + loginRateLimitWindow \<and> 20 \<le> length (t # ts))"
    using assms(4) c(1) small ParseInt64_Itoa [of "int (length (t # ts))"]
    by (simp add: tooManyFailedLogins_def Cache_Get_def redis_lookup_def live_def loginRateLimitMax_def)
  have other: "tooManyFailedLogins k r' x = tooManyFailedLogins k r x" if "x \<noteq> ip" for k x
    using that c(2) [of "LoginAttemptsKey x"]
    by (simp add: tooManyFailedLogins_def Cache_Get_def redis_lookup_def LoginAttemptsKey_def)
  have resp: "snd (snd (handleLogin env q r' entries)) = TooManyRequests \<longleftrightarrow> tooManyFailedLogins (lq_peek q) r' ip"
    "tooManyFailedLogins (lq_peek q) r' ip \<Longrightarrow> handleLogin env q r' entries = (r', entries, TooManyRequests)"
    using assms(5) by (auto simp: handleLogin_def Let_def split: option.splits prod.splits)
  have "(handleLogin env q r' entries = (r', entries, TooManyRequests)) = tooManyFailedLogins (lq_peek q) r' ip"
    using resp by (metis snd_conv)
  then show ?thesis using peek resp(1) other by (simp add: Let_def flip: r'_def)
qed

theorem login_limiter_counts_failures_witness:
  "let q = \<lparr>lq_peek = up_at 30, lq_incr = up_at 30, lq_expire = up_at 30, lq_del = up_at 30, lq_now = 30, lq_pick = 0,
            lq_admins = (\<lambda>_. None), lq_ip = ''1.2.3.4'', lq_username = ''ann'', lq_password = ''x''\<rparr>;
       r = fail_all ''1.2.3.4'' [] (0 # replicate 19 7)
   in \<forall>env :: string login_env. handleLogin env q r [] = (r, [], TooManyRequests)"
proof -
  let ?q = "\<lparr>lq_peek = up_at 30, lq_incr = up_at 30, lq_expire = up_at 30, lq_del = up_at 30, lq_now = 30, lq_pick = 0,
            lq_admins = (\<lambda>_. None), lq_ip = ''1.2.3.4'', lq_username = ''ann'', lq_password = ''x''\<rparr>"
  have "handleLogin env ?q (fail_all ''1.2.3.4'' [] (0 # replicate 19 7)) [] = (fail_all ''1.2.3.4'' [] (0 # replicate 19 7), [], TooManyRequests)"
    for env :: "string login_env"
    using login_limiter_counts_failures [of "[]" 0 "''1.2.3.4''" "replicate 19 7" ?q env "[]"]
    by (simp add: Let_def redis_lookup_def loginRateLimitWindow_def second_def del: replicate.simps)
  then show ?thesis by (simp only: Let_def) blast
qed

text \<open>C30. The window of the limiter hangs on one Redis call. When \<open>EXPIRE\<close> fails after the first
  failure was counted, the counter has no deadline: after nineteen more failures, at any time
  later, the address is turned away for good (until a login clears it, which the limiter itself
  prevents).\<close>

theorem login_limiter_lockout_without_expiry:
  assumes "redis_lookup r t (LoginAttemptsKey ip) = None" and "\<not> c_up c2" and "length ts = 19"
  shows "\<forall>now. tooManyFailedLogins (up_at now) (fail_all ip (recordFailedLogin (up_at t) c2 r ip) ts) ip"
proof -
  define r0 where "r0 = recordFailedLogin (up_at t) c2 r ip"
  have r0: "map_of r0 (LoginAttemptsKey ip) = Some (Itoa 1, None)"
    using assms(1,2) by (simp add: r0_def recordFailedLogin_def Cache_Incr_def redis_INCR_def redis_EXPIRE_def)
  have run: "map_of (fail_all ip r0 ts) (LoginAttemptsKey ip) = Some (Itoa (int (length ts) + 1), None)" if "length ts < 100" for ts
    using that
  proof (induction ts rule: rev_induct)
    case Nil
    then show ?case using r0 by (simp add: fail_all_def)
  next
    case (snoc s ts)
    then have "redis_lookup (fail_all ip r0 ts) s (LoginAttemptsKey ip) = Some (Itoa (int (length ts) + 1), None)"
      by (simp add: redis_lookup_def live_def)
    then have "recordFailedLogin (up_at s) (up_at s) (fail_all ip r0 ts) ip =
        mput (LoginAttemptsKey ip) (Itoa (int (length ts) + 1 + 1), None) (fail_all ip r0 ts)"
      using snoc.prems by (intro fail_next) auto
    then show ?case by (simp add: fail_all_def add.commute)
  qed
  have "map_of (fail_all ip r0 ts) (LoginAttemptsKey ip) = Some (Itoa 20, None)" using run [of ts] assms(3) by simp
  then show ?thesis using ParseInt64_Itoa [of 20]
    by (simp add: tooManyFailedLogins_def Cache_Get_def redis_lookup_def live_def loginRateLimitMax_def flip: r0_def)
qed

theorem login_limiter_lockout_without_expiry_witness:
  "tooManyFailedLogins (up_at 1000000000000)
     (fail_all ''1.2.3.4'' (recordFailedLogin (up_at 0) \<lparr>c_up = False, c_now = 0\<rparr> [] ''1.2.3.4'') (replicate 19 1)) ''1.2.3.4''"
  using login_limiter_lockout_without_expiry [of "[]" 0 "''1.2.3.4''" "\<lparr>c_up = False, c_now = 0\<rparr>" "replicate 19 1"]
  by (simp add: redis_lookup_def del: replicate.simps)

text \<open>C31. A login hands out a token only for right credentials, and does so whenever the credentials
  are right and the address is not turned away: the environment's account with its own
  password, or an existing admin whose stored hash matches; the token carries the row's access
  level. This holds behind the memo of password checks, whatever its history.\<close>

theorem login_sound_and_complete:
  assumes "\<forall>s claims. jwt_sign (le_jwt env) s claims \<noteq> None"
    and "inj_on (le_mac env) ((\<lambda>(u, p, h). key_bytes u p h) ` T)"
    and "\<forall>(u, p, h) \<in> T. length u < 2 ^ 32 \<and> length p < 2 ^ 32 \<and> length h < 2 ^ 32"
    and "op_triple ` set history \<subseteq> T"
    and "\<forall>a. lq_admins q (lq_username q) = Some a \<longrightarrow> (lq_username q, lq_password q, ar_hashed a) \<in> T"
  shows "let entries = foldl (vc_step (le_mac env) (le_verify env)) [] history;
             resp = snd (snd (handleLogin env q r entries));
             is_env = (le_sudoUsername env \<noteq> [] \<and> lq_username q = le_sudoUsername env
                       \<and> lq_password q = le_sudoPassword env);
             token = (\<lambda>sudo. Issue (le_jwt env) (le_issuer env) (lq_now q) (lq_now q) (lq_username q) sudo)
    in resp =
         (if tooManyFailedLogins (lq_peek q) r (lq_ip q) then TooManyRequests
          else if is_env then AccessToken (the (token True))
          else case lq_admins q (lq_username q) of
            None \<Rightarrow> IncorrectLogin
          | Some a \<Rightarrow> if le_verify env (lq_password q) (ar_hashed a) then AccessToken (the (token (ar_is_sudo a)))
                      else IncorrectLogin)"
proof -
  let ?entries = "foldl (vc_step (le_mac env) (le_verify env)) [] history"
  have inv: "vc_inv (le_mac env) (le_verify env) T ?entries"
    by (rule vc_inv_run) (use assms(4) in \<open>auto simp: vc_inv_def\<close>)
  have memo: "snd (Verify (le_mac env) (le_verify env) (lq_pick q) ?entries (lq_now q) (lq_username q) (lq_password q) (ar_hashed a)) =
      le_verify env (lq_password q) (ar_hashed a)" if "lq_admins q (lq_username q) = Some a" for a
    using Verify_lookup_correct [OF inv, of "lq_username q" "lq_password q" "ar_hashed a" "lq_now q"]
      vc_key_inj [OF assms(2,3)] assms(5) that
    by (auto simp: Verify_def Let_def insert_absorb split: option.splits)
  have issued: "\<exists>tok. Issue (le_jwt env) (le_issuer env) a b u sudo = Some tok" for a b u sudo
    using assms(1) by (simp add: Issue_def Let_def)
  show ?thesis
    using memo issued [of "lq_now q" "lq_now q" "lq_username q" True]
      issued [of "lq_now q" "lq_now q" "lq_username q" "ar_is_sudo (the (lq_admins q (lq_username q)))"]
    by (auto simp: handleLogin_def Let_def split: option.splits prod.splits)
qed

theorem login_sound_and_complete_witness:
  "let jwt = \<lparr>numeric_date = (\<lambda>t. t), jwt_sign = (\<lambda>s c. Some (cl_access c)), jwt_parse = (\<lambda>_ _ _. None)\<rparr>;
       env = \<lparr>le_mac = (\<lambda>x. x), le_verify = (\<lambda>p h. p = h), le_sudoUsername = [], le_sudoPassword = [], le_jwt = jwt,
              le_issuer = \<lparr>ti_secret = [], ti_ttl = 0\<rparr>\<rparr>;
       q = \<lparr>lq_peek = up_at 1, lq_incr = up_at 1, lq_expire = up_at 1, lq_del = up_at 1, lq_now = 1, lq_pick = 0,
            lq_admins = (\<lambda>_. Some \<lparr>ar_id = 1, ar_hashed = ''pw'', ar_is_sudo = False, ar_is_owner = False, ar_reset_at = None\<rparr>),
            lq_ip = ''i'', lq_username = ''ann'', lq_password = ''pw''\<rparr>
   in snd (snd (handleLogin env q [] [])) = AccessToken ''admin''"
proof -
  let ?jwt = "\<lparr>numeric_date = (\<lambda>t. t), jwt_sign = (\<lambda>s c. Some (cl_access c)), jwt_parse = (\<lambda>_ _ _. None)\<rparr> :: jwt_api"
  let ?env = "\<lparr>le_mac = (\<lambda>x. x), le_verify = (\<lambda>p h. p = h), le_sudoUsername = [], le_sudoPassword = [], le_jwt = ?jwt,
              le_issuer = \<lparr>ti_secret = [], ti_ttl = 0\<rparr>\<rparr> :: string login_env"
  let ?q = "\<lparr>lq_peek = up_at 1, lq_incr = up_at 1, lq_expire = up_at 1, lq_del = up_at 1, lq_now = 1, lq_pick = 0,
            lq_admins = (\<lambda>_. Some \<lparr>ar_id = 1, ar_hashed = ''pw'', ar_is_sudo = False, ar_is_owner = False, ar_reset_at = None\<rparr>),
            lq_ip = ''i'', lq_username = ''ann'', lq_password = ''pw''\<rparr>"
  show ?thesis
    using login_sound_and_complete [of ?env "{(''ann'', ''pw'', ''pw'')}" "[]" ?q "[]"]
    by (simp add: Let_def tooManyFailedLogins_def Cache_Get_def redis_lookup_def Issue_def)
qed

end
