(* ===== verification/PanelDB.thy ===== *)
theory PanelDB
  imports GoStrings Float64
begin

text \<open>
  The panel's Postgres tables as the background jobs and the node reports use them
  (\<open>internal/db/queries/*.sql\<close>, schema in \<open>internal/db/migrations\<close>). A table is the list of its
  rows, a nullable column an option, and a statement a function on the whole state that may
  fail: \<open>p_fault k\<close> says whether the \<open>k\<close>-th statement fails, in which case it changes nothing.
  \<open>p_now\<close> is the database's \<open>now()\<close>. Timestamps are nanoseconds, \<open>unix\<close> their seconds.
\<close>

section \<open>Tables\<close>

record User =
  u_id :: int
  u_username :: string
  u_status :: string
  u_used_traffic :: int
  u_data_limit :: "int option"
  u_expire :: "int option"
  u_admin_id :: "int option"
  u_strategy :: string
  u_created_at :: instant
  u_edit_at :: "instant option"
  u_online_at :: "instant option"
  u_on_hold_timeout :: "instant option"
  u_on_hold_expire_duration :: "int option"
  u_last_status_change :: "instant option"
  u_note :: "string option"
  u_auto_delete_in_days :: "int option"
  u_sub_revoked_at :: "instant option"
  u_sub_updated_at :: "instant option"
  u_sub_last_user_agent :: "string option"
  u_emergency_used_at :: "instant option"
  u_synced_from_panel_name :: "string option"

record Proxy =
  pr_id :: int
  pr_user_id :: int
  pr_type :: string
  pr_settings :: string

record NextPlan =
  np_user_id :: int
  np_data_limit :: int
  np_expire :: "int option"
  np_add_remaining_traffic :: bool
  np_fire_on_either :: bool

record Admin =
  a_id :: int
  a_username :: string
  a_users_usage :: int
  a_telegram_id :: "int option"
  a_discord_webhook :: "string option"
  a_hashed_password :: string
  a_is_sudo :: bool
  a_is_owner :: bool
  a_password_reset_at :: "instant option"
  a_created_at :: instant

record Queue =
  q_admin_id :: int
  q_pending :: int
  q_reported :: int

record NodeUserUsage =
  nuu_created_at :: instant
  nuu_user_id :: int
  nuu_node_id :: int
  nuu_used_traffic :: int

record NodeUsage =
  nu_created_at :: instant
  nu_node_id :: int
  nu_uplink :: int
  nu_downlink :: int

record Node =
  n_id :: int
  n_status :: string
  n_uplink :: int
  n_downlink :: int

text \<open>A row of \<open>host_metrics\<close>; percentages are \<open>float64\<close> values.\<close>

record HostMetric =
  hm_node_id :: "int option"
  hm_collected_at :: instant
  hm_cpu_percent :: "rat option"
  hm_mem_percent :: "rat option"
  hm_disk_percent :: "rat option"
  hm_rx_rate :: "int option"
  hm_tx_rate :: "int option"
  hm_connections :: int
  hm_tunnels_up :: int
  hm_tunnels_total :: int
  hm_healthy :: bool
  hm_payload :: "string option"
  hm_client_conns :: "int option"

record AdminRef =
  ref_Username :: string
  ref_TelegramID :: "int option"
  ref_DiscordWebhook :: "string option"

record UserSummary =
  us_Username :: string
  us_DataLimit :: "int option"
  us_Expire :: "int option"
  us_Strategy :: string

text \<open>The notifications handed to \<open>report.Dispatcher\<close>.\<close>

datatype report_event =
  UserDataResetByNext UserSummary "AdminRef option"
| StatusChange string string "AdminRef option"
| UserCreated UserSummary string "AdminRef option"
| UserUpdated UserSummary string "AdminRef option"
| UserDeleted string string "AdminRef option"
| UserDataUsageReset string string "AdminRef option"
| UserSubscriptionRevoked string string "AdminRef option"

text \<open>What a panel pushes to its gateway peers: a user's policy and credentials, or that it is gone.\<close>

record gatewaySyncPayload =
  gp_OriginPanelName :: string
  gp_Username :: string
  gp_Deleted :: bool
  gp_Status :: string
  gp_DataLimit :: "int option"
  gp_Strategy :: string
  gp_Expire :: "int option"
  gp_Proxies :: "(string \<times> string) list"

text \<open>\<open>p_gateway\<close> is the panel's own gateway name and the payloads handed to \<open>dispatchGatewayPush\<close>. Excluded inbounds are pairs of a proxy id and a tag, inbounds pairs of a tag and its protocol;
  \<open>p_serial\<close> is the highest id handed out for users and for proxies, \<open>p_admin_serial\<close> the one for admins.\<close>

record panel =
  p_users :: "User list"
  p_proxies :: "Proxy list"
  p_excluded :: "(int \<times> string) list"
  p_inbounds :: "(string \<times> string) list"
  p_serial :: "int \<times> int"
  p_gateway :: "string \<times> gatewaySyncPayload list"
  p_plans :: "NextPlan list"
  p_admins :: "Admin list"
  p_queue :: "Queue list"
  p_user_usages :: "NodeUserUsage list"
  p_node_usages :: "NodeUsage list"
  p_nodes :: "Node list"
  p_host_metrics :: "HostMetric list"
  p_system :: "int \<times> int"
  p_usage_logs :: "(int \<times> int) list"
  p_admin_logs :: "(int \<times> int) list"
  p_admin_serial :: int
  p_events :: "report_event list"
  p_now :: instant
  p_fault :: "nat \<Rightarrow> bool"
  p_calls :: nat

definition unix :: "instant \<Rightarrow> int" where
  "unix t = t div 1000000000"

text \<open>The cast \<open>extract(epoch FROM now())::int\<close> rounds to the nearest second.\<close>

definition epoch_int :: "instant \<Rightarrow> int" where
  "epoch_int t = (t + 500000000) div 1000000000"

text \<open>Go's conversion \<open>int32(x)\<close> keeps the low 32 bits.\<close>

definition to_int32 :: "int \<Rightarrow> int" where
  "to_int32 x = (x + 2 ^ 31) mod 2 ^ 32 - 2 ^ 31"

lemma to_int32_small: "- (2 ^ 31) \<le> x \<Longrightarrow> x < 2 ^ 31 \<Longrightarrow> to_int32 x = x"
  by (simp add: to_int32_def mod_pos_pos_trivial)

section \<open>Statements\<close>

datatype db_error = ErrNoRows | DbError | UniqueViolation

type_synonym 'a act = "panel \<Rightarrow> (db_error + 'a) \<times> panel"

definition ret :: "'a \<Rightarrow> 'a act" where
  "ret a p = (Inr a, p)"

definition bnd :: "'a act \<Rightarrow> ('a \<Rightarrow> 'b act) \<Rightarrow> 'b act" where
  "bnd m f p = (case m p of (Inl e, p') \<Rightarrow> (Inl e, p') | (Inr a, p') \<Rightarrow> f a p')"

definition stmt :: "(panel \<Rightarrow> (db_error + 'a) \<times> panel) \<Rightarrow> 'a act" where
  "stmt f p =
     (let p' = p\<lparr>p_calls := p_calls p + 1\<rparr>
      in if p_fault p (p_calls p) then (Inl DbError, p') else f p')"

definition emit :: "report_event \<Rightarrow> unit act" where
  "emit e p = (Inr (), p\<lparr>p_events := p_events p @ [e]\<rparr>)"

fun each :: "('a \<Rightarrow> unit act) \<Rightarrow> 'a list \<Rightarrow> unit act" where
  "each f [] = ret ()"
| "each f (x # xs) = bnd (f x) (\<lambda>_. each f xs)"

definition set_users :: "(User \<Rightarrow> User) \<Rightarrow> panel \<Rightarrow> panel" where
  "set_users f p = p\<lparr>p_users := map f (p_users p)\<rparr>"

subsection \<open>Status review\<close>

definition needs_review :: "int \<Rightarrow> User \<Rightarrow> bool" where
  "needs_review arg u \<longleftrightarrow>
     u_status u = ''active''
     \<and> ((case u_data_limit u of None \<Rightarrow> False | Some d \<Rightarrow> d > 0 \<and> u_used_traffic u \<ge> d)
        \<or> (case u_expire u of None \<Rightarrow> False | Some e \<Rightarrow> e \<noteq> 0 \<and> e \<le> arg))"

definition GetUsersNeedingStatusReview :: "int \<Rightarrow> User list act" where
  "GetUsersNeedingStatusReview arg = stmt (\<lambda>p. (Inr (filter (needs_review arg) (p_users p)), p))"

definition GetOnHoldUsers :: "User list act" where
  "GetOnHoldUsers = stmt (\<lambda>p. (Inr (filter (\<lambda>u. u_status u = ''on_hold'') (p_users p)), p))"

definition UpdateUserStatusOnly :: "int \<Rightarrow> string \<Rightarrow> unit act" where
  "UpdateUserStatusOnly uid status = stmt (\<lambda>p.
     (Inr (), set_users (\<lambda>u. if u_id u = uid
        then u\<lparr>u_status := status, u_last_status_change := Some (p_now p)\<rparr> else u) p))"

definition activated :: "instant \<Rightarrow> User \<Rightarrow> User" where
  "activated now u =
     u\<lparr>u_status := ''active'', u_last_status_change := Some now,
       u_expire := map_option (\<lambda>d. epoch_int now + d) (u_on_hold_expire_duration u),
       u_on_hold_expire_duration := None, u_on_hold_timeout := None\<rparr>"

definition ActivateOnHoldUser :: "int \<Rightarrow> unit act" where
  "ActivateOnHoldUser uid = stmt (\<lambda>p.
     (Inr (), set_users (\<lambda>u. if u_id u = uid then activated (p_now p) u else u) p))"

definition ClearNodeUserUsages :: "int \<Rightarrow> unit act" where
  "ClearNodeUserUsages uid = stmt (\<lambda>p.
     (Inr (), p\<lparr>p_user_usages := filter (\<lambda>r. nuu_user_id r \<noteq> uid) (p_user_usages p)\<rparr>))"

definition apply_plan :: "instant \<Rightarrow> NextPlan \<Rightarrow> User \<Rightarrow> User" where
  "apply_plan now np u =
     u\<lparr>u_status := ''active'',
       u_data_limit := (if np_add_remaining_traffic np then Some (np_data_limit np)
                        else map_option (\<lambda>d. np_data_limit np + (d - u_used_traffic u)) (u_data_limit u)),
       u_expire := map_option (\<lambda>e. epoch_int now + e) (np_expire np),
       u_used_traffic := 0\<rparr>"

definition plan_of :: "NextPlan list \<Rightarrow> int \<Rightarrow> NextPlan option" where
  "plan_of plans uid = find (\<lambda>np. np_user_id np = uid) plans"

definition ResetUserByNextPlan :: "int \<Rightarrow> User act" where
  "ResetUserByNextPlan uid = stmt (\<lambda>p.
     (case (find (\<lambda>u. u_id u = uid) (p_users p), plan_of (p_plans p) uid) of
        (Some u, Some np) \<Rightarrow>
          (Inr (apply_plan (p_now p) np u),
           set_users (\<lambda>u. if u_id u = uid then apply_plan (p_now p) np u else u) p)
      | _ \<Rightarrow> (Inl ErrNoRows, p)))"

definition GetNextPlanByUserID :: "int \<Rightarrow> NextPlan act" where
  "GetNextPlanByUserID uid = stmt (\<lambda>p.
     (case plan_of (p_plans p) uid of None \<Rightarrow> Inl ErrNoRows | Some np \<Rightarrow> Inr np, p))"

definition DeleteNextPlanByUserID :: "int \<Rightarrow> unit act" where
  "DeleteNextPlanByUserID uid = stmt (\<lambda>p.
     (Inr (), p\<lparr>p_plans := filter (\<lambda>np. np_user_id np \<noteq> uid) (p_plans p)\<rparr>))"

definition CreateUserUsageLog :: "int \<Rightarrow> int \<Rightarrow> unit act" where
  "CreateUserUsageLog uid used = stmt (\<lambda>p. (Inr (), p\<lparr>p_usage_logs := p_usage_logs p @ [(uid, used)]\<rparr>))"

definition GetAdminByID :: "int \<Rightarrow> Admin act" where
  "GetAdminByID aid = stmt (\<lambda>p.
     (case find (\<lambda>a. a_id a = aid) (p_admins p) of None \<Rightarrow> Inl ErrNoRows | Some a \<Rightarrow> Inr a, p))"

subsection \<open>Usage\<close>

definition GetUsersByUsernames :: "string list \<Rightarrow> User list act" where
  "GetUsersByUsernames names = stmt (\<lambda>p. (Inr (filter (\<lambda>u. u_username u \<in> set names) (p_users p)), p))"

text \<open>\<open>UPDATE \<dots> FROM unnest(ids, deltas)\<close>: the callers pass each id at most once.\<close>

definition BulkIncrementUserUsage :: "(int \<times> int) list \<Rightarrow> unit act" where
  "BulkIncrementUserUsage v = stmt (\<lambda>p.
     (Inr (), set_users (\<lambda>u. case map_of v (u_id u) of
          None \<Rightarrow> u
        | Some d \<Rightarrow> u\<lparr>u_used_traffic := u_used_traffic u + d, u_online_at := Some (p_now p)\<rparr>) p))"

fun upsert_user_usage :: "instant \<Rightarrow> int \<Rightarrow> NodeUserUsage list \<Rightarrow> int \<times> int \<Rightarrow> NodeUserUsage list" where
  "upsert_user_usage hb nid [] (uid, d) =
     [\<lparr>nuu_created_at = hb, nuu_user_id = uid, nuu_node_id = nid, nuu_used_traffic = d\<rparr>]"
| "upsert_user_usage hb nid (r # rs) (uid, d) =
     (if nuu_created_at r = hb \<and> nuu_user_id r = uid \<and> nuu_node_id r = nid
      then r\<lparr>nuu_used_traffic := nuu_used_traffic r + d\<rparr> # rs
      else r # upsert_user_usage hb nid rs (uid, d))"

definition BulkUpsertNodeUserUsage :: "instant \<Rightarrow> int \<Rightarrow> (int \<times> int) list \<Rightarrow> unit act" where
  "BulkUpsertNodeUserUsage hb nid v = stmt (\<lambda>p.
     (Inr (), p\<lparr>p_user_usages := foldl (upsert_user_usage hb nid) (p_user_usages p) v\<rparr>))"

fun enqueue :: "Queue list \<Rightarrow> int \<times> int \<Rightarrow> Queue list" where
  "enqueue [] (aid, d) = [\<lparr>q_admin_id = aid, q_pending = d, q_reported = 0\<rparr>]"
| "enqueue (q # qs) (aid, d) =
     (if q_admin_id q = aid then q\<lparr>q_pending := q_pending q + d\<rparr> # qs else q # enqueue qs (aid, d))"

definition BulkIncrementAdminUsage :: "(int \<times> int) list \<Rightarrow> bool \<Rightarrow> unit act" where
  "BulkIncrementAdminUsage v queue = stmt (\<lambda>p.
     (let admins = map (\<lambda>a. case map_of v (a_id a) of
                                None \<Rightarrow> a | Some d \<Rightarrow> a\<lparr>a_users_usage := a_users_usage a + d\<rparr>) (p_admins p);
          bumped = filter (\<lambda>(aid, d). aid \<in> a_id ` set (p_admins p)) v
      in (Inr (), p\<lparr>p_admins := admins,
                     p_queue := (if queue then foldl enqueue (p_queue p) bumped else p_queue p)\<rparr>)))"

fun upsert_node_usage :: "NodeUsage list \<Rightarrow> NodeUsage \<Rightarrow> NodeUsage list" where
  "upsert_node_usage [] x = [x]"
| "upsert_node_usage (r # rs) x =
     (if nu_created_at r = nu_created_at x \<and> nu_node_id r = nu_node_id x
      then r\<lparr>nu_uplink := nu_uplink r + nu_uplink x, nu_downlink := nu_downlink r + nu_downlink x\<rparr> # rs
      else r # upsert_node_usage rs x)"

definition UpsertNodeUsage :: "NodeUsage \<Rightarrow> unit act" where
  "UpsertNodeUsage x = stmt (\<lambda>p. (Inr (), p\<lparr>p_node_usages := upsert_node_usage (p_node_usages p) x\<rparr>))"

definition IncrementNodeCumulative :: "int \<Rightarrow> int \<Rightarrow> int \<Rightarrow> unit act" where
  "IncrementNodeCumulative nid up down = stmt (\<lambda>p.
     (Inr (), p\<lparr>p_nodes := map (\<lambda>n. if n_id n = nid
        then n\<lparr>n_uplink := n_uplink n + up, n_downlink := n_downlink n + down\<rparr> else n) (p_nodes p)\<rparr>))"

definition IncrementSystemCumulative :: "int \<Rightarrow> int \<Rightarrow> unit act" where
  "IncrementSystemCumulative up down = stmt (\<lambda>p.
     (Inr (), p\<lparr>p_system := (fst (p_system p) + up, snd (p_system p) + down)\<rparr>))"

definition MarkNodeConnectedIfNotDisabled :: "int \<Rightarrow> unit act" where
  "MarkNodeConnectedIfNotDisabled nid = stmt (\<lambda>p.
     (Inr (), p\<lparr>p_nodes := map (\<lambda>n. if n_id n = nid \<and> n_status n \<noteq> ''disabled'' \<and> n_status n \<noteq> ''connected''
        then n\<lparr>n_status := ''connected''\<rparr> else n) (p_nodes p)\<rparr>))"

definition InsertHostMetric :: "HostMetric \<Rightarrow> unit act" where
  "InsertHostMetric row = stmt (\<lambda>p. (Inr (), p\<lparr>p_host_metrics := p_host_metrics p @ [row]\<rparr>))"

definition PruneOldHostMetrics :: "instant \<Rightarrow> nat act" where
  "PruneOldHostMetrics cutoff = stmt (\<lambda>p.
     (Inr (length (filter (\<lambda>r. hm_collected_at r < cutoff) (p_host_metrics p))),
      p\<lparr>p_host_metrics := filter (\<lambda>r. \<not> hm_collected_at r < cutoff) (p_host_metrics p)\<rparr>))"

definition GetPendingResellerAPIUsage :: "(int \<times> string \<times> int) list act" where
  "GetPendingResellerAPIUsage = stmt (\<lambda>p.
     (Inr (concat (map (\<lambda>q. case find (\<lambda>a. a_id a = q_admin_id q) (p_admins p) of
              None \<Rightarrow> []
            | Some a \<Rightarrow> if q_pending q > 0 then [(q_admin_id q, a_username a, q_pending q)] else [])
          (sort_key q_admin_id (p_queue p)))), p))"

definition MarkResellerAPIUsageReported :: "(int \<times> int) list \<Rightarrow> unit act" where
  "MarkResellerAPIUsageReported v = stmt (\<lambda>p.
     (Inr (), p\<lparr>p_queue := map (\<lambda>q. case map_of v (q_admin_id q) of
          None \<Rightarrow> q
        | Some d \<Rightarrow> q\<lparr>q_pending := q_pending q - d, q_reported := q_reported q + d\<rparr>) (p_queue p)\<rparr>))"

text \<open>The slice the sub-select with \<open>LIMIT\<close> picks is not determined: \<open>keep\<close> orders the old rows.\<close>

definition DeleteOldNodeUserUsages :: "(NodeUserUsage list \<Rightarrow> NodeUserUsage list) \<Rightarrow> instant \<Rightarrow> nat \<Rightarrow> nat act" where
  "DeleteOldNodeUserUsages order cutoff batch = stmt (\<lambda>p.
     (let old = order (filter (\<lambda>r. nuu_created_at r < cutoff) (p_user_usages p));
          gone = take batch old
      in (Inr (length gone),
          p\<lparr>p_user_usages := filter (\<lambda>r. \<not> nuu_created_at r < cutoff) (p_user_usages p) @ drop batch old\<rparr>)))"

section \<open>Reasoning about statements\<close>

definition no_faults :: "panel \<Rightarrow> bool" where
  "no_faults p \<longleftrightarrow> (\<forall>k \<ge> p_calls p. \<not> p_fault p k)"

lemma bnd_Inr [simp]: "m p = (Inr a, p') \<Longrightarrow> bnd m f p = f a p'"
  by (simp add: bnd_def)

lemma bnd_Inl [simp]: "m p = (Inl e, p') \<Longrightarrow> bnd m f p = (Inl e, p')"
  by (simp add: bnd_def)

lemma stmt_ok: "\<not> p_fault p (p_calls p) \<Longrightarrow> stmt f p = f (p\<lparr>p_calls := p_calls p + 1\<rparr>)"
  by (simp add: stmt_def Let_def)

lemma stmt_fault: "p_fault p (p_calls p) \<Longrightarrow> stmt f p = (Inl DbError, p\<lparr>p_calls := p_calls p + 1\<rparr>)"
  by (simp add: stmt_def Let_def)

lemma no_faults_now: "no_faults p \<Longrightarrow> \<not> p_fault p (p_calls p)"
  by (simp add: no_faults_def)

end
