(* ===== verification/ReviewJob.thy ===== *)
theory ReviewJob
  imports PanelDB
begin

text \<open>
  The review of users (\<open>internal/reviewjob/reviewjob.go\<close>): the tick that limits or expires active
  users, fires a pending plan and activates users on hold. Every statement may fail, which ends
  the tick with the error and whatever was already written.
\<close>

section \<open>The job\<close>

definition limited :: "User \<Rightarrow> bool" where
  "limited u = (case u_data_limit u of None \<Rightarrow> False | Some d \<Rightarrow> d > 0 \<and> u_used_traffic u \<ge> d)"

definition expired :: "instant \<Rightarrow> User \<Rightarrow> bool" where
  "expired now u = (case u_expire u of None \<Rightarrow> False | Some e \<Rightarrow> e \<noteq> 0 \<and> e \<le> unix now)"

definition toUserSummary :: "User \<Rightarrow> UserSummary" where
  "toUserSummary u =
     \<lparr>us_Username = u_username u, us_DataLimit = u_data_limit u,
      us_Expire = (case u_expire u of None \<Rightarrow> None | Some e \<Rightarrow> if e \<noteq> 0 then Some e else None),
      us_Strategy = u_strategy u\<rparr>"

definition lookupAdminRef :: "int option \<Rightarrow> AdminRef option act" where
  "lookupAdminRef adminID p =
     (case adminID of
        None \<Rightarrow> (Inr None, p)
      | Some aid \<Rightarrow>
          (case GetAdminByID aid p of
             (Inl e, p') \<Rightarrow> (Inr None, p')
           | (Inr a, p') \<Rightarrow>
               (Inr (Some \<lparr>ref_Username = a_username a, ref_TelegramID = a_telegram_id a,
                           ref_DiscordWebhook = a_discord_webhook a\<rparr>), p')))"

definition fireNextPlan :: "User \<Rightarrow> User act" where
  "fireNextPlan user =
     bnd (CreateUserUsageLog (u_id user) (u_used_traffic user)) (\<lambda>_.
     bnd (ClearNodeUserUsages (u_id user)) (\<lambda>_.
     bnd (ResetUserByNextPlan (u_id user)) (\<lambda>updated.
     bnd (DeleteNextPlanByUserID (u_id user)) (\<lambda>_.
     ret updated))))"

definition set_status :: "User \<Rightarrow> string \<Rightarrow> unit act" where
  "set_status user status =
     bnd (UpdateUserStatusOnly (u_id user) status) (\<lambda>_.
     bnd (lookupAdminRef (u_admin_id user)) (\<lambda>ref.
     emit (StatusChange (u_username user) status ref)))"

definition review_active_user :: "instant \<Rightarrow> User \<Rightarrow> unit act" where
  "review_active_user now user p =
     (let limited = limited user; expired = expired now user;
          change = (if limited then set_status user ''limited''
                    else if expired then set_status user ''expired'' else ret ())
      in if limited \<or> expired
         then (case GetNextPlanByUserID (u_id user) p of
                 (Inl e, p') \<Rightarrow> if e \<noteq> ErrNoRows then (Inl e, p') else change p'
               | (Inr plan, p') \<Rightarrow>
                   if np_fire_on_either plan \<or> (limited \<and> expired)
                   then bnd (fireNextPlan user) (\<lambda>updated.
                        bnd (lookupAdminRef (u_admin_id updated)) (\<lambda>ref.
                        emit (UserDataResetByNext (toUserSummary updated) ref))) p'
                   else change p')
         else change p)"

definition reviewActiveUsers :: "instant \<Rightarrow> unit act" where
  "reviewActiveUsers now =
     bnd (GetUsersNeedingStatusReview (to_int32 (unix now))) (each (review_active_user now))"

definition hold_over :: "instant \<Rightarrow> User \<Rightarrow> bool" where
  "hold_over now user =
     (let baseTime = (case u_edit_at user of None \<Rightarrow> u_created_at user | Some t \<Rightarrow> t)
      in (case u_online_at user of None \<Rightarrow> False | Some t \<Rightarrow> \<not> baseTime > t)
         \<or> (case u_on_hold_timeout user of None \<Rightarrow> False | Some t \<Rightarrow> \<not> t > now))"

definition review_held_user :: "instant \<Rightarrow> User \<Rightarrow> unit act" where
  "review_held_user now user =
     (if \<not> hold_over now user then ret ()
      else bnd (ActivateOnHoldUser (u_id user)) (\<lambda>_.
           bnd (lookupAdminRef (u_admin_id user)) (\<lambda>ref.
           emit (StatusChange (u_username user) ''active'' ref))))"

definition reviewOnHoldUsers :: "instant \<Rightarrow> unit act" where
  "reviewOnHoldUsers now = bnd GetOnHoldUsers (each (review_held_user now))"

definition review :: "instant \<Rightarrow> unit act" where
  "review now = bnd (reviewActiveUsers now) (\<lambda>_. reviewOnHoldUsers now)"

text \<open>One tick of \<open>Run\<close>: the answer of \<open>IsMaintenanceMode\<close> is \<open>None\<close> when it failed.\<close>

definition review_tick :: "bool option \<Rightarrow> instant \<Rightarrow> panel \<Rightarrow> panel" where
  "review_tick maintenance now p = (if maintenance = Some True then p else snd (review now p))"

section \<open>What a review does to one user\<close>

definition fires :: "NextPlan list \<Rightarrow> instant \<Rightarrow> User \<Rightarrow> bool" where
  "fires plans now u =
     (case plan_of plans (u_id u) of
        None \<Rightarrow> False
      | Some np \<Rightarrow> np_fire_on_either np \<or> (limited u \<and> expired now u))"

definition review_spec :: "instant \<Rightarrow> NextPlan list \<Rightarrow> instant \<Rightarrow> User \<Rightarrow> User" where
  "review_spec sqlnow plans now u =
     (if u_status u = ''active'' \<and> (limited u \<or> expired now u)
      then (if fires plans now u then apply_plan sqlnow (the (plan_of plans (u_id u))) u
            else u\<lparr>u_status := (if limited u then ''limited'' else ''expired''), u_last_status_change := Some sqlnow\<rparr>)
      else if u_status u = ''on_hold'' \<and> hold_over now u then activated sqlnow u
      else u)"

definition rows_at :: "instant \<Rightarrow> panel \<Rightarrow> int set \<Rightarrow> int set \<Rightarrow> panel \<Rightarrow> bool" where
  "rows_at now p0 D E p \<longleftrightarrow>
     p_users p = map (\<lambda>u. if u_id u \<in> D then review_spec (p_now p0) (p_plans p0) now u else u) (p_users p0)
     \<and> p_now p = p_now p0
     \<and> (\<forall>uid. uid \<notin> E \<longrightarrow> plan_of (p_plans p) uid = plan_of (p_plans p0) uid)"

text \<open>A statement that leaves the users, the plans and the clock alone keeps the invariant.\<close>

definition frame :: "panel \<Rightarrow> panel \<Rightarrow> bool" where
  "frame p p' \<longleftrightarrow> p_users p' = p_users p \<and> p_plans p' = p_plans p \<and> p_now p' = p_now p
     \<and> p_fault p' = p_fault p \<and> p_calls p \<le> p_calls p'"

lemma frame_refl [simp]: "frame p p" and frame_trans: "frame p q \<Longrightarrow> frame q r \<Longrightarrow> frame p r"
  by (auto simp: frame_def)

lemma frame_rows: "frame p p' \<Longrightarrow> rows_at now p0 D E p \<Longrightarrow> rows_at now p0 D E p'"
  by (simp add: frame_def rows_at_def)

lemma frame_faults: "frame p p' \<Longrightarrow> no_faults p \<Longrightarrow> no_faults p'"
  by (auto simp: frame_def no_faults_def)

lemma lookupAdminRef_frame: "\<exists>ref p'. lookupAdminRef aid p = (Inr ref, p') \<and> frame p p'"
  by (auto simp: lookupAdminRef_def GetAdminByID_def stmt_def Let_def frame_def split: option.splits)

lemma notify_frame:
  "\<exists>p'. bnd (lookupAdminRef aid) (\<lambda>ref. emit (f ref)) p = (Inr (), p') \<and> frame p p'"
proof -
  obtain ref q where "lookupAdminRef aid p = (Inr ref, q)" "frame p q" using lookupAdminRef_frame by blast
  then show ?thesis by (auto simp: emit_def frame_def)
qed

lemma same_id: "distinct (map u_id us) \<Longrightarrow> u \<in> set us \<Longrightarrow> v \<in> set us \<Longrightarrow> u_id v = u_id u \<Longrightarrow> v = u"
  by (auto simp: distinct_map dest: inj_onD)

lemma update_rows:
  assumes "rows_at now p0 D E p" and "distinct (map u_id (p_users p0))" and "u \<in> set (p_users p0)"
    and "u_id u \<notin> D" and "f u = review_spec (p_now p0) (p_plans p0) now u"
  shows "map (\<lambda>v. if u_id v = u_id u then f v else v) (p_users p) =
    map (\<lambda>v. if u_id v \<in> insert (u_id u) D then review_spec (p_now p0) (p_plans p0) now v else v) (p_users p0)"
proof -
  have id_spec: "u_id (review_spec a b c v) = u_id v" for a b c v
    by (simp add: review_spec_def apply_plan_def activated_def)
  let ?g = "\<lambda>v. if u_id v \<in> D then review_spec (p_now p0) (p_plans p0) now v else v"
  have users: "p_users p = map ?g (p_users p0)" using assms(1) by (simp add: rows_at_def)
  have "(\<lambda>v. if u_id v = u_id u then f v else v) (?g v) =
      (if u_id v \<in> insert (u_id u) D then review_spec (p_now p0) (p_plans p0) now v else v)"
    if "v \<in> set (p_users p0)" for v
  proof (cases "u_id v = u_id u")
    case True
    then have "v = u" using same_id [OF assms(2,3) that] by simp
    then show ?thesis using assms(4,5) by simp
  qed (simp add: id_spec)
  then show ?thesis unfolding users map_map comp_def by (intro map_cong refl)
qed

definition reviewed :: "instant \<Rightarrow> panel \<Rightarrow> int set \<Rightarrow> int set \<Rightarrow> panel \<Rightarrow> int \<Rightarrow> (db_error + unit) \<times> panel \<Rightarrow> bool" where
  "reviewed now p0 D E p uid out \<longleftrightarrow>
     (\<exists>D'. (D' = D \<or> D' = insert uid D) \<and> rows_at now p0 D' (insert uid E) (snd out)
        \<and> (no_faults p \<longrightarrow> fst out = Inr () \<and> D' = insert uid D \<and> no_faults (snd out)))"

lemma rows_at_mono: "rows_at now p0 D E p \<Longrightarrow> E \<subseteq> E' \<Longrightarrow> rows_at now p0 D E' p"
  by (auto simp: rows_at_def)

lemma no_faults_calls: "no_faults p \<Longrightarrow> no_faults (p\<lparr>p_calls := p_calls p + 1\<rparr>)"
  by (simp add: no_faults_def)

lemma set_users_simps [simp]:
  "p_users (set_users f p) = map f (p_users p)" "p_plans (set_users f p) = p_plans p"
  "p_now (set_users f p) = p_now p" "p_fault (set_users f p) = p_fault p" "p_calls (set_users f p) = p_calls p"
  by (simp_all add: set_users_def)

lemma reviewed_fault:
  assumes "rows_at now p0 D E p" and "\<not> no_faults p0'"
  shows "reviewed now p0 D E p0' uid (Inl e, p)"
proof -
  have "rows_at now p0 D (insert uid E) p" using assms(1) by (rule rows_at_mono) blast
  then show ?thesis unfolding reviewed_def using assms(2) by auto
qed

lemma rows_at_calls: "rows_at now p0 D E (p\<lparr>p_calls := k\<rparr>) = rows_at now p0 D E p"
  by (simp add: rows_at_def)

text \<open>One statement that rewrites the row of \<open>u\<close>, then a notification.\<close>

lemma update_then_notify:
  assumes inv: "rows_at now p0 D E p" "distinct (map u_id (p_users p0))" "u \<in> set (p_users p0)" "u_id u \<notin> D"
    and f: "f (p_now p0) u = review_spec (p_now p0) (p_plans p0) now u"
  shows "reviewed now p0 D E p (u_id u)
    (bnd (stmt (\<lambda>p. (Inr (), set_users (\<lambda>v. if u_id v = u_id u then f (p_now p) v else v) p)))
      (\<lambda>_. bnd (lookupAdminRef aid) (\<lambda>ref. emit (g ref))) p)"
proof (cases "p_fault p (p_calls p)")
  case True
  then have "\<not> no_faults p" using no_faults_now by blast
  then show ?thesis using reviewed_fault [of now p0 D E "p\<lparr>p_calls := p_calls p + 1\<rparr>"] inv(1) True
    by (simp add: stmt_fault rows_at_calls)
next
  case False
  define q where "q = set_users (\<lambda>v. if u_id v = u_id u then f (p_now p) v else v) (p\<lparr>p_calls := p_calls p + 1\<rparr>)"
  obtain q' where q': "bnd (lookupAdminRef aid) (\<lambda>ref. emit (g ref)) q = (Inr (), q')" "frame q q'"
    using notify_frame by blast
  have now: "p_now p = p_now p0" using inv(1) by (simp add: rows_at_def)
  have "p_users q = map (\<lambda>v. if u_id v = u_id u then f (p_now p0) v else v) (p_users p)"
    by (simp add: q_def now)
  note users = trans [OF this update_rows [OF inv, of "f (p_now p0)", OF f]]
  have "p_now q = p_now p0" "\<forall>uid. uid \<notin> E \<longrightarrow> plan_of (p_plans q) uid = plan_of (p_plans p0) uid"
    using inv(1) by (simp_all add: rows_at_def q_def)
  with users have "rows_at now p0 (insert (u_id u) D) E q" unfolding rows_at_def by blast
  then have "rows_at now p0 (insert (u_id u) D) (insert (u_id u) E) q'"
    using frame_rows [OF q'(2)] rows_at_mono by blast
  moreover have "no_faults p \<longrightarrow> no_faults q'"
    using frame_faults [OF q'(2)] no_faults_calls by (auto simp: q_def no_faults_def)
  moreover have "bnd (stmt (\<lambda>p. (Inr (), set_users (\<lambda>v. if u_id v = u_id u then f (p_now p) v else v) p)))
      (\<lambda>_. bnd (lookupAdminRef aid) (\<lambda>ref. emit (g ref))) p = (Inr (), q')"
    using False q'(1) by (simp add: stmt_ok q_def cong: if_cong)
  ultimately show ?thesis unfolding reviewed_def by auto
qed

lemma set_status_reviewed:
  assumes "rows_at now p0 D E p" "distinct (map u_id (p_users p0))" "u \<in> set (p_users p0)" "u_id u \<notin> D"
    and "review_spec (p_now p0) (p_plans p0) now u = u\<lparr>u_status := st, u_last_status_change := Some (p_now p0)\<rparr>"
  shows "reviewed now p0 D E p (u_id u) (set_status u st p)"
  using update_then_notify [OF assms(1-4), of "\<lambda>t u. u\<lparr>u_status := st, u_last_status_change := Some t\<rparr>"] assms(5)
  by (simp add: set_status_def UpdateUserStatusOnly_def)

lemma review_held_reviewed:
  assumes "rows_at now p0 D E p" "distinct (map u_id (p_users p0))" "u \<in> set (p_users p0)" "u_id u \<notin> D"
    and "u_status u = ''on_hold''"
  shows "reviewed now p0 D E p (u_id u) (review_held_user now u p)"
proof (cases "hold_over now u")
  case True
  then have "activated (p_now p0) u = review_spec (p_now p0) (p_plans p0) now u"
    using assms(5) by (simp add: review_spec_def)
  then show ?thesis
    using update_then_notify [OF assms(1-4), of activated] True
    by (simp add: review_held_user_def ActivateOnHoldUser_def)
next
  case False
  then have same: "review_spec (p_now p0) (p_plans p0) now u = u" using assms(5) by (simp add: review_spec_def)
  have "map (\<lambda>v. if u_id v = u_id u then v else v) (p_users p) = p_users p" by simp
  note users = trans [OF this [symmetric] update_rows [OF assms(1-4), of "\<lambda>v. v", OF same [symmetric]]]
  have "rows_at now p0 (insert (u_id u) D) E p"
    using users assms(1) unfolding rows_at_def by blast
  then have "rows_at now p0 (insert (u_id u) D) (insert (u_id u) E) p" by (rule rows_at_mono) blast
  then show ?thesis using False by (auto simp: reviewed_def review_held_user_def ret_def)
qed

text \<open>The four statements of \<open>fireNextPlan\<close>. The row is written by one of them, so it is either
  untouched or as the plan says; only the user's own plan is deleted.\<close>

lemma plan_of_delete:
  "plan_of (filter (\<lambda>np. np_user_id np \<noteq> uid) plans) x = (if x = uid then None else plan_of plans x)"
  by (induction plans) (auto simp: plan_of_def)

lemma find_user_row:
  assumes "rows_at now p0 D E p" "distinct (map u_id (p_users p0))" "u \<in> set (p_users p0)" "u_id u \<notin> D"
  shows "find (\<lambda>v. u_id v = u_id u) (p_users p) = Some u"
proof -
  have id_spec: "u_id (review_spec a b c v) = u_id v" for a b c v
    by (simp add: review_spec_def apply_plan_def activated_def)
  have users: "p_users p = map (\<lambda>v. if u_id v \<in> D then review_spec (p_now p0) (p_plans p0) now v else v) (p_users p0)"
    using assms(1) by (simp add: rows_at_def)
  have "map u_id (p_users p) = map u_id (p_users p0)" unfolding users by (simp add: id_spec)
  moreover have "u \<in> set (p_users p)" unfolding users using assms(3,4) by force
  ultimately show ?thesis using find_unique [of u_id "p_users p" u] assms(2) by simp
qed

lemma fireNextPlan_steps:
  assumes "find (\<lambda>v. u_id v = u_id u) (p_users p) = Some u" and "plan_of (p_plans p) (u_id u) = Some np"
  defines "c \<equiv> p_calls p"
  defines "p1 \<equiv> p\<lparr>p_usage_logs := p_usage_logs p @ [(u_id u, u_used_traffic u)], p_calls := c + 1\<rparr>"
  defines "p2 \<equiv> p1\<lparr>p_user_usages := filter (\<lambda>r. nuu_user_id r \<noteq> u_id u) (p_user_usages p), p_calls := c + 2\<rparr>"
  defines "p3 \<equiv> set_users (\<lambda>v. if u_id v = u_id u then apply_plan (p_now p) np v else v) (p2\<lparr>p_calls := c + 3\<rparr>)"
  defines "p4 \<equiv> p3\<lparr>p_plans := filter (\<lambda>n. np_user_id n \<noteq> u_id u) (p_plans p), p_calls := c + 4\<rparr>"
  shows "fireNextPlan u p =
    (if p_fault p c then (Inl DbError, p\<lparr>p_calls := c + 1\<rparr>)
     else if p_fault p (c + 1) then (Inl DbError, p1\<lparr>p_calls := c + 2\<rparr>)
     else if p_fault p (c + 2) then (Inl DbError, p2\<lparr>p_calls := c + 3\<rparr>)
     else if p_fault p (c + 3) then (Inl DbError, p3\<lparr>p_calls := c + 4\<rparr>)
     else (Inr (apply_plan (p_now p) np u), p4))"
  using assms(1,2)
  by (simp add: fireNextPlan_def bnd_def stmt_def Let_def ret_def set_users_def CreateUserUsageLog_def
      ClearNodeUserUsages_def ResetUserByNextPlan_def DeleteNextPlanByUserID_def
      c_def p1_def p2_def p3_def p4_def numeral_eq_Suc)

lemma fire_reviewed:
  assumes inv: "rows_at now p0 D E p" "distinct (map u_id (p_users p0))" "u \<in> set (p_users p0)" "u_id u \<notin> D" "u_id u \<notin> E"
    and plan: "plan_of (p_plans p0) (u_id u) = Some np"
    and spec: "apply_plan (p_now p0) np u = review_spec (p_now p0) (p_plans p0) now u"
  shows "reviewed now p0 D E p (u_id u)
    (bnd (fireNextPlan u) (\<lambda>updated. bnd (lookupAdminRef (u_admin_id updated)) (\<lambda>ref. emit (g updated ref))) p)"
proof -
  define c p1 p2 p3 p4 where "c = p_calls p" and
    "p1 = p\<lparr>p_usage_logs := p_usage_logs p @ [(u_id u, u_used_traffic u)], p_calls := c + 1\<rparr>" and
    "p2 = p1\<lparr>p_user_usages := filter (\<lambda>r. nuu_user_id r \<noteq> u_id u) (p_user_usages p), p_calls := c + 2\<rparr>" and
    "p3 = set_users (\<lambda>v. if u_id v = u_id u then apply_plan (p_now p) np v else v) (p2\<lparr>p_calls := c + 3\<rparr>)" and
    "p4 = p3\<lparr>p_plans := filter (\<lambda>n. np_user_id n \<noteq> u_id u) (p_plans p), p_calls := c + 4\<rparr>"
  have now: "p_now p = p_now p0" and plans: "\<forall>uid. uid \<notin> E \<longrightarrow> plan_of (p_plans p) uid = plan_of (p_plans p0) uid"
    using inv(1) by (simp_all add: rows_at_def)
  have "plan_of (p_plans p) (u_id u) = Some np" using plan plans inv(5) by simp
  note steps = fireNextPlan_steps [OF find_user_row [OF inv(1-4)] this, folded c_def, folded p1_def, folded p2_def, folded p3_def, folded p4_def]
  have r2: "rows_at now p0 D E (p\<lparr>p_calls := c + 1\<rparr>)" "rows_at now p0 D E (p1\<lparr>p_calls := c + 2\<rparr>)" "rows_at now p0 D E (p2\<lparr>p_calls := c + 3\<rparr>)"
    using inv(1) by (simp_all add: rows_at_def p1_def p2_def)
  have "p_users p3 = map (\<lambda>v. if u_id v = u_id u then apply_plan (p_now p0) np v else v) (p_users p)"
    by (simp add: p3_def p2_def p1_def now)
  note users = trans [OF this update_rows [OF inv(1-4), of "apply_plan (p_now p0) np", OF spec]]
  have "p_now p3 = p_now p0" "p_plans p3 = p_plans p" by (simp_all add: p3_def p2_def p1_def now)
  with users plans have r3: "rows_at now p0 (insert (u_id u) D) (insert (u_id u) E) (p3\<lparr>p_calls := c + 4\<rparr>)"
    unfolding rows_at_def by simp
  have r4: "rows_at now p0 (insert (u_id u) D) (insert (u_id u) E) p4"
    using r3 plans by (simp add: rows_at_def p4_def plan_of_delete \<open>p_plans p3 = p_plans p\<close>)
  have fault: "\<not> no_faults p" if "p_fault p (c + k)" for k
    using that by (auto simp: no_faults_def c_def intro: exI [of _ "p_calls p + k"])
  consider "\<not> no_faults p" "\<exists>q. fireNextPlan u p = (Inl DbError, q) \<and>
      (rows_at now p0 D E q \<or> rows_at now p0 (insert (u_id u) D) (insert (u_id u) E) q)"
    | "fireNextPlan u p = (Inr (apply_plan (p_now p) np u), p4)"
    using steps r2 r3 fault [of 0] fault [of 1] fault [of 2] fault [of 3] by (auto split: if_splits)
  then show ?thesis
  proof cases
    case 1
    then obtain q where q: "fireNextPlan u p = (Inl DbError, q)"
      "rows_at now p0 D (insert (u_id u) E) q \<or> rows_at now p0 (insert (u_id u) D) (insert (u_id u) E) q"
      using rows_at_mono [of now p0 D E _ "insert (u_id u) E"] by blast
    then show ?thesis using 1(1) unfolding reviewed_def by auto
  next
    case 2
    obtain q where q: "bnd (lookupAdminRef (u_admin_id (apply_plan (p_now p) np u))) (\<lambda>ref. emit (g (apply_plan (p_now p) np u) ref)) p4 = (Inr (), q)" "frame p4 q"
      using notify_frame by blast
    have "no_faults p \<longrightarrow> no_faults p4" by (auto simp: no_faults_def p4_def p3_def p2_def p1_def c_def)
    then have "no_faults p \<longrightarrow> no_faults q" using frame_faults [OF q(2)] by blast
    moreover have "rows_at now p0 (insert (u_id u) D) (insert (u_id u) E) q" using frame_rows [OF q(2) r4] .
    ultimately show ?thesis using 2 q(1) unfolding reviewed_def by auto
  qed
qed

lemma review_active_reviewed:
  assumes inv: "rows_at now p0 D E p" "distinct (map u_id (p_users p0))" "u \<in> set (p_users p0)" "u_id u \<notin> D" "u_id u \<notin> E"
    and due: "u_status u = ''active''" "limited u \<or> expired now u"
  shows "reviewed now p0 D E p (u_id u) (review_active_user now u p)"
proof -
  define q where "q = p\<lparr>p_calls := p_calls p + 1\<rparr>"
  have plan: "plan_of (p_plans p) (u_id u) = plan_of (p_plans p0) (u_id u)" using inv(1,5) by (simp add: rows_at_def)
  have rq: "rows_at now p0 D E q" using inv(1) by (simp add: q_def rows_at_calls)
  have nf: "no_faults p \<Longrightarrow> no_faults q" unfolding q_def by (rule no_faults_calls)
  have weaken: "reviewed now p0 D E p (u_id u) out" if "reviewed now p0 D E q (u_id u) out" for out
    using that nf unfolding reviewed_def by blast
  define st where "st = (if limited u then ''limited'' else ''expired'')"
  have change: "(if limited u then set_status u ''limited'' else if expired now u then set_status u ''expired'' else ret ()) = set_status u st"
    using due(2) by (auto simp: st_def)
  have status: "reviewed now p0 D E p (u_id u) (set_status u st q)" if "\<not> fires (p_plans p0) now u"
    using that due by (intro weaken set_status_reviewed [OF rq inv(2-4)]) (simp add: review_spec_def st_def)
  show ?thesis
  proof (cases "p_fault p (p_calls p)")
    case True
    then have "review_active_user now u p = (Inl DbError, q)"
      using due by (simp add: review_active_user_def GetNextPlanByUserID_def stmt_fault Let_def q_def)
    moreover have "\<not> no_faults p" using True no_faults_now by blast
    ultimately show ?thesis using reviewed_fault [OF rq] by metis
  next
    case False
    then have get: "GetNextPlanByUserID (u_id u) p =
        (case plan_of (p_plans p0) (u_id u) of None \<Rightarrow> Inl ErrNoRows | Some np \<Rightarrow> Inr np, q)"
      by (simp add: GetNextPlanByUserID_def stmt_ok q_def plan)
    show ?thesis
    proof (cases "plan_of (p_plans p0) (u_id u)")
      case None
      then have "\<not> fires (p_plans p0) now u" by (simp add: fires_def)
      moreover have "review_active_user now u p = set_status u st q"
        using due(2) get None change by (simp add: review_active_user_def Let_def)
      ultimately show ?thesis using status by simp
    next
      case (Some np)
      show ?thesis
      proof (cases "fires (p_plans p0) now u")
        case True
        then have f: "np_fire_on_either np \<or> (limited u \<and> expired now u)" using Some by (simp add: fires_def)
        have "review_active_user now u p = bnd (fireNextPlan u) (\<lambda>updated. bnd (lookupAdminRef (u_admin_id updated))
            (\<lambda>ref. emit (UserDataResetByNext (toUserSummary updated) ref))) q"
          using due(2) get Some f by (simp add: review_active_user_def Let_def)
        moreover have "apply_plan (p_now p0) np u = review_spec (p_now p0) (p_plans p0) now u"
          using True due Some by (simp add: review_spec_def)
        ultimately show ?thesis
          using weaken [OF fire_reviewed [OF rq inv(2-5) Some, where g = "\<lambda>updated ref. UserDataResetByNext (toUserSummary updated) ref"]]
          by simp
      next
        case False
        then have f: "\<not> (np_fire_on_either np \<or> (limited u \<and> expired now u))" using Some by (simp add: fires_def)
        then have "review_active_user now u p = set_status u st q"
          using due(2) get Some change by (auto simp: review_active_user_def Let_def)
        then show ?thesis using status [OF False] by simp
      qed
    qed
  qed
qed

text \<open>A loop over rows of the table, each row reviewed once.\<close>

lemma each_reviewed:
  assumes "distinct (map u_id us)" and "rows_at now p0 D E p"
    and "u_id ` set us \<inter> (D \<union> E) = {}"
    and step: "\<And>u D E p. u \<in> set us \<Longrightarrow> rows_at now p0 D E p \<Longrightarrow> u_id u \<notin> D \<Longrightarrow> u_id u \<notin> E \<Longrightarrow>
      reviewed now p0 D E p (u_id u) (f u p)"
  shows "\<exists>D'. D \<subseteq> D' \<and> D' \<subseteq> D \<union> u_id ` set us \<and> rows_at now p0 D' (E \<union> u_id ` set us) (snd (each f us p))
    \<and> (no_faults p \<longrightarrow> fst (each f us p) = Inr () \<and> D' = D \<union> u_id ` set us \<and> no_faults (snd (each f us p)))"
  using assms
proof (induction us arbitrary: D E p)
  case Nil
  then show ?case by (intro exI [of _ D]) (simp add: ret_def)
next
  case (Cons u us)
  obtain res q where out: "f u p = (res, q)" by force
  have "reviewed now p0 D E p (u_id u) (res, q)" using Cons.prems(4) [of u D E p] Cons.prems(2,3) out by simp
  then obtain D1 where D1: "D1 = D \<or> D1 = insert (u_id u) D" "rows_at now p0 D1 (insert (u_id u) E) q"
    "no_faults p \<longrightarrow> res = Inr () \<and> D1 = insert (u_id u) D \<and> no_faults q"
    unfolding reviewed_def by auto
  show ?case
  proof (cases res)
    case (Inl e)
    then have "each f (u # us) p = (Inl e, q)" using out by simp
    moreover have "rows_at now p0 D1 (E \<union> u_id ` set (u # us)) q" using D1(2) by (rule rows_at_mono) auto
    ultimately show ?thesis using D1(1,3) Inl by (intro exI [of _ D1]) auto
  next
    case (Inr x)
    then have each: "each f (u # us) p = each f us q" using out by simp
    have fresh: "u_id u \<notin> u_id ` set us" using Cons.prems(1) by simp
    have "u_id ` set us \<inter> (D \<union> E) = {}" using Cons.prems(3) by auto
    moreover have "D1 \<union> insert (u_id u) E \<subseteq> insert (u_id u) (D \<union> E)" using D1(1) by auto
    ultimately have "u_id ` set us \<inter> (D1 \<union> insert (u_id u) E) = {}" using fresh
      by (metis Int_insert_right_if0 inf_mono order_refl subset_empty)
    then obtain D' where D': "D1 \<subseteq> D'" "D' \<subseteq> D1 \<union> u_id ` set us"
      "rows_at now p0 D' (insert (u_id u) E \<union> u_id ` set us) (snd (each f us q))"
      "no_faults q \<longrightarrow> fst (each f us q) = Inr () \<and> D' = D1 \<union> u_id ` set us \<and> no_faults (snd (each f us q))"
      using Cons.IH [OF _ D1(2)] Cons.prems(1,4) by auto
    have e: "insert (u_id u) E \<union> u_id ` set us = E \<union> u_id ` set (u # us)" by auto
    have "D \<subseteq> D'" "D' \<subseteq> D \<union> u_id ` set (u # us)" using D'(1,2) D1(1) by auto
    moreover have "no_faults p \<longrightarrow> D' = D \<union> u_id ` set (u # us)" using D'(4) D1(3) by auto
    ultimately show ?thesis unfolding each using D'(3,4) D1(3) unfolding e by blast
  qed
qed

section \<open>Properties\<close>

lemma needs_review_iff:
  "- (2 ^ 31) \<le> unix now \<Longrightarrow> unix now < 2 ^ 31 \<Longrightarrow>
    needs_review (to_int32 (unix now)) u \<longleftrightarrow> u_status u = ''active'' \<and> (limited u \<or> expired now u)"
  by (auto simp: needs_review_def limited_def expired_def to_int32_small split: option.splits)

lemma filter_map_fixed:
  "(\<And>u. u \<in> set us \<Longrightarrow> g u = u \<and> P u \<or> \<not> P (g u) \<and> \<not> P u) \<Longrightarrow> filter P (map g us) = filter P us"
proof (induction us)
  case (Cons u us)
  have "g u = u \<and> P u \<or> \<not> P (g u) \<and> \<not> P u" using Cons.prems [of u] by simp
  moreover have "filter P (map g us) = filter P us" using Cons by simp
  ultimately show ?case by auto
qed simp

lemma review_rows:
  assumes ids: "distinct (map u_id (p_users p))" and time: "- (2 ^ 31) \<le> unix now" "unix now < 2 ^ 31"
  shows "\<exists>D E. rows_at now p D E (snd (review now p)) \<and>
    (no_faults p \<longrightarrow> fst (review now p) = Inr () \<and> no_faults (snd (review now p)) \<and>
      (\<forall>u \<in> set (p_users p). u_id u \<notin> D \<longrightarrow> review_spec (p_now p) (p_plans p) now u = u))"
proof -
  define due where "due = filter (\<lambda>u. u_status u = ''active'' \<and> (limited u \<or> expired now u)) (p_users p)"
  define held where "held = filter (\<lambda>u. u_status u = ''on_hold'') (p_users p)"
  define q where "q = p\<lparr>p_calls := p_calls p + 1\<rparr>"
  have start: "rows_at now p {} {} p" "rows_at now p {} {} q" by (simp_all add: rows_at_def q_def)
  have dids: "distinct (map u_id due)" "distinct (map u_id held)"
    using ids by (simp_all add: due_def held_def distinct_map_filter)
  show ?thesis
  proof (cases "p_fault p (p_calls p)")
    case True
    then have "review now p = (Inl DbError, q)"
      by (simp add: review_def reviewActiveUsers_def GetUsersNeedingStatusReview_def bnd_def stmt_fault q_def)
    moreover have "\<not> no_faults p" using True no_faults_now by blast
    ultimately show ?thesis using start(2) by (intro exI [of _ "{}"]) simp
  next
    case False
    have "needs_review (to_int32 (unix now)) = (\<lambda>u. u_status u = ''active'' \<and> (limited u \<or> expired now u))"
      using needs_review_iff [OF time] by blast
    then have "GetUsersNeedingStatusReview (to_int32 (unix now)) p = (Inr due, q)"
      using False by (simp add: GetUsersNeedingStatusReview_def stmt_ok due_def q_def)
    then have active: "reviewActiveUsers now p = each (review_active_user now) due q"
      by (simp add: reviewActiveUsers_def)
    have "\<exists>D'. {} \<subseteq> D' \<and> D' \<subseteq> {} \<union> u_id ` set due \<and> rows_at now p D' ({} \<union> u_id ` set due) (snd (each (review_active_user now) due q))
      \<and> (no_faults q \<longrightarrow> fst (each (review_active_user now) due q) = Inr () \<and> D' = {} \<union> u_id ` set due
          \<and> no_faults (snd (each (review_active_user now) due q)))"
      by (rule each_reviewed [OF dids(1) start(2)])
        (auto simp: due_def intro: review_active_reviewed [OF _ ids])
    then obtain D1 where D1: "D1 \<subseteq> u_id ` set due" "rows_at now p D1 (u_id ` set due) (snd (reviewActiveUsers now p))"
      "no_faults q \<longrightarrow> fst (reviewActiveUsers now p) = Inr () \<and> D1 = u_id ` set due \<and> no_faults (snd (reviewActiveUsers now p))"
      using active by auto
    obtain res1 p1 where out1: "reviewActiveUsers now p = (res1, p1)" by force
    have nq: "no_faults p \<Longrightarrow> no_faults q" unfolding q_def by (rule no_faults_calls)
    show ?thesis
    proof (cases res1)
      case (Inl e)
      then have "review now p = (Inl e, p1)" using out1 by (simp add: review_def)
      then show ?thesis using D1 nq out1 Inl by (intro exI [of _ D1] exI [of _ "u_id ` set due"]) auto
    next
      case (Inr x)
      then have rev: "review now p = reviewOnHoldUsers now p1" using out1 by (simp add: review_def)
      define q1 where "q1 = p1\<lparr>p_calls := p_calls p1 + 1\<rparr>"
      have rows1: "rows_at now p D1 (u_id ` set due) q1" using D1(2) out1 by (simp add: q1_def rows_at_calls)
      have disj: "u_id ` set held \<inter> (D1 \<union> u_id ` set due) = {}"
      proof -
        have "u_id u \<noteq> u_id v" if "u \<in> set held" "v \<in> set due" for u v
          using that same_id [OF ids, of u v] by (auto simp: held_def due_def)
        then show ?thesis using D1(1) by fastforce
      qed
      have on_hold: "filter (\<lambda>u. u_status u = ''on_hold'') (p_users p1) = held"
      proof -
        let ?g = "\<lambda>u. if u_id u \<in> D1 then review_spec (p_now p) (p_plans p) now u else u"
        have users: "p_users p1 = map ?g (p_users p)" using D1(2) out1 by (simp add: rows_at_def)
        have "?g u = u \<and> u_status u = ''on_hold'' \<or> u_status (?g u) \<noteq> ''on_hold'' \<and> u_status u \<noteq> ''on_hold''"
          if "u \<in> set (p_users p)" for u
        proof (cases "u_id u \<in> D1")
          case True
          then obtain v where v: "v \<in> set due" "u_id v = u_id u" using D1(1) by auto
          then have "u = v" using same_id [OF ids _ that, of v] by (auto simp: due_def)
          then show ?thesis using v(1) by (auto simp: due_def review_spec_def apply_plan_def activated_def)
        qed auto
        then show ?thesis unfolding users held_def by (intro filter_map_fixed) blast
      qed
      show ?thesis
      proof (cases "p_fault p1 (p_calls p1)")
        case True
        then have "reviewOnHoldUsers now p1 = (Inl DbError, q1)"
          by (simp add: reviewOnHoldUsers_def GetOnHoldUsers_def bnd_def stmt_fault q1_def)
        moreover have "\<not> no_faults p" using True no_faults_now [of p1] D1(3) nq out1 by auto
        ultimately show ?thesis using rev rows1 by (intro exI [of _ D1] exI [of _ "u_id ` set due"]) simp
      next
        case False
        then have each: "reviewOnHoldUsers now p1 = each (review_held_user now) held q1"
          using on_hold by (simp add: reviewOnHoldUsers_def GetOnHoldUsers_def stmt_ok q1_def)
        obtain D2 where D2: "rows_at now p D2 (u_id ` set due \<union> u_id ` set held) (snd (each (review_held_user now) held q1))"
          "no_faults q1 \<longrightarrow> fst (each (review_held_user now) held q1) = Inr () \<and> D2 = D1 \<union> u_id ` set held
            \<and> no_faults (snd (each (review_held_user now) held q1))"
          using each_reviewed [OF dids(2) rows1 disj, of "review_held_user now"] review_held_reviewed [OF _ ids]
          by (fastforce simp: held_def)
        have "no_faults p \<longrightarrow> no_faults q1 \<and> D1 = u_id ` set due"
          using D1(3) nq out1 no_faults_calls [of p1] by (auto simp: q1_def)
        moreover have "review_spec (p_now p) (p_plans p) now u = u"
          if "u \<in> set (p_users p)" "u_id u \<notin> u_id ` set due \<union> u_id ` set held" for u
          using that by (auto simp: due_def held_def review_spec_def)
        ultimately show ?thesis using rev each D2 by (intro exI [of _ D2] exI [of _ "u_id ` set due \<union> u_id ` set held"]) auto
      qed
    qed
  qed
qed

text \<open>C32. A tick of the review, with the database answering, does to every user exactly what the
  rules say and nothing else: an active user over the data limit becomes limited, else past the
  expiry becomes expired, unless a pending plan fires (on either condition when it says so, on
  both otherwise), which renews the user; a user on hold becomes active, with the expiry
  counted from now, once it was online since it was created or edited or its hold timed out;
  every other row is unchanged. (The expiry comparison holds while the Unix time fits in 32
  bits.)\<close>

theorem review_applies_rules:
  assumes "distinct (map u_id (p_users p))" and "- (2 ^ 31) \<le> unix now" and "unix now < 2 ^ 31" and "no_faults p"
  shows "fst (review now p) = Inr ()
    \<and> p_users (snd (review now p)) = map (review_spec (p_now p) (p_plans p) now) (p_users p)"
proof -
  obtain D E where D: "rows_at now p D E (snd (review now p))" "fst (review now p) = Inr ()"
    "\<forall>u \<in> set (p_users p). u_id u \<notin> D \<longrightarrow> review_spec (p_now p) (p_plans p) now u = u"
    using review_rows [OF assms(1-3)] assms(4) by blast
  have "p_users (snd (review now p)) =
      map (\<lambda>u. if u_id u \<in> D then review_spec (p_now p) (p_plans p) now u else u) (p_users p)"
    using D(1) by (simp add: rows_at_def)
  also have "\<dots> = map (review_spec (p_now p) (p_plans p) now) (p_users p)"
    using D(3) by (intro map_cong) auto
  finally show ?thesis using D(2) by simp
qed

text \<open>C33. However many statements of a tick fail, and wherever it stops, no user is left half
  changed: every row is the old row or the row the rules demand.\<close>

theorem review_faults_leave_rows_whole:
  assumes "distinct (map u_id (p_users p))" and "- (2 ^ 31) \<le> unix now" and "unix now < 2 ^ 31"
  shows "list_all2 (\<lambda>old new. new = old \<or> new = review_spec (p_now p) (p_plans p) now old)
    (p_users p) (p_users (snd (review now p)))"
proof -
  obtain D E where "rows_at now p D E (snd (review now p))" using review_rows [OF assms] by blast
  then have "p_users (snd (review now p)) =
      map (\<lambda>u. if u_id u \<in> D then review_spec (p_now p) (p_plans p) now u else u) (p_users p)"
    by (simp add: rows_at_def)
  then show ?thesis by (simp add: list_all2_conv_all_nth)
qed

section \<open>Examples and limits\<close>

definition example_user :: User where
  "example_user = \<lparr>u_id = 1, u_username = ''ann'', u_status = ''active'', u_used_traffic = 15, u_data_limit = Some 10,
     u_expire = None, u_admin_id = None, u_strategy = ''no_reset'', u_created_at = 0, u_edit_at = None, u_online_at = None,
     u_on_hold_timeout = None, u_on_hold_expire_duration = None, u_last_status_change = None, u_note = None,
     u_auto_delete_in_days = None, u_sub_revoked_at = None, u_sub_updated_at = None, u_sub_last_user_agent = None,
     u_emergency_used_at = None, u_synced_from_panel_name = None\<rparr>"

definition example_panel :: "NextPlan list \<Rightarrow> (nat \<Rightarrow> bool) \<Rightarrow> panel" where
  "example_panel plans fault = \<lparr>p_users = [example_user], p_proxies = [], p_excluded = [], p_inbounds = [], p_serial = (1, 0), p_gateway = ([], []), p_plans = plans, p_admins = [], p_queue = [], p_user_usages = [],
     p_node_usages = [], p_nodes = [], p_host_metrics = [], p_system = (0, 0), p_usage_logs = [], p_admin_logs = [], p_admin_serial = 9, p_events = [], p_now = 7000000000,
     p_fault = fault, p_calls = 0\<rparr>"

definition example_plan :: NextPlan where
  "example_plan = \<lparr>np_user_id = 1, np_data_limit = 100, np_expire = None, np_add_remaining_traffic = True, np_fire_on_either = True\<rparr>"

theorem review_applies_rules_witness:
  "map u_status (p_users (snd (review 7000000000 (example_panel [] (\<lambda>_. False))))) = [''limited'']
   \<and> map u_used_traffic (p_users (snd (review 7000000000 (example_panel [example_plan] (\<lambda>_. False))))) = [0]"
  using review_applies_rules [of "example_panel [] (\<lambda>_. False)" 7000000000]
    review_applies_rules [of "example_panel [example_plan] (\<lambda>_. False)" 7000000000]
  by (simp add: example_panel_def example_user_def example_plan_def unix_def no_faults_def review_spec_def limited_def
      fires_def plan_of_def apply_plan_def)

theorem review_faults_leave_rows_whole_witness:
  "list_all2 (\<lambda>old new. new = old \<or> new = review_spec 7000000000 [example_plan] 7000000000 old)
     [example_user] (p_users (snd (review 7000000000 (example_panel [example_plan] (\<lambda>k. k = 5)))))"
  using review_faults_leave_rows_whole [of "example_panel [example_plan] (\<lambda>k. k = 5)" 7000000000]
  by (simp add: example_panel_def unix_def)

text \<open>The plan and the user are not changed together: when the last statement of \<open>fireNextPlan\<close> fails,
  the user is renewed and the plan is still there, to fire a second time.\<close>

lemma next_plan_survives_failed_delete:
  "let p = snd (review 7000000000 (example_panel [example_plan] (\<lambda>k. k = 5)))
   in map u_used_traffic (p_users p) = [0] \<and> map u_data_limit (p_users p) = [Some 100] \<and> p_plans p = [example_plan]"
  by code_simp

text \<open>A user who went over the limit by at least what the plan grants gets a limit of zero or less,
  which both the query and the job read as no limit at all.\<close>

lemma next_plan_overuse_lifts_limit:
  assumes "limited u" and "\<not> np_add_remaining_traffic np" and "u_data_limit u = Some d" and "np_data_limit np \<le> u_used_traffic u - d"
  shows "\<not> limited (apply_plan now np u\<lparr>u_used_traffic := any_traffic\<rparr>)"
  using assms by (simp add: limited_def apply_plan_def)

text \<open>From 2038 on the 32-bit argument of the query is negative and no expiry is found any more.\<close>

lemma review_misses_expiry_from_2038:
  assumes "2 ^ 31 \<le> unix now" and "unix now < 2 ^ 32" and "u_data_limit u = None" and "u_expire u = Some e" and "0 < e"
  shows "\<not> needs_review (to_int32 (unix now)) u"
proof -
  have "(unix now + 2 ^ 31) mod 2 ^ 32 = ((unix now - 2 ^ 31) + 2 ^ 32) mod 2 ^ 32" by (simp add: add.commute)
  also have "\<dots> = (unix now - 2 ^ 31) mod 2 ^ 32" by (rule mod_add_self2)
  also have "\<dots> = unix now - 2 ^ 31" by (rule mod_pos_pos_trivial) (use assms(1,2) in auto)
  finally show ?thesis using assms by (simp add: needs_review_def to_int32_def)
qed

end
