(* ===== verification/HostMetrics.thy ===== *)
theory HostMetrics
  imports PanelDB TunnelHealth
begin

text \<open>
  Host metrics on the panel (\<open>internal/hostmetrics/rate.go\<close>, \<open>store.go\<close> and \<open>ApplyTunnelHealth\<close> of
  \<open>sample.go\<close>): a raw sample of cumulative counters is turned into percentages and rates against
  the previous sample of the same host, and stored as a row. Floating point is the one of theory
  \<open>Float64\<close>; JSON encoding is an argument.
\<close>

section \<open>Samples\<close>

record Peer =
  pe_Endpoint :: string
  pe_LastHandshakeAgeSeconds :: "rat option"
  pe_RxBytes :: int
  pe_TxBytes :: int

record Tunnel =
  tn_Name :: string
  tn_Up :: bool
  tn_Present :: bool
  tn_RxBytes :: int
  tn_TxBytes :: int
  tn_Peers :: "Peer list"
  tn_ProbeMs :: "rat option"
  tn_Error :: string
  tn_FallbackActive :: bool

record Sample =
  s_CollectedAt :: instant
  s_UptimeSeconds :: rat
  s_Load1m :: rat
  s_CPUTotalJiffies :: int
  s_CPUIdleJiffies :: int
  s_CPUCores :: int
  s_MemTotalBytes :: int
  s_MemAvailableBytes :: int
  s_DiskTotalBytes :: int
  s_DiskUsedBytes :: int
  s_RxBytes :: int
  s_TxBytes :: int
  s_ConnectionsEstablished :: int
  s_ClientConnections :: int
  s_clientConnsSent :: bool
  s_Tunnels :: "Tunnel list"
  s_XrayRunning :: bool
  s_XrayVersion :: string

record Derived =
  d_CPUPercent :: "rat option"
  d_MemPercent :: "rat option"
  d_DiskPercent :: "rat option"
  d_RxRate :: "int option"
  d_TxRate :: "int option"

type_synonym tracker = "(string, Sample) gomap"

definition ClientConnectionsKnown :: "Sample \<Rightarrow> bool" where
  "ClientConnectionsKnown s \<longleftrightarrow> s_clientConnsSent s \<or> s_ClientConnections s \<noteq> 0"

section \<open>Rates and percentages\<close>

definition round1 :: "rat \<Rightarrow> rat" where
  "round1 v = fl (float64 (int64_of (fl (fl (v * 10) + 1 / 2))) / 10)"

text \<open>\<open>Duration.Seconds\<close>.\<close>

definition Seconds :: "duration \<Rightarrow> rat" where
  "Seconds d = (if d < 0 then - fl (float64 ((- d) div 1000000000) + fl (float64 ((- d) mod 1000000000) / 1000000000))
                else fl (float64 (d div 1000000000) + fl (float64 (d mod 1000000000) / 1000000000)))"

text \<open>\<open>Time.Sub\<close>: the difference, cut to the range of a \<open>Duration\<close>.\<close>

definition time_Sub :: "instant \<Rightarrow> instant \<Rightarrow> duration" where
  "time_Sub a b = max (- (2 ^ 63)) (min (2 ^ 63 - 1) (a - b))"

definition rateOf :: "int \<Rightarrow> int \<Rightarrow> rat \<Rightarrow> int option" where
  "rateOf now prev seconds =
     (let delta = wrap64 (now - prev) in if delta < 0 then None else Some (int64_of (fl (float64 delta / seconds))))"

definition percentOf :: "int \<Rightarrow> int \<Rightarrow> rat" where
  "percentOf part whole = round1 (fl (fl (100 * float64 part) / float64 whole))"

definition Derive :: "string \<Rightarrow> Sample \<Rightarrow> tracker \<Rightarrow> Derived \<times> tracker" where
  "Derive key s t =
     (let prev = map_of t key;
          t' = mput key s t;
          mem = (if s_MemTotalBytes s > 0
                 then Some (percentOf (wrap64 (s_MemTotalBytes s - s_MemAvailableBytes s)) (s_MemTotalBytes s)) else None);
          disk = (if s_DiskTotalBytes s > 0 then Some (percentOf (s_DiskUsedBytes s) (s_DiskTotalBytes s)) else None);
          d = \<lparr>d_CPUPercent = None, d_MemPercent = mem, d_DiskPercent = disk, d_RxRate = None, d_TxRate = None\<rparr>
      in case prev of
           None \<Rightarrow> (d, t')
         | Some p \<Rightarrow>
             (let seconds = Seconds (time_Sub (s_CollectedAt s) (s_CollectedAt p))
              in if seconds \<le> 0 then (d, t')
                 else
                   (let dt = wrap64 (wrap64 (s_CPUTotalJiffies s) - wrap64 (s_CPUTotalJiffies p));
                        di = wrap64 (wrap64 (s_CPUIdleJiffies s) - wrap64 (s_CPUIdleJiffies p));
                        cpu = (if dt > 0
                               then (let pct = percentOf (wrap64 (dt - di)) dt; pct = (if pct < 0 then 0 else pct)
                                     in Some (if pct > 100 then 100 else pct))
                               else None)
                    in (d\<lparr>d_RxRate := rateOf (s_RxBytes s) (s_RxBytes p) seconds,
                          d_TxRate := rateOf (s_TxBytes s) (s_TxBytes p) seconds,
                          d_CPUPercent := cpu\<rparr>, t'))))"

section \<open>Storing a sample\<close>

definition payloadCap :: nat where "payloadCap = 65000"

definition clientConnsColumn :: "Sample \<Rightarrow> int option" where
  "clientConnsColumn s =
     (if \<not> ClientConnectionsKnown s then None
      else let n = s_ClientConnections s; n = (if n < 0 then 0 else n)
           in Some (if n > 2147483647 then 2147483647 else n))"

text \<open>\<open>json\<close> is \<open>json.Marshal\<close>; \<open>None\<close> is its error.\<close>

definition Store :: "(Sample \<Rightarrow> string option) \<Rightarrow> int option \<Rightarrow> Sample \<Rightarrow> Derived \<Rightarrow> bool \<Rightarrow> unit act" where
  "Store json nodeID s d healthy =
     (let payload = take payloadCap (case json s of None \<Rightarrow> [] | Some b \<Rightarrow> b)
      in InsertHostMetric \<lparr>hm_node_id = nodeID, hm_collected_at = s_CollectedAt s, hm_cpu_percent = d_CPUPercent d,
           hm_mem_percent = d_MemPercent d, hm_disk_percent = d_DiskPercent d, hm_rx_rate = d_RxRate d, hm_tx_rate = d_TxRate d,
           hm_connections = to_int32 (s_ConnectionsEstablished s), hm_tunnels_up = to_int32 (int (length (filter tn_Up (s_Tunnels s)))),
           hm_tunnels_total = to_int32 (int (length (s_Tunnels s))), hm_healthy = healthy,
           hm_payload = (if payload = [] then None else Some payload), hm_client_conns = clientConnsColumn s\<rparr>)"

section \<open>The verdict of the probes\<close>

definition apply_health :: "(string, TunnelHealth) gomap \<Rightarrow> Tunnel \<Rightarrow> Tunnel" where
  "apply_health health t =
     (case map_of health (tn_Name t) of
        None \<Rightarrow> t
      | Some h \<Rightarrow> t\<lparr>tn_Present := th_Present h, tn_Up := th_Up h, tn_ProbeMs := th_ProbeMs h, tn_Error := th_Error h,
                    tn_FallbackActive := th_FallbackActive h\<rparr>)"

definition missing_tunnel :: "string \<Rightarrow> Tunnel" where
  "missing_tunnel name = \<lparr>tn_Name = name, tn_Up = False, tn_Present = False, tn_RxBytes = 0, tn_TxBytes = 0, tn_Peers = [], tn_ProbeMs = None,
     tn_Error = ''interface not found'', tn_FallbackActive = False\<rparr>"

definition ApplyTunnelHealth :: "Tunnel list \<Rightarrow> string list \<Rightarrow> (string, TunnelHealth) gomap \<Rightarrow> Tunnel list" where
  "ApplyTunnelHealth tunnels configured health =
     (let byName = foldl (\<lambda>m t. mput (tn_Name t) (t\<lparr>tn_Present := True\<rparr>) m) [] tunnels;
          byName = foldl (\<lambda>m name. if map_of m name = None then mput name (missing_tunnel name) m else m) byName configured
      in sort_key tn_Name (map (\<lambda>(_, t). apply_health health t) byName))"

definition example_sample :: Sample where
  "example_sample = \<lparr>s_CollectedAt = 60000000000, s_UptimeSeconds = 60, s_Load1m = 1 / 2, s_CPUTotalJiffies = 300, s_CPUIdleJiffies = 100, s_CPUCores = 2, s_MemTotalBytes = 1000, s_MemAvailableBytes = 250,
     s_DiskTotalBytes = 0, s_DiskUsedBytes = 0, s_RxBytes = 900, s_TxBytes = 70, s_ConnectionsEstablished = 3, s_ClientConnections = 2,
     s_clientConnsSent = True, s_Tunnels = [], s_XrayRunning = True, s_XrayVersion = []\<rparr>"

section \<open>Percentages stay in range, rates are exact\<close>

lemma fl_le: "0 \<le> x \<Longrightarrow> fl x \<le> x + x / 2 ^ 53"
proof (cases "x = 0")
  case False
  assume "0 \<le> x"
  with False have "\<bar>fl x - x\<bar> \<le> x / 2 ^ 53" by (intro fl_error) simp
  then show ?thesis by linarith
qed simp

lemma round1_range:
  assumes "0 \<le> v" and "v \<le> 100 + 1 / 1000"
  shows "\<exists>k. 0 \<le> k \<and> k \<le> 1000 \<and> round1 v = fl (of_int k / 10)"
proof -
  define w where "w = fl (fl (v * 10) + 1 / 2)"
  have "0 \<le> fl (v * 10)" using assms(1) by (intro fl_nonneg) simp
  then have w0: "0 \<le> w" unfolding w_def by (intro fl_nonneg) simp
  have "fl (v * 10) \<le> v * 10 + v * 10 / 2 ^ 53" using assms(1) by (intro fl_le) simp
  also have "\<dots> \<le> 1000 + 1 / 50" using assms by simp
  finally have "fl (v * 10) + 1 / 2 \<le> 1000 + 26 / 50" by simp
  moreover have "w \<le> (fl (v * 10) + 1 / 2) + (fl (v * 10) + 1 / 2) / 2 ^ 53"
    unfolding w_def using \<open>0 \<le> fl (v * 10)\<close> by (intro fl_le) simp
  moreover have "(fl (v * 10) + 1 / 2) / 2 ^ 53 \<le> 1 / 10" using \<open>fl (v * 10) + 1 / 2 \<le> 1000 + 26 / 50\<close> by simp
  ultimately have "w < 1001" by linarith
  then have k: "0 \<le> \<lfloor>w\<rfloor>" "\<lfloor>w\<rfloor> \<le> 1000" using w0 by (simp_all add: floor_less_iff flip: zless_add1_eq)
  then have "int64_of w = \<lfloor>w\<rfloor>" using w0 by (simp add: int64_of_def trunc_def)
  then have "round1 v = fl (of_int \<lfloor>w\<rfloor> / 10)" using k by (simp add: round1_def float64_exact flip: w_def)
  then show ?thesis using k by blast
qed

lemma percent_quotient:
  assumes "0 \<le> part" and "part \<le> whole" and "0 < whole"
  shows "0 \<le> fl (fl (100 * float64 part) / float64 whole)" and "fl (fl (100 * float64 part) / float64 whole) \<le> 100 + 1 / 1000"
proof -
  define a where "a = float64 part"
  define b where "b = float64 whole"
  have b: "0 < b" unfolding b_def float64_def using assms(3) by (intro fl_pos) simp
  have a: "0 \<le> a" "a \<le> b" unfolding a_def b_def float64_def using assms by (auto intro: fl_nonneg fl_mono)
  have n0: "0 \<le> fl (100 * a)" using a by (intro fl_nonneg) simp
  have "fl (100 * a) \<le> 100 * a + 100 * a / 2 ^ 53" using a by (intro fl_le) simp
  also have "\<dots> \<le> 100 * b + 100 * b / 2 ^ 53" using a by (intro add_mono divide_right_mono) auto
  finally have "fl (100 * a) / b \<le> 100 + 100 / 2 ^ 53" using b by (simp add: field_simps)
  moreover have q0: "0 \<le> fl (100 * a) / b" using n0 b by simp
  then have "fl (fl (100 * a) / b) \<le> fl (100 * a) / b + fl (100 * a) / b / 2 ^ 53" by (rule fl_le)
  ultimately show "fl (fl (100 * float64 part) / float64 whole) \<le> 100 + 1 / 1000" by (simp flip: a_def b_def)
  show "0 \<le> fl (fl (100 * float64 part) / float64 whole)" using q0 by (simp add: fl_nonneg flip: a_def b_def)
qed

lemma fl_tenths: "0 \<le> k \<Longrightarrow> k \<le> 1000 \<Longrightarrow> 0 \<le> fl (of_int k / 10) \<and> fl (of_int k / 10) \<le> 100"
proof -
  assume k: "0 \<le> k" "k \<le> 1000"
  have "fl (of_int k / 10) \<le> fl (of_int 100)" using k(2) by (intro fl_mono) simp
  also have "fl (of_int 100) = of_int 100" by (rule fl_of_int) simp
  finally show ?thesis using k(1) by (simp add: fl_nonneg)
qed

lemma percentOf_range:
  assumes "0 \<le> part" and "part \<le> whole" and "0 < whole"
  shows "0 \<le> percentOf part whole \<and> percentOf part whole \<le> 100"
  using round1_range [OF percent_quotient [OF assms]] fl_tenths by (auto simp: percentOf_def)

text \<open>Over a whole number of seconds the rate is the integer quotient.\<close>

lemma Seconds_whole: "0 \<le> k \<Longrightarrow> k < 2 ^ 53 \<Longrightarrow> Seconds (k * 1000000000) = of_int k"
  using fl_of_int [of k] fl_of_int [of 0] by (simp add: Seconds_def float64_def)

lemma rate_exact:
  assumes "0 \<le> delta" and "delta < 2 ^ 52" and "0 < k" and "k < 2 ^ 53"
  shows "int64_of (fl (float64 delta / of_int k)) = delta div k"
proof -
  define x :: rat where "x = of_int delta / of_int k"
  define n where "n = delta div k"
  have kr: "(1::rat) \<le> of_int k" using assms(3) by (metis of_int_1_le_iff zless_imp_add1_zle add_0)
  have n0: "0 \<le> n" using assms(1,3) by (simp add: n_def pos_imp_zdiv_nonneg_iff)
  have split: "delta = n * k + delta mod k" by (simp add: n_def)
  have mods: "0 \<le> delta mod k" "delta mod k < k" using assms(3) by simp_all
  have "n * 1 \<le> n * k" using n0 assms(3) by (intro mult_left_mono) auto
  then have nb: "n < 2 ^ 52" using assms(2) split mods by linarith
  have "of_int n \<le> x" unfolding n_def x_def using floor_divide_of_int_eq [of delta k, where 'a = rat] of_int_floor_le by metis
  then have low: "of_int n \<le> fl x" using fl_mono [of "of_int n" x] fl_of_int [of n] n0 nb by simp
  have "delta < (n + 1) * k" using split mods by (simp add: distrib_right)
  then have "of_int delta + 1 \<le> (of_int (n + 1) * of_int k :: rat)" by (metis of_int_1 of_int_add of_int_le_iff of_int_mult zless_imp_add1_zle)
  then have gap: "x + 1 / of_int k \<le> of_int (n + 1)" using kr by (simp add: x_def field_simps)
  have "(of_int delta :: rat) < of_int (2 ^ 52)" using assms(2) by (simp only: of_int_less_iff)
  then have "x / 2 ^ 53 < 1 / of_int k" using kr by (simp add: x_def field_simps)
  moreover have "fl x \<le> x + x / 2 ^ 53" using assms(1) kr by (intro fl_le) (simp add: x_def)
  ultimately have "fl x < of_int (n + 1)" using gap by linarith
  then have "\<lfloor>fl x\<rfloor> = n" using low by (simp add: floor_eq_iff)
  moreover have "0 \<le> fl x" using low n0 by (meson of_int_0_le_iff order_trans)
  ultimately show ?thesis using nb n0 assms(1,2) float64_exact [of delta] by (simp add: int64_of_def trunc_def x_def n_def)
qed

lemma float64_nonneg: "0 \<le> n \<Longrightarrow> 0 \<le> float64 n"
  by (simp add: float64_def fl_nonneg)

lemma Seconds_nonpos: "d \<le> 0 \<Longrightarrow> Seconds d \<le> 0"
  using float64_exact [of 0] by (auto simp: Seconds_def fl_nonneg float64_nonneg)

lemma rateOf_exact:
  assumes "0 \<le> a" "a < 2 ^ 52" "0 \<le> b" "b < 2 ^ 52" "0 < k" "k < 2 ^ 53"
  shows "rateOf a b (of_int k) = (if a < b then None else Some ((a - b) div k))"
  using assms rate_exact [of "a - b" k] by (simp add: rateOf_def Let_def wrap64_small)

definition sane_sample :: "Sample \<Rightarrow> bool" where
  "sane_sample s \<longleftrightarrow> 0 \<le> s_MemAvailableBytes s \<and> s_MemAvailableBytes s \<le> s_MemTotalBytes s \<and> s_MemTotalBytes s < 2 ^ 63 \<and>
     0 \<le> s_DiskUsedBytes s \<and> s_DiskUsedBytes s \<le> s_DiskTotalBytes s"

lemma Derive_percents:
  assumes "sane_sample s"
  shows "\<forall>pct \<in> set_option (d_MemPercent (fst (Derive key s t))) \<union> set_option (d_DiskPercent (fst (Derive key s t)))
           \<union> set_option (d_CPUPercent (fst (Derive key s t))). 0 \<le> pct \<and> pct \<le> 100"
proof -
  have mem: "0 \<le> percentOf (wrap64 (s_MemTotalBytes s - s_MemAvailableBytes s)) (s_MemTotalBytes s)
      \<and> percentOf (wrap64 (s_MemTotalBytes s - s_MemAvailableBytes s)) (s_MemTotalBytes s) \<le> 100" if "0 < s_MemTotalBytes s"
    using assms that percentOf_range [of "s_MemTotalBytes s - s_MemAvailableBytes s" "s_MemTotalBytes s"]
    by (simp add: sane_sample_def wrap64_small)
  have disk: "0 \<le> percentOf (s_DiskUsedBytes s) (s_DiskTotalBytes s) \<and> percentOf (s_DiskUsedBytes s) (s_DiskTotalBytes s) \<le> 100"
    if "0 < s_DiskTotalBytes s" using assms that by (intro percentOf_range) (simp_all add: sane_sample_def)
  show ?thesis using mem disk by (auto simp: Derive_def Let_def split: option.splits)
qed

text \<open>C40. What the monitoring page shows of a host. For a sample whose memory and disk figures are in
  range, every percentage derived from it, computed in floating point, lies between 0 and 100
  (the processor's for any counters). Without an earlier sample of the same host, or with one that
  is not earlier, there is no rate and no processor percentage. Over a whole number of seconds
  between two samples the receive and transmit rates are exactly the increase divided by the
  seconds, and absent when a counter went backwards. The sample becomes the host's previous one and
  no other host's changes.\<close>

theorem Derive_readings:
  assumes "sane_sample s"
  shows "let (d, t') = Derive key s t in
      (\<forall>pct \<in> set_option (d_MemPercent d) \<union> set_option (d_DiskPercent d) \<union> set_option (d_CPUPercent d). 0 \<le> pct \<and> pct \<le> 100)
    \<and> (\<forall>other. map_of t' other = (if other = key then Some s else map_of t other))
    \<and> ((\<forall>p. map_of t key = Some p \<longrightarrow> s_CollectedAt s \<le> s_CollectedAt p) \<longrightarrow>
         d_RxRate d = None \<and> d_TxRate d = None \<and> d_CPUPercent d = None)
    \<and> (\<forall>p k. map_of t key = Some p \<and> s_CollectedAt s = s_CollectedAt p + k * 1000000000 \<and> 0 < k \<and> k < 2 ^ 33 \<and>
         {s_RxBytes s, s_TxBytes s, s_RxBytes p, s_TxBytes p} \<subseteq> {0..<2 ^ 52} \<longrightarrow>
         d_RxRate d = (if s_RxBytes s < s_RxBytes p then None else Some ((s_RxBytes s - s_RxBytes p) div k)) \<and>
         d_TxRate d = (if s_TxBytes s < s_TxBytes p then None else Some ((s_TxBytes s - s_TxBytes p) div k)))"
proof -
  obtain d t' where dt: "Derive key s t = (d, t')" by fastforce
  have "\<forall>pct \<in> set_option (d_MemPercent d) \<union> set_option (d_DiskPercent d) \<union> set_option (d_CPUPercent d). 0 \<le> pct \<and> pct \<le> 100"
    using Derive_percents [OF assms, of key t] by (simp only: dt fst_conv)
  moreover have "t' = mput key s t" using dt by (auto simp: Derive_def Let_def split: option.splits if_splits)
  then have "\<forall>other. map_of t' other = (if other = key then Some s else map_of t other)" by simp
  moreover have "d_RxRate d = None \<and> d_TxRate d = None \<and> d_CPUPercent d = None"
    if "\<forall>p. map_of t key = Some p \<longrightarrow> s_CollectedAt s \<le> s_CollectedAt p"
  proof (cases "map_of t key")
    case (Some p)
    then have "Seconds (time_Sub (s_CollectedAt s) (s_CollectedAt p)) \<le> 0" using that by (intro Seconds_nonpos) (simp add: time_Sub_def)
    then show ?thesis using dt Some by (auto simp: Derive_def Let_def)
  qed (use dt in \<open>auto simp: Derive_def Let_def\<close>)
  moreover have "d_RxRate d = (if s_RxBytes s < s_RxBytes p then None else Some ((s_RxBytes s - s_RxBytes p) div k)) \<and>
         d_TxRate d = (if s_TxBytes s < s_TxBytes p then None else Some ((s_TxBytes s - s_TxBytes p) div k))"
    if "map_of t key = Some p \<and> s_CollectedAt s = s_CollectedAt p + k * 1000000000 \<and> 0 < k \<and> k < 2 ^ 33 \<and>
         {s_RxBytes s, s_TxBytes s, s_RxBytes p, s_TxBytes p} \<subseteq> {0..<2 ^ 52}" for p k
  proof -
    have "Seconds (time_Sub (s_CollectedAt s) (s_CollectedAt p)) = of_int k" using that Seconds_whole [of k] by (simp add: time_Sub_def)
    moreover have "(0::rat) < of_int k" using that by simp
    ultimately have "d_RxRate d = rateOf (s_RxBytes s) (s_RxBytes p) (of_int k) \<and> d_TxRate d = rateOf (s_TxBytes s) (s_TxBytes p) (of_int k)"
      using dt that by (auto simp: Derive_def Let_def)
    then show ?thesis using that rateOf_exact by simp
  qed
  ultimately show ?thesis unfolding dt Let_def prod.case by blast
qed

theorem Derive_readings_witness:
  "let (d, t') = Derive ''node:1'' example_sample [(''node:1'', example_sample\<lparr>s_CollectedAt := 50000000000, s_RxBytes := 0, s_TxBytes := 99\<rparr>)]
   in d_RxRate d = Some 90 \<and> d_TxRate d = None"
  using Derive_readings [of example_sample "''node:1''" "[(''node:1'', example_sample\<lparr>s_CollectedAt := 50000000000, s_RxBytes := 0, s_TxBytes := 99\<rparr>)]"]
  by (simp add: sane_sample_def example_sample_def Let_def split_beta)

end
