(* ===== verification/NodeReport.thy ===== *)
theory NodeReport
  imports HostMetrics Traffic
begin

text \<open>
  Usage from the node to the bill: the node's push (\<open>pushOnce\<close> of \<open>cmd/node/main.go\<close>), the panel's
  handler of the report (\<open>internal/httpapi/nodereport.go\<close>), the report of each admin's traffic to
  the reseller bot (\<open>internal/resellerusagejob\<close>) and the retention sweep
  (\<open>internal/usagejob\<close>). Byte counts on the panel are Go \<open>int64\<close>; \<open>wrap64\<close> is where they wrap.
\<close>

section \<open>The report handler\<close>

record nodeReportUserUsage =
  ru_Username :: string
  ru_Uplink :: int
  ru_Downlink :: int

record report_acc =
  ra_users :: "(int \<times> int) list"
  ra_admins :: "(int, int) gomap"
  ra_uplink :: int
  ra_downlink :: int

text \<open>One turn of the loop over the resolved users.\<close>

definition report_row :: "(string, nodeReportUserUsage) gomap \<Rightarrow> report_acc \<Rightarrow> User \<Rightarrow> report_acc" where
  "report_row byUsername acc row =
     (case map_of byUsername (u_username row) of
        None \<Rightarrow> acc
      | Some usage \<Rightarrow>
          (let delta = wrap64 (ru_Uplink usage + ru_Downlink usage)
           in if delta \<le> 0 then acc
              else acc\<lparr>ra_users := ra_users acc @ [(u_id row, delta)],
                       ra_admins := (case u_admin_id row of
                          None \<Rightarrow> ra_admins acc
                        | Some aid \<Rightarrow> mput aid (wrap64 (mget 0 (ra_admins acc) aid + delta)) (ra_admins acc)),
                       ra_uplink := wrap64 (ra_uplink acc + ru_Uplink usage),
                       ra_downlink := wrap64 (ra_downlink acc + ru_Downlink usage)\<rparr>))"

definition report_deltas :: "nodeReportUserUsage list \<Rightarrow> User list \<Rightarrow> report_acc" where
  "report_deltas users rows =
     (let byUsername = foldl (\<lambda>m u. mput (ru_Username u) u m) [] users
      in foldl (report_row byUsername) \<lparr>ra_users = [], ra_admins = [], ra_uplink = 0, ra_downlink = 0\<rparr> rows)"

text \<open>A statement whose error is only logged.\<close>

definition logged :: "unit act \<Rightarrow> panel \<Rightarrow> panel" where
  "logged m p = snd (m p)"

definition hour :: duration where "hour = 3600000000000"

text \<open>\<open>settings\<close> is the answer of \<open>resolveIntegrationSettings\<close>: \<open>None\<close> for an error, else whether
  the reseller API can be reported to.\<close>

definition apply_deltas :: "int \<Rightarrow> instant \<Rightarrow> bool option \<Rightarrow> report_acc \<Rightarrow> panel \<Rightarrow> panel" where
  "apply_deltas nodeID hourBucket settings acc p =
     (let p = (if ra_users acc = [] then p
               else logged (BulkUpsertNodeUserUsage hourBucket nodeID (ra_users acc))
                      (logged (BulkIncrementUserUsage (ra_users acc)) p));
          p = (if ra_admins acc = [] then p
               else logged (BulkIncrementAdminUsage (ra_admins acc) (settings = Some True)) p)
      in if ra_uplink acc > 0 \<or> ra_downlink acc > 0
         then logged (IncrementSystemCumulative (ra_uplink acc) (ra_downlink acc))
                (logged (IncrementNodeCumulative nodeID (ra_uplink acc) (ra_downlink acc))
                   (logged (UpsertNodeUsage \<lparr>nu_created_at = hourBucket, nu_node_id = nodeID,
                          nu_uplink = ra_uplink acc, nu_downlink = ra_downlink acc\<rparr>) p))
         else p)"

datatype report_resp = Recorded | CouldNotResolveUsers

definition nodeKey :: "int \<Rightarrow> string" where
  "nodeKey nodeID = ''node:'' @ Itoa nodeID"

text \<open>The zero \<open>time.Time\<close>, the start of the year 1.\<close>

definition time_zero :: instant where
  "time_zero = - (62135596800 * 1000000000)"

text \<open>The host part: the sample is compared with the node's previous one and stored.\<close>

definition record_host :: "(Sample \<Rightarrow> string option) \<Rightarrow> int \<Rightarrow> instant \<Rightarrow> Sample \<Rightarrow> tracker \<Rightarrow> panel \<Rightarrow> tracker \<times> panel" where
  "record_host json nodeID now host t p =
     (let host = (if s_CollectedAt host = time_zero then host\<lparr>s_CollectedAt := now\<rparr> else host);
          (d, t) = Derive (nodeKey nodeID) host t
      in (t, logged (Store json (Some nodeID) host d True) p))"

text \<open>The handler behind the authentication of the node and the decoding of the body.\<close>

definition handleNodeReport ::
  "(Sample \<Rightarrow> string option) \<Rightarrow> int \<Rightarrow> instant \<Rightarrow> bool option \<Rightarrow> nodeReportUserUsage list \<Rightarrow> Sample \<Rightarrow> tracker \<Rightarrow> panel
    \<Rightarrow> report_resp \<times> tracker \<times> panel" where
  "handleNodeReport json nodeID now settings users host t p =
     (case (if users = [] then (Inr [], p) else GetUsersByUsernames (map ru_Username users) p) of
        (Inl e, p) \<Rightarrow> (CouldNotResolveUsers, t, p)
      | (Inr rows, p) \<Rightarrow>
          (let p = (if users = [] then p else apply_deltas nodeID (now - now mod hour) settings (report_deltas users rows) p);
               (t, p) = record_host json nodeID now host t p
           in (Recorded, t, logged (MarkNodeConnectedIfNotDisabled nodeID) p)))"

section \<open>The node's push\<close>

definition report_of :: "(string, Usage) gomap \<Rightarrow> nodeReportUserUsage list" where
  "report_of usage =
     map (\<lambda>(name, u). \<lparr>ru_Username = name, ru_Uplink = sint (usage_Up u), ru_Downlink = sint (usage_Down u)\<rparr>) usage"

text \<open>\<open>pushOnce\<close> drains the counters and sends them with a sample of the host; \<open>delivered\<close> says whether the
  request reached the panel.\<close>

definition pushOnce ::
  "(Sample \<Rightarrow> string option) \<Rightarrow> int \<Rightarrow> instant \<Rightarrow> bool option \<Rightarrow> bool \<Rightarrow> Sample \<Rightarrow> manager \<Rightarrow> tracker \<Rightarrow> panel
    \<Rightarrow> manager \<times> tracker \<times> panel" where
  "pushOnce json nodeID now settings delivered host m t p =
     (let (m', usage) = Manager_Drain m;
          users = report_of usage
      in (m', if delivered then snd (handleNodeReport json nodeID now settings users host t p) else (t, p)))"

section \<open>Reporting to the reseller bot\<close>

definition CanReportUsage :: "string \<Rightarrow> string \<Rightarrow> bool" where
  "CanReportUsage secret url \<longleftrightarrow> secret \<noteq> [] \<and> url \<noteq> []"

datatype tick_result = TickOk | SettingsError | LoadError | SendError | MarkError

text \<open>\<open>send\<close> is the bot: it accepts the usages or not, and its account grows when it does. Node reports
  that arrive while the request is in flight are the function \<open>meanwhile\<close>.\<close>

definition reseller_Tick ::
  "(string \<times> string) option \<Rightarrow> ((string \<times> int) list \<Rightarrow> bool) \<Rightarrow> (panel \<Rightarrow> panel) \<Rightarrow> panel
    \<Rightarrow> tick_result \<times> (string \<times> int) list \<times> panel" where
  "reseller_Tick settings send meanwhile p =
     (case settings of
        None \<Rightarrow> (SettingsError, [], p)
      | Some (secret, url) \<Rightarrow>
          if \<not> CanReportUsage secret url then (TickOk, [], p)
          else (case GetPendingResellerAPIUsage p of
            (Inl e, p) \<Rightarrow> (LoadError, [], p)
          | (Inr rows, p) \<Rightarrow>
              if rows = [] then (TickOk, [], p)
              else
                (let usages = map (\<lambda>(aid, name, pending). (name, pending)) rows;
                     sent = map (\<lambda>(aid, name, pending). (aid, pending)) rows;
                     p = meanwhile p
                 in if \<not> send usages then (SendError, [], p)
                    else (case MarkResellerAPIUsageReported sent p of
                            (Inl e, p) \<Rightarrow> (MarkError, usages, p)
                          | (Inr _, p) \<Rightarrow> (TickOk, usages, p)))))"

section \<open>The retention sweep\<close>

definition BatchSize :: nat where "BatchSize = 20000"

text \<open>\<open>Sweep\<close>: \<open>order\<close> fixes which old rows each batch takes, \<open>cancelled k\<close> whether the context ended in
  the pause after the \<open>k\<close>-th full batch. The loop runs on fuel; \<open>Sweep_returns\<close> gives enough.\<close>

datatype sweep_result = SweepOk nat | SweepErr nat | SweepCancelled nat

fun Sweep ::
  "nat \<Rightarrow> (NodeUserUsage list \<Rightarrow> NodeUserUsage list) \<Rightarrow> (nat \<Rightarrow> bool) \<Rightarrow> instant \<Rightarrow> nat \<Rightarrow> nat \<Rightarrow> nat \<Rightarrow> panel
    \<Rightarrow> (sweep_result \<times> panel) option" where
  "Sweep 0 order cancelled cutoff batch k removed p = None"
| "Sweep (Suc fuel) order cancelled cutoff batch k removed p =
     (case DeleteOldNodeUserUsages order cutoff batch p of
        (Inl e, p) \<Rightarrow> Some (SweepErr removed, p)
      | (Inr n, p) \<Rightarrow>
          if n < batch then Some (SweepOk (removed + n), p)
          else if cancelled k then Some (SweepCancelled (removed + n), p)
          else Sweep fuel order cancelled cutoff batch (k + 1) (removed + n) p)"

section \<open>What a report says of a user\<close>

definition up_of :: "nodeReportUserUsage list \<Rightarrow> string \<Rightarrow> int" where
  "up_of users name = sum_list (map ru_Uplink (filter (\<lambda>u. ru_Username u = name) users))"

definition down_of :: "nodeReportUserUsage list \<Rightarrow> string \<Rightarrow> int" where
  "down_of users name = sum_list (map ru_Downlink (filter (\<lambda>u. ru_Username u = name) users))"

definition amount_of :: "nodeReportUserUsage list \<Rightarrow> string \<Rightarrow> int" where
  "amount_of users name = up_of users name + down_of users name"

text \<open>A well-formed report: one entry per user, no negative count, and a total that fits.\<close>

definition wf_report :: "nodeReportUserUsage list \<Rightarrow> bool" where
  "wf_report users \<longleftrightarrow> distinct (map ru_Username users)
     \<and> (\<forall>u \<in> set users. 0 \<le> ru_Uplink u \<and> 0 \<le> ru_Downlink u)
     \<and> sum_list (map (\<lambda>u. ru_Uplink u + ru_Downlink u) users) < 2 ^ 63"

lemma absent_key:
  assumes "k \<notin> f ` set xs"
  shows "find (\<lambda>x. f x = k) xs = None" and "filter (\<lambda>x. f x = k) xs = []"
proof -
  have "f x \<noteq> k" if "x \<in> set xs" for x using assms that by blast
  then show "find (\<lambda>x. f x = k) xs = None" "filter (\<lambda>x. f x = k) xs = []"
    by (auto simp: find_None_iff filter_empty_conv)
qed

lemma find_None_key: "find (\<lambda>x. f x = k) xs = None \<longleftrightarrow> k \<notin> f ` set xs"
  by (induction xs) auto

lemma by_username:
  "distinct (map ru_Username users) \<Longrightarrow>
    map_of (foldl (\<lambda>m u. mput (ru_Username u) u m) [] users) name = find (\<lambda>u. ru_Username u = name) users"
proof (induction users rule: rev_induct)
  case (snoc u users)
  have "find (\<lambda>x. ru_Username x = ru_Username u) users = None"
    using snoc.prems by (intro absent_key(1)) simp
  then show ?case using snoc by (auto simp: find_snoc split: option.splits)
qed simp

lemma filter_find:
  "distinct (map f xs) \<Longrightarrow> filter (\<lambda>x. f x = k) xs = (case find (\<lambda>x. f x = k) xs of None \<Rightarrow> [] | Some x \<Rightarrow> [x])"
proof (induction xs)
  case (Cons x xs)
  then show ?case using absent_key(2) [of "f x" f xs] by auto
qed simp

lemma amount_find:
  "distinct (map ru_Username users) \<Longrightarrow> find (\<lambda>u. ru_Username u = name) users = Some u \<Longrightarrow>
    up_of users name = ru_Uplink u \<and> down_of users name = ru_Downlink u"
  "distinct (map ru_Username users) \<Longrightarrow> find (\<lambda>u. ru_Username u = name) users = None \<Longrightarrow>
    up_of users name = 0 \<and> down_of users name = 0"
  by (simp_all add: up_of_def down_of_def filter_find)

lemma amount_nonneg: "wf_report users \<Longrightarrow> 0 \<le> up_of users name \<and> 0 \<le> down_of users name"
  by (auto simp: wf_report_def up_of_def down_of_def intro!: sum_list_nonneg)

text \<open>Over rows with distinct names the amounts add up to no more than the report's total.\<close>

lemma amounts_bounded:
  assumes "wf_report users" and "distinct (map u_username rows)"
  shows "sum_list (map (\<lambda>u. amount_of users (u_username u)) rows) < 2 ^ 63"
proof -
  have nonneg: "0 \<le> amount_of users n" for n using amount_nonneg [OF assms(1), of n] by (simp add: amount_of_def)
  have "sum_list (map (\<lambda>u. amount_of users (u_username u)) rows) = sum_list (map (amount_of users) (map u_username rows))"
    by (simp add: comp_def)
  also have "\<dots> = sum (amount_of users) (set (map u_username rows))"
    by (rule sum_list_distinct_conv_sum_set [OF assms(2)])
  also have "\<dots> \<le> sum (amount_of users) (set (map u_username rows) \<union> set (map ru_Username users))"
    by (rule sum_mono2) (auto simp: nonneg)
  also have "\<dots> = sum (amount_of users) (set (map ru_Username users))"
  proof (rule sum.mono_neutral_right)
    show "\<forall>n \<in> set (map u_username rows) \<union> set (map ru_Username users) - set (map ru_Username users). amount_of users n = 0"
      by (auto simp: amount_of_def up_of_def down_of_def absent_key(2))
  qed auto
  also have "\<dots> = sum_list (map (amount_of users) (map ru_Username users))"
    by (rule sum_list_distinct_conv_sum_set [symmetric]) (use assms(1) in \<open>simp add: wf_report_def\<close>)
  also have "\<dots> = sum_list (map (\<lambda>u. ru_Uplink u + ru_Downlink u) users)"
  proof -
    have "find (\<lambda>x. ru_Username x = ru_Username u) users = Some u" if "u \<in> set users" for u
      using that assms(1) by (simp add: wf_report_def find_unique)
    then have "amount_of users (ru_Username u) = ru_Uplink u + ru_Downlink u" if "u \<in> set users" for u
      using that assms(1) amount_find(1) by (simp add: amount_of_def wf_report_def)
    then have "map (\<lambda>u. amount_of users (ru_Username u)) users = map (\<lambda>u. ru_Uplink u + ru_Downlink u) users" by simp
    then show ?thesis by (simp only: map_map comp_def)
  qed
  finally show ?thesis using assms(1) by (simp add: wf_report_def)
qed

section \<open>The loop over the resolved users\<close>

lemma report_row_amount:
  assumes wf: "wf_report users"
  defines "m \<equiv> foldl (\<lambda>m u. mput (ru_Username u) u m) [] users"
  shows "report_row m acc row =
    (let d = wrap64 (amount_of users (u_username row))
     in if d \<le> 0 then acc
        else acc\<lparr>ra_users := ra_users acc @ [(u_id row, d)],
                 ra_admins := (case u_admin_id row of
                    None \<Rightarrow> ra_admins acc
                  | Some aid \<Rightarrow> mput aid (wrap64 (mget 0 (ra_admins acc) aid + d)) (ra_admins acc)),
                 ra_uplink := wrap64 (ra_uplink acc + up_of users (u_username row)),
                 ra_downlink := wrap64 (ra_downlink acc + down_of users (u_username row))\<rparr>)"
proof (cases "find (\<lambda>u. ru_Username u = u_username row) users")
  case None
  then show ?thesis using wf by_username [of users "u_username row"] amount_find(2) [of users "u_username row"]
    by (simp add: report_row_def m_def wf_report_def amount_of_def wrap64_def)
next
  case (Some u)
  then show ?thesis using wf by_username [of users "u_username row"] amount_find(1) [of users "u_username row" u]
    by (simp add: report_row_def m_def wf_report_def amount_of_def Let_def)
qed

definition admin_amount :: "nodeReportUserUsage list \<Rightarrow> User list \<Rightarrow> int \<Rightarrow> int" where
  "admin_amount users rows aid =
     sum_list (map (\<lambda>u. amount_of users (u_username u)) (filter (\<lambda>u. u_admin_id u = Some aid) rows))"

lemma sum_filter_le: "(\<And>x. x \<in> set xs \<Longrightarrow> 0 \<le> (f x :: int)) \<Longrightarrow> sum_list (map f (filter P xs)) \<le> sum_list (map f xs)"
  by (induction xs) (auto intro: add_increasing)

lemma report_deltas_eq:
  assumes wf: "wf_report users" and names: "distinct (map u_username rows)"
  shows "ra_users (report_deltas users rows) =
      map (\<lambda>u. (u_id u, amount_of users (u_username u))) (filter (\<lambda>u. 0 < amount_of users (u_username u)) rows)
    \<and> wf_map (ra_admins (report_deltas users rows))
    \<and> (\<forall>aid. mget 0 (ra_admins (report_deltas users rows)) aid = admin_amount users rows aid)
    \<and> ra_uplink (report_deltas users rows) = sum_list (map (\<lambda>u. up_of users (u_username u)) rows)
    \<and> ra_downlink (report_deltas users rows) = sum_list (map (\<lambda>u. down_of users (u_username u)) rows)"
  using names
proof (induction rows rule: rev_induct)
  case Nil
  then show ?case by (simp add: report_deltas_def admin_amount_def)
next
  case (snoc row rows)
  define acc where "acc = report_deltas users rows"
  have IH: "ra_users acc = map (\<lambda>u. (u_id u, amount_of users (u_username u))) (filter (\<lambda>u. 0 < amount_of users (u_username u)) rows)"
    "wf_map (ra_admins acc)" "\<And>aid. mget 0 (ra_admins acc) aid = admin_amount users rows aid"
    "ra_uplink acc = sum_list (map (\<lambda>u. up_of users (u_username u)) rows)"
    "ra_downlink acc = sum_list (map (\<lambda>u. down_of users (u_username u)) rows)"
    using snoc by (simp_all add: acc_def)
  have nn: "0 \<le> up_of users n" "0 \<le> down_of users n" "0 \<le> amount_of users n" for n
    using amount_nonneg [OF wf, of n] by (simp_all add: amount_of_def)
  let ?n = "u_username row"
  have tot: "sum_list (map (\<lambda>u. amount_of users (u_username u)) rows) + amount_of users ?n < 2 ^ 63"
    using amounts_bounded [OF wf snoc.prems] by simp
  have rows0: "0 \<le> sum_list (map (\<lambda>u. amount_of users (u_username u)) rows)" by (rule sum_list_nonneg) (auto simp: nn)
  have split: "sum_list (map (\<lambda>u. amount_of users (u_username u)) rows) = ra_uplink acc + ra_downlink acc"
    by (simp add: IH amount_of_def sum_list_addf)
  have up0: "0 \<le> ra_uplink acc" "0 \<le> ra_downlink acc" unfolding IH by (rule sum_list_nonneg, auto simp: nn)+
  have adm: "0 \<le> admin_amount users rows aid" "admin_amount users rows aid \<le> sum_list (map (\<lambda>u. amount_of users (u_username u)) rows)" for aid
    unfolding admin_amount_def by (rule sum_list_nonneg, auto simp: nn) (rule sum_filter_le, simp add: nn)
  have wraps: "wrap64 (amount_of users ?n) = amount_of users ?n"
    "wrap64 (ra_uplink acc + up_of users ?n) = ra_uplink acc + up_of users ?n"
    "wrap64 (ra_downlink acc + down_of users ?n) = ra_downlink acc + down_of users ?n"
    "wrap64 (admin_amount users rows aid + amount_of users ?n) = admin_amount users rows aid + amount_of users ?n" for aid
    using tot rows0 split up0 nn [of ?n] adm [of aid] by (intro wrap64_small; simp add: amount_of_def)+
  have step: "report_deltas users (rows @ [row]) = report_row (foldl (\<lambda>m u. mput (ru_Username u) u m) [] users) acc row"
    by (simp add: report_deltas_def acc_def Let_def)
  have zero: "up_of users ?n = 0" "down_of users ?n = 0" if "\<not> 0 < amount_of users ?n"
    using that nn(1,2) [of ?n] by (simp_all add: amount_of_def)
  show ?case
    unfolding step report_row_amount [OF wf] Let_def wraps
    using IH zero nn(3) [of ?n] wraps(4)
    by (auto simp: admin_amount_def split: option.splits)
qed

section \<open>The statements of a report\<close>

definition pending_of :: "Queue list \<Rightarrow> int \<Rightarrow> int" where
  "pending_of qs aid = sum_list (map q_pending (filter (\<lambda>q. q_admin_id q = aid) qs))"

definition reported_of :: "Queue list \<Rightarrow> int \<Rightarrow> int" where
  "reported_of qs aid = sum_list (map q_reported (filter (\<lambda>q. q_admin_id q = aid) qs))"

definition hour_usage :: "NodeUserUsage list \<Rightarrow> instant \<Rightarrow> int \<Rightarrow> int \<Rightarrow> int" where
  "hour_usage rs hb nid uid =
     sum_list (map nuu_used_traffic (filter (\<lambda>r. nuu_created_at r = hb \<and> nuu_node_id r = nid \<and> nuu_user_id r = uid) rs))"

lemma pending_enqueue: "pending_of (enqueue qs (aid, d)) x = pending_of qs x + (if x = aid then d else 0)"
  by (induction qs) (auto simp: pending_of_def)

lemma pending_enqueue_all:
  "wf_map v \<Longrightarrow> pending_of (foldl enqueue qs v) x = pending_of qs x + mget 0 v x"
proof (induction v arbitrary: qs)
  case (Cons a v)
  obtain aid d where a: "a = (aid, d)" by force
  have "x = aid \<Longrightarrow> mget 0 v x = 0" using Cons.prems a by (auto simp: wf_map_def intro: mget_notin)
  then show ?case using Cons a by (auto simp: pending_enqueue wf_map_def mget_def)
qed simp

lemma hour_usage_upsert:
  "hour_usage (upsert_user_usage hb nid rs (uid, d)) hb nid x = hour_usage rs hb nid x + (if x = uid then d else 0)"
  by (induction rs) (auto simp: hour_usage_def)

lemma hour_usage_upsert_all:
  "wf_map v \<Longrightarrow> hour_usage (foldl (upsert_user_usage hb nid) rs v) hb nid x = hour_usage rs hb nid x + mget 0 v x"
proof (induction v arbitrary: rs)
  case (Cons a v)
  obtain uid d where a: "a = (uid, d)" by force
  have "x = uid \<Longrightarrow> mget 0 v x = 0" using Cons.prems a by (auto simp: wf_map_def intro: mget_notin)
  then show ?case using Cons a by (auto simp: hour_usage_upsert wf_map_def mget_def)
qed simp

definition node_hour :: "NodeUsage list \<Rightarrow> instant \<Rightarrow> int \<Rightarrow> int" where
  "node_hour rs hb nid =
     sum_list (map (\<lambda>r. nu_uplink r + nu_downlink r) (filter (\<lambda>r. nu_created_at r = hb \<and> nu_node_id r = nid) rs))"

lemma node_hour_upsert:
  "node_hour (upsert_node_usage rs x) (nu_created_at x) (nu_node_id x) =
    node_hour rs (nu_created_at x) (nu_node_id x) + nu_uplink x + nu_downlink x"
  by (induction rs) (auto simp: node_hour_def)

text \<open>The effect of a logged statement that does not fail.\<close>

lemma logged_ok: "no_faults p \<Longrightarrow> logged (stmt f) p = snd (f (p\<lparr>p_calls := p_calls p + 1\<rparr>))"
  using no_faults_now [of p] by (simp add: logged_def stmt_ok)

lemma no_faults_if: "no_faults p \<Longrightarrow> p_fault p' = p_fault p \<Longrightarrow> p_calls p \<le> p_calls p' \<Longrightarrow> no_faults p'"
  by (auto simp: no_faults_def)

definition usage_fields :: "panel \<Rightarrow> User list \<times> Admin list \<times> Queue list \<times> NodeUserUsage list \<times> NodeUsage list \<times> (int \<times> int)" where
  "usage_fields p = (p_users p, p_admins p, p_queue p, p_user_usages p, p_node_usages p, p_system p)"

lemma logged_fields:
  assumes "no_faults p"
  shows "usage_fields (logged (BulkIncrementUserUsage v) p) =
      (map (\<lambda>u. case map_of v (u_id u) of None \<Rightarrow> u
            | Some d \<Rightarrow> u\<lparr>u_used_traffic := u_used_traffic u + d, u_online_at := Some (p_now p)\<rparr>) (p_users p),
       p_admins p, p_queue p, p_user_usages p, p_node_usages p, p_system p)"
    and "usage_fields (logged (BulkUpsertNodeUserUsage hb nid v) p) =
      (p_users p, p_admins p, p_queue p, foldl (upsert_user_usage hb nid) (p_user_usages p) v, p_node_usages p, p_system p)"
    and "usage_fields (logged (BulkIncrementAdminUsage w queue) p) =
      (p_users p,
       map (\<lambda>a. case map_of w (a_id a) of None \<Rightarrow> a | Some d \<Rightarrow> a\<lparr>a_users_usage := a_users_usage a + d\<rparr>) (p_admins p),
       (if queue then foldl enqueue (p_queue p) (filter (\<lambda>(aid, d). aid \<in> a_id ` set (p_admins p)) w) else p_queue p),
       p_user_usages p, p_node_usages p, p_system p)"
    and "usage_fields (logged (UpsertNodeUsage x) p) =
      (p_users p, p_admins p, p_queue p, p_user_usages p, upsert_node_usage (p_node_usages p) x, p_system p)"
    and "usage_fields (logged (IncrementNodeCumulative nid up down) p) = usage_fields p"
    and "usage_fields (logged (IncrementSystemCumulative up down) p) =
      (p_users p, p_admins p, p_queue p, p_user_usages p, p_node_usages p, (fst (p_system p) + up, snd (p_system p) + down))"
  using logged_ok [OF assms]
  by (simp_all add: usage_fields_def BulkIncrementUserUsage_def BulkUpsertNodeUserUsage_def BulkIncrementAdminUsage_def
      UpsertNodeUsage_def IncrementNodeCumulative_def IncrementSystemCumulative_def set_users_def Let_def cong: if_cong option.case_cong)

lemma logged_env:
  "p_now (logged (BulkIncrementUserUsage v) p) = p_now p" "p_fault (logged (BulkIncrementUserUsage v) p) = p_fault p"
  "p_calls (logged (BulkIncrementUserUsage v) p) = p_calls p + 1"
  "p_fault (logged (BulkUpsertNodeUserUsage hb nid v) p) = p_fault p" "p_calls (logged (BulkUpsertNodeUserUsage hb nid v) p) = p_calls p + 1"
  "p_fault (logged (BulkIncrementAdminUsage w queue) p) = p_fault p" "p_calls (logged (BulkIncrementAdminUsage w queue) p) = p_calls p + 1"
  "p_fault (logged (UpsertNodeUsage x) p) = p_fault p" "p_calls (logged (UpsertNodeUsage x) p) = p_calls p + 1"
  "p_fault (logged (IncrementNodeCumulative nid up down) p) = p_fault p" "p_calls (logged (IncrementNodeCumulative nid up down) p) = p_calls p + 1"
  by (simp_all add: logged_def stmt_def Let_def BulkIncrementUserUsage_def BulkUpsertNodeUserUsage_def BulkIncrementAdminUsage_def
      UpsertNodeUsage_def IncrementNodeCumulative_def set_users_def)

lemma apply_deltas_fields:
  assumes nf: "no_faults p"
  shows "usage_fields (apply_deltas nid hb settings acc p) =
    (map (\<lambda>u. case map_of (ra_users acc) (u_id u) of None \<Rightarrow> u
            | Some d \<Rightarrow> u\<lparr>u_used_traffic := u_used_traffic u + d, u_online_at := Some (p_now p)\<rparr>) (p_users p),
     map (\<lambda>a. case map_of (ra_admins acc) (a_id a) of None \<Rightarrow> a | Some d \<Rightarrow> a\<lparr>a_users_usage := a_users_usage a + d\<rparr>) (p_admins p),
     (if settings = Some True then foldl enqueue (p_queue p) (filter (\<lambda>(aid, d). aid \<in> a_id ` set (p_admins p)) (ra_admins acc)) else p_queue p),
     foldl (upsert_user_usage hb nid) (p_user_usages p) (ra_users acc),
     (if ra_uplink acc > 0 \<or> ra_downlink acc > 0
      then upsert_node_usage (p_node_usages p) \<lparr>nu_created_at = hb, nu_node_id = nid, nu_uplink = ra_uplink acc, nu_downlink = ra_downlink acc\<rparr>
      else p_node_usages p),
     (if ra_uplink acc > 0 \<or> ra_downlink acc > 0
      then (fst (p_system p) + ra_uplink acc, snd (p_system p) + ra_downlink acc) else p_system p))"
    (is "_ = (?U, ?A, ?Q, ?H, ?N, ?S)")
proof -
  define p1 where "p1 = (if ra_users acc = [] then p
      else logged (BulkUpsertNodeUserUsage hb nid (ra_users acc)) (logged (BulkIncrementUserUsage (ra_users acc)) p))"
  define p2 where "p2 = (if ra_admins acc = [] then p1 else logged (BulkIncrementAdminUsage (ra_admins acc) (settings = Some True)) p1)"
  define x where "x = \<lparr>nu_created_at = hb, nu_node_id = nid, nu_uplink = ra_uplink acc, nu_downlink = ra_downlink acc\<rparr>"
  have nf': "no_faults (logged (BulkIncrementUserUsage (ra_users acc)) p)" "no_faults p1" "no_faults p2"
    "no_faults (logged (UpsertNodeUsage x) p2)" "no_faults (logged (IncrementNodeCumulative nid u d) (logged (UpsertNodeUsage x) p2))" for u d
    by (rule no_faults_if [OF nf]; simp add: p1_def p2_def logged_env)+
  have f1: "usage_fields p1 = (?U, p_admins p, p_queue p, ?H, p_node_usages p, p_system p)"
    using logged_fields(2) [OF nf'(1), of hb nid "ra_users acc"] logged_fields(1) [OF nf, of "ra_users acc"]
    by (simp add: p1_def usage_fields_def)
  have f2: "usage_fields p2 = (?U, ?A, ?Q, ?H, p_node_usages p, p_system p)"
    using logged_fields(3) [OF nf'(2), of "ra_admins acc" "settings = Some True"] f1
    by (simp add: p2_def usage_fields_def)
  have "apply_deltas nid hb settings acc p =
      (if ra_uplink acc > 0 \<or> ra_downlink acc > 0
       then logged (IncrementSystemCumulative (ra_uplink acc) (ra_downlink acc))
              (logged (IncrementNodeCumulative nid (ra_uplink acc) (ra_downlink acc)) (logged (UpsertNodeUsage x) p2))
       else p2)"
    by (simp add: apply_deltas_def p1_def p2_def x_def Let_def)
  then show ?thesis
    using f2 logged_fields(6) [OF nf'(5)] logged_fields(5) [OF nf'(4)] logged_fields(4) [OF nf'(3), of x]
    by (simp add: usage_fields_def flip: x_def)
qed

lemma host_fields: "usage_fields (snd (record_host json nid now host tr q)) = usage_fields q"
  by (simp add: record_host_def Let_def split_beta logged_def Store_def InsertHostMetric_def stmt_def usage_fields_def)

lemma handleNodeReport_fields:
  assumes nf: "no_faults p" and ne: "users \<noteq> []"
  defines "rows \<equiv> filter (\<lambda>u. u_username u \<in> set (map ru_Username users)) (p_users p)"
  shows "fst (handleNodeReport json nid now settings users host tr p) = Recorded \<and>
    usage_fields (snd (snd (handleNodeReport json nid now settings users host tr p))) =
    usage_fields (apply_deltas nid (now - now mod hour) settings (report_deltas users rows) (p\<lparr>p_calls := p_calls p + 1\<rparr>))"
proof -
  have get: "GetUsersByUsernames (map ru_Username users) p = (Inr rows, p\<lparr>p_calls := p_calls p + 1\<rparr>)"
    using no_faults_now [OF nf] by (simp add: GetUsersByUsernames_def stmt_ok rows_def)
  have mark: "usage_fields (logged (MarkNodeConnectedIfNotDisabled nid) q) = usage_fields q" for q
    by (simp add: logged_def MarkNodeConnectedIfNotDisabled_def stmt_def Let_def usage_fields_def)
  show ?thesis using ne get mark host_fields by (simp add: handleNodeReport_def Let_def split_beta)
qed

lemma report_rows_amounts:
  "sum_list (map (\<lambda>u. f (u_username u)) (filter (\<lambda>u. u_username u \<in> set (map ru_Username users)) us)) =
    sum_list (map (\<lambda>u. f (u_username u)) (us :: User list))"
  if "\<And>n. n \<notin> ru_Username ` set users \<Longrightarrow> f n = (0::int)"
  using that by (induction us) auto

lemma amount_absent: "n \<notin> ru_Username ` set users \<Longrightarrow> up_of users n = 0 \<and> down_of users n = 0 \<and> amount_of users n = 0"
  by (simp add: up_of_def down_of_def amount_of_def absent_key(2))

lemma report_acc_users:
  assumes "wf_report users" and "distinct (map u_username us)" and "distinct (map u_id (us :: User list))"
  defines "acc \<equiv> report_deltas users (filter (\<lambda>u. u_username u \<in> set (map ru_Username users)) us)"
  shows "wf_map (ra_users acc)"
    and "u \<in> set us \<Longrightarrow> map_of (ra_users acc) (u_id u) =
      (if amount_of users (u_username u) = 0 then None else Some (amount_of users (u_username u)))"
proof -
  define rows where "rows = filter (\<lambda>u. u_username u \<in> set (map ru_Username users)) us"
  define am :: "User \<Rightarrow> int" where "am = (\<lambda>u. amount_of users (u_username u))"
  have names: "distinct (map u_username rows)" using assms(2) by (simp add: rows_def distinct_map_filter)
  have pos: "(0 < am u) = (am u \<noteq> 0)" for u
    using amount_nonneg [OF assms(1), of "u_username u"] by (auto simp: am_def amount_of_def)
  have keys: "ra_users acc = map (\<lambda>u. (u_id u, am u)) (filter (\<lambda>u. 0 < am u) rows)"
    using report_deltas_eq [OF assms(1) names] by (simp add: am_def acc_def rows_def)
  show wf: "wf_map (ra_users acc)"
    using assms(3) by (simp add: keys wf_map_def comp_def rows_def distinct_map_filter filter_filter)
  assume u: "u \<in> set us"
  show "map_of (ra_users acc) (u_id u) =
      (if amount_of users (u_username u) = 0 then None else Some (amount_of users (u_username u)))"
  proof (cases "am u = 0")
    case False
    then have "u \<in> set rows" using u amount_absent [of "u_username u" users] by (auto simp: rows_def am_def)
    then have "(u_id u, am u) \<in> set (ra_users acc)" using False pos by (auto simp: keys)
    then show ?thesis using False wf map_of_wf_eq by (fastforce simp: am_def)
  next
    case True
    have "u_id u \<notin> fst ` set (ra_users acc)"
      using True u assms(3) by (force simp: keys rows_def distinct_map dest: inj_onD)
    then show ?thesis using True by (simp add: map_of_eq_None_iff am_def)
  qed
qed

lemma report_acc_totals:
  assumes "wf_report users" and "distinct (map u_username (us :: User list))"
  defines "acc \<equiv> report_deltas users (filter (\<lambda>u. u_username u \<in> set (map ru_Username users)) us)"
    and "am \<equiv> (\<lambda>u. amount_of users (u_username u))"
  shows "wf_map (ra_admins acc)"
    and "mget 0 (ra_admins acc) aid = sum_list (map am (filter (\<lambda>u. u_admin_id u = Some aid) us))"
    and "0 \<le> ra_uplink acc" and "0 \<le> ra_downlink acc"
    and "ra_uplink acc + ra_downlink acc = sum_list (map am us)"
proof -
  define rows where "rows = filter (\<lambda>u. u_username u \<in> set (map ru_Username users)) us"
  have names: "distinct (map u_username rows)" using assms(2) by (simp add: rows_def distinct_map_filter)
  note eq = report_deltas_eq [OF assms(1) names, folded acc_def [folded rows_def]]
  show "wf_map (ra_admins acc)" using eq by blast
  show "0 \<le> ra_uplink acc" "0 \<le> ra_downlink acc"
    using eq amount_nonneg [OF assms(1)] by (auto intro!: sum_list_nonneg)
  have "mget 0 (ra_admins acc) aid = sum_list (map am (filter (\<lambda>u. u_admin_id u = Some aid) rows))"
    using eq by (simp add: admin_amount_def am_def)
  also have "filter (\<lambda>u. u_admin_id u = Some aid) rows =
      filter (\<lambda>u. u_username u \<in> set (map ru_Username users)) (filter (\<lambda>u. u_admin_id u = Some aid) us)"
    by (simp add: rows_def conj_commute)
  finally show "mget 0 (ra_admins acc) aid = sum_list (map am (filter (\<lambda>u. u_admin_id u = Some aid) us))"
    using report_rows_amounts [of users "amount_of users"] amount_absent by (simp add: am_def del: filter_filter)
  have "ra_uplink acc + ra_downlink acc = sum_list (map am rows)"
    using eq by (simp add: am_def amount_of_def sum_list_addf)
  then show "ra_uplink acc + ra_downlink acc = sum_list (map am us)"
    using report_rows_amounts [of users "amount_of users"] amount_absent by (simp add: am_def rows_def)
qed

text \<open>C34. The panel credits a node's report exactly. With the database answering, a well-formed
  report adds to every known user exactly the bytes reported for that name (and marks it
  online), to every admin the sum over the admin's users, to the billing queue the same amount
  when the reseller API is configured and nothing otherwise, to the hour's row of each user on
  this node the user's bytes; and the system total grows by what all users together were
  credited, so no counter can disagree with another. Names the panel does not know are ignored.\<close>

theorem report_credited_everywhere:
  assumes "no_faults p" and "wf_report users" and "users \<noteq> []"
    and "distinct (map u_username (p_users p))" and "distinct (map u_id (p_users p))" and "distinct (map a_id (p_admins p))"
  shows "let (resp, _, p') = handleNodeReport json nid now settings users host tr p;
             amount = (\<lambda>u. amount_of users (u_username u));
             owned = (\<lambda>a. sum_list (map amount (filter (\<lambda>u. u_admin_id u = Some (a_id a)) (p_users p))))
    in resp = Recorded
     \<and> p_users p' = map (\<lambda>u. if amount u = 0 then u
          else u\<lparr>u_used_traffic := u_used_traffic u + amount u, u_online_at := Some (p_now p)\<rparr>) (p_users p)
     \<and> map a_users_usage (p_admins p') = map (\<lambda>a. a_users_usage a + owned a) (p_admins p)
     \<and> (\<forall>a \<in> set (p_admins p). pending_of (p_queue p') (a_id a) =
          pending_of (p_queue p) (a_id a) + (if settings = Some True then owned a else 0))
     \<and> (\<forall>u \<in> set (p_users p). hour_usage (p_user_usages p') (now - now mod hour) nid (u_id u) =
          hour_usage (p_user_usages p) (now - now mod hour) nid (u_id u) + amount u)
     \<and> fst (p_system p') + snd (p_system p') =
          fst (p_system p) + snd (p_system p) + sum_list (map amount (p_users p))"
proof -
  define acc where "acc = report_deltas users (filter (\<lambda>u. u_username u \<in> set (map ru_Username users)) (p_users p))"
  define hb where "hb = now - now mod hour"
  define p' where "p' = snd (snd (handleNodeReport json nid now settings users host tr p))"
  define am :: "User \<Rightarrow> int" where "am = (\<lambda>u. amount_of users (u_username u))"
  note by_user = report_acc_users [OF assms(2,4,5), folded acc_def]
  note totals = report_acc_totals [OF assms(2,4), folded acc_def am_def]
  have nf1: "no_faults (p\<lparr>p_calls := p_calls p + 1\<rparr>)" using assms(1) by (simp add: no_faults_def)
  have resp: "fst (handleNodeReport json nid now settings users host tr p) = Recorded"
    and fields: "usage_fields p' = usage_fields (apply_deltas nid hb settings acc (p\<lparr>p_calls := p_calls p + 1\<rparr>))"
    using handleNodeReport_fields [OF assms(1,3)] by (simp_all add: p'_def acc_def hb_def)
  note fields = fields [unfolded apply_deltas_fields [OF nf1]]
  have proj: "p_users p' = map (\<lambda>u. case map_of (ra_users acc) (u_id u) of None \<Rightarrow> u
          | Some d \<Rightarrow> u\<lparr>u_used_traffic := u_used_traffic u + d, u_online_at := Some (p_now p)\<rparr>) (p_users p)"
    "p_admins p' = map (\<lambda>a. case map_of (ra_admins acc) (a_id a) of None \<Rightarrow> a | Some d \<Rightarrow> a\<lparr>a_users_usage := a_users_usage a + d\<rparr>) (p_admins p)"
    "p_queue p' = (if settings = Some True then foldl enqueue (p_queue p) (filter (\<lambda>(aid, d). aid \<in> a_id ` set (p_admins p)) (ra_admins acc)) else p_queue p)"
    "p_user_usages p' = foldl (upsert_user_usage hb nid) (p_user_usages p) (ra_users acc)"
    "p_system p' = (if ra_uplink acc > 0 \<or> ra_downlink acc > 0
      then (fst (p_system p) + ra_uplink acc, snd (p_system p) + ra_downlink acc) else p_system p)"
    using fields by (simp_all add: usage_fields_def cong: if_cong option.case_cong)
  have users: "p_users p' = map (\<lambda>u. if am u = 0 then u
      else u\<lparr>u_used_traffic := u_used_traffic u + am u, u_online_at := Some (p_now p)\<rparr>) (p_users p)"
    unfolding proj(1) by (intro map_cong refl) (simp add: by_user(2) am_def)
  have admins: "map a_users_usage (p_admins p') = map (\<lambda>a. a_users_usage a + mget 0 (ra_admins acc) (a_id a)) (p_admins p)"
    unfolding proj by (simp add: mget_def split: option.splits)
  have queue: "pending_of (p_queue p') (a_id a) =
      pending_of (p_queue p) (a_id a) + (if settings = Some True then mget 0 (ra_admins acc) (a_id a) else 0)"
    if "a \<in> set (p_admins p)" for a
  proof -
    let ?w = "filter (\<lambda>(aid, d). aid \<in> a_id ` set (p_admins p)) (ra_admins acc)"
    have "mget 0 ?w (a_id a) = mget 0 (ra_admins acc) (a_id a)"
      using that map_of_filter_values [OF totals(1), of "\<lambda>aid d. aid \<in> a_id ` set (p_admins p)" "a_id a"]
      by (simp add: mget_def split: option.splits)
    then show ?thesis using pending_enqueue_all [OF wf_map_filter [OF totals(1)], of "p_queue p"] by (simp add: proj)
  qed
  have hours: "hour_usage (p_user_usages p') hb nid (u_id u) = hour_usage (p_user_usages p) hb nid (u_id u) + am u"
    if "u \<in> set (p_users p)" for u
    using hour_usage_upsert_all [OF by_user(1), of hb nid "p_user_usages p" "u_id u"] by_user(2) [OF that]
    by (simp add: proj mget_def am_def split: if_splits)
  have "fst (p_system p') + snd (p_system p') = fst (p_system p) + snd (p_system p) + (ra_uplink acc + ra_downlink acc)"
    using totals(3,4) by (simp add: proj)
  then have system: "fst (p_system p') + snd (p_system p') = fst (p_system p) + snd (p_system p) + sum_list (map am (p_users p))"
    by (simp add: totals(5))
  obtain tr' where out: "handleNodeReport json nid now settings users host tr p = (Recorded, tr', p')"
    using resp by (metis p'_def prod.collapse)
  show ?thesis
    unfolding out Let_def prod.case hb_def [symmetric] am_def [symmetric]
    using users admins queue hours system totals(2) by simp
qed

definition example_users :: "User list" where
  "example_users = map (\<lambda>(i, name). \<lparr>u_id = i, u_username = name, u_status = ''active'', u_used_traffic = 100, u_data_limit = None,
     u_expire = None, u_admin_id = Some 9, u_strategy = ''no_reset'', u_created_at = 0, u_edit_at = None, u_online_at = None,
     u_on_hold_timeout = None, u_on_hold_expire_duration = None, u_last_status_change = None, u_note = None,
     u_auto_delete_in_days = None, u_sub_revoked_at = None, u_sub_updated_at = None, u_sub_last_user_agent = None,
     u_emergency_used_at = None, u_synced_from_panel_name = None\<rparr>) [(1, ''ann''), (2, ''bob'')]"

definition example_db :: panel where
  "example_db = \<lparr>p_users = example_users, p_proxies = [], p_excluded = [], p_inbounds = [], p_serial = (2, 0), p_gateway = ([], []), p_plans = [], p_admins = [\<lparr>a_id = 9, a_username = ''adm'', a_users_usage = 0,
       a_telegram_id = None, a_discord_webhook = None, a_hashed_password = [], a_is_sudo = False, a_is_owner = False,
       a_password_reset_at = None, a_created_at = 0\<rparr>], p_queue = [], p_user_usages = [],
     p_node_usages = [], p_nodes = [], p_host_metrics = [], p_system = (0, 0), p_usage_logs = [], p_admin_logs = [], p_admin_serial = 9, p_events = [], p_now = 5,
     p_fault = (\<lambda>_. False), p_calls = 0\<rparr>"

theorem report_credited_everywhere_witness:
  "let p' = snd (snd (handleNodeReport (\<lambda>_. None) 3 7 (Some True) [\<lparr>ru_Username = ''bob'', ru_Uplink = 4, ru_Downlink = 6\<rparr>] example_sample [] example_db))
   in map u_used_traffic (p_users p') = [100, 110] \<and> map a_users_usage (p_admins p') = [10]
      \<and> fst (p_system p') + snd (p_system p') = 10"
  using report_credited_everywhere [of example_db "[\<lparr>ru_Username = ''bob'', ru_Uplink = 4, ru_Downlink = 6\<rparr>]" "\<lambda>_. None" 3 7 "Some True" example_sample "[]"]
  by (simp add: example_db_def example_users_def no_faults_def wf_report_def Let_def split_beta amount_of_def up_of_def down_of_def)

section \<open>Billing\<close>

lemma pending_find:
  "distinct (map q_admin_id qs) \<Longrightarrow> pending_of qs aid = (case find (\<lambda>q. q_admin_id q = aid) qs of None \<Rightarrow> 0 | Some q \<Rightarrow> q_pending q)"
  "distinct (map q_admin_id qs) \<Longrightarrow> reported_of qs aid = (case find (\<lambda>q. q_admin_id q = aid) qs of None \<Rightarrow> 0 | Some q \<Rightarrow> q_reported q)"
  by (simp_all add: pending_of_def reported_of_def filter_find split: option.splits)

text \<open>What the report of a tick says for an admin: the queued bytes, if the admin exists and there are any.\<close>

definition due_of :: "panel \<Rightarrow> int \<Rightarrow> int" where
  "due_of p aid = (if aid \<in> a_id ` set (p_admins p) \<and> 0 < pending_of (p_queue p) aid then pending_of (p_queue p) aid else 0)"

lemma pending_rows_sent:
  assumes "distinct (map q_admin_id (p_queue p))" and "no_faults p"
    and rows: "GetPendingResellerAPIUsage p = (Inr rows, p')"
  shows "wf_map (map (\<lambda>(aid, name, pending). (aid, pending)) rows)
    \<and> (\<forall>aid. mget 0 (map (\<lambda>(aid, name, pending). (aid, pending)) rows) aid = due_of p aid)"
proof -
  let ?row = "\<lambda>q. case find (\<lambda>a. a_id a = q_admin_id q) (p_admins p) of None \<Rightarrow> []
            | Some a \<Rightarrow> if q_pending q > 0 then [(q_admin_id q, a_username a, q_pending q)] else []"
  let ?sent = "map (\<lambda>(aid, name, pending). (aid, pending)) rows"
  define due where "due = filter (\<lambda>q. q_admin_id q \<in> a_id ` set (p_admins p) \<and> 0 < q_pending q) (sort_key q_admin_id (p_queue p))"
  have r: "rows = concat (map ?row (sort_key q_admin_id (p_queue p)))"
    using rows no_faults_now [OF assms(2)] by (simp add: GetPendingResellerAPIUsage_def stmt_ok)
  have one: "map (\<lambda>(aid, name, pending). (aid, pending)) (?row q) =
      (if q_admin_id q \<in> a_id ` set (p_admins p) \<and> 0 < q_pending q then [(q_admin_id q, q_pending q)] else [])" for q
    using find_None_key [of a_id "q_admin_id q" "p_admins p"]
    by (cases "find (\<lambda>a. a_id a = q_admin_id q) (p_admins p)") auto
  have "map (\<lambda>(aid, name, pending). (aid, pending)) (concat (map ?row qs)) =
      map (\<lambda>q. (q_admin_id q, q_pending q)) (filter (\<lambda>q. q_admin_id q \<in> a_id ` set (p_admins p) \<and> 0 < q_pending q) qs)" for qs
    by (induction qs) (simp_all add: one del: map_map)
  then have sent: "?sent = map (\<lambda>q. (q_admin_id q, q_pending q)) due" by (simp only: r due_def)
  have d: "distinct (map q_admin_id due)"
    using assms(1) by (simp add: due_def distinct_map_filter distinct_map_sort_key)
  have wf: "wf_map ?sent" using d by (simp add: sent wf_map_def comp_def)
  have "mget 0 ?sent aid = due_of p aid" for aid
  proof (cases "find (\<lambda>q. q_admin_id q = aid) (p_queue p)")
    case None
    then have "aid \<notin> fst ` set ?sent" by (auto simp: sent due_def find_None_iff)
    then show ?thesis using None pending_find(1) [OF assms(1), of aid] by (simp add: mget_notin due_of_def)
  next
    case (Some q)
    then have q: "q \<in> set (p_queue p)" "q_admin_id q = aid" by (auto simp: find_Some_iff in_set_conv_nth)
    have pend: "pending_of (p_queue p) aid = q_pending q" using pending_find(1) [OF assms(1), of aid] Some by simp
    show ?thesis
    proof (cases "q \<in> set due")
      case True
      then have "(aid, q_pending q) \<in> set ?sent" using q(2) by (auto simp: sent)
      then have "map_of ?sent aid = Some (q_pending q)" using wf map_of_wf_eq by fastforce
      then show ?thesis using True q pend by (simp add: mget_def due_of_def due_def)
    next
      case False
      have "aid \<notin> fst ` set ?sent"
      proof
        assume "aid \<in> fst ` set ?sent"
        then obtain q' where "q' \<in> set due" "q_admin_id q' = aid" by (auto simp: sent)
        moreover from this have "q' = q" using q assms(1) by (auto simp: due_def distinct_map dest: inj_onD)
        ultimately show False using False by simp
      qed
      then show ?thesis using False q pend by (auto simp: mget_notin due_of_def due_def)
    qed
  qed
  then show ?thesis using wf by simp
qed

lemma mark_reported:
  assumes "wf_map v" and "distinct (map q_admin_id (p_queue p))" and "\<not> p_fault p (p_calls p)"
    and "aid \<in> q_admin_id ` set (p_queue p) \<or> mget 0 v aid = 0"
  shows "MarkResellerAPIUsageReported v p = (Inr (), p') \<Longrightarrow>
    pending_of (p_queue p') aid = pending_of (p_queue p) aid - mget 0 v aid
    \<and> reported_of (p_queue p') aid = reported_of (p_queue p) aid + mget 0 v aid"
proof -
  let ?f = "\<lambda>q. case map_of v (q_admin_id q) of None \<Rightarrow> q
      | Some d \<Rightarrow> q\<lparr>q_pending := q_pending q - d, q_reported := q_reported q + d\<rparr>"
  assume "MarkResellerAPIUsageReported v p = (Inr (), p')"
  then have p': "p_queue p' = map ?f (p_queue p)"
    using assms(3) by (auto simp: MarkResellerAPIUsageReported_def stmt_ok)
  have ids: "q_admin_id (?f q) = q_admin_id q" for q by (simp split: option.splits)
  have f: "q_pending (?f q) = q_pending q - mget 0 v (q_admin_id q)" "q_reported (?f q) = q_reported q + mget 0 v (q_admin_id q)" for q
    by (simp_all add: mget_def split: option.splits)
  have "find (\<lambda>q. q_admin_id q = aid) (map ?f qs) = map_option ?f (find (\<lambda>q. q_admin_id q = aid) qs)"
    for qs :: "Queue list" by (induction qs) (simp_all add: ids)
  then have find: "find (\<lambda>q. q_admin_id q = aid) (p_queue p') = map_option ?f (find (\<lambda>q. q_admin_id q = aid) (p_queue p))"
    by (simp only: p')
  have "distinct (map q_admin_id (p_queue p'))"
  proof -
    have "map q_admin_id (map ?f qs) = map q_admin_id qs" for qs :: "Queue list" by (simp add: ids)
    then show ?thesis using assms(2) by (simp only: p')
  qed
  then show ?thesis
  proof (cases "find (\<lambda>q. q_admin_id q = aid) (p_queue p)")
    case None
    then have "mget 0 v aid = 0" using assms(4) by (auto simp: find_None_iff)
    then show ?thesis using None find pending_find [OF assms(2), of aid] pending_find [OF \<open>distinct (map q_admin_id (p_queue p'))\<close>, of aid] by simp
  next
    case (Some q)
    then have "q_admin_id q = aid" by (auto simp: find_Some_iff)
    then show ?thesis using Some find f [of q] pending_find [OF assms(2), of aid]
        pending_find [OF \<open>distinct (map q_admin_id (p_queue p'))\<close>, of aid] by simp
  qed
qed

text \<open>C35. Billing: one tick of the reseller report sends, for every admin that exists, exactly the bytes
  queued for it when the tick loaded the queue. If the bot accepts, exactly that much moves from
  pending to reported, and bytes that node reports queued while the request was in flight stay
  pending; if the bot refuses, nothing moves. So pending plus reported never changes by a tick,
  and (as long as marking succeeds) no byte is billed twice or lost.\<close>

theorem reseller_tick_bills_exactly:
  assumes "no_faults p" and "distinct (map q_admin_id (p_queue p))" and "CanReportUsage secret url"
    and "no_faults (meanwhile (p\<lparr>p_calls := p_calls p + 1\<rparr>))"
    and "distinct (map q_admin_id (p_queue (meanwhile (p\<lparr>p_calls := p_calls p + 1\<rparr>))))"
    and "q_admin_id ` set (p_queue p) \<subseteq> q_admin_id ` set (p_queue (meanwhile (p\<lparr>p_calls := p_calls p + 1\<rparr>)))"
  shows "let rows = (case fst (GetPendingResellerAPIUsage p) of Inr rows \<Rightarrow> rows | Inl _ \<Rightarrow> []);
             usages = map (\<lambda>(aid, name, pending). (name, pending)) rows;
             q = meanwhile (p\<lparr>p_calls := p_calls p + 1\<rparr>);
             (result, billed, p') = reseller_Tick (Some (secret, url)) send meanwhile p
    in (\<forall>aid. mget 0 (map (\<lambda>(aid, name, pending). (aid, pending)) rows) aid = due_of p aid)
       \<and> (if rows = [] then billed = [] \<and> p_queue p' = p_queue p
          else if send usages
          then result = TickOk \<and> billed = usages
               \<and> (\<forall>aid. pending_of (p_queue p') aid = pending_of (p_queue q) aid - due_of p aid
                       \<and> reported_of (p_queue p') aid = reported_of (p_queue q) aid + due_of p aid)
          else result = SendError \<and> billed = [] \<and> p_queue p' = p_queue q)"
proof -
  define p1 where "p1 = p\<lparr>p_calls := p_calls p + 1\<rparr>"
  obtain rows where rows: "GetPendingResellerAPIUsage p = (Inr rows, p1)"
    using no_faults_now [OF assms(1)] by (simp add: GetPendingResellerAPIUsage_def stmt_ok p1_def)
  define sent where "sent = map (\<lambda>(aid, name, pending). (aid, pending)) rows"
  define usages where "usages = map (\<lambda>(aid, name, pending). (name, pending)) rows"
  have s: "wf_map sent" "\<And>aid. mget 0 sent aid = due_of p aid"
    using pending_rows_sent [OF assms(2,1) rows] by (simp_all add: sent_def)
  obtain p2 where mark: "MarkResellerAPIUsageReported sent (meanwhile p1) = (Inr (), p2)"
    using no_faults_now [OF assms(4)] by (simp add: MarkResellerAPIUsageReported_def stmt_ok p1_def)
  have queued: "aid \<in> q_admin_id ` set (p_queue (meanwhile p1)) \<or> mget 0 sent aid = 0" for aid
  proof (cases "aid \<in> q_admin_id ` set (p_queue p)")
    case False
    then have "pending_of (p_queue p) aid = 0" by (simp add: pending_of_def absent_key(2))
    then show ?thesis by (simp add: s(2) due_of_def)
  qed (use assms(6) in \<open>auto simp: p1_def\<close>)
  have moved: "pending_of (p_queue p2) aid = pending_of (p_queue (meanwhile p1)) aid - due_of p aid
      \<and> reported_of (p_queue p2) aid = reported_of (p_queue (meanwhile p1)) aid + due_of p aid" for aid
    using mark_reported [OF s(1) _ _ queued mark] assms(4,5) no_faults_now s(2) by (simp add: p1_def)
  have "reseller_Tick (Some (secret, url)) send meanwhile p =
      (if rows = [] then (TickOk, [], p1) else if send usages then (TickOk, usages, p2) else (SendError, [], meanwhile p1))"
    unfolding reseller_Tick_def Let_def option.case rows fst_conv snd_conv prod.case sum.case usages_def [symmetric] sent_def [symmetric] mark
    using assms(3) by simp
  moreover have "p_queue p1 = p_queue p" by (simp add: p1_def)
  ultimately show ?thesis using moved s(2)
    unfolding Let_def rows fst_conv sum.case usages_def [symmetric] sent_def [symmetric] p1_def [symmetric] by simp
qed

theorem reseller_tick_bills_exactly_witness:
  "let q = \<lparr>q_admin_id = 9, q_pending = 40, q_reported = 2\<rparr>;
       p = example_db\<lparr>p_queue := [q]\<rparr>;
       meanwhile = (\<lambda>p. p\<lparr>p_queue := map (\<lambda>q. q\<lparr>q_pending := q_pending q + 5\<rparr>) (p_queue p)\<rparr>);
       (result, billed, p') = reseller_Tick (Some (''s'', ''u'')) (\<lambda>_. True) meanwhile p
   in billed = [(''adm'', 40)] \<and> pending_of (p_queue p') 9 = 5 \<and> reported_of (p_queue p') 9 = 42"
  using reseller_tick_bills_exactly [of "example_db\<lparr>p_queue := [\<lparr>q_admin_id = 9, q_pending = 40, q_reported = 2\<rparr>]\<rparr>" "''s''" "''u''"
      "\<lambda>p. p\<lparr>p_queue := map (\<lambda>q. q\<lparr>q_pending := q_pending q + 5\<rparr>) (p_queue p)\<rparr>" "\<lambda>_. True"]
  by (simp add: example_db_def no_faults_def CanReportUsage_def Let_def split_beta GetPendingResellerAPIUsage_def stmt_def
      due_of_def pending_of_def reported_of_def)

section \<open>The sweep\<close>

abbreviation old_rows :: "instant \<Rightarrow> NodeUserUsage list \<Rightarrow> NodeUserUsage list" where
  "old_rows cutoff \<equiv> filter (\<lambda>r. nuu_created_at r < cutoff)"

lemma delete_batch:
  assumes "\<not> p_fault p (p_calls p)" and perm: "\<And>xs. mset (order xs) = mset xs"
  shows "\<exists>p'. DeleteOldNodeUserUsages order cutoff batch p = (Inr (min batch (length (old_rows cutoff (p_user_usages p)))), p')
    \<and> length (old_rows cutoff (p_user_usages p')) = length (old_rows cutoff (p_user_usages p)) - batch
    \<and> filter (\<lambda>r. \<not> nuu_created_at r < cutoff) (p_user_usages p') = filter (\<lambda>r. \<not> nuu_created_at r < cutoff) (p_user_usages p)
    \<and> p_fault p' = p_fault p \<and> p_calls p' = p_calls p + 1"
proof -
  let ?old = "order (old_rows cutoff (p_user_usages p))"
  have len: "length ?old = length (old_rows cutoff (p_user_usages p))" using perm by (metis size_mset)
  have all: "\<forall>r \<in> set ?old. nuu_created_at r < cutoff" using mset_eq_setD [OF perm [of "old_rows cutoff (p_user_usages p)"]] by auto
  then have rest: "\<forall>r \<in> set (drop batch ?old). nuu_created_at r < cutoff" using set_drop_subset [of batch ?old] by blast
  have "old_rows cutoff (drop batch ?old) = drop batch ?old"
    by (rule filter_True) (use rest in blast)
  moreover have "filter (\<lambda>r. \<not> nuu_created_at r < cutoff) (drop batch ?old) = []"
    by (rule filter_False) (use rest in blast)
  ultimately show ?thesis using assms(1) len
    by (simp add: DeleteOldNodeUserUsages_def stmt_ok Let_def min.commute)
qed

text \<open>C36. The retention sweep ends: with one more turn than there are full batches of old rows it has
  returned, whatever fails or is cancelled; it never removes a row that is not older than the
  cutoff; and when the database answers and nothing is cancelled it removes every older row and
  reports exactly how many there were.\<close>

theorem Sweep_terminates_and_clears:
  assumes "0 < batch" and "\<And>xs. mset (order xs) = mset xs"
    and "length (old_rows cutoff (p_user_usages p)) < fuel * batch"
  shows "\<exists>result p'. Sweep fuel order cancelled cutoff batch k removed p = Some (result, p')
    \<and> filter (\<lambda>r. \<not> nuu_created_at r < cutoff) (p_user_usages p') = filter (\<lambda>r. \<not> nuu_created_at r < cutoff) (p_user_usages p)
    \<and> ((no_faults p \<and> (\<forall>j. \<not> cancelled j)) \<longrightarrow>
         result = SweepOk (removed + length (old_rows cutoff (p_user_usages p))) \<and> old_rows cutoff (p_user_usages p') = [])"
  using assms(3)
proof (induction fuel arbitrary: p k removed)
  case (Suc fuel)
  let ?old = "old_rows cutoff (p_user_usages p)"
  show ?case
  proof (cases "p_fault p (p_calls p)")
    case True
    then have "DeleteOldNodeUserUsages order cutoff batch p = (Inl DbError, p\<lparr>p_calls := p_calls p + 1\<rparr>)"
      by (simp add: DeleteOldNodeUserUsages_def stmt_fault)
    moreover have "\<not> no_faults p" using True no_faults_now by blast
    ultimately show ?thesis by simp
  next
    case False
    obtain p' where p': "DeleteOldNodeUserUsages order cutoff batch p = (Inr (min batch (length ?old)), p')"
      "length (old_rows cutoff (p_user_usages p')) = length ?old - batch"
      "filter (\<lambda>r. \<not> nuu_created_at r < cutoff) (p_user_usages p') = filter (\<lambda>r. \<not> nuu_created_at r < cutoff) (p_user_usages p)"
      "p_fault p' = p_fault p" "p_calls p' = p_calls p + 1"
      using delete_batch [OF False assms(2), of cutoff batch] by blast
    have nf: "no_faults p \<Longrightarrow> no_faults p'" using p'(4,5) by (simp add: no_faults_def)
    show ?thesis
    proof (cases "length ?old < batch")
      case True
      then have "old_rows cutoff (p_user_usages p') = []" using p'(2) by simp
      then show ?thesis using True p' by (simp add: min_def)
    next
      case full: False
      show ?thesis
      proof (cases "cancelled k")
        case True
        then show ?thesis using full p' by (auto simp: min_def)
      next
        case False
        have "length (old_rows cutoff (p_user_usages p')) < fuel * batch" using p'(2) Suc.prems full by simp
        from Suc.IH [OF this, of "k + 1" "removed + batch"] show ?thesis
          using full False p' nf by (auto simp: min_def)
      qed
    qed
  qed
qed simp

theorem Sweep_terminates_and_clears_witness:
  "let r = \<lparr>nuu_created_at = 3, nuu_user_id = 1, nuu_node_id = 1, nuu_used_traffic = 7\<rparr>;
       p = example_db\<lparr>p_user_usages := [r, r, r\<lparr>nuu_created_at := 9\<rparr>]\<rparr>
   in \<exists>p'. Sweep 3 (\<lambda>xs. xs) (\<lambda>_. False) 5 1 0 0 p = Some (SweepOk 2, p')
        \<and> filter (\<lambda>r. nuu_created_at r < 5) (p_user_usages p') = []"
  using Sweep_terminates_and_clears [of 1 "\<lambda>xs. xs" 5
      "example_db\<lparr>p_user_usages := [\<lparr>nuu_created_at = 3, nuu_user_id = 1, nuu_node_id = 1, nuu_used_traffic = 7\<rparr>,
         \<lparr>nuu_created_at = 3, nuu_user_id = 1, nuu_node_id = 1, nuu_used_traffic = 7\<rparr>,
         \<lparr>nuu_created_at = 9, nuu_user_id = 1, nuu_node_id = 1, nuu_used_traffic = 7\<rparr>]\<rparr>" 3 "\<lambda>_. False" 0 0]
  by (auto simp: Let_def example_db_def no_faults_def)

end
