(* ===== verification/DnsCache.thy ===== *)
theory DnsCache
  imports GoStrings
begin

text \<open>
  The background name cache of the load map (\<open>internal/loadmap/dns.go\<close>). A lookup answers from
  memory only and starts at most one background resolution per name; a finished resolution
  replaces the answer only when it produced an address. The goroutines that \<open>spawn\<close> starts are
  in \<open>dc_waiting\<close> until they hold a slot of the semaphore and in \<open>dc_running\<close> after that.
  \<open>netip.ParseAddr\<close> followed by \<open>Unmap().String()\<close> is the argument \<open>ParseAddr\<close>; nothing is
  assumed of it.
\<close>

definition dnsTTL :: duration where "dnsTTL = 300 * 1000000000"
definition dnsFailTTL :: duration where "dnsFailTTL = 60 * 1000000000"
definition dnsParallel :: nat where "dnsParallel = 8"

record dnsEntry =
  de_ips :: "string list"
  de_at :: instant
  de_failed :: bool
  de_refreshing :: bool

record dnsCache =
  dc_entries :: "(string, dnsEntry) gomap"
  dc_waiting :: "string list"
  dc_running :: "string list"

definition newDNSCache :: dnsCache where
  "newDNSCache = \<lparr>dc_entries = [], dc_waiting = [], dc_running = []\<rparr>"

definition spawn :: "string \<Rightarrow> dnsCache \<Rightarrow> dnsCache" where
  "spawn name c = c\<lparr>dc_waiting := dc_waiting c @ [name]\<rparr>"

definition dns_lookup :: "(string \<Rightarrow> string option) \<Rightarrow> instant \<Rightarrow> string \<Rightarrow> dnsCache \<Rightarrow> string list \<times> dnsCache" where
  "dns_lookup ParseAddr now name c =
     (case ParseAddr name of
        Some a \<Rightarrow> ([a], c)
      | None \<Rightarrow>
          (case map_of (dc_entries c) name of
             None \<Rightarrow>
               ([], spawn name (c\<lparr>dc_entries := mput name \<lparr>de_ips = [], de_at = 0, de_failed = False, de_refreshing = True\<rparr> (dc_entries c)\<rparr>))
           | Some e \<Rightarrow>
               if \<not> de_refreshing e \<and> now - de_at e \<ge> (if de_failed e then dnsFailTTL else dnsTTL)
               then (de_ips e, spawn name (c\<lparr>dc_entries := mput name (e\<lparr>de_refreshing := True\<rparr>) (dc_entries c)\<rparr>))
               else (de_ips e, c)))"

text \<open>The goroutine of \<open>spawn\<close>: it takes a slot, resolves (the answer is \<open>None\<close> for an error), and
  stores the outcome.\<close>

definition dns_acquire :: "string \<Rightarrow> dnsCache \<Rightarrow> dnsCache" where
  "dns_acquire name c =
     (if name \<in> set (dc_waiting c) \<and> length (dc_running c) < dnsParallel
      then c\<lparr>dc_waiting := remove1 name (dc_waiting c), dc_running := dc_running c @ [name]\<rparr>
      else c)"

definition resolved_ips :: "(string \<Rightarrow> string option) \<Rightarrow> string list option \<Rightarrow> string list" where
  "resolved_ips ParseAddr answer = (case answer of None \<Rightarrow> [] | Some addrs \<Rightarrow> remdups (List.map_filter ParseAddr addrs))"

definition dns_finish :: "(string \<Rightarrow> string option) \<Rightarrow> instant \<Rightarrow> string \<Rightarrow> string list option \<Rightarrow> dnsCache \<Rightarrow> dnsCache" where
  "dns_finish ParseAddr now name answer c =
     (if name \<in> set (dc_running c)
      then (case map_of (dc_entries c) name of
              None \<Rightarrow> c
            | Some e \<Rightarrow>
                (let ips = resolved_ips ParseAddr answer;
                     e = e\<lparr>de_refreshing := False, de_at := now\<rparr>;
                     e = (if ips = [] then e\<lparr>de_failed := True\<rparr> else e\<lparr>de_failed := False, de_ips := ips\<rparr>)
                 in c\<lparr>dc_entries := mput name e (dc_entries c), dc_running := remove1 name (dc_running c)\<rparr>))
      else c)"

section \<open>Sequences of events\<close>

datatype dns_event =
    DLookup string instant
  | DAcquire string
  | DFinish string "string list option" instant

fun dns_event_step :: "(string \<Rightarrow> string option) \<Rightarrow> dnsCache \<Rightarrow> dns_event \<Rightarrow> dnsCache" where
  "dns_event_step P c (DLookup name now) = snd (dns_lookup P now name c)"
| "dns_event_step P c (DAcquire name) = dns_acquire name c"
| "dns_event_step P c (DFinish name answer now) = dns_finish P now name answer c"

text \<open>What the history says the answer for a name is: the addresses of the last resolution that gave
  any, counting only resolutions that were running.\<close>

fun last_success :: "(string \<Rightarrow> string option) \<Rightarrow> dnsCache \<Rightarrow> dns_event list \<Rightarrow> string \<Rightarrow> string list \<Rightarrow> string list" where
  "last_success P c [] name acc = acc"
| "last_success P c (ev # evs) name acc =
     last_success P (dns_event_step P c ev) evs name
       (case ev of
          DFinish n answer now \<Rightarrow>
            if n = name \<and> n \<in> set (dc_running c) \<and> resolved_ips P answer \<noteq> [] then resolved_ips P answer else acc
        | _ \<Rightarrow> acc)"

definition dns_inv :: "dnsCache \<Rightarrow> bool" where
  "dns_inv c \<longleftrightarrow> distinct (dc_waiting c @ dc_running c) \<and> length (dc_running c) \<le> dnsParallel \<and>
     (\<forall>name. name \<in> set (dc_waiting c @ dc_running c) \<longleftrightarrow>
        (\<exists>e. map_of (dc_entries c) name = Some e \<and> de_refreshing e))"

abbreviation dns_answer :: "dnsCache \<Rightarrow> string \<Rightarrow> string list" where
  "dns_answer c name \<equiv> (case map_of (dc_entries c) name of None \<Rightarrow> [] | Some e \<Rightarrow> de_ips e)"

lemma dns_inv_new [simp, state_inv]: "dns_inv newDNSCache"
  by (simp add: dns_inv_def newDNSCache_def)

lemma dns_inv_spawn:
  assumes "dns_inv c" and "\<not> (\<exists>e. map_of (dc_entries c) name = Some e \<and> de_refreshing e)" and "de_refreshing e"
  shows "dns_inv (spawn name (c\<lparr>dc_entries := mput name e (dc_entries c)\<rparr>))"
proof -
  have "name \<notin> set (dc_waiting c @ dc_running c)" using assms(1,2) by (simp only: dns_inv_def) blast
  then show ?thesis using assms(1,3) by (auto simp: dns_inv_def spawn_def)
qed

lemma dns_inv_lookup [state_inv]: "dns_inv c \<Longrightarrow> dns_inv (snd (dns_lookup P now name c))"
  by (auto simp: dns_lookup_def dns_inv_spawn split: option.splits)

lemma dns_inv_acquire [state_inv]: "dns_inv c \<Longrightarrow> dns_inv (dns_acquire name c)"
  by (auto simp: dns_acquire_def dns_inv_def)

lemma dns_inv_finish [state_inv]: "dns_inv c \<Longrightarrow> dns_inv (dns_finish P now name answer c)"
  by (auto simp: dns_finish_def dns_inv_def Let_def set_remove1_eq length_remove1 split: option.splits)

lemma dns_inv_step [state_inv]: "dns_inv c \<Longrightarrow> dns_inv (dns_event_step P c ev)"
  by (cases ev) (simp_all add: state_inv)

interpretation dns: transition_system "dns_event_step P" dns_inv for P
  by unfold_locales (rule dns_inv_step)

lemma dns_answer_step:
  assumes "dns_inv c"
  shows "dns_answer (dns_event_step P c ev) name =
    (case ev of
       DFinish n answer now \<Rightarrow>
         if n = name \<and> n \<in> set (dc_running c) \<and> resolved_ips P answer \<noteq> [] then resolved_ips P answer else dns_answer c name
     | _ \<Rightarrow> dns_answer c name)"
  using assms
  by (cases ev) (auto simp: dns_lookup_def dns_acquire_def dns_finish_def spawn_def Let_def dns_inv_def split: option.splits)

lemma dns_answer_run:
  "dns_inv c \<Longrightarrow> dns_answer (foldl (dns_event_step P) c evs) name = last_success P c evs name (dns_answer c name)"
proof (induction evs arbitrary: c)
  case (Cons ev evs)
  then show ?case using dns_answer_step [OF Cons.prems, of P ev name] by (simp add: dns_inv_step cong: option.case_cong)
qed simp

text \<open>The name cache of the load map. After any sequence of lookups, slot grants and finished
  resolutions: a lookup answers with the addresses of the last resolution that produced any (an
  error or an empty answer never makes the cache forget), an address literal answers itself; no
  name is being resolved twice at once, at most eight resolutions hold a slot, and a lookup starts
  one exactly when the name is new or its last outcome is older than its time to live and none is
  under way.\<close>

theorem dns_cache_answers_last_success:
  shows "let c = foldl (dns_event_step ParseAddr) newDNSCache evs;
             (ips, c') = dns_lookup ParseAddr now name c
    in ips = (case ParseAddr name of Some a \<Rightarrow> [a] | None \<Rightarrow> last_success ParseAddr newDNSCache evs name [])
     \<and> distinct (dc_waiting c' @ dc_running c') \<and> length (dc_running c') \<le> 8
     \<and> (dc_waiting c' = dc_waiting c @ [name] \<longleftrightarrow> ParseAddr name = None \<and>
          (case map_of (dc_entries c) name of None \<Rightarrow> True
           | Some e \<Rightarrow> name \<notin> set (dc_waiting c @ dc_running c)
               \<and> now - de_at e \<ge> (if de_failed e then dnsFailTTL else dnsTTL)))"
proof -
  define c where "c = foldl (dns_event_step ParseAddr) newDNSCache evs"
  have inv: "dns_inv c" unfolding c_def by (rule dns.inv_run) simp
  have inv': "dns_inv (snd (dns_lookup ParseAddr now name c))" using inv by (rule dns_inv_lookup)
  have ans: "dns_answer c name = last_success ParseAddr newDNSCache evs name []"
    unfolding c_def dns_answer_run [OF dns_inv_new] by (simp add: newDNSCache_def)
  have ips: "fst (dns_lookup ParseAddr now name c) =
      (case ParseAddr name of Some a \<Rightarrow> [a] | None \<Rightarrow> last_success ParseAddr newDNSCache evs name [])"
    unfolding ans [symmetric] by (simp add: dns_lookup_def split: option.splits)
  have flag: "name \<in> set (dc_waiting c @ dc_running c) \<longleftrightarrow> (\<exists>e. map_of (dc_entries c) name = Some e \<and> de_refreshing e)"
    using inv by (simp only: dns_inv_def)
  have start: "dc_waiting (snd (dns_lookup ParseAddr now name c)) = dc_waiting c @ [name] \<longleftrightarrow> ParseAddr name = None \<and>
          (case map_of (dc_entries c) name of None \<Rightarrow> True
           | Some e \<Rightarrow> name \<notin> set (dc_waiting c @ dc_running c)
               \<and> now - de_at e \<ge> (if de_failed e then dnsFailTTL else dnsTTL))"
    unfolding flag by (auto simp: dns_lookup_def spawn_def split: option.splits)
  show ?thesis unfolding c_def [symmetric] Let_def split_beta
    using ips inv' start by (simp only: dns_inv_def dnsParallel_def)
qed

end
