(* ===== verification/LoadMap.thy ===== *)
theory LoadMap
  imports DnsCache Float64
begin

text \<open>
  The load map of the panel (\<open>internal/loadmap/loadmap.go\<close>, \<open>redis.go\<close>): how crowded every
  config is, from the connection counts the nodes report. The sources (hosts and nodes from
  Postgres, presence from Redis) are arguments that answer, fail or panic; the background name
  cache is the one of theory \<open>DnsCache\<close> and is threaded through the build. All clock readings of
  one build are the same instant \<open>now\<close>. A map that the code uses as a set of addresses is the list
  of its keys.
\<close>

section \<open>Levels and percents\<close>

datatype Level = LevelUnknown | LevelFree | LevelNormal | LevelBusy | LevelFull

definition DefaultCapacity :: int where "DefaultCapacity = 10000"
definition homeShareDivisor :: int where "homeShareDivisor = 5"
definition DefaultTTL :: duration where "DefaultTTL = 3 * 1000000000"
definition maxStale :: duration where "maxStale = 10 * 1000000000"

definition LevelFor :: "int \<Rightarrow> Level" where
  "LevelFor percent = (if percent < 40 then LevelFree else if percent < 70 then LevelNormal
     else if percent < 90 then LevelBusy else LevelFull)"

fun Emoji :: "Level \<Rightarrow> string" where
  "Emoji LevelFree = [CHR 0xF0, CHR 0x9F, CHR 0x9F, CHR 0xA2]"
| "Emoji LevelNormal = [CHR 0xF0, CHR 0x9F, CHR 0x9F, CHR 0xA1]"
| "Emoji LevelBusy = [CHR 0xF0, CHR 0x9F, CHR 0x9F, CHR 0xA0]"
| "Emoji LevelFull = [CHR 0xF0, CHR 0x9F, CHR 0x94, CHR 0xB4]"
| "Emoji LevelUnknown = []"

definition Percent :: "rat \<Rightarrow> int \<Rightarrow> int" where
  "Percent conns capacity =
     (let capacity = (if capacity < 1 then DefaultCapacity else capacity);
          p = int64_of (math_Round (fl (fl (100 * conns) / float64 capacity)))
      in if p < 0 then 0 else if p > 100 then 100 else p)"

section \<open>Data\<close>

record lm_Node =
  n_ID :: int
  n_Name :: string
  n_Address :: string
  n_Status :: string
  n_Capacity :: int
  n_InboundTags :: "string list"
  n_ListenPorts :: "int list"

record lm_Host =
  h_ID :: int
  h_Remark :: string
  h_Address :: string
  h_Port :: int
  h_InboundTag :: string

record NodePresence =
  np_Reporting :: bool
  np_Ports :: "(int, int) gomap"
  np_Total :: int

record PresenceData =
  pd_Live :: bool
  pd_Nodes :: "(int, NodePresence) gomap"

record HostLoad =
  hl_HostID :: int
  hl_Remark :: string
  hl_Address :: string
  hl_Port :: int
  hl_Known :: bool
  hl_Conns :: int
  hl_PortPercent :: int
  hl_NodePercent :: int
  hl_Percent :: int
  hl_Level :: Level
  hl_NodeIDs :: "int list"
  hl_UsesLoad :: bool

datatype capacity_source = CapacityNode | CapacityDefault

record NodeLoad =
  nl_ID :: int
  nl_Name :: string
  nl_Conns :: int
  nl_Capacity :: int
  nl_CapacitySource :: capacity_source
  nl_Percent :: int

record Snapshot =
  sn_At :: instant
  sn_Live :: bool
  sn_Capacity :: int
  sn_Hosts :: "HostLoad list"
  sn_Nodes :: "NodeLoad list"
  sn_byID :: "(int, nat) gomap"
  sn_known :: bool

record lm_Config =
  cfg_Capacity :: int
  cfg_TTL :: duration
  cfg_ExpandAddress :: "(string \<Rightarrow> string) option"

definition lm_New :: "lm_Config \<Rightarrow> lm_Config" where
  "lm_New cfg = cfg\<lparr>cfg_Capacity := (if cfg_Capacity cfg < 1 then DefaultCapacity else cfg_Capacity cfg),
                    cfg_TTL := (if cfg_TTL cfg \<le> 0 then DefaultTTL else cfg_TTL cfg)\<rparr>"

definition np_total :: "NodePresence \<Rightarrow> int" where
  "np_total np = max (np_Total np) (foldl (\<lambda>sum (_, n). wrap64 (sum + n)) 0 (np_Ports np))"

definition noPresence :: NodePresence where
  "noPresence = \<lparr>np_Reporting = False, np_Ports = [], np_Total = 0\<rparr>"

definition Snapshot_For :: "Snapshot option \<Rightarrow> int \<Rightarrow> HostLoad option" where
  "Snapshot_For s hostID =
     (case s of None \<Rightarrow> None
      | Some s \<Rightarrow> (case map_of (sn_byID s) hostID of None \<Rightarrow> None | Some i \<Rightarrow> Some (sn_Hosts s ! i)))"

definition HasData :: "Snapshot option \<Rightarrow> bool" where
  "HasData s = (case s of None \<Rightarrow> False | Some s \<Rightarrow> sn_known s)"

definition UsesLoadVariable :: "string \<Rightarrow> bool" where
  "UsesLoadVariable s = Contains s ''{LOAD''"

definition IsInfo :: "string \<Rightarrow> bool" where
  "IsInfo remark \<longleftrightarrow> IndexByte remark (CHR ''{'') \<noteq> None \<and> \<not> UsesLoadVariable remark"

definition emptySnapshot :: "int \<Rightarrow> instant \<Rightarrow> Snapshot" where
  "emptySnapshot capacity t = \<lparr>sn_At = t, sn_Live = False, sn_Capacity = capacity, sn_Hosts = [], sn_Nodes = [],
     sn_byID = [], sn_known = False\<rparr>"

section \<open>Reading presence from Redis\<close>

text \<open>The replies of the pipeline: the error of \<open>Exec\<close> (a missing key is reported as \<open>redis.Nil\<close>), and
  one reply per command.\<close>

datatype pipe_error = PipeNil | PipeErr

record pipe_replies =
  pr_exec :: "pipe_error option"
  pr_live :: "pipe_error + int"
  pr_total :: "int \<Rightarrow> pipe_error + string"
  pr_ports :: "int \<Rightarrow> pipe_error + (string \<times> string) list"

definition read_port :: "(int, int) gomap \<Rightarrow> string \<times> string \<Rightarrow> (int, int) gomap" where
  "read_port ports fv =
     (case (ParseInt64 (fst fv), ParseInt64 (snd fv)) of
        (Some port, Some conns) \<Rightarrow> if port \<le> 0 \<or> conns < 0 then ports else mput port conns ports
      | _ \<Rightarrow> ports)"

definition read_node :: "pipe_replies \<Rightarrow> int \<Rightarrow> NodePresence option" where
  "read_node r nid =
     (case pr_total r nid of
        Inl PipeErr \<Rightarrow> None
      | reply \<Rightarrow>
          (case pr_ports r nid of
             Inl _ \<Rightarrow> None
           | Inr raw \<Rightarrow>
               (let hasTotal = (case reply of Inr _ \<Rightarrow> True | Inl _ \<Rightarrow> False)
                in Some \<lparr>np_Reporting = (hasTotal \<or> raw \<noteq> []),
                     np_Ports = foldl read_port [] raw,
                     np_Total = (case reply of
                        Inr totalRaw \<Rightarrow> (case ParseInt64 totalRaw of Some t \<Rightarrow> if t > 0 then t else 0 | None \<Rightarrow> 0)
                      | Inl _ \<Rightarrow> 0)\<rparr>)))"

definition redis_Read :: "pipe_replies \<Rightarrow> int list \<Rightarrow> PresenceData option" where
  "redis_Read r nodeIDs =
     (if pr_exec r = Some PipeErr then None
      else case pr_live r of
        Inl _ \<Rightarrow> None
      | Inr n \<Rightarrow>
          if \<not> n > 0 then Some \<lparr>pd_Live = False, pd_Nodes = []\<rparr>
          else Some \<lparr>pd_Live = True,
            pd_Nodes = foldl (\<lambda>m nid. case read_node r nid of None \<Rightarrow> m | Some np \<Rightarrow> mput nid np m) [] nodeIDs\<rparr>)"

section \<open>The build\<close>

definition activeNodes :: "lm_Node list \<Rightarrow> lm_Node list" where
  "activeNodes nodes = sort_key n_ID (filter (\<lambda>n. n_Status n \<noteq> ''disabled'') nodes)"

definition serves :: "lm_Node \<Rightarrow> lm_Host \<Rightarrow> bool" where
  "serves n h \<longleftrightarrow>
     (n_InboundTags n = [] \<or> h_InboundTag h \<in> set (n_InboundTags n)) \<and>
     (n_ListenPorts n = [] \<or> h_Port h \<in> set (n_ListenPorts n))"

definition overlaps :: "string list \<Rightarrow> string list \<Rightarrow> bool" where
  "overlaps a b = (let (a, b) = (if length a > length b then (b, a) else (a, b))
     in list_ex (\<lambda>ip. ip \<in> set b) a)"

definition capacityOf :: "lm_Config \<Rightarrow> lm_Node \<Rightarrow> int \<times> capacity_source" where
  "capacityOf cfg n = (if n_Capacity n \<ge> 1 then (n_Capacity n, CapacityNode) else (cfg_Capacity cfg, CapacityDefault))"

definition expand :: "lm_Config \<Rightarrow> string \<Rightarrow> string" where
  "expand cfg address = (case cfg_ExpandAddress cfg of Some f \<Rightarrow> f address | None \<Rightarrow> address)"

definition addresses :: "(string \<Rightarrow> string option) \<Rightarrow> instant \<Rightarrow> string \<Rightarrow> dnsCache \<Rightarrow> string list \<times> dnsCache" where
  "addresses ParseAddr now address c =
     (let address = TrimSpace address
      in if address = [] \<or> list_ex (\<lambda>ch. ch = CHR ''{'' \<or> ch = CHR ''}'') address then ([], c)
         else dns_lookup ParseAddr now address c)"

definition portConns :: "PresenceData \<Rightarrow> lm_Host \<Rightarrow> lm_Node \<Rightarrow> int" where
  "portConns data h n = mget 0 (np_Ports (mget noPresence (pd_Nodes data) (n_ID n))) (h_Port h)"

definition candidate :: "PresenceData \<Rightarrow> lm_Host \<Rightarrow> lm_Node \<Rightarrow> bool" where
  "candidate data h n =
     (case map_of (pd_Nodes data) (n_ID n) of
        None \<Rightarrow> False
      | Some np \<Rightarrow> np_Reporting np \<and> (map_of (np_Ports np) (h_Port h) \<noteq> None \<or> serves n h))"

definition homes :: "PresenceData \<Rightarrow> lm_Host \<Rightarrow> lm_Node list \<Rightarrow> int \<Rightarrow> lm_Node list" where
  "homes data h use conns =
     (if conns > 0 then filter (\<lambda>n. wrap64 (portConns data h n * homeShareDivisor) \<ge> conns) use else use)"

text \<open>The second half of \<open>compute\<close>: from the nodes in use to the figures of the host.\<close>

definition home_load :: "lm_Config \<Rightarrow> HostLoad \<Rightarrow> lm_Host \<Rightarrow> PresenceData \<Rightarrow> lm_Node list \<Rightarrow> HostLoad" where
  "home_load cfg hl h data use =
     (let conns = foldl (\<lambda>acc n. wrap64 (acc + portConns data h n)) 0 use;
          home = homes data h use conns;
          portPercent = foldl (\<lambda>m n. max m (Percent (float64 (portConns data h n)) (fst (capacityOf cfg n)))) (hl_PortPercent hl) home;
          nodePercent = foldl (\<lambda>m n. max m (Percent (float64 (np_total (mget noPresence (pd_Nodes data) (n_ID n)))) (fst (capacityOf cfg n))))
                          (hl_NodePercent hl) home;
          percent = max portPercent nodePercent
      in hl\<lparr>hl_PortPercent := portPercent, hl_NodePercent := nodePercent, hl_Known := True, hl_Conns := conns,
            hl_Percent := percent, hl_Level := LevelFor percent, hl_NodeIDs := map n_ID home\<rparr>)"

definition compute ::
  "(string \<Rightarrow> string option) \<Rightarrow> instant \<Rightarrow> lm_Config \<Rightarrow> HostLoad \<Rightarrow> lm_Host \<Rightarrow> lm_Node list
    \<Rightarrow> (int, string list) gomap \<Rightarrow> PresenceData \<Rightarrow> dnsCache \<Rightarrow> HostLoad \<times> dnsCache" where
  "compute ParseAddr now cfg hl h nodes nodeIPs data c =
     (let candidates = filter (candidate data h) nodes
      in if candidates = [] then (hl, c)
         else
           (let (hostIPs, c) = addresses ParseAddr now (expand cfg (h_Address h)) c;
                matched = filter (\<lambda>n. overlaps hostIPs (mget [] nodeIPs (n_ID n))) candidates;
                use = (if hostIPs \<noteq> [] \<and> matched \<noteq> [] then matched else candidates)
            in (home_load cfg hl h data use, c)))"

datatype 'a outcome = Answer 'a | Failed | Panicked

definition node_loads :: "lm_Config \<Rightarrow> PresenceData \<Rightarrow> lm_Node list \<Rightarrow> NodeLoad list" where
  "node_loads cfg data nodes =
     List.map_filter (\<lambda>n. case map_of (pd_Nodes data) (n_ID n) of
         None \<Rightarrow> None
       | Some np \<Rightarrow>
           if \<not> np_Reporting np then None
           else (let (capacity, source) = capacityOf cfg n
                 in Some \<lparr>nl_ID = n_ID n, nl_Name = n_Name n, nl_Conns = np_total np, nl_Capacity = capacity,
                      nl_CapacitySource = source, nl_Percent = Percent (float64 (np_total np)) capacity\<rparr>)) nodes"

fun resolve_nodes ::
  "(string \<Rightarrow> string option) \<Rightarrow> instant \<Rightarrow> lm_Node list \<Rightarrow> (int, string list) gomap \<Rightarrow> dnsCache
    \<Rightarrow> (int, string list) gomap \<times> dnsCache" where
  "resolve_nodes P now [] m c = (m, c)"
| "resolve_nodes P now (n # ns) m c =
     (let (ips, c) = addresses P now (n_Address n) c in resolve_nodes P now ns (mput (n_ID n) ips m) c)"

definition unknownLoad :: "lm_Host \<Rightarrow> HostLoad" where
  "unknownLoad h = \<lparr>hl_HostID = h_ID h, hl_Remark = h_Remark h, hl_Address = h_Address h, hl_Port = h_Port h,
     hl_Known = False, hl_Conns = 0, hl_PortPercent = 0, hl_NodePercent = 0, hl_Percent = 0, hl_Level = LevelUnknown,
     hl_NodeIDs = [], hl_UsesLoad = UsesLoadVariable (h_Remark h)\<rparr>"

fun load_hosts ::
  "(string \<Rightarrow> string option) \<Rightarrow> instant \<Rightarrow> lm_Config \<Rightarrow> lm_Node list \<Rightarrow> (int, string list) gomap \<Rightarrow> PresenceData
    \<Rightarrow> lm_Host list \<Rightarrow> Snapshot \<Rightarrow> dnsCache \<Rightarrow> Snapshot \<times> dnsCache" where
  "load_hosts P now cfg nodes ips data [] snap c = (snap, c)"
| "load_hosts P now cfg nodes ips data (h # hs) snap c =
     (if IsInfo (h_Remark h) then load_hosts P now cfg nodes ips data hs snap c
      else
        (let (hl, c) = (if pd_Live data \<and> h_Port h > 0 then compute P now cfg (unknownLoad h) h nodes ips data c
                        else (unknownLoad h, c))
         in load_hosts P now cfg nodes ips data hs
              (snap\<lparr>sn_known := (sn_known snap \<or> hl_Known hl),
                    sn_byID := mput (h_ID h) (length (sn_Hosts snap)) (sn_byID snap),
                    sn_Hosts := sn_Hosts snap @ [hl]\<rparr>) c))"

definition noData :: PresenceData where
  "noData = \<lparr>pd_Live = False, pd_Nodes = []\<rparr>"

text \<open>The part of \<open>build\<close> after the sources were read.\<close>

definition build_from ::
  "(string \<Rightarrow> string option) \<Rightarrow> instant \<Rightarrow> lm_Config \<Rightarrow> lm_Host list \<Rightarrow> lm_Node list \<Rightarrow> PresenceData \<Rightarrow> dnsCache
    \<Rightarrow> Snapshot \<times> dnsCache" where
  "build_from P now cfg hosts nodes data c =
     (let snap = (emptySnapshot (cfg_Capacity cfg) now)\<lparr>sn_Live := pd_Live data,
                   sn_Nodes := (if pd_Live data then node_loads cfg data nodes else [])\<rparr>;
          (ips, c) = resolve_nodes P now nodes [] c
      in load_hosts P now cfg nodes ips data hosts snap c)"

text \<open>\<open>None\<close> is a panic of one of the sources; it can only happen before a name is looked up.\<close>

definition build ::
  "(string \<Rightarrow> string option) \<Rightarrow> instant \<Rightarrow> lm_Config \<Rightarrow> lm_Host list outcome \<Rightarrow> lm_Node list outcome
    \<Rightarrow> (int list \<Rightarrow> PresenceData outcome) option \<Rightarrow> dnsCache \<Rightarrow> Snapshot option \<times> dnsCache" where
  "build P now cfg inv_Hosts inv_Nodes pres c =
     (case inv_Hosts of
        Panicked \<Rightarrow> (None, c)
      | Failed \<Rightarrow> (Some (emptySnapshot (cfg_Capacity cfg) now), c)
      | Answer hosts \<Rightarrow>
          if inv_Nodes = Panicked then (None, c)
          else
            (let nodes = activeNodes (case inv_Nodes of Answer ns \<Rightarrow> ns | _ \<Rightarrow> []);
                 read = (case pres of
                     Some Read \<Rightarrow> if nodes \<noteq> [] then Read (map n_ID nodes) else Answer noData
                   | None \<Rightarrow> Answer noData)
             in if read = Panicked then (None, c)
                else
                  (let data = (case read of Answer d \<Rightarrow> d | _ \<Rightarrow> noData);
                       (snap, c) = build_from P now cfg hosts nodes data c
                   in (Some snap, c))))"

definition safeBuild ::
  "(string \<Rightarrow> string option) \<Rightarrow> instant \<Rightarrow> lm_Config \<Rightarrow> lm_Host list outcome \<Rightarrow> lm_Node list outcome
    \<Rightarrow> (int list \<Rightarrow> PresenceData outcome) option \<Rightarrow> dnsCache \<Rightarrow> Snapshot \<times> dnsCache" where
  "safeBuild P now cfg inv_Hosts inv_Nodes pres c =
     (case build P now cfg inv_Hosts inv_Nodes pres c of
        (Some s, c) \<Rightarrow> (s, c)
      | (None, c) \<Rightarrow> (emptySnapshot (cfg_Capacity cfg) now, c))"

section \<open>Percents\<close>

lemma Percent_range: "0 \<le> Percent conns capacity" "Percent conns capacity \<le> 100"
  by (simp_all add: Percent_def Let_def)

lemma tie_distance:
  assumes "0 \<le> c" and "c < 2 ^ 44" and "1 \<le> cap"
    and ne: "of_int (100 * c) / of_int cap \<noteq> (of_int k + 1 / 2 :: rat)"
  shows "of_int (100 * c) / of_int cap / 2 ^ 53 < \<bar>of_int (100 * c) / of_int cap - (of_int k + 1 / 2 :: rat)\<bar>"
proof -
  have cap: "(0::rat) < of_int cap" using assms(3) by simp
  define d where "d = 200 * c - (2 * k + 1) * cap"
  have dist: "of_int (100 * c) / of_int cap - (of_int k + 1 / 2 :: rat) = of_int d / (2 * of_int cap)"
    using cap by (simp add: d_def field_simps)
  with ne have "d \<noteq> 0" by auto
  then have "1 \<le> \<bar>d\<bar>" by linarith
  then have "(1::rat) \<le> \<bar>of_int d\<bar>" by (metis of_int_1_le_iff of_int_abs)
  then have "1 / (2 * of_int cap) \<le> \<bar>of_int d\<bar> / (2 * (of_int cap :: rat))"
    using cap by (intro divide_right_mono) auto
  also have "\<dots> = \<bar>of_int d / (2 * of_int cap)\<bar>" using cap by (simp add: abs_mult)
  finally have near: "1 / (2 * of_int cap) \<le> \<bar>of_int d / (2 * of_int cap) :: rat\<bar>" .
  have "200 * c < 2 ^ 53" using assms(2) by simp
  then have "(of_int (200 * c) :: rat) < of_int (2 ^ 53)" by (simp only: of_int_less_iff)
  then have "of_int (100 * c) / of_int cap / 2 ^ 53 < (1 :: rat) / (2 * of_int cap)"
    using cap by (simp add: field_simps)
  with near show ?thesis unfolding dist by linarith
qed

lemma Percent_nearest:
  assumes "0 \<le> conns" and "conns < 2 ^ 44" and "capacity < 2 ^ 53"
  shows "Percent (float64 conns) capacity =
      (let cap = (if capacity < 1 then 10000 else capacity) in min 100 ((200 * conns + cap) div (2 * cap)))"
proof -
  define cap where "cap = (if capacity < 1 then 10000 else capacity)"
  define x :: rat where "x = of_int (100 * conns) / of_int cap"
  have cap: "1 \<le> cap" "cap < 2 ^ 53" using assms(3) by (simp_all add: cap_def)
  have capr: "(1::rat) \<le> of_int cap" using cap(1) by (metis of_int_1 of_int_le_iff)
  have exact: "fl (fl (100 * float64 conns) / float64 cap) = fl x"
    using assms cap fl_of_int [of "100 * conns"] by (simp add: float64_exact x_def)
  have x0: "0 \<le> x" using assms(1) capr by (simp add: x_def)
  have "(of_int (100 * conns) :: rat) < of_int (2 ^ 51)" using assms(2) by (simp only: of_int_less_iff) simp
  moreover have "x \<le> of_int (100 * conns)"
    unfolding x_def using capr assms(1) by (simp add: pos_divide_le_eq mult_le_cancel_left1)
  ultimately have x51: "x < 2 ^ 51" by (metis of_int_numeral of_int_power order_le_less_trans)
  define n where "n = \<lfloor>x + 1 / 2\<rfloor>"
  have r: "math_Round (fl x) = of_int n"
    unfolding n_def using x0 x51 tie_distance [OF assms(1,2) cap(1)] unfolding x_def by (rule math_Round_fl)
  have "x + 1 / 2 = of_int (200 * conns + cap) / of_int (2 * cap)"
    using capr by (simp add: x_def field_simps)
  then have n: "n = (200 * conns + cap) div (2 * cap)" unfolding n_def by (simp only: floor_divide_of_int_eq)
  have n0: "0 \<le> n" and "n < 2 ^ 63" unfolding n_def using x0 x51 by (simp_all add: floor_less_iff)
  then have "int64_of (math_Round (fl x)) = n" unfolding r by (intro int64_of_int) simp_all
  then have "Percent (float64 conns) capacity = min 100 ((200 * conns + cap) div (2 * cap))"
    unfolding Percent_def DefaultCapacity_def Let_def cap_def [symmetric] n [symmetric] exact using n0 by (simp add: min_def)
  then show ?thesis by (simp add: cap_def Let_def)
qed

text \<open>The percent of a node is exact: although the code computes it in floating point, for every
  connection count below \<open>2 ^ 44\<close> and every capacity the result is the integer nearest to
  \<open>100 * conns / capacity\<close> (halves up), cut at 100. A capacity below 1 counts as the default, and
  the result is between 0 and 100 for any arguments at all.\<close>

theorem Percent_exact:
  assumes "0 \<le> conns" and "conns < 2 ^ 44" and "capacity < 2 ^ 53"
  shows "Percent (float64 conns) capacity =
      (let cap = (if capacity < 1 then 10000 else capacity) in min 100 ((200 * conns + cap) div (2 * cap)))
    \<and> 0 \<le> Percent v capacity \<and> Percent v capacity \<le> 100"
  using Percent_nearest [OF assms] Percent_range by simp

theorem Percent_exact_witness:
  "Percent (float64 1625) 3250 = 50 \<and> Percent (float64 335) 10000 = 3 \<and> Percent (float64 99999) 0 = 100"
  using Percent_exact [of 1625 3250 0] Percent_exact [of 335 10000 0] Percent_exact [of 99999 0 0] by (simp add: Let_def)


section \<open>The load of one host\<close>

text \<open>Presence data without absurd numbers: what a node reports is below \<open>2 ^ 32\<close> connections, so that
  no sum of the build wraps.\<close>

definition sane_presence :: "PresenceData \<Rightarrow> bool" where
  "sane_presence data \<longleftrightarrow> (\<forall>(nid, np) \<in> set (pd_Nodes data).
     wf_map (np_Ports np) \<and> (\<forall>(p, c) \<in> set (np_Ports np). 0 \<le> c) \<and> msum (np_Ports np) < 2 ^ 32
     \<and> 0 \<le> np_Total np \<and> np_Total np < 2 ^ 32)"

abbreviation nodeConns :: "PresenceData \<Rightarrow> lm_Node \<Rightarrow> int" where
  "nodeConns data n \<equiv> np_total (mget noPresence (pd_Nodes data) (n_ID n))"

lemma wrapping_sum:
  assumes "\<And>x. x \<in> set xs \<Longrightarrow> 0 \<le> f x" and "0 \<le> a" and "a + sum_list (map f xs) < 2 ^ 63"
  shows "foldl (\<lambda>acc x. wrap64 (acc + f x)) a xs = a + sum_list (map f xs)"
  using assms
proof (induction xs arbitrary: a)
  case (Cons x xs)
  have "0 \<le> sum_list (map f xs)" using Cons.prems(1) by (intro sum_list_nonneg) auto
  then have "wrap64 (a + f x) = a + f x" using Cons.prems(1) [of x] Cons.prems(2,3) by (intro wrap64_small) auto
  then show ?case using Cons.IH [of "a + f x"] Cons.prems by (simp add: algebra_simps)
qed simp

lemma sane_node:
  assumes "sane_presence data" and np: "mget noPresence (pd_Nodes data) nid = np"
  shows "wf_map (np_Ports np)" and "\<And>p. 0 \<le> mget 0 (np_Ports np) p"
    and "np_total np = max (np_Total np) (msum (np_Ports np))"
    and "mget 0 (np_Ports np) p \<le> np_total np" and "np_total np < 2 ^ 32"
proof -
  have props: "wf_map (np_Ports np) \<and> (\<forall>(p, c) \<in> set (np_Ports np). 0 \<le> c) \<and> msum (np_Ports np) < 2 ^ 32
     \<and> 0 \<le> np_Total np \<and> np_Total np < 2 ^ 32"
  proof (cases "map_of (pd_Nodes data) nid")
    case None
    then show ?thesis using np by (auto simp: mget_def noPresence_def)
  next
    case (Some np')
    then show ?thesis using np assms(1) map_of_SomeD [OF Some] by (fastforce simp: mget_def sane_presence_def)
  qed
  then show wf: "wf_map (np_Ports np)" by blast
  show nn: "0 \<le> mget 0 (np_Ports np) p" for p
    using props map_of_SomeD [of "np_Ports np" p] by (fastforce simp: mget_def split: option.splits)
  have le: "mget 0 m p \<le> msum m" if "\<forall>(p, c) \<in> set m. 0 \<le> c" for m :: "(int, int) gomap"
    using that
  proof (induction m)
    case (Cons kv m)
    then have "0 \<le> msum m" unfolding msum_def by (intro sum_list_nonneg) auto
    then show ?case using Cons by (cases kv) (auto simp: mget_def msum_def)
  qed (simp add: msum_def)
  have "foldl (\<lambda>acc kv. wrap64 (acc + snd kv)) 0 (np_Ports np) = 0 + sum_list (map snd (np_Ports np))"
    using props by (intro wrapping_sum) (auto simp: msum_def)
  then show total: "np_total np = max (np_Total np) (msum (np_Ports np))"
    by (simp add: np_total_def msum_def case_prod_unfold)
  show "mget 0 (np_Ports np) p \<le> np_total np" "np_total np < 2 ^ 32"
    unfolding total using le [of "np_Ports np"] props by auto
qed

lemma Percent_mono:
  assumes "0 \<le> a" and "a \<le> b" and "b < 2 ^ 44" and "cap < 2 ^ 53"
  shows "Percent (float64 a) cap \<le> Percent (float64 b) cap"
proof -
  have "(200 * a + c) div (2 * c) \<le> (200 * b + c) div (2 * c)" if "1 \<le> c" for c
    using assms(2) that by (intro zdiv_mono1) auto
  then show ?thesis
    using assms Percent_nearest [of a cap] Percent_nearest [of b cap] by (auto simp: Let_def min_def intro: order_trans)
qed

lemma foldl_max: "foldl (\<lambda>m x. max m (f x)) (a::int) xs = Max (insert a (f ` set xs))"
proof (induction xs arbitrary: a)
  case (Cons x xs)
  have "Max (insert (max a (f x)) (f ` set xs)) = Max (insert a (insert (f x) (f ` set xs)))"
    by (cases "set xs = {}") (simp_all add: max.assoc)
  then show ?case using Cons by simp
qed simp

abbreviation portPercent :: "lm_Config \<Rightarrow> PresenceData \<Rightarrow> lm_Host \<Rightarrow> lm_Node \<Rightarrow> int" where
  "portPercent cfg data h n \<equiv> Percent (float64 (portConns data h n)) (fst (capacityOf cfg n))"

abbreviation nodePercent :: "lm_Config \<Rightarrow> PresenceData \<Rightarrow> lm_Node \<Rightarrow> int" where
  "nodePercent cfg data n \<equiv> Percent (float64 (nodeConns data n)) (fst (capacityOf cfg n))"

lemma compute_uses:
  assumes run: "compute P now cfg (unknownLoad h) h nodes nodeIPs data c = (hl, c')"
    and some: "filter (candidate data h) nodes \<noteq> []"
  obtains use where "use \<noteq> []" "set use \<subseteq> {n \<in> set nodes. candidate data h n}" "length use \<le> length nodes"
    and "hl = home_load cfg (unknownLoad h) h data use"
proof -
  define hostIPs where "hostIPs = fst (addresses P now (expand cfg (h_Address h)) c)"
  define matched where "matched = filter (\<lambda>n. overlaps hostIPs (mget [] nodeIPs (n_ID n))) (filter (candidate data h) nodes)"
  define use where "use = (if hostIPs \<noteq> [] \<and> matched \<noteq> [] then matched else filter (candidate data h) nodes)"
  have "use \<noteq> []" "set use \<subseteq> {n \<in> set nodes. candidate data h n}" "length use \<le> length nodes"
    using some by (auto simp: use_def matched_def)
  moreover have "hl = home_load cfg (unknownLoad h) h data use"
    using run some unfolding compute_def Let_def split_beta hostIPs_def [symmetric] matched_def [symmetric] use_def [symmetric]
    by simp
  ultimately show thesis by (rule that)
qed

lemma sum_list_bound: "(\<And>x. x \<in> set xs \<Longrightarrow> f x \<le> (b::int)) \<Longrightarrow> sum_list (map f xs) \<le> int (length xs) * b"
  by (induction xs) (auto simp: algebra_simps, smt (verit))

lemma Max_le_Max:
  assumes "finite A" and "\<And>x. x \<in> A \<Longrightarrow> f x \<le> g x"
  shows "Max (insert (0::int) (f ` A)) \<le> Max (insert 0 (g ` A))"
proof (rule Max.boundedI)
  fix a assume "a \<in> insert 0 (f ` A)"
  then consider "a = 0" | x where "x \<in> A" "a = f x" by blast
  then show "a \<le> Max (insert 0 (g ` A))"
  proof cases
    case 2
    then have "a \<le> g x" using assms(2) by simp
    also have "g x \<le> Max (insert 0 (g ` A))" using 2(1) assms(1) by (intro Max.coboundedI) auto
    finally show ?thesis .
  qed (use assms(1) in \<open>auto intro: Max.coboundedI\<close>)
qed (use assms(1) in auto)

lemma home_load_meaning:
  fixes h :: lm_Host
  assumes sane: "sane_presence data" and "length use < 2 ^ 20" and "\<forall>n \<in> set use. fst (capacityOf cfg n) < 2 ^ 53"
  defines "hl \<equiv> home_load cfg (unknownLoad h) h data use"
    and "conns \<equiv> sum_list (map (portConns data h) use)"
  defines "home \<equiv> filter (\<lambda>n. conns \<le> 5 * portConns data h n) use"
  shows "hl_Known hl" and "hl_Conns hl = conns" and "hl_NodeIDs hl = map n_ID home"
    and "hl_NodePercent hl = Max (insert 0 (nodePercent cfg data ` set home))"
    and "hl_PortPercent hl \<le> hl_NodePercent hl" and "hl_Percent hl = hl_NodePercent hl" and "hl_Level hl = LevelFor (hl_Percent hl)"
proof -
  have pc: "0 \<le> portConns data h n" "portConns data h n \<le> nodeConns data n" "nodeConns data n < 2 ^ 32" for n
    using sane_node [OF sane refl, of "n_ID n"] by (simp_all add: portConns_def)
  have small: "portConns data h n < 2 ^ 32" for n using pc(2,3) [of n] by linarith
  have "conns \<le> int (length use) * 2 ^ 32" unfolding conns_def by (rule sum_list_bound) (use small less_imp_le in blast)
  also have "\<dots> < 2 ^ 20 * 2 ^ 32" using assms(2) by simp
  finally have cb: "conns < 2 ^ 52" by simp
  have c0: "0 \<le> conns" unfolding conns_def using pc(1) by (intro sum_list_nonneg) auto
  have sum: "foldl (\<lambda>acc n. wrap64 (acc + portConns data h n)) 0 use = conns"
    using wrapping_sum [of use "portConns data h" 0] pc(1) cb by (simp add: conns_def)
  have w: "wrap64 (portConns data h n * homeShareDivisor) = 5 * portConns data h n" for n
    using pc(1) [of n] small [of n] by (simp add: homeShareDivisor_def wrap64_small)
  have home: "homes data h use conns = home"
  proof (cases "conns > 0")
    case True
    then show ?thesis by (simp add: homes_def home_def w)
  next
    case False
    then have "conns = 0" using c0 by simp
    then show ?thesis using pc(1) by (simp add: homes_def home_def)
  qed
  have eq: "hl = (unknownLoad h)\<lparr>hl_PortPercent := Max (insert 0 (portPercent cfg data h ` set home)),
      hl_NodePercent := Max (insert 0 (nodePercent cfg data ` set home)), hl_Known := True, hl_Conns := conns,
      hl_Percent := max (Max (insert 0 (portPercent cfg data h ` set home))) (Max (insert 0 (nodePercent cfg data ` set home))),
      hl_Level := LevelFor (max (Max (insert 0 (portPercent cfg data h ` set home))) (Max (insert 0 (nodePercent cfg data ` set home)))),
      hl_NodeIDs := map n_ID home\<rparr>"
    unfolding hl_def home_load_def Let_def sum home foldl_max by (simp add: unknownLoad_def)
  have "Max (insert 0 (portPercent cfg data h ` set home)) \<le> Max (insert 0 (nodePercent cfg data ` set home))"
  proof (rule Max_le_Max)
    fix n assume "n \<in> set home"
    then have "fst (capacityOf cfg n) < 2 ^ 53" using assms(3) by (simp add: home_def)
    then show "portPercent cfg data h n \<le> nodePercent cfg data n" using pc [of n] by (intro Percent_mono) auto
  qed simp
  then show "hl_Known hl" "hl_Conns hl = conns" "hl_NodeIDs hl = map n_ID home"
    "hl_NodePercent hl = Max (insert 0 (nodePercent cfg data ` set home))"
    "hl_PortPercent hl \<le> hl_NodePercent hl" "hl_Percent hl = hl_NodePercent hl" "hl_Level hl = LevelFor (hl_Percent hl)"
    by (simp_all add: eq)
qed

lemma busiest_share:
  assumes "length use \<le> 5" and "n \<in> set use" and "\<And>m. m \<in> set use \<Longrightarrow> f m \<le> (f n :: int)" and "0 \<le> f n"
  shows "sum_list (map f use) \<le> 5 * f n"
proof -
  have "sum_list (map f use) \<le> int (length use) * f n" using assms(3) by (rule sum_list_bound)
  also have "\<dots> \<le> 5 * f n" using assms(1,4) by (intro mult_right_mono) auto
  finally show ?thesis .
qed

text \<open>What the load map says of a host, for sane presence data. The load is known exactly when some
  reporting node serves the host. Then the connection count is the sum over the nodes in use, which
  are candidates (all of them unless some carry the address of the host); the home nodes are the nodes
  in use that carry a fifth of the connections or more; the percent is the largest share of the whole
  node over the home nodes, so the share of the port alone never decides; and with at most five nodes
  in use the node with the most connections on the port is a home node, so a busy node cannot be
  hidden.\<close>

theorem compute_host_load:
  assumes sane: "sane_presence data" and "length nodes < 2 ^ 20" and "\<forall>n \<in> set nodes. fst (capacityOf cfg n) < 2 ^ 53"
    and run: "compute P now cfg (unknownLoad h) h nodes nodeIPs data c = (hl, c')"
  shows "if \<forall>n \<in> set nodes. \<not> candidate data h n then hl = unknownLoad h
    else hl_Known hl \<and> (\<exists>use home. use \<noteq> [] \<and> set use \<subseteq> {n \<in> set nodes. candidate data h n}
      \<and> hl_Conns hl = sum_list (map (portConns data h) use)
      \<and> home = filter (\<lambda>n. hl_Conns hl \<le> 5 * portConns data h n) use \<and> hl_NodeIDs hl = map n_ID home
      \<and> hl_Percent hl = Max (insert 0 ((\<lambda>n. Percent (float64 (nodeConns data n)) (fst (capacityOf cfg n))) ` set home))
      \<and> hl_Level hl = LevelFor (hl_Percent hl) \<and> hl_PortPercent hl \<le> hl_Percent hl
      \<and> (length use \<le> 5 \<longrightarrow> (\<forall>n \<in> set use. (\<forall>m \<in> set use. portConns data h m \<le> portConns data h n) \<longrightarrow> n \<in> set home)))"
proof (cases "filter (candidate data h) nodes = []")
  case True
  then show ?thesis using run by (simp add: compute_def filter_empty_conv)
next
  case False
  obtain use where use: "use \<noteq> []" "set use \<subseteq> {n \<in> set nodes. candidate data h n}" "length use \<le> length nodes"
    and hl: "hl = home_load cfg (unknownLoad h) h data use" using compute_uses [OF run False] .
  define home where "home = filter (\<lambda>n. sum_list (map (portConns data h) use) \<le> 5 * portConns data h n) use"
  have "length use < 2 ^ 20" "\<forall>n \<in> set use. fst (capacityOf cfg n) < 2 ^ 53" using use assms(2,3) by auto
  note m = home_load_meaning [OF sane this, of h, folded hl home_def]
  have "n \<in> set home" if "length use \<le> 5" "n \<in> set use" "\<forall>m \<in> set use. portConns data h m \<le> portConns data h n" for n
    using busiest_share [OF that(1,2), of "portConns data h"] that(2,3) sane_node(2) [OF sane refl, of "n_ID n" "h_Port h"]
    by (auto simp: home_def portConns_def)
  then have "use \<noteq> [] \<and> set use \<subseteq> {n \<in> set nodes. candidate data h n}
      \<and> hl_Conns hl = sum_list (map (portConns data h) use)
      \<and> home = filter (\<lambda>n. hl_Conns hl \<le> 5 * portConns data h n) use \<and> hl_NodeIDs hl = map n_ID home
      \<and> hl_Percent hl = Max (insert 0 (nodePercent cfg data ` set home))
      \<and> hl_Level hl = LevelFor (hl_Percent hl) \<and> hl_PortPercent hl \<le> hl_Percent hl
      \<and> (length use \<le> 5 \<longrightarrow> (\<forall>n \<in> set use. (\<forall>m \<in> set use. portConns data h m \<le> portConns data h n) \<longrightarrow> n \<in> set home))"
    using use m by (simp add: home_def)
  moreover have "\<not> (\<forall>n \<in> set nodes. \<not> candidate data h n)" using False by (simp add: filter_empty_conv)
  ultimately show ?thesis using m(1) by auto
qed

definition example_node :: "int \<Rightarrow> lm_Node" where
  "example_node i = \<lparr>n_ID = i, n_Name = ''n'', n_Address = ''192.0.2.1'', n_Status = ''connected'', n_Capacity = 100,
     n_InboundTags = [], n_ListenPorts = []\<rparr>"

definition example_host :: lm_Host where
  "example_host = \<lparr>h_ID = 1, h_Remark = ''de'', h_Address = ''cdn.example'', h_Port = 443, h_InboundTag = ''vless''\<rparr>"

definition example_cfg :: lm_Config where
  "example_cfg = \<lparr>cfg_Capacity = 10000, cfg_TTL = 3000000000, cfg_ExpandAddress = None\<rparr>"

text \<open>Every one of the listed nodes carries \<open>k\<close> connections on port 443 and nothing else.\<close>

definition example_presence :: "int list \<Rightarrow> int \<Rightarrow> PresenceData" where
  "example_presence ids k = \<lparr>pd_Live = True, pd_Nodes = map (\<lambda>i. (i, \<lparr>np_Reporting = True, np_Ports = [(443, k)], np_Total = k\<rparr>)) ids\<rparr>"

theorem compute_host_load_witness:
  "let data = example_presence [1, 2] 95; nodes = map example_node [1, 2];
       hl = fst (compute (\<lambda>_. None) 0 example_cfg (unknownLoad example_host) example_host nodes [] data newDNSCache)
   in hl_Known hl \<and> hl_PortPercent hl \<le> hl_Percent hl \<and> hl_Level hl = LevelFor (hl_Percent hl)"
proof -
  let ?run = "compute (\<lambda>_. None) 0 example_cfg (unknownLoad example_host) example_host (map example_node [1, 2]) []
    (example_presence [1, 2] 95) newDNSCache"
  have "sane_presence (example_presence [1, 2] 95)" "length (map example_node [1, 2]) < 2 ^ 20"
    "\<forall>n \<in> set (map example_node [1, 2]). fst (capacityOf example_cfg n) < 2 ^ 53"
    by (simp_all add: sane_presence_def example_presence_def wf_map_def msum_def capacityOf_def example_node_def)
  from compute_host_load [OF this, of "\<lambda>_. None" 0 example_host "[]" newDNSCache "fst ?run" "snd ?run"]
  show ?thesis by (auto simp: candidate_def example_presence_def example_node_def example_host_def serves_def Let_def)
qed

text \<open>A port spread evenly over six or more nodes has no home node at all: every node carries less
  than a fifth of it. The load of its hosts is then reported as known, 0 percent and free, whatever
  the nodes carry. (The code takes the maximum over an empty list of home nodes.)\<close>

theorem spread_port_reads_free:
  assumes "5 < length use" and "\<forall>n \<in> set use. portConns data h n = k" and "0 < k" and "k < 2 ^ 32" and "length use < 2 ^ 20"
  shows "let hl = home_load cfg (unknownLoad h) h data use
    in hl_Known hl \<and> hl_Conns hl = int (length use) * k \<and> hl_NodeIDs hl = [] \<and> hl_Percent hl = 0 \<and> hl_Level hl = LevelFree"
proof -
  let ?conns = "int (length use) * k"
  have sum: "sum_list (map (portConns data h) use) = ?conns"
    using assms(2) by (induction use) (auto simp: algebra_simps)
  have "?conns \<le> 2 ^ 20 * 2 ^ 32" using assms(3-5) by (intro mult_mono) auto
  then have bound: "?conns < 2 ^ 63" by simp
  have total: "foldl (\<lambda>acc n. wrap64 (acc + portConns data h n)) 0 use = ?conns"
    using wrapping_sum [of use "portConns data h" 0] assms(2,3) sum bound by simp
  have less: "5 * k < ?conns" using assms(1,3) by (intro mult_strict_right_mono) auto
  moreover have "0 < ?conns" using less assms(3) by linarith
  moreover have "wrap64 (k * homeShareDivisor) = 5 * k" using assms(3,4) by (simp add: homeShareDivisor_def wrap64_small)
  ultimately have "homes data h use ?conns = []"
    using assms(2) by (simp add: homes_def filter_empty_conv)
  then show ?thesis unfolding home_load_def total Let_def by (simp add: unknownLoad_def LevelFor_def)
qed

theorem spread_port_reads_free_witness:
  "let data = example_presence [1, 2, 3, 4, 5, 6] 100; nodes = map example_node [1, 2, 3, 4, 5, 6];
       hl = home_load example_cfg (unknownLoad example_host) example_host data nodes
   in hl_Known hl \<and> hl_Conns hl = 600 \<and> hl_Percent hl = 0 \<and> hl_Level hl = LevelFree"
  using spread_port_reads_free [of "map example_node [1, 2, 3, 4, 5, 6]" "example_presence [1, 2, 3, 4, 5, 6] 100" example_host 100 example_cfg]
  by (simp add: Let_def portConns_def example_presence_def example_node_def example_host_def mget_def)

section \<open>The snapshot\<close>

definition load_ok :: "HostLoad \<Rightarrow> bool" where
  "load_ok hl \<longleftrightarrow> 0 \<le> hl_Percent hl \<and> hl_Percent hl \<le> 100 \<and>
     hl_Level hl = (if hl_Known hl then LevelFor (hl_Percent hl) else LevelUnknown) \<and> (\<not> hl_Known hl \<longrightarrow> hl_Percent hl = 0 \<and> hl_NodeIDs hl = [])"

lemma load_ok_unknown: "load_ok (unknownLoad h)"
  by (simp add: load_ok_def unknownLoad_def)

lemma foldl_max_range:
  "0 \<le> a \<Longrightarrow> a \<le> 100 \<Longrightarrow> 0 \<le> foldl (\<lambda>m x. max m (Percent (f x) (g x))) a xs \<and> foldl (\<lambda>m x. max m (Percent (f x) (g x))) a xs \<le> 100"
  by (induction xs arbitrary: a) (auto simp: Percent_range le_max_iff_disj)

lemma load_ok_home: "load_ok (home_load cfg (unknownLoad h) h data use)"
proof -
  define conns where "conns = foldl (\<lambda>acc n. wrap64 (acc + portConns data h n)) 0 use"
  define pp where "pp = foldl (\<lambda>m n. max m (portPercent cfg data h n)) 0 (homes data h use conns)"
  define np where "np = foldl (\<lambda>m n. max m (nodePercent cfg data n)) 0 (homes data h use conns)"
  have "0 \<le> pp \<and> pp \<le> 100" "0 \<le> np \<and> np \<le> 100" unfolding pp_def np_def by (rule foldl_max_range; simp)+
  moreover have "hl_Percent (home_load cfg (unknownLoad h) h data use) = max pp np"
    by (simp add: home_load_def Let_def unknownLoad_def pp_def np_def conns_def)
  ultimately show ?thesis by (simp add: load_ok_def) (simp add: home_load_def Let_def le_max_iff_disj)
qed

lemma load_ok_compute:
  assumes "compute P now cfg (unknownLoad h) h nodes nodeIPs data c = (hl, c')"
  shows "load_ok hl \<and> hl_HostID hl = h_ID h \<and> hl_UsesLoad hl = UsesLoadVariable (h_Remark h)"
proof (cases "filter (candidate data h) nodes = []")
  case True
  then have "hl = unknownLoad h" using assms by (simp add: compute_def)
  then show ?thesis using load_ok_unknown by (simp add: unknownLoad_def)
next
  case False
  obtain use where "hl = home_load cfg (unknownLoad h) h data use" using compute_uses [OF assms False] .
  then show ?thesis using load_ok_home by (simp add: home_load_def Let_def unknownLoad_def)
qed

definition snap_ok :: "lm_Host list \<Rightarrow> Snapshot \<Rightarrow> bool" where
  "snap_ok hs snap \<longleftrightarrow>
     map (\<lambda>hl. (hl_HostID hl, hl_UsesLoad hl)) (sn_Hosts snap) = map (\<lambda>h. (h_ID h, UsesLoadVariable (h_Remark h))) hs \<and>
     (\<forall>hl \<in> set (sn_Hosts snap). load_ok hl) \<and> sn_known snap = (\<exists>hl \<in> set (sn_Hosts snap). hl_Known hl) \<and>
     (\<forall>i < length hs. map_of (sn_byID snap) (h_ID (hs ! i)) = Some i) \<and>
     (\<forall>hid. hid \<notin> h_ID ` set hs \<longrightarrow> map_of (sn_byID snap) hid = None)"

lemma snap_ok_snoc:
  assumes "snap_ok hs snap" and "h_ID h \<notin> h_ID ` set hs" and "load_ok hl" and "hl_HostID hl = h_ID h"
    and "hl_UsesLoad hl = UsesLoadVariable (h_Remark h)"
  shows "snap_ok (hs @ [h]) (snap\<lparr>sn_known := (sn_known snap \<or> hl_Known hl),
           sn_byID := mput (h_ID h) (length (sn_Hosts snap)) (sn_byID snap), sn_Hosts := sn_Hosts snap @ [hl]\<rparr>)"
proof -
  have "length (sn_Hosts snap) = length hs" using assms(1) map_eq_imp_length_eq unfolding snap_ok_def by blast
  then show ?thesis using assms by (auto simp: snap_ok_def nth_append less_Suc_eq)
qed

lemma load_hosts_ok:
  assumes "snap_ok ready snap" and "distinct (map h_ID (ready @ hs))"
  shows "\<exists>snap' c'. load_hosts P now cfg nodes ips data hs snap c = (snap', c')
    \<and> snap_ok (ready @ filter (\<lambda>h. \<not> IsInfo (h_Remark h)) hs) snap'
    \<and> sn_At snap' = sn_At snap \<and> sn_Nodes snap' = sn_Nodes snap"
  using assms
proof (induction hs arbitrary: ready snap c)
  case (Cons h hs)
  show ?case
  proof (cases "IsInfo (h_Remark h)")
    case True
    then show ?thesis using Cons.IH [OF Cons.prems(1)] Cons.prems(2) by simp
  next
    case False
    obtain hl c1 where hl: "(if pd_Live data \<and> h_Port h > 0 then compute P now cfg (unknownLoad h) h nodes ips data c
        else (unknownLoad h, c)) = (hl, c1)" by fastforce
    have ok: "load_ok hl \<and> hl_HostID hl = h_ID h \<and> hl_UsesLoad hl = UsesLoadVariable (h_Remark h)"
      using hl load_ok_compute load_ok_unknown by (cases "pd_Live data \<and> h_Port h > 0") (auto simp: unknownLoad_def)
    define snap1 where "snap1 = snap\<lparr>sn_known := (sn_known snap \<or> hl_Known hl),
           sn_byID := mput (h_ID h) (length (sn_Hosts snap)) (sn_byID snap), sn_Hosts := sn_Hosts snap @ [hl]\<rparr>"
    have "snap_ok (ready @ [h]) snap1"
      unfolding snap1_def using Cons.prems ok by (intro snap_ok_snoc) auto
    moreover have "load_hosts P now cfg nodes ips data (h # hs) snap c = load_hosts P now cfg nodes ips data hs snap1 c1"
      using False hl by (simp add: snap1_def)
    moreover have "sn_At snap1 = sn_At snap" "sn_Nodes snap1 = sn_Nodes snap" by (simp_all add: snap1_def)
    ultimately show ?thesis using Cons.IH [of "ready @ [h]" snap1 c1] Cons.prems(2) False by simp
  qed
qed simp

lemma snap_ok_empty: "snap_ok [] (emptySnapshot cap now)"
  by (simp add: snap_ok_def emptySnapshot_def)

lemma build_from_ok:
  assumes "distinct (map h_ID hosts)"
  shows "snap_ok (filter (\<lambda>h. \<not> IsInfo (h_Remark h)) hosts) (fst (build_from P now cfg hosts nodes data c))
    \<and> sn_At (fst (build_from P now cfg hosts nodes data c)) = now"
proof -
  define snap where "snap = (emptySnapshot (cfg_Capacity cfg) now)\<lparr>sn_Live := pd_Live data,
    sn_Nodes := (if pd_Live data then node_loads cfg data nodes else [])\<rparr>"
  have "snap_ok [] snap" "sn_At snap = now" by (simp_all add: snap_def snap_ok_def emptySnapshot_def)
  then show ?thesis using load_hosts_ok [of "[]" snap hosts P now cfg nodes _ data] assms
    by (simp add: build_from_def Let_def split_beta flip: snap_def) (metis fst_conv)
qed

lemma build_ok:
  assumes "case inv_Hosts of Answer hosts \<Rightarrow> distinct (map h_ID hosts) | _ \<Rightarrow> True"
  shows "let snap = fst (safeBuild P now cfg inv_Hosts inv_Nodes pres c)
    in snap_ok (case (inv_Hosts, fst (build P now cfg inv_Hosts inv_Nodes pres c)) of
          (Answer hosts, Some _) \<Rightarrow> filter (\<lambda>h. \<not> IsInfo (h_Remark h)) hosts | _ \<Rightarrow> []) snap \<and> sn_At snap = now"
proof (cases "fst (build P now cfg inv_Hosts inv_Nodes pres c)")
  case None
  then have "fst (safeBuild P now cfg inv_Hosts inv_Nodes pres c) = emptySnapshot (cfg_Capacity cfg) now"
    by (auto simp: safeBuild_def split: prod.splits)
  then show ?thesis using None snap_ok_empty by (simp add: Let_def emptySnapshot_def split: outcome.splits)
next
  case (Some snap)
  then have safe: "fst (safeBuild P now cfg inv_Hosts inv_Nodes pres c) = snap" by (auto simp: safeBuild_def split: prod.splits)
  show ?thesis
  proof (cases inv_Hosts)
    case (Answer hosts)
    obtain nodes data where "snap = fst (build_from P now cfg hosts nodes data c)"
      using Some Answer by (auto simp: build_def Let_def split_beta split: if_splits)
    then show ?thesis using build_from_ok [of hosts P now cfg nodes data c] assms Answer Some safe by (simp add: Let_def)
  next
    case Failed
    then show ?thesis using Some safe snap_ok_empty by (auto simp: build_def Let_def emptySnapshot_def)
  next
    case Panicked
    then show ?thesis using Some by (simp add: build_def Let_def)
  qed
qed

lemma snap_ok_facts:
  assumes "snap_ok listed snap"
  shows "map hl_HostID (sn_Hosts snap) = map h_ID listed"
    and "\<forall>i < length listed. Snapshot_For (Some snap) (h_ID (listed ! i)) = Some (sn_Hosts snap ! i)"
    and "\<forall>hid. hid \<notin> h_ID ` set listed \<longrightarrow> Snapshot_For (Some snap) hid = None"
    and "\<forall>hl \<in> set (sn_Hosts snap). load_ok hl" and "HasData (Some snap) = (\<exists>hl \<in> set (sn_Hosts snap). hl_Known hl)"
proof -
  have "map fst (map (\<lambda>hl. (hl_HostID hl, hl_UsesLoad hl)) (sn_Hosts snap)) = map fst (map (\<lambda>h. (h_ID h, UsesLoadVariable (h_Remark h))) listed)"
    using assms by (simp only: snap_ok_def)
  then show "map hl_HostID (sn_Hosts snap) = map h_ID listed" by (simp add: comp_def)
qed (use assms in \<open>simp_all add: snap_ok_def Snapshot_For_def HasData_def\<close>)

text \<open>A build always comes out, and its snapshot is consistent: it lists exactly the hosts that are
  not info hosts, in display order (none when the hosts could not be read or a source panicked);
  looking a host up by id finds its own entry and nothing else has one; every percent is between 0
  and 100 with the level that belongs to it, and a host without data is at unknown and 0 percent; and
  the snapshot says it has data exactly when some host does.\<close>

theorem safeBuild_consistent:
  assumes "case inv_Hosts of Answer hosts \<Rightarrow> distinct (map h_ID hosts) | _ \<Rightarrow> True"
  shows "let snap = fst (safeBuild P now cfg inv_Hosts inv_Nodes pres c);
             listed = (case (inv_Hosts, fst (build P now cfg inv_Hosts inv_Nodes pres c)) of
                 (Answer hosts, Some _) \<Rightarrow> filter (\<lambda>h. \<not> IsInfo (h_Remark h)) hosts | _ \<Rightarrow> [])
    in sn_At snap = now \<and> map hl_HostID (sn_Hosts snap) = map h_ID listed
     \<and> (\<forall>i < length listed. Snapshot_For (Some snap) (h_ID (listed ! i)) = Some (sn_Hosts snap ! i))
     \<and> (\<forall>hid. hid \<notin> h_ID ` set listed \<longrightarrow> Snapshot_For (Some snap) hid = None)
     \<and> (\<forall>hl \<in> set (sn_Hosts snap). load_ok hl) \<and> HasData (Some snap) = (\<exists>hl \<in> set (sn_Hosts snap). hl_Known hl)"
proof -
  define snap where "snap = fst (safeBuild P now cfg inv_Hosts inv_Nodes pres c)"
  define listed where "listed = (case (inv_Hosts, fst (build P now cfg inv_Hosts inv_Nodes pres c)) of
                 (Answer hosts, Some _) \<Rightarrow> filter (\<lambda>h. \<not> IsInfo (h_Remark h)) hosts | _ \<Rightarrow> [])"
  have ok: "snap_ok listed snap" "sn_At snap = now"
    using build_ok [OF assms, of P now cfg inv_Nodes pres c, unfolded Let_def, folded snap_def listed_def] by simp_all
  show ?thesis unfolding Let_def snap_def [symmetric] listed_def [symmetric]
    using ok(2) snap_ok_facts [OF ok(1)] by (intro conjI)
qed

theorem safeBuild_consistent_witness:
  "let hosts = [example_host, example_host\<lparr>h_ID := 2, h_Remark := ''{DATA_LEFT}''\<rparr>];
       snap = fst (safeBuild (\<lambda>_. None) 9 example_cfg (Answer hosts) Failed None newDNSCache)
   in sn_At snap = 9 \<and> map hl_HostID (sn_Hosts snap) = [1] \<and> Snapshot_For (Some snap) 2 = None"
  using safeBuild_consistent [of "Answer [example_host, example_host\<lparr>h_ID := 2, h_Remark := ''{DATA_LEFT}''\<rparr>]" "\<lambda>_. None" 9 example_cfg Failed None newDNSCache]
  by (simp add: build_def example_host_def IsInfo_def UsesLoadVariable_def HasPrefix_def Let_def split_beta)

end
