(* ===== verification/LoadFlight.thy ===== *)
theory LoadFlight
  imports LoadMap
begin

text \<open>
  Serving snapshots of the load map under concurrency (\<open>Snapshot\<close> and \<open>startRefresh\<close> of
  \<open>internal/loadmap/loadmap.go\<close>): any number of callers, one shared atomic pointer, at most one
  rebuild at a time. The atomic actions of the callers and of the rebuilding goroutine are the rules
  of a step relation; a flight is named by a number, and closing its channel puts the number into
  \<open>fs_closed\<close>.
\<close>

datatype phase = Building | Stored | Cleared

record flight_state =
  fs_snap :: "Snapshot option"
  fs_flight :: "nat option"
  fs_routines :: "nat \<rightharpoonup> phase"
  fs_closed :: "nat list"
  fs_next :: nat
  fs_waiting :: "(nat \<times> nat) list"
  fs_returned :: "(nat \<times> Snapshot) list"

definition init_flight :: flight_state where
  "init_flight = \<lparr>fs_snap = None, fs_flight = None, fs_routines = Map.empty, fs_closed = [], fs_next = 0, fs_waiting = [], fs_returned = []\<rparr>"

definition startRefresh :: "flight_state \<Rightarrow> nat \<times> flight_state" where
  "startRefresh st =
     (case fs_flight st of
        Some f \<Rightarrow> (f, st)
      | None \<Rightarrow> (fs_next st, st\<lparr>fs_flight := Some (fs_next st), fs_routines := (fs_routines st)(fs_next st \<mapsto> Building),
                               fs_next := fs_next st + 1\<rparr>))"

text \<open>The first part of a call, up to the point where it returns or waits for a flight.\<close>

definition Snapshot_enter :: "lm_Config \<Rightarrow> instant \<Rightarrow> nat \<Rightarrow> flight_state \<Rightarrow> flight_state" where
  "Snapshot_enter cfg now caller st =
     (let wait = (let (f, st) = startRefresh st in st\<lparr>fs_waiting := (caller, f) # fs_waiting st\<rparr>)
      in case fs_snap st of
           None \<Rightarrow> wait
         | Some s \<Rightarrow>
             if now - sn_At s < cfg_TTL cfg then st\<lparr>fs_returned := (caller, s) # fs_returned st\<rparr>
             else if now - sn_At s < maxStale
             then (let (_, st) = startRefresh st in st\<lparr>fs_returned := (caller, s) # fs_returned st\<rparr>)
             else wait)"

text \<open>The last part: after the channel was closed or the caller's context ended.\<close>

definition Snapshot_leave :: "lm_Config \<Rightarrow> instant \<Rightarrow> nat \<Rightarrow> nat \<Rightarrow> flight_state \<Rightarrow> flight_state" where
  "Snapshot_leave cfg now caller f st =
     (let s = (case fs_snap st of Some s \<Rightarrow> s | None \<Rightarrow> emptySnapshot (cfg_Capacity cfg) now)
      in st\<lparr>fs_waiting := remove1 (caller, f) (fs_waiting st), fs_returned := (caller, s) # fs_returned st\<rparr>)"

definition goroutine_store :: "nat \<Rightarrow> Snapshot \<Rightarrow> flight_state \<Rightarrow> flight_state" where
  "goroutine_store f s st = st\<lparr>fs_snap := Some s, fs_routines := (fs_routines st)(f \<mapsto> Stored)\<rparr>"

definition goroutine_clear :: "nat \<Rightarrow> flight_state \<Rightarrow> flight_state" where
  "goroutine_clear f st = st\<lparr>fs_flight := None, fs_routines := (fs_routines st)(f \<mapsto> Cleared)\<rparr>"

definition goroutine_close :: "nat \<Rightarrow> flight_state \<Rightarrow> flight_state" where
  "goroutine_close f st = st\<lparr>fs_closed := f # fs_closed st, fs_routines := (fs_routines st)(f := None)\<rparr>"

datatype flight_event = Entered | Left_woken | Left_cancelled | Progress nat

inductive flight_step :: "lm_Config \<Rightarrow> flight_state \<Rightarrow> flight_event \<Rightarrow> flight_state \<Rightarrow> bool" for cfg where
  enter: "flight_step cfg st Entered (Snapshot_enter cfg now caller st)"
| wake: "(caller, f) \<in> set (fs_waiting st) \<Longrightarrow> f \<in> set (fs_closed st)
    \<Longrightarrow> flight_step cfg st Left_woken (Snapshot_leave cfg now caller f st)"
| cancel: "(caller, f) \<in> set (fs_waiting st) \<Longrightarrow> flight_step cfg st Left_cancelled (Snapshot_leave cfg now caller f st)"
| store: "fs_routines st f = Some Building
    \<Longrightarrow> flight_step cfg st (Progress f) (goroutine_store f (fst (safeBuild P now cfg inv_Hosts inv_Nodes pres c)) st)"
| clear: "fs_routines st f = Some Stored \<Longrightarrow> flight_step cfg st (Progress f) (goroutine_clear f st)"
| close: "fs_routines st f = Some Cleared \<Longrightarrow> flight_step cfg st (Progress f) (goroutine_close f st)"

inductive_cases flight_stepE: "flight_step cfg st ev st'"

inductive flight_reachable :: "lm_Config \<Rightarrow> flight_state \<Rightarrow> bool" for cfg where
  init: "flight_reachable cfg init_flight"
| step: "flight_reachable cfg st \<Longrightarrow> flight_step cfg st ev st' \<Longrightarrow> flight_reachable cfg st'"

section \<open>The invariant\<close>

abbreviation active :: "flight_state \<Rightarrow> nat \<Rightarrow> bool" where
  "active st f \<equiv> fs_routines st f = Some Building \<or> fs_routines st f = Some Stored"

definition flight_inv :: "flight_state \<Rightarrow> bool" where
  "flight_inv st \<longleftrightarrow>
     (\<forall>f. fs_next st \<le> f \<longrightarrow> fs_routines st f = None \<and> f \<notin> set (fs_closed st)) \<and>
     (\<forall>f. active st f \<longleftrightarrow> fs_flight st = Some f) \<and>
     (\<forall>f. fs_routines st f = Some Stored \<or> fs_routines st f = Some Cleared \<or> f \<in> set (fs_closed st) \<longrightarrow> fs_snap st \<noteq> None) \<and>
     (\<forall>(caller, f) \<in> set (fs_waiting st). f \<in> set (fs_closed st) \<or> fs_routines st f \<noteq> None)"

lemma flight_inv_init: "flight_inv init_flight"
  by (simp add: flight_inv_def init_flight_def)

lemma flight_inv_startRefresh:
  assumes "flight_inv st" and "startRefresh st = (f, st')"
  shows "flight_inv st'" and "fs_routines st' f \<noteq> None"
proof -
  have "flight_inv st' \<and> fs_routines st' f \<noteq> None"
  proof (cases "fs_flight st")
    case None
    then have f: "f = fs_next st" and st': "st' = st\<lparr>fs_flight := Some (fs_next st),
        fs_routines := (fs_routines st)(fs_next st \<mapsto> Building), fs_next := fs_next st + 1\<rparr>"
      using assms(2) by (auto simp: startRefresh_def)
    show ?thesis using assms(1) None unfolding f st' flight_inv_def by (simp add: split_beta)
  next
    case (Some g)
    then have "active st g" using assms(1) by (simp add: flight_inv_def)
    then show ?thesis using assms Some by (auto simp: startRefresh_def)
  qed
  then show "flight_inv st'" "fs_routines st' f \<noteq> None" by blast+
qed

lemma flight_inv_frame:
  "flight_inv (st\<lparr>fs_returned := r\<rparr>) = flight_inv st"
  "flight_inv st \<Longrightarrow> set w \<subseteq> set (fs_waiting st) \<Longrightarrow> flight_inv (st\<lparr>fs_waiting := w, fs_returned := r\<rparr>)"
  "flight_inv st \<Longrightarrow> fs_routines st f \<noteq> None \<Longrightarrow> flight_inv (st\<lparr>fs_waiting := (caller, f) # fs_waiting st\<rparr>)"
  by (auto simp: flight_inv_def)

lemma flight_inv_enter [state_inv]: "flight_inv st \<Longrightarrow> flight_inv (Snapshot_enter cfg now caller st)"
proof -
  assume inv: "flight_inv st"
  obtain f st1 where sr: "startRefresh st = (f, st1)" by fastforce
  note r = flight_inv_startRefresh [OF inv sr]
  have "flight_inv (st1\<lparr>fs_waiting := (caller, f) # fs_waiting st1\<rparr>)" using r by (rule flight_inv_frame(3))
  then show ?thesis using inv r(1) sr by (simp add: Snapshot_enter_def Let_def flight_inv_frame(1) split: option.splits)
qed

lemma flight_inv_leave [state_inv]: "flight_inv st \<Longrightarrow> flight_inv (Snapshot_leave cfg now caller f st)"
  by (simp add: Snapshot_leave_def Let_def flight_inv_frame(2) set_remove1_subset)

lemma flight_inv_store [state_inv]: "flight_inv st \<Longrightarrow> fs_routines st f = Some Building \<Longrightarrow> flight_inv (goroutine_store f s st)"
  by (auto simp: flight_inv_def goroutine_store_def)

lemma active_unique: "flight_inv st \<Longrightarrow> active st f \<Longrightarrow> active st g \<Longrightarrow> g = f"
  by (auto simp: flight_inv_def)

lemma flight_inv_clear [state_inv]:
  assumes "flight_inv st" and "fs_routines st f = Some Stored"
  shows "flight_inv (goroutine_clear f st)"
proof -
  have "\<not> active st g" if "g \<noteq> f" for g using active_unique [OF assms(1), of f g] assms(2) that by blast
  then show ?thesis using assms by (auto simp: flight_inv_def goroutine_clear_def)
qed

lemma flight_inv_close [state_inv]:
  assumes "flight_inv st" and "fs_routines st f = Some Cleared"
  shows "flight_inv (goroutine_close f st)"
proof -
  have "active st f \<longleftrightarrow> fs_flight st = Some f" using assms(1) by (simp only: flight_inv_def)
  then have "fs_flight st \<noteq> Some f" using assms(2) by simp
  then show ?thesis using assms by (auto simp: flight_inv_def goroutine_close_def)
qed

lemma flight_inv_step: "flight_step cfg st ev st' \<Longrightarrow> flight_inv st \<Longrightarrow> flight_inv st'"
  by (induction rule: flight_step.induct) (simp_all add: state_inv)

lemma flight_inv_reachable: "flight_reachable cfg st \<Longrightarrow> flight_inv st"
  by (induction rule: flight_reachable.induct) (auto simp: flight_inv_init dest: flight_inv_step)

section \<open>No caller waits in vain\<close>

abbreviation own_steps :: "lm_Config \<Rightarrow> nat \<Rightarrow> nat \<Rightarrow> flight_state \<Rightarrow> flight_state \<Rightarrow> bool" where
  "own_steps cfg f n \<equiv> (\<lambda>st st'. flight_step cfg st (Progress f) st') ^^ n"

lemma close_in_one: "fs_routines st f = Some Cleared \<Longrightarrow> \<exists>st'. own_steps cfg f 1 st st' \<and> f \<in> set (fs_closed st')"
  using flight_step.close [of st f cfg] by (auto simp: goroutine_close_def)

lemma own_steps_Suc: "flight_step cfg st (Progress f) st1 \<Longrightarrow> own_steps cfg f n st1 st' \<Longrightarrow> own_steps cfg f (Suc n) st st'"
  by (rule relpowp_Suc_I2)

lemma close_in_two: "fs_routines st f = Some Stored \<Longrightarrow> \<exists>st'. own_steps cfg f 2 st st' \<and> f \<in> set (fs_closed st')"
  using close_in_one [of "goroutine_clear f st" f cfg] flight_step.clear [of st f cfg] own_steps_Suc [of cfg st f _ 1]
  by (auto simp: numeral_2_eq_2 goroutine_clear_def)

lemma close_in_three: "fs_routines st f = Some Building \<Longrightarrow> \<exists>st'. own_steps cfg f 3 st st' \<and> f \<in> set (fs_closed st')"
  using close_in_two [of "goroutine_store f (fst (safeBuild (\<lambda>_. None) 0 cfg Failed Failed None newDNSCache)) st" f cfg]
    flight_step.store [of st f cfg "\<lambda>_. None" 0 Failed Failed None newDNSCache] own_steps_Suc [of cfg st f _ 2]
  by (auto simp: numeral_3_eq_3 numeral_2_eq_2 goroutine_store_def)

lemma flight_closes:
  assumes "fs_routines st f \<noteq> None"
  shows "\<exists>n \<le> 3. \<exists>st'. own_steps cfg f n st st' \<and> f \<in> set (fs_closed st')"
proof -
  obtain ph where "fs_routines st f = Some ph" using assms by blast
  then show ?thesis
  proof (cases ph)
    case Building
    then show ?thesis using \<open>fs_routines st f = Some ph\<close> close_in_three [of st f cfg] by auto
  next
    case Stored
    then show ?thesis using \<open>fs_routines st f = Some ph\<close> close_in_two [of st f cfg] by (intro exI [of _ 2]) auto
  next
    case Cleared
    then show ?thesis using \<open>fs_routines st f = Some ph\<close> close_in_one [of st f cfg] by (intro exI [of _ 1]) auto
  qed
qed

text \<open>C37. Serving snapshots under concurrency, in every reachable state. At most one rebuild is under
  way. A waiting caller is never forgotten: its flight is closed already, or at most three steps of
  that flight's own goroutine close it. A caller that is woken gets a snapshot that was really built,
  never the empty stand-in. And a call that returns at once returns the stored snapshot, less than
  ten seconds old.\<close>

theorem snapshot_single_flight:
  assumes "flight_reachable cfg st" and "cfg_TTL cfg \<le> maxStale"
  shows "(\<forall>f g. active st f \<and> active st g \<longrightarrow> f = g)
    \<and> (\<forall>(caller, f) \<in> set (fs_waiting st). \<exists>n \<le> 3. \<exists>st'. own_steps cfg f n st st' \<and> f \<in> set (fs_closed st'))
    \<and> (\<forall>caller f now. f \<in> set (fs_closed st) \<longrightarrow>
         (\<exists>s. fs_snap st = Some s \<and> fs_returned (Snapshot_leave cfg now caller f st) = (caller, s) # fs_returned st))
    \<and> (\<forall>caller now. fs_returned (Snapshot_enter cfg now caller st) \<noteq> fs_returned st \<longrightarrow>
         (\<exists>s. fs_snap st = Some s \<and> now - sn_At s < maxStale \<and> fs_returned (Snapshot_enter cfg now caller st) = (caller, s) # fs_returned st))"
proof (intro conjI)
  have inv: "flight_inv st" using assms(1) by (rule flight_inv_reachable)
  show "\<forall>f g. active st f \<and> active st g \<longrightarrow> f = g" using active_unique [OF inv] by blast
  show "\<forall>(caller, f) \<in> set (fs_waiting st). \<exists>n \<le> 3. \<exists>st'. own_steps cfg f n st st' \<and> f \<in> set (fs_closed st')"
  proof (intro ballI, clarify)
    fix caller f assume "(caller, f) \<in> set (fs_waiting st)"
    then have "f \<in> set (fs_closed st) \<or> fs_routines st f \<noteq> None" using inv by (auto simp: flight_inv_def)
    then show "\<exists>n \<le> 3. \<exists>st'. own_steps cfg f n st st' \<and> f \<in> set (fs_closed st')"
    proof
      assume "f \<in> set (fs_closed st)"
      then show ?thesis by (intro exI [of _ 0] conjI exI [of _ st]) auto
    qed (rule flight_closes)
  qed
  show "\<forall>caller f now. f \<in> set (fs_closed st) \<longrightarrow>
      (\<exists>s. fs_snap st = Some s \<and> fs_returned (Snapshot_leave cfg now caller f st) = (caller, s) # fs_returned st)"
    using inv by (auto simp: flight_inv_def Snapshot_leave_def)
  show "\<forall>caller now. fs_returned (Snapshot_enter cfg now caller st) \<noteq> fs_returned st \<longrightarrow>
      (\<exists>s. fs_snap st = Some s \<and> now - sn_At s < maxStale \<and> fs_returned (Snapshot_enter cfg now caller st) = (caller, s) # fs_returned st)"
    using assms(2) by (auto simp: Snapshot_enter_def Let_def startRefresh_def split: option.splits if_splits)
qed

theorem snapshot_single_flight_witness:
  "let st = Snapshot_enter example_cfg 5 2 (Snapshot_enter example_cfg 5 1 init_flight)
   in fs_waiting st = [(2, 0), (1, 0)] \<and> (\<forall>f g. active st f \<and> active st g \<longrightarrow> f = g)
      \<and> (\<exists>n \<le> 3. \<exists>st'. own_steps example_cfg 0 n st st' \<and> 0 \<in> set (fs_closed st'))"
proof -
  let ?st = "Snapshot_enter example_cfg 5 2 (Snapshot_enter example_cfg 5 1 init_flight)"
  have "flight_reachable example_cfg ?st"
    by (rule flight_reachable.step [OF flight_reachable.step [OF flight_reachable.init flight_step.enter] flight_step.enter])
  moreover have "cfg_TTL example_cfg \<le> maxStale" by (simp add: example_cfg_def maxStale_def)
  moreover have w: "fs_waiting ?st = [(2, 0), (1, 0)]" by (simp add: Snapshot_enter_def init_flight_def startRefresh_def)
  ultimately show ?thesis using snapshot_single_flight [of example_cfg ?st] by (simp add: Let_def)
qed

end
