(* ===== verification/SubToken.thy ===== *)
theory SubToken
  imports GoStrings Float64
begin

text \<open>
  Subscription links: the signed token (\<open>internal/subscription/token.go\<close>) and the check that turns
  a token into a user (\<open>loadSubscriptionUser\<close> of \<open>internal/httpapi/subscription.go\<close>). SHA-256,
  HMAC-SHA-256 and the JWT library are arguments; base64 and hex are modelled. Instants count
  nanoseconds since the Unix epoch.
\<close>

section \<open>Base64 and hex\<close>

definition url_alphabet :: string where
  "url_alphabet = ''ABCDEFGHIJKLMNOPQRSTUVWXYZabcdefghijklmnopqrstuvwxyz0123456789-_''"

fun RawURL_Encode :: "string \<Rightarrow> string" where
  "RawURL_Encode [] = []"
| "RawURL_Encode [a] = [url_alphabet ! (byte a div 4), url_alphabet ! (byte a mod 4 * 16)]"
| "RawURL_Encode [a, b] =
     [url_alphabet ! (byte a div 4), url_alphabet ! (byte a mod 4 * 16 + byte b div 16), url_alphabet ! (byte b mod 16 * 4)]"
| "RawURL_Encode (a # b # c # s) =
     [url_alphabet ! (byte a div 4), url_alphabet ! (byte a mod 4 * 16 + byte b div 16),
      url_alphabet ! (byte b mod 16 * 4 + byte c div 64), url_alphabet ! (byte c mod 64)] @ RawURL_Encode s"

fun b64_groups :: "nat list \<Rightarrow> string option" where
  "b64_groups [] = Some []"
| "b64_groups [x] = None"
| "b64_groups [x, y] = Some [char_of (x * 4 + y div 16)]"
| "b64_groups [x, y, z] = Some [char_of (x * 4 + y div 16), char_of (y mod 16 * 16 + z div 4)]"
| "b64_groups (x # y # z # w # vs) =
     map_option (\<lambda>s. char_of (x * 4 + y div 16) # char_of (y mod 16 * 16 + z div 4) # char_of (z mod 4 * 64 + w) # s) (b64_groups vs)"

text \<open>\<open>RawURLEncoding.DecodeString\<close>: line breaks are skipped, any other character outside the alphabet
  is an error, and so is a last group of one character; unused trailing bits are not checked.\<close>

definition RawURL_Decode :: "string \<Rightarrow> string option" where
  "RawURL_Decode s =
     Option.bind (those (map (IndexByte url_alphabet) (filter (\<lambda>c. c \<noteq> CHR 0x0A \<and> c \<noteq> CHR 0x0D) s))) b64_groups"

definition hex_digits :: string where "hex_digits = ''0123456789abcdef''"

definition hex_Encode :: "string \<Rightarrow> string" where
  "hex_Encode s = concat (map (\<lambda>c. [hex_digits ! (byte c div 16), hex_digits ! (byte c mod 16)]) s)"

section \<open>Tokens\<close>

record TokenClaims =
  tc_ByID :: bool
  tc_UserID :: int
  tc_Username :: string
  tc_CreatedAt :: instant

text \<open>The claims of the JWT library that the code reads: \<open>None\<close> for a claim that is missing or has
  another type.\<close>

record MapClaims =
  mc_access :: "string option"
  mc_sub :: "string option"
  mc_iat :: "rat option"

record crypto =
  cr_sha256 :: "string \<Rightarrow> string"
  cr_hmac :: "string \<Rightarrow> string \<Rightarrow> string"
  cr_jwt :: "string \<Rightarrow> string \<Rightarrow> MapClaims option"

definition sign :: "crypto \<Rightarrow> string \<Rightarrow> string \<Rightarrow> string" where
  "sign cr dataB64 secret = take 10 (RawURL_Encode (cr_sha256 cr (dataB64 @ hex_Encode secret)))"

definition signHex :: "crypto \<Rightarrow> string \<Rightarrow> string \<Rightarrow> string" where
  "signHex cr dataB64 secret = take 10 (hex_Encode (cr_sha256 cr (dataB64 @ hex_Encode secret)))"

definition token_ts :: "instant \<Rightarrow> int" where
  "token_ts now = (if now mod 1000000000 > 0 then now div 1000000000 + 1 else now div 1000000000)"

definition CreateToken :: "crypto \<Rightarrow> instant \<Rightarrow> string \<Rightarrow> string \<Rightarrow> string" where
  "CreateToken cr now username secret =
     (let dataB64 = RawURL_Encode (username @ '','' @ Itoa (token_ts now)) in dataB64 @ sign cr dataB64 secret)"

definition decodeTokenB64 :: "string \<Rightarrow> string option" where
  "decodeTokenB64 s =
     (let s = map (\<lambda>c. if c = CHR ''+'' then CHR ''-'' else if c = CHR ''/'' then CHR ''_'' else c) (TrimRight s ''='')
      in case RawURL_Decode s of None \<Rightarrow> None | Some b \<Rightarrow> if utf8_Valid b then Some b else None)"

definition time_Unix :: "int \<Rightarrow> int \<Rightarrow> instant" where
  "time_Unix sec nsec = sec * 1000000000 + nsec"

definition parseTokenPayload :: "string \<Rightarrow> TokenClaims option" where
  "parseTokenPayload dataB64 =
     (case decodeTokenB64 dataB64 of
        None \<Rightarrow> None
      | Some raw \<Rightarrow>
          (case Split (CHR '','') raw of
             [v, n, t] \<Rightarrow>
               if v = ''v2'' \<or> v = ''v3''
               then (case (ParseInt64 n, ParseInt64 t) of
                       (Some uid, Some ts) \<Rightarrow> Some \<lparr>tc_ByID = True, tc_UserID = uid, tc_Username = [], tc_CreatedAt = time_Unix ts 0\<rparr>
                     | _ \<Rightarrow> None)
               else None
           | [u, t] \<Rightarrow>
               (case ParseInt64 t of
                  Some ts \<Rightarrow> Some \<lparr>tc_ByID = False, tc_UserID = 0, tc_Username = u, tc_CreatedAt = time_Unix ts 0\<rparr>
                | None \<Rightarrow> None)
           | _ \<Rightarrow> None))"

definition parseJWTToken :: "crypto \<Rightarrow> string \<Rightarrow> string \<Rightarrow> TokenClaims option" where
  "parseJWTToken cr token key =
     (case cr_jwt cr token key of
        None \<Rightarrow> None
      | Some claims \<Rightarrow>
          if mc_access claims \<noteq> Some ''subscription'' then None
          else (case (mc_sub claims, mc_iat claims) of
                  (Some username, Some iat) \<Rightarrow>
                    if username = [] then None
                    else Some \<lparr>tc_ByID = False, tc_UserID = 0, tc_Username = username,
                           tc_CreatedAt = time_Unix (int64_of iat) (int64_of (fl (fl (iat - of_int (trunc iat)) * 1000000000)))\<rparr>
                | _ \<Rightarrow> None))"

definition jwtSubscriptionPrefix :: string where
  "jwtSubscriptionPrefix = ''eyJhbGciOiJIUzI1NiIsInR5cCI6IkpXVCJ9.''"

definition ParseToken :: "crypto \<Rightarrow> string \<Rightarrow> string \<Rightarrow> TokenClaims option" where
  "ParseToken cr token secret =
     (if length token < 15 then None
      else let key = hex_Encode secret
      in if HasPrefix token jwtSubscriptionPrefix then parseJWTToken cr token key
         else case LastIndexByte token (CHR ''.'') of
           Some pos \<Rightarrow>
             (let dataB64 = take pos token; signature = drop (pos + 1) token
              in if signature \<noteq> RawURL_Encode (cr_hmac cr key dataB64) then None else parseTokenPayload dataB64)
         | None \<Rightarrow>
             (let dataB64 = take (length token - 10) token; signature = drop (length token - 10) token
              in if signature \<noteq> sign cr dataB64 secret \<and> signature \<noteq> signHex cr dataB64 secret then None
                 else parseTokenPayload dataB64))"

section \<open>From a token to a user\<close>

text \<open>\<open>validUsername\<close> of \<open>internal/httpapi/user.go\<close>, which every created user has passed.\<close>

definition word_char :: "char \<Rightarrow> bool" where
  "word_char c \<longleftrightarrow> c = CHR ''_'' \<or> (97 \<le> byte c \<and> byte c \<le> 122) \<or> (65 \<le> byte c \<and> byte c \<le> 90) \<or> (48 \<le> byte c \<and> byte c \<le> 57)"

definition validUsername :: "string \<Rightarrow> bool" where
  "validUsername s \<longleftrightarrow>
     s \<noteq> [] \<and> list_all (\<lambda>c. word_char c \<or> c = CHR ''@'' \<or> c = CHR ''.'' \<or> c = CHR ''-'') s \<and>
     3 \<le> length (takeWhile word_char s) \<and> length (takeWhile word_char s) \<le> 32"

record sub_user =
  su_id :: int
  su_username :: string
  su_created_at :: "instant option"
  su_revoked_at :: "instant option"

text \<open>The two lookups answer \<open>None\<close> for no row or an error; both are answered with 404.\<close>

definition loadSubscriptionUser ::
  "crypto \<Rightarrow> string \<Rightarrow> (int \<Rightarrow> sub_user option) \<Rightarrow> (string \<Rightarrow> sub_user option) \<Rightarrow> string \<Rightarrow> sub_user option" where
  "loadSubscriptionUser cr jwtSecret GetUserByID GetUserByUsername token =
     (case ParseToken cr token jwtSecret of
        None \<Rightarrow> None
      | Some claims \<Rightarrow>
          (case (if tc_ByID claims \<and> tc_UserID claims \<ge> 1 \<and> tc_UserID claims \<le> 2147483647 then GetUserByID (tc_UserID claims)
                 else if \<not> tc_ByID claims \<and> tc_Username claims \<noteq> [] then GetUserByUsername (tc_Username claims)
                 else None) of
             None \<Rightarrow> None
           | Some user \<Rightarrow>
               if (case su_created_at user of Some t \<Rightarrow> t > tc_CreatedAt claims | None \<Rightarrow> False) then None
               else if (case su_revoked_at user of Some t \<Rightarrow> t > tc_CreatedAt claims | None \<Rightarrow> False) then None
               else Some user))"

section \<open>Encodings\<close>

lemma length_url_alphabet [simp]: "length url_alphabet = 64"
  by (simp add: url_alphabet_def)

lemma url_alphabet_index: "n < 64 \<Longrightarrow> IndexByte url_alphabet (url_alphabet ! n) = Some n"
proof -
  have "\<forall>n \<in> set [0..<64]. IndexByte url_alphabet (url_alphabet ! n) = Some n" by code_simp
  then show "n < 64 \<Longrightarrow> ?thesis" by simp
qed

lemma url_alphabet_not: "c \<in> {CHR ''.'', CHR ''='', CHR ''+'', CHR ''/'', CHR 0x0A, CHR 0x0D} \<Longrightarrow> c \<notin> set url_alphabet"
  by (auto simp: url_alphabet_def)

lemma length_RawURL_Encode: "length (RawURL_Encode s) = (4 * length s + 2) div 3"
  by (induction s rule: RawURL_Encode.induct) auto

lemma those_map_nth:
  "(\<And>n. n \<in> set ns \<Longrightarrow> n < 64) \<Longrightarrow> those (map (\<lambda>n. IndexByte url_alphabet (url_alphabet ! n)) ns) = Some ns"
  by (induction ns) (auto simp: url_alphabet_index)

text \<open>The sextets of a byte string, and that grouping them gives the bytes back.\<close>

fun sextets :: "string \<Rightarrow> nat list" where
  "sextets [] = []"
| "sextets [a] = [byte a div 4, byte a mod 4 * 16]"
| "sextets [a, b] = [byte a div 4, byte a mod 4 * 16 + byte b div 16, byte b mod 16 * 4]"
| "sextets (a # b # c # s) =
     [byte a div 4, byte a mod 4 * 16 + byte b div 16, byte b mod 16 * 4 + byte c div 64, byte c mod 64] @ sextets s"

lemma byte_less: "byte c < 256"
  using range_nat_of_char by (metis atLeastLessThan_iff rangeI)

lemma byte_parts: "byte c div 4 < 64" "byte c div 16 < 16" "byte c div 64 < 4"
  using byte_less [of c] by (simp_all add: less_mult_imp_div_less)

lemma sextet_bounds:
  "byte a mod 4 * 16 + byte b div 16 < 64" "byte b mod 16 * 4 + byte c div 64 < 64" "byte a mod 4 * 16 < 64" "byte b mod 16 * 4 < 64"
  using byte_parts [of b] byte_parts [of c] mod_less_divisor [of 4 "byte a"] mod_less_divisor [of 16 "byte b"] by linarith+

lemma sextets_less: "n \<in> set (sextets s) \<Longrightarrow> n < 64"
  by (induction s rule: sextets.induct) (auto simp: byte_parts sextet_bounds)

lemma RawURL_Encode_sextets: "RawURL_Encode s = map (\<lambda>n. url_alphabet ! n) (sextets s)"
  by (induction s rule: sextets.induct) auto

lemma RawURL_Encode_chars: "set (RawURL_Encode s) \<subseteq> set url_alphabet"
  using sextets_less [of _ s] by (auto simp: RawURL_Encode_sextets intro!: nth_mem)

lemma sextet_first: "a div 4 * 4 + (a mod 4 * 16 + b) div 16 = a" if "b < 16" for a b :: nat
  using that by simp

lemma b64_groups_sextets: "b64_groups (sextets s) = Some s"
proof (induction s rule: sextets.induct)
  case (2 a)
  then show ?case by simp
next
  case (3 a b)
  show ?case using byte_parts [of b] by simp
next
  case (4 a b c s)
  show ?case using 4 byte_parts [of b] byte_parts [of c] by simp
qed simp

lemma Decode_Encode: "RawURL_Decode (RawURL_Encode s) = Some s"
proof -
  have "filter (\<lambda>c. c \<noteq> CHR 0x0A \<and> c \<noteq> CHR 0x0D) (RawURL_Encode s) = RawURL_Encode s"
    using RawURL_Encode_chars [of s] url_alphabet_not by (intro filter_True) auto
  then show ?thesis
    using those_map_nth [of "sextets s"] sextets_less
    by (simp add: RawURL_Decode_def RawURL_Encode_sextets b64_groups_sextets comp_def)
qed

section \<open>Tokens and back\<close>

lemma Encode_ends:
  assumes "c \<in> {CHR ''.'', CHR ''='', CHR ''+'', CHR ''/''}"
  shows "c \<notin> set (RawURL_Encode s)"
  using assms RawURL_Encode_chars [of s] url_alphabet_not [of c] by blast

lemma TrimRight_notin: "set s \<inter> set cutset = {} \<Longrightarrow> TrimRight s cutset = s"
  by (cases s rule: rev_cases) (auto simp: TrimRight_def)

lemma decodeTokenB64_Encode:
  assumes "utf8_Valid s"
  shows "decodeTokenB64 (RawURL_Encode s) = Some s"
proof -
  have "TrimRight (RawURL_Encode s) ''='' = RawURL_Encode s" using Encode_ends [of "CHR ''=''" s] by (intro TrimRight_notin) auto
  moreover have "map (\<lambda>c. if c = CHR ''+'' then CHR ''-'' else if c = CHR ''/'' then CHR ''_'' else c) (RawURL_Encode s) = RawURL_Encode s"
    using Encode_ends [of "CHR ''+''" s] Encode_ends [of "CHR ''/''" s] by (intro map_idI) auto
  ultimately show ?thesis using assms Decode_Encode by (simp add: decodeTokenB64_def Let_def)
qed

lemma ascii_Itoa: "c \<in> set (Itoa n) \<Longrightarrow> byte c < 128"
  using nat_digits_props [of "nat n"] nat_digits_props [of "nat (- n)"]
  by (auto simp: Itoa_def list_all_iff is_digit_def split: if_splits)

lemma payload_by_name:
  assumes "CHR '','' \<notin> set u" and "\<forall>c \<in> set u. byte c < 128" and "- (2 ^ 63) \<le> ts" "ts < 2 ^ 63"
  shows "parseTokenPayload (RawURL_Encode (u @ '','' @ Itoa ts)) =
    Some \<lparr>tc_ByID = False, tc_UserID = 0, tc_Username = u, tc_CreatedAt = time_Unix ts 0\<rparr>"
proof -
  have "utf8_Valid (u @ '','' @ Itoa ts)" using assms(2) ascii_Itoa by (intro utf8_Valid_ascii) auto
  moreover have "Split (CHR '','') (u @ '','' @ Itoa ts) = [u, Itoa ts]"
    using assms(1) Split_append [of "CHR '',''" u "Itoa ts"] Itoa_no_comma by simp
  ultimately show ?thesis using ParseInt64_Itoa [OF assms(3,4)]
    by (simp add: parseTokenPayload_def decodeTokenB64_Encode del: append.simps)
qed

lemma payload_by_id:
  assumes "v = ''v2'' \<or> v = ''v3''" and "- (2 ^ 63) \<le> uid" "uid < 2 ^ 63" and "- (2 ^ 63) \<le> ts" "ts < 2 ^ 63"
  shows "parseTokenPayload (RawURL_Encode (v @ '','' @ Itoa uid @ '','' @ Itoa ts)) =
    Some \<lparr>tc_ByID = True, tc_UserID = uid, tc_Username = [], tc_CreatedAt = time_Unix ts 0\<rparr>"
proof -
  have v: "CHR '','' \<notin> set v" "\<forall>c \<in> set v. byte c < 128" using assms(1) by auto
  have "utf8_Valid (v @ '','' @ Itoa uid @ '','' @ Itoa ts)" using v(2) ascii_Itoa by (intro utf8_Valid_ascii) auto
  moreover have "Split (CHR '','') (v @ '','' @ Itoa uid @ '','' @ Itoa ts) = [v, Itoa uid, Itoa ts]"
    using v(1) Split_append [of "CHR '',''" v "Itoa uid @ '','' @ Itoa ts"] Split_append [of "CHR '',''" "Itoa uid" "Itoa ts"] Itoa_no_comma
    by simp
  ultimately show ?thesis using ParseInt64_Itoa [OF assms(2,3)] ParseInt64_Itoa [OF assms(4,5)] assms(1)
    by (simp add: parseTokenPayload_def decodeTokenB64_Encode del: append.simps)
qed

lemma hex_chars: "set (hex_Encode s) \<subseteq> set hex_digits"
proof -
  have "byte c div 16 < length hex_digits" "byte c mod 16 < length hex_digits" for c
    using byte_parts(2) [of c] by (simp_all add: hex_digits_def)
  then show ?thesis by (auto simp: hex_Encode_def intro!: nth_mem)
qed

lemma length_hex: "length (hex_Encode s) = 2 * length s"
  by (induction s) (simp_all add: hex_Encode_def)

lemma signatures:
  assumes "length (cr_sha256 cr (d @ hex_Encode secret)) = 32" and "sig = sign cr d secret \<or> sig = signHex cr d secret"
  shows "length sig = 10" and "CHR ''.'' \<notin> set sig"
proof -
  show "length sig = 10" using assms by (auto simp: sign_def signHex_def length_RawURL_Encode length_hex)
  have "CHR ''.'' \<notin> set (RawURL_Encode h)" "CHR ''.'' \<notin> set (hex_Encode h)" for h
    using Encode_ends [of "CHR ''.''" h] hex_chars [of h] by (auto simp: hex_digits_def)
  then show "CHR ''.'' \<notin> set sig" using assms(2) by (auto simp: sign_def signHex_def dest: in_set_takeD)
qed

lemma not_jwt: "CHR ''.'' \<notin> set token \<Longrightarrow> \<not> HasPrefix token jwtSubscriptionPrefix"
  by (auto simp: HasPrefix_iff jwtSubscriptionPrefix_def)

lemma ParseToken_plain:
  assumes "length (cr_sha256 cr (RawURL_Encode raw @ hex_Encode secret)) = 32" and "4 \<le> length raw"
    and "sig = sign cr (RawURL_Encode raw) secret \<or> sig = signHex cr (RawURL_Encode raw) secret"
  shows "ParseToken cr (RawURL_Encode raw @ sig) secret = parseTokenPayload (RawURL_Encode raw)"
proof -
  note sig = signatures [OF assms(1,3)]
  define token where "token = RawURL_Encode raw @ sig"
  have nodot: "CHR ''.'' \<notin> set token" using sig(2) Encode_ends [of "CHR ''.''" raw] by (simp add: token_def)
  have "15 \<le> length token" using sig(1) assms(2) by (simp add: token_def length_RawURL_Encode)
  moreover have "LastIndexByte token (CHR ''.'') = None" using nodot by simp
  moreover have "take (length token - 10) token = RawURL_Encode raw" "drop (length token - 10) token = sig"
    using sig(1) by (simp_all add: token_def)
  ultimately show ?thesis using not_jwt [OF nodot] assms(3) by (auto simp: ParseToken_def Let_def simp del: LastIndexByte_None simp flip: token_def)
qed

lemma ParseToken_hmac:
  assumes "length (cr_hmac cr (hex_Encode secret) (RawURL_Encode raw)) = 32" and "\<not> HasPrefix (RawURL_Encode raw) ''e''"
  shows "ParseToken cr (RawURL_Encode raw @ ''.'' @ RawURL_Encode (cr_hmac cr (hex_Encode secret) (RawURL_Encode raw))) secret =
    parseTokenPayload (RawURL_Encode raw)"
proof -
  define d where "d = RawURL_Encode raw"
  define sig where "sig = RawURL_Encode (cr_hmac cr (hex_Encode secret) d)"
  have len: "length sig = 43" using assms(1) by (simp add: sig_def d_def length_RawURL_Encode)
  have pos: "LastIndexByte (d @ ''.'' @ sig) (CHR ''.'') = Some (length d)"
    using LastIndexByte_append_notin [of "CHR ''.''" sig d] Encode_ends [of "CHR ''.''"] by (simp add: sig_def)
  have "\<not> HasPrefix (d @ ''.'' @ sig) jwtSubscriptionPrefix"
    using assms(2) by (cases d) (auto simp: HasPrefix_iff jwtSubscriptionPrefix_def d_def)
  then show ?thesis using pos len by (simp add: ParseToken_def Let_def sig_def flip: d_def)
qed

lemma token_ts_bounds: "now \<le> time_Unix (token_ts now) 0" "time_Unix (token_ts now) 0 < now + 1000000000"
proof -
  have "now = now div 1000000000 * 1000000000 + now mod 1000000000" by simp
  moreover have "0 \<le> now mod 1000000000" "now mod 1000000000 < 1000000000" by simp_all
  ultimately show "now \<le> time_Unix (token_ts now) 0" "time_Unix (token_ts now) 0 < now + 1000000000"
    by (cases "now mod 1000000000 > 0"; simp add: time_Unix_def token_ts_def; linarith)+
qed

lemma token_ts_range: "0 \<le> now \<Longrightarrow> now < 2 ^ 63 \<Longrightarrow> - (2 ^ 63) \<le> token_ts now \<and> token_ts now < 2 ^ 63"
  using token_ts_bounds [of now] by (auto simp: time_Unix_def)

lemma validUsername_props:
  assumes "validUsername u"
  shows "3 \<le> length u" and "u \<noteq> []" and "CHR '','' \<notin> set u" and "\<forall>c \<in> set u. byte c < 128"
proof -
  show "3 \<le> length u" using assms length_takeWhile_le [of word_char u] by (simp add: validUsername_def)
  have "\<forall>c \<in> set u. word_char c \<or> c = CHR ''@'' \<or> c = CHR ''.'' \<or> c = CHR ''-''" using assms by (simp add: validUsername_def list_all_iff)
  then have ok: "word_char c \<or> c = CHR ''@'' \<or> c = CHR ''.'' \<or> c = CHR ''-''" if "c \<in> set u" for c using that by blast
  show "CHR '','' \<notin> set u"
  proof
    assume "CHR '','' \<in> set u"
    from ok [OF this] show False by (simp add: word_char_def)
  qed
  have "byte c < 128" if "word_char c" for c using that by (auto simp: word_char_def)
  then show "\<forall>c \<in> set u. byte c < 128" using ok by fastforce
  show "u \<noteq> []" using assms by (simp add: validUsername_def)
qed

definition hash_sizes :: "crypto \<Rightarrow> bool" where
  "hash_sizes cr \<longleftrightarrow> (\<forall>x. length (cr_sha256 cr x) = 32) \<and> (\<forall>k x. length (cr_hmac cr k x) = 32)"

lemma ParseToken_CreateToken:
  assumes "hash_sizes cr" and "validUsername u" and "0 \<le> now" and "now < 2 ^ 63"
  shows "ParseToken cr (CreateToken cr now u secret) secret =
    Some \<lparr>tc_ByID = False, tc_UserID = 0, tc_Username = u, tc_CreatedAt = time_Unix (token_ts now) 0\<rparr>"
  using ParseToken_plain [of cr "u @ '','' @ Itoa (token_ts now)" secret "sign cr (RawURL_Encode (u @ '','' @ Itoa (token_ts now))) secret"]
    payload_by_name [of u "token_ts now"] validUsername_props [OF assms(2)] token_ts_range [OF assms(3,4)] assms(1)
  by (simp add: CreateToken_def Let_def hash_sizes_def)

text \<open>Every kind of subscription link is read back as what it names. A link this panel issues for a
  valid username at any time parses to that username with the issue time rounded up to a whole
  second; so does one with the older hex signature; and a link in the format of the panel it
  replaces, naming a user by number, parses to that number with its time, both with the short
  signature and with the HMAC.\<close>

theorem token_round_trip:
  assumes "hash_sizes cr" and "validUsername u" and "0 \<le> now" and "now < 2 ^ 63"
    and "v = ''v2'' \<or> v = ''v3''" and "0 \<le> uid" and "uid < 2 ^ 63" and "0 \<le> ts" and "ts < 2 ^ 63"
  shows "let d = RawURL_Encode (u @ '','' @ Itoa (token_ts now)); e = RawURL_Encode (v @ '','' @ Itoa uid @ '','' @ Itoa ts);
             named = \<lparr>tc_ByID = False, tc_UserID = 0, tc_Username = u, tc_CreatedAt = time_Unix (token_ts now) 0\<rparr>;
             numbered = \<lparr>tc_ByID = True, tc_UserID = uid, tc_Username = [], tc_CreatedAt = time_Unix ts 0\<rparr>
    in ParseToken cr (CreateToken cr now u secret) secret = Some named
     \<and> ParseToken cr (d @ signHex cr d secret) secret = Some named
     \<and> ParseToken cr (e @ sign cr e secret) secret = Some numbered
     \<and> ParseToken cr (e @ ''.'' @ RawURL_Encode (cr_hmac cr (hex_Encode secret) e)) secret = Some numbered
     \<and> now \<le> tc_CreatedAt named \<and> tc_CreatedAt named < now + 1000000000"
proof -
  let ?u = "u @ '','' @ Itoa (token_ts now)" and ?v = "v @ '','' @ Itoa uid @ '','' @ Itoa ts"
  have sizes: "\<And>x. length (cr_sha256 cr x) = 32" "\<And>k x. length (cr_hmac cr k x) = 32" using assms(1) by (simp_all add: hash_sizes_def)
  have long: "4 \<le> length ?u" "4 \<le> length ?v" using validUsername_props(1) [OF assms(2)] assms(5) by auto
  have name: "parseTokenPayload (RawURL_Encode ?u) = Some \<lparr>tc_ByID = False, tc_UserID = 0, tc_Username = u, tc_CreatedAt = time_Unix (token_ts now) 0\<rparr>"
    using payload_by_name validUsername_props [OF assms(2)] token_ts_range [OF assms(3,4)] by blast
  have num: "parseTokenPayload (RawURL_Encode ?v) = Some \<lparr>tc_ByID = True, tc_UserID = uid, tc_Username = [], tc_CreatedAt = time_Unix ts 0\<rparr>"
    using payload_by_id [OF assms(5)] assms(6-9) by simp
  have "\<not> HasPrefix (RawURL_Encode ?v) ''e''"
    using assms(5) by (auto simp: HasPrefix_def url_alphabet_def)
  then show ?thesis unfolding Let_def
    using ParseToken_CreateToken [OF assms(1-4)] ParseToken_plain [OF sizes(1) long(1) disjI2 [OF refl], of secret] name
      ParseToken_plain [OF sizes(1) long(2) disjI1 [OF refl], of secret] num ParseToken_hmac [OF sizes(2), of ?v secret] token_ts_bounds [of now]
    by (simp only: TokenClaims.simps simp_thms)
qed

definition example_crypto :: crypto where
  "example_crypto = \<lparr>cr_sha256 = (\<lambda>x. replicate 32 (CHR ''x'')), cr_hmac = (\<lambda>k x. replicate 32 (CHR ''y'')), cr_jwt = (\<lambda>_ _. None)\<rparr>"

theorem token_round_trip_witness:
  "ParseToken example_crypto (CreateToken example_crypto 1500000000 ''alice'' ''k'') ''k'' =
    Some \<lparr>tc_ByID = False, tc_UserID = 0, tc_Username = ''alice'', tc_CreatedAt = 2000000000\<rparr>"
  using token_round_trip [of example_crypto "''alice''" 1500000000 "''v3''" 1 1 "''k''"]
  by (simp add: hash_sizes_def example_crypto_def validUsername_def word_char_def Let_def token_ts_def time_Unix_def)

text \<open>C39. How long a link lives. A link issued for a user opens that user's subscription exactly as long
  as the user was neither created nor revoked after the issue time rounded up to a second. So it
  works at once, it is dead when the user revokes a second or more after it was issued, and it also
  dies when the user is deleted. But a link issued less than a second before a revocation can
  survive it: one issued at a time that is not a whole second still works when the revocation falls
  into the rest of that second.\<close>

theorem link_lifetime:
  assumes "hash_sizes cr" and "validUsername u" and "0 \<le> now" and "now < 2 ^ 63"
  shows "let link = CreateToken cr now u secret; expiry = time_Unix (token_ts now) 0
    in loadSubscriptionUser cr secret byID byName link =
         (case byName u of None \<Rightarrow> None
          | Some user \<Rightarrow> if (\<exists>t. su_created_at user = Some t \<and> expiry < t) \<or> (\<exists>t. su_revoked_at user = Some t \<and> expiry < t) then None else Some user)
     \<and> now \<le> expiry \<and> expiry < now + 1000000000 \<and> (now mod 1000000000 \<noteq> 0 \<longrightarrow> now < expiry)"
proof -
  have "now \<noteq> time_Unix (token_ts now) 0" if "now mod 1000000000 \<noteq> 0"
    using that mod_mult_self2_is_0 [of "token_ts now" 1000000000] by (metis add.right_neutral time_Unix_def)
  then have strict: "now mod 1000000000 \<noteq> 0 \<longrightarrow> now < time_Unix (token_ts now) 0" using token_ts_bounds(1) [of now] by auto
  then show ?thesis
    using ParseToken_CreateToken [OF assms, of secret] validUsername_props(2) [OF assms(2)] token_ts_bounds [of now]
    by (simp add: loadSubscriptionUser_def Let_def split: option.splits)
qed

theorem link_lifetime_witness:
  "let user = \<lparr>su_id = 7, su_username = ''alice'', su_created_at = Some 900000000, su_revoked_at = Some 1700000000\<rparr>;
       by_name = (\<lambda>n. if n = ''alice'' then Some user else None)
   in loadSubscriptionUser example_crypto ''k'' (\<lambda>_. None) by_name (CreateToken example_crypto 1500000000 ''alice'' ''k'') = Some user
    \<and> loadSubscriptionUser example_crypto ''k'' (\<lambda>_. None) by_name (CreateToken example_crypto 500000000 ''alice'' ''k'') = None"
  using link_lifetime [of example_crypto "''alice''" 1500000000 "''k''" "\<lambda>_. None"
      "\<lambda>n. if n = ''alice'' then Some \<lparr>su_id = 7, su_username = ''alice'', su_created_at = Some 900000000, su_revoked_at = Some 1700000000\<rparr> else None"]
    link_lifetime [of example_crypto "''alice''" 500000000 "''k''" "\<lambda>_. None"
      "\<lambda>n. if n = ''alice'' then Some \<lparr>su_id = 7, su_username = ''alice'', su_created_at = Some 900000000, su_revoked_at = Some 1700000000\<rparr> else None"]
  by (simp add: hash_sizes_def example_crypto_def validUsername_def word_char_def Let_def token_ts_def time_Unix_def)

text \<open>No link without a signature. When a token opens a subscription, it is data followed by the
  signature of exactly that data under the panel's secret (the short base64 or hex form, or the
  HMAC), or a JWT the library accepted under the secret that carries the subscription access; and
  the user it opens is the row found under the name or the number the signed data spells.\<close>

theorem accepted_token_is_signed:
  assumes "loadSubscriptionUser cr secret byID byName token = Some user"
  shows "\<exists>claims. ((\<exists>d. token = d @ sign cr d secret \<and> parseTokenPayload d = Some claims)
        \<or> (\<exists>d. token = d @ signHex cr d secret \<and> parseTokenPayload d = Some claims)
        \<or> (\<exists>d. token = d @ ''.'' @ RawURL_Encode (cr_hmac cr (hex_Encode secret) d) \<and> parseTokenPayload d = Some claims)
        \<or> (\<exists>mc. cr_jwt cr token (hex_Encode secret) = Some mc \<and> mc_access mc = Some ''subscription'' \<and> mc_sub mc = Some (tc_Username claims)))
      \<and> (if tc_ByID claims then byID (tc_UserID claims) = Some user else tc_Username claims \<noteq> [] \<and> byName (tc_Username claims) = Some user)"
proof -
  obtain claims where parse: "ParseToken cr token secret = Some claims"
    and row: "if tc_ByID claims then byID (tc_UserID claims) = Some user else tc_Username claims \<noteq> [] \<and> byName (tc_Username claims) = Some user"
    using assms by (auto simp: loadSubscriptionUser_def split: option.splits if_splits)
  have "(\<exists>d. token = d @ sign cr d secret \<and> parseTokenPayload d = Some claims)
        \<or> (\<exists>d. token = d @ signHex cr d secret \<and> parseTokenPayload d = Some claims)
        \<or> (\<exists>d. token = d @ ''.'' @ RawURL_Encode (cr_hmac cr (hex_Encode secret) d) \<and> parseTokenPayload d = Some claims)
        \<or> (\<exists>mc. cr_jwt cr token (hex_Encode secret) = Some mc \<and> mc_access mc = Some ''subscription'' \<and> mc_sub mc = Some (tc_Username claims))"
  proof (cases "HasPrefix token jwtSubscriptionPrefix")
    case True
    then show ?thesis using parse by (auto simp: ParseToken_def parseJWTToken_def Let_def split: if_splits option.splits)
  next
    case plain: False
    show ?thesis
    proof (cases "LastIndexByte token (CHR ''.'')")
      case None
      define d where "d = take (length token - 10) token"
      have "token = d @ drop (length token - 10) token" by (simp add: d_def)
      moreover have "drop (length token - 10) token = sign cr d secret \<or> drop (length token - 10) token = signHex cr d secret"
        and "parseTokenPayload d = Some claims"
        using parse plain None by (auto simp: ParseToken_def Let_def d_def simp del: LastIndexByte_None split: if_splits)
      ultimately show ?thesis by metis
    next
      case (Some pos)
      define d where "d = take pos token"
      have "token = d @ ''.'' @ drop (pos + 1) token"
        using LastIndexByte_Some [OF Some] id_take_nth_drop [of pos token] by (simp add: d_def)
      moreover have "drop (pos + 1) token = RawURL_Encode (cr_hmac cr (hex_Encode secret) d)" and "parseTokenPayload d = Some claims"
        using parse plain Some by (auto simp: ParseToken_def Let_def d_def split: if_splits)
      ultimately show ?thesis by metis
    qed
  qed
  with row show ?thesis by blast
qed

theorem accepted_token_is_signed_witness:
  "let user = \<lparr>su_id = 7, su_username = ''alice'', su_created_at = None, su_revoked_at = None\<rparr>;
       token = CreateToken example_crypto 1500000000 ''alice'' ''k''
   in \<exists>claims :: TokenClaims. tc_Username claims = ''alice'' \<and> loadSubscriptionUser example_crypto ''k'' (\<lambda>_. None) (\<lambda>n. if n = ''alice'' then Some user else None) token = Some user"
proof -
  let ?user = "\<lparr>su_id = 7, su_username = ''alice'', su_created_at = None, su_revoked_at = None\<rparr>"
  let ?by = "\<lambda>n. if n = ''alice'' then Some ?user else None"
  let ?token = "CreateToken example_crypto 1500000000 ''alice'' ''k''"
  have "ParseToken example_crypto ?token ''k'' = Some \<lparr>tc_ByID = False, tc_UserID = 0, tc_Username = ''alice'', tc_CreatedAt = 2000000000\<rparr>"
    using ParseToken_CreateToken [of example_crypto "''alice''" 1500000000 "''k''"]
    by (simp add: hash_sizes_def example_crypto_def validUsername_def word_char_def token_ts_def time_Unix_def)
  then have load: "loadSubscriptionUser example_crypto ''k'' (\<lambda>_. None) ?by ?token = Some ?user" by (simp add: loadSubscriptionUser_def)
  from accepted_token_is_signed [OF this] obtain claims :: TokenClaims where
    "if tc_ByID claims then None = Some ?user else tc_Username claims \<noteq> [] \<and> ?by (tc_Username claims) = Some ?user" by blast
  then have "tc_Username claims = ''alice''" by (simp split: if_splits)
  with load show ?thesis unfolding Let_def by blast
qed

end
