(* ===== verification/NodeConfig.thy ===== *)
theory NodeConfig
  imports Prelude GoStrings Fallback
begin

text \<open>
  From the panel's configuration to sing-box options: the wire types and the pure translation of
  \<open>cmd/node/main.go\<close> (\<open>buildOptionsPlan\<close>, \<open>buildCoreOptions\<close>, \<open>inboundMatchTags\<close>). The option types
  of sing-box are plain data; each is given here with the fields the node sets. The cipher lists of
  the Shadowsocks library are the argument \<open>ciphers\<close>. A Go slice is a list; a missing and an empty
  list are the same.
\<close>

section \<open>The wire types\<close>


record userSpec =
  us_Name :: string
  us_UUID :: string
  us_Password :: string
  us_Flow :: string
  us_Method :: string
  us_UserKey :: string

record realitySpec =
  rs_PrivateKey :: string
  rs_ShortID :: "string list"
  rs_ServerName :: string
  rs_ServerPort :: uint16

record tlsSpec =
  ts_ServerName :: string
  ts_Certificate :: string
  ts_Key :: string
  ts_Reality :: "realitySpec option"

record transportSpec =
  tr_Type :: string
  tr_Path :: string
  tr_Host :: string

record inboundSpec =
  in_Tag :: string
  in_Protocol :: string
  in_ListenPort :: uint16
  in_ListenPorts :: "uint16 list"
  in_Users :: "userSpec list"
  in_TLS :: "tlsSpec option"
  in_Transport :: "transportSpec option"
  in_Hysteria2ObfsPassword :: string
  in_UpMbps :: int
  in_DownMbps :: int
  in_CongestionControl :: string
  in_ZeroRTTHandshake :: bool
  in_SnellPSK :: string
  in_SnellV6Mode :: string

record outboundSpec =
  ob_Tag :: string
  ob_Type :: string
  ob_Server :: string
  ob_ServerPort :: int
  ob_Username :: string
  ob_Password :: string
  ob_Outbounds :: "string list"
  ob_UUID :: string
  ob_Flow :: string
  ob_Method :: string
  ob_Security :: string
  ob_CongestionControl :: string
  ob_Version :: int
  ob_PSK :: string
  ob_ObfsMode :: string
  ob_ObfsHost :: string
  ob_Obfs :: string
  ob_UpMbps :: int
  ob_DownMbps :: int
  ob_ExecutablePath :: string
  ob_DataDirectory :: string
  ob_TLSEnabled :: bool
  ob_TLSServerName :: string
  ob_TLSInsecure :: bool
  ob_BindInterface :: string
  ob_DirectFallback :: bool

record routingRuleSpec =
  rr_Inbound :: "string list"
  rr_InboundPort :: "int list"
  rr_Domain :: "string list"
  rr_DomainSuffix :: "string list"
  rr_DomainKeyword :: "string list"
  rr_IPCIDR :: "string list"
  rr_IPIsPrivate :: bool
  rr_Port :: "int list"
  rr_PortRange :: "string list"
  rr_Network :: "string list"
  rr_Protocol :: "string list"
  rr_OutboundTag :: string

record dnsServerSpec =
  dn_Tag :: string
  dn_Type :: string
  dn_Address :: string
  dn_Port :: int
  dn_Path :: string

record coreSpec =
  co_LogLevel :: string
  co_SniffEnabled :: bool
  co_Outbounds :: "outboundSpec list"
  co_RoutingRules :: "routingRuleSpec list"
  co_DNSServers :: "dnsServerSpec list"

record startRequest =
  sr_Inbounds :: "inboundSpec list"
  sr_Core :: "coreSpec option"

section \<open>Options of sing-box\<close>

record sb_reality =
  br_PrivateKey :: string
  br_ShortID :: "string list"
  br_Server :: string
  br_ServerPort :: uint16

record sb_inbound_tls =
  bt_ServerName :: string
  bt_Certificate :: "string list"
  bt_Key :: "string list"
  bt_Reality :: "sb_reality option"

datatype sb_transport = Websocket string | HTTPUpgrade string string

text \<open>The user lists of the protocols: name and uuid and flow, name and uuid, name and password, \<dots>\<close>

datatype sb_users =
    VLESSUsers "(string \<times> string \<times> string) list"
  | VMessUsers "(string \<times> string) list"
  | TrojanUsers "(string \<times> string) list"
  | ShadowsocksUsers "(string \<times> string) list"
  | Hysteria2Users "(string \<times> string) list"
  | TUICUsers "(string \<times> string \<times> string) list"
  | SnellUsers "(string \<times> string) list"
  | AnyTLSUsers "(string \<times> string) list"

text \<open>What the option structs hold besides the listener and the users.\<close>

datatype sb_settings =
    VLESSSettings "sb_inbound_tls option" "sb_transport option"
  | VMessSettings "sb_inbound_tls option" "sb_transport option"
  | TrojanSettings "sb_inbound_tls option" "sb_transport option"
  | ShadowsocksSettings string
  | Hysteria2Settings int int "(string \<times> string) option" "sb_inbound_tls option"
  | TUICSettings string bool "sb_inbound_tls option"
  | SnellSettings int string string
  | AnyTLSSettings "sb_inbound_tls option"

text \<open>One inbound; every listener is on the unspecified IPv4 address.\<close>

record sb_inbound =
  bi_Type :: string
  bi_Tag :: string
  bi_ListenPort :: uint16
  bi_Users :: sb_users
  bi_Settings :: sb_settings

record sb_outbound_tls =
  bo_TLSServerName :: string
  bo_Insecure :: bool

type_synonym sb_server = "string \<times> uint16"

datatype sb_outbound_options =
    DirectOutbound string
  | StubOptions
  | SOCKSOutbound string sb_server string string
  | HTTPOutbound string sb_server string string
  | ShadowsocksOutbound string sb_server string string
  | VMessOutbound string sb_server string string "sb_outbound_tls option"
  | TrojanOutbound string sb_server string "sb_outbound_tls option"
  | VLESSOutbound string sb_server string string "sb_outbound_tls option"
  | Hysteria2Outbound string sb_server string "sb_outbound_tls option"
  | TUICOutbound string sb_server string string string "sb_outbound_tls option"
  | AnyTLSOutbound string sb_server string "sb_outbound_tls option"
  | HysteriaOutbound string sb_server string string int int "sb_outbound_tls option"
  | ShadowTLSOutbound string sb_server int string "sb_outbound_tls option"
  | SnellOutbound int string sb_server string string string
  | SSHOutbound string sb_server string string
  | TorOutbound string string string
  | SelectorOutbound "string list" string bool
  | URLTestOutbound "string list"

record sb_outbound =
  bo_Type :: string
  bo_Tag :: string
  bo_Options :: sb_outbound_options

datatype sb_action = Sniff | Route string

record sb_rule =
  br_Inbound :: "string list"
  br_Domain :: "string list"
  br_DomainSuffix :: "string list"
  br_DomainKeyword :: "string list"
  br_IPCIDR :: "string list"
  br_IPIsPrivate :: bool
  br_PortRange :: "string list"
  br_Network :: "string list"
  br_Protocol :: "string list"
  br_Port :: "uint16 list"
  br_Action :: sb_action

datatype sb_dns_options = LocalDNS | RemoteDNS string uint16 | TLSDNS string uint16 | HTTPSDNS string uint16 string

record sb_dns_server =
  bd_Type :: string
  bd_Tag :: string
  bd_Options :: sb_dns_options

record sb_route =
  bu_Rules :: "sb_rule list"
  bu_Final :: string

record sb_options =
  bx_LogLevel :: string
  bx_DNS :: "sb_dns_server list option"
  bx_Inbounds :: "sb_inbound list"
  bx_Outbounds :: "sb_outbound list"
  bx_Route :: sb_route

section \<open>Inbounds\<close>

record ciphers =
  ci_aead_2022 :: "string list"
  ci_aead :: "string list"

datatype config_error =
    UnsupportedTransport string string
  | Cipher2022 string string
  | UnsupportedCipher string string
  | UnknownOutboundType string
  | UnknownDNSType string

record nodePlan =
  pl_derivedTags :: "(string, string list) gomap"
  pl_shadowsocksMethods :: "(string, string) gomap"
  pl_fallbacks :: "FallbackGroup list"

definition nodePlan_zero :: nodePlan where
  "nodePlan_zero = \<lparr>pl_derivedTags = [], pl_shadowsocksMethods = [], pl_fallbacks = []\<rparr>"

definition ports :: "inboundSpec \<Rightarrow> uint16 list" where
  "ports i = (if in_ListenPorts i \<noteq> [] then in_ListenPorts i else [in_ListenPort i])"

definition derivedInboundTag :: "string \<Rightarrow> uint16 \<Rightarrow> string" where
  "derivedInboundTag tag port = tag @ ''#'' @ Itoa (uint port)"

definition listenerTags :: "nodePlan \<Rightarrow> string \<Rightarrow> string list" where
  "listenerTags p tag = (case map_of (pl_derivedTags p) tag of Some tags \<Rightarrow> tags | None \<Rightarrow> [tag])"

definition watchedInterfaces :: "nodePlan \<Rightarrow> string list" where
  "watchedInterfaces p = map fg_Interface (pl_fallbacks p)"

definition defaultShadowsocksMethod :: string where
  "defaultShadowsocksMethod = ''chacha20-ietf-poly1305''"

fun shadowsocksMethod :: "userSpec list \<Rightarrow> string" where
  "shadowsocksMethod [] = defaultShadowsocksMethod"
| "shadowsocksMethod (u # us) = (if us_Method u \<noteq> [] then us_Method u else shadowsocksMethod us)"

definition checkShadowsocksMethod :: "ciphers \<Rightarrow> string \<Rightarrow> string \<Rightarrow> config_error option" where
  "checkShadowsocksMethod ci tag method =
     (if method \<in> set (ci_aead_2022 ci) then Some (Cipher2022 tag method)
      else if method \<notin> set (ci_aead ci) then Some (UnsupportedCipher tag method)
      else None)"

definition buildInboundTLS :: "inboundSpec \<Rightarrow> sb_inbound_tls option" where
  "buildInboundTLS i =
     map_option (\<lambda>t. \<lparr>bt_ServerName = ts_ServerName t, bt_Certificate = [ts_Certificate t], bt_Key = [ts_Key t],
        bt_Reality = map_option (\<lambda>r. \<lparr>br_PrivateKey = rs_PrivateKey r, br_ShortID = rs_ShortID r,
           br_Server = rs_ServerName r, br_ServerPort = rs_ServerPort r\<rparr>) (ts_Reality t)\<rparr>) (in_TLS i)"

definition buildInboundTransport :: "inboundSpec \<Rightarrow> config_error + sb_transport option" where
  "buildInboundTransport i =
     (case in_Transport i of
        None \<Rightarrow> Inr None
      | Some t \<Rightarrow>
          if tr_Type t = ''ws'' then Inr (Some (Websocket (tr_Path t)))
          else if tr_Type t = ''httpupgrade'' then Inr (Some (HTTPUpgrade (tr_Path t) (tr_Host t)))
          else Inl (UnsupportedTransport (in_Tag i) (tr_Type t)))"

text \<open>The user list of a listener; \<open>None\<close> for a protocol the switch does not know.\<close>

definition build_users :: "string \<Rightarrow> userSpec list \<Rightarrow> sb_users option" where
  "build_users protocol us =
     (if protocol = ''vless'' then Some (VLESSUsers (map (\<lambda>u. (us_Name u, us_UUID u, us_Flow u)) us))
      else if protocol = ''vmess'' then Some (VMessUsers (map (\<lambda>u. (us_Name u, us_UUID u)) us))
      else if protocol = ''trojan'' then Some (TrojanUsers (map (\<lambda>u. (us_Name u, us_Password u)) us))
      else if protocol = ''shadowsocks'' then Some (ShadowsocksUsers (map (\<lambda>u. (us_Name u, us_Password u)) us))
      else if protocol = ''hysteria2'' then Some (Hysteria2Users (map (\<lambda>u. (us_Name u, us_Password u)) us))
      else if protocol = ''tuic'' then Some (TUICUsers (map (\<lambda>u. (us_Name u, us_UUID u, us_Password u)) us))
      else if protocol = ''snell'' then Some (SnellUsers (map (\<lambda>u. (us_Name u, us_UserKey u)) us))
      else if protocol = ''anytls'' then Some (AnyTLSUsers (map (\<lambda>u. (us_Name u, us_Password u)) us))
      else None)"

definition build_settings :: "inboundSpec \<Rightarrow> sb_inbound_tls option \<Rightarrow> sb_transport option \<Rightarrow> sb_settings option" where
  "build_settings i tls transport =
     (if in_Protocol i = ''vless'' then Some (VLESSSettings tls transport)
      else if in_Protocol i = ''vmess'' then Some (VMessSettings tls transport)
      else if in_Protocol i = ''trojan'' then Some (TrojanSettings tls transport)
      else if in_Protocol i = ''shadowsocks'' then Some (ShadowsocksSettings (shadowsocksMethod (in_Users i)))
      else if in_Protocol i = ''hysteria2''
      then Some (Hysteria2Settings (in_UpMbps i) (in_DownMbps i)
             (if in_Hysteria2ObfsPassword i \<noteq> [] then Some (''salamander'', in_Hysteria2ObfsPassword i) else None) tls)
      else if in_Protocol i = ''tuic'' then Some (TUICSettings (in_CongestionControl i) (in_ZeroRTTHandshake i) tls)
      else if in_Protocol i = ''snell'' then Some (SnellSettings 6 (in_SnellPSK i) (in_SnellV6Mode i))
      else if in_Protocol i = ''anytls'' then Some (AnyTLSSettings tls)
      else None)"

text \<open>The tag of the listener of one port, and the body of the loop over the ports of one inbound.\<close>

definition listener_tag :: "inboundSpec \<Rightarrow> uint16 \<Rightarrow> string" where
  "listener_tag i port = (if 1 < length (ports i) then derivedInboundTag (in_Tag i) port else in_Tag i)"

definition add_listener :: "ciphers \<Rightarrow> inboundSpec \<Rightarrow> nodePlan \<times> sb_inbound list \<Rightarrow> uint16 \<Rightarrow> config_error + nodePlan \<times> sb_inbound list" where
  "add_listener ci i acc port =
     (case acc of (plan, inbounds) \<Rightarrow>
       (let tag = listener_tag i port;
            plan = (if 1 < length (ports i)
                    then plan\<lparr>pl_derivedTags := mput (in_Tag i) (mget [] (pl_derivedTags plan) (in_Tag i) @ [tag]) (pl_derivedTags plan)\<rparr>
                    else plan);
            tls = buildInboundTLS i
        in case buildInboundTransport i of
             Inl err \<Rightarrow> Inl err
           | Inr transport \<Rightarrow>
               (case (build_users (in_Protocol i) (in_Users i), build_settings i tls transport) of
                  (Some users, Some settings) \<Rightarrow>
                    (let built = \<lparr>bi_Type = in_Protocol i, bi_Tag = tag, bi_ListenPort = port, bi_Users = users, bi_Settings = settings\<rparr>
                     in if in_Protocol i = ''shadowsocks''
                        then (let method = shadowsocksMethod (in_Users i)
                              in case checkShadowsocksMethod ci (in_Tag i) method of
                                   Some err \<Rightarrow> Inl err
                                 | None \<Rightarrow> Inr (plan\<lparr>pl_shadowsocksMethods := mput (in_Tag i) method (pl_shadowsocksMethods plan)\<rparr>,
                                                inbounds @ [built]))
                        else Inr (plan, inbounds @ [built]))
                | _ \<Rightarrow> Inr (plan, inbounds))))"

section \<open>Outbounds\<close>

definition implicitOutboundTagDirect :: string where "implicitOutboundTagDirect = ''direct-out''"
definition implicitOutboundTagBlock :: string where "implicitOutboundTagBlock = ''block-out''"

definition buildOutboundTLS :: "outboundSpec \<Rightarrow> bool \<Rightarrow> sb_outbound_tls option" where
  "buildOutboundTLS ob forceEnabled =
     (if \<not> forceEnabled \<and> \<not> ob_TLSEnabled ob then None
      else Some \<lparr>bo_TLSServerName = ob_TLSServerName ob, bo_Insecure = ob_TLSInsecure ob\<rparr>)"

definition resolveOutboundTag :: "string \<Rightarrow> string" where
  "resolveOutboundTag tag =
     (if tag = ''direct'' then implicitOutboundTagDirect
      else if tag = ''block'' then implicitOutboundTagBlock else tag)"

definition resolveOutboundTags :: "string list \<Rightarrow> string list" where
  "resolveOutboundTags tags = map resolveOutboundTag tags"

definition leafOutboundOptions :: "outboundSpec \<Rightarrow> string \<Rightarrow> config_error + sb_outbound_options" where
  "leafOutboundOptions ob bind =
     (let server = (ob_Server ob, word_of_int (ob_ServerPort ob)); type = ob_Type ob
      in if type = ''direct'' then Inr (DirectOutbound bind)
         else if type = ''socks'' then Inr (SOCKSOutbound bind server (ob_Username ob) (ob_Password ob))
         else if type = ''http'' then Inr (HTTPOutbound bind server (ob_Username ob) (ob_Password ob))
         else if type = ''shadowsocks'' then Inr (ShadowsocksOutbound bind server (ob_Method ob) (ob_Password ob))
         else if type = ''vmess'' then Inr (VMessOutbound bind server (ob_UUID ob) (ob_Security ob) (buildOutboundTLS ob False))
         else if type = ''trojan'' then Inr (TrojanOutbound bind server (ob_Password ob) (buildOutboundTLS ob False))
         else if type = ''vless'' then Inr (VLESSOutbound bind server (ob_UUID ob) (ob_Flow ob) (buildOutboundTLS ob False))
         else if type = ''hysteria2'' then Inr (Hysteria2Outbound bind server (ob_Password ob) (buildOutboundTLS ob True))
         else if type = ''tuic''
         then Inr (TUICOutbound bind server (ob_UUID ob) (ob_Password ob) (ob_CongestionControl ob) (buildOutboundTLS ob True))
         else if type = ''anytls'' then Inr (AnyTLSOutbound bind server (ob_Password ob) (buildOutboundTLS ob True))
         else if type = ''hysteria''
         then Inr (HysteriaOutbound bind server (ob_Obfs ob) (ob_Password ob) (ob_UpMbps ob) (ob_DownMbps ob) (buildOutboundTLS ob True))
         else if type = ''shadowtls'' then Inr (ShadowTLSOutbound bind server (ob_Version ob) (ob_Password ob) (buildOutboundTLS ob True))
         else if type = ''snell'' then Inr (SnellOutbound 4 bind server (ob_PSK ob) (ob_ObfsMode ob) (ob_ObfsHost ob))
         else if type = ''ssh'' then Inr (SSHOutbound bind server (ob_Username ob) (ob_Password ob))
         else if type = ''tor'' then Inr (TorOutbound bind (ob_ExecutablePath ob) (ob_DataDirectory ob))
         else Inl (UnknownOutboundType type))"

definition fallbackPrimarySuffix :: string where "fallbackPrimarySuffix = ''~wg''"
definition fallbackFallbackSuffix :: string where "fallbackFallbackSuffix = ''~direct''"

text \<open>The body of the loop over the outbounds: the options and the fallback groups so far.\<close>

definition add_outbound :: "sb_outbound list \<times> FallbackGroup list \<Rightarrow> outboundSpec \<Rightarrow> config_error + sb_outbound list \<times> FallbackGroup list" where
  "add_outbound acc ob =
     (case acc of (outs, groups) \<Rightarrow>
       (let type = ob_Type ob; tag = ob_Tag ob
        in if type = ''block'' then Inr (outs @ [\<lparr>bo_Type = type, bo_Tag = tag, bo_Options = StubOptions\<rparr>], groups)
           else if type = ''selector''
           then Inr (outs @ [\<lparr>bo_Type = type, bo_Tag = tag, bo_Options = SelectorOutbound (resolveOutboundTags (ob_Outbounds ob)) [] False\<rparr>], groups)
           else if type = ''urltest''
           then Inr (outs @ [\<lparr>bo_Type = type, bo_Tag = tag, bo_Options = URLTestOutbound (resolveOutboundTags (ob_Outbounds ob))\<rparr>], groups)
           else
             (case leafOutboundOptions ob (ob_BindInterface ob) of
                Inl err \<Rightarrow> Inl err
              | Inr opts \<Rightarrow>
                  if \<not> ob_DirectFallback ob \<or> ob_BindInterface ob = []
                  then Inr (outs @ [\<lparr>bo_Type = type, bo_Tag = tag, bo_Options = opts\<rparr>], groups)
                  else
                    (case leafOutboundOptions ob [] of
                       Inl err \<Rightarrow> Inl err
                     | Inr plainOpts \<Rightarrow>
                         (let primary = tag @ fallbackPrimarySuffix; fallback = tag @ fallbackFallbackSuffix
                          in Inr (outs @ [\<lparr>bo_Type = type, bo_Tag = primary, bo_Options = opts\<rparr>,
                                          \<lparr>bo_Type = type, bo_Tag = fallback, bo_Options = plainOpts\<rparr>,
                                          \<lparr>bo_Type = ''selector'', bo_Tag = tag, bo_Options = SelectorOutbound [primary, fallback] primary True\<rparr>],
                                  groups @ [\<lparr>fg_Group = tag, fg_Primary = primary, fg_Fallback = fallback, fg_Interface = ob_BindInterface ob\<rparr>]))))))"

section \<open>Routing rules and DNS\<close>

definition allowed :: "int list \<Rightarrow> uint16 \<Rightarrow> bool" where
  "allowed ps p \<longleftrightarrow> ps = [] \<or> uint p \<in> set ps"

definition inboundMatchTags :: "string list \<Rightarrow> int list \<Rightarrow> (string, uint16 list) gomap \<Rightarrow> string list" where
  "inboundMatchTags inbound ps portsByTag =
     concat (map (\<lambda>tag. case map_of portsByTag tag of
         None \<Rightarrow> [tag]
       | Some listenPorts \<Rightarrow>
           if length listenPorts \<le> 1
           then (if listenPorts = [] \<or> allowed ps (hd listenPorts) then [tag] else [])
           else map (derivedInboundTag tag) (filter (allowed ps) listenPorts)) inbound)"

definition sniff_rule :: sb_rule where
  "sniff_rule = \<lparr>br_Inbound = [], br_Domain = [], br_DomainSuffix = [], br_DomainKeyword = [], br_IPCIDR = [], br_IPIsPrivate = False,
     br_PortRange = [], br_Network = [], br_Protocol = [], br_Port = [], br_Action = Sniff\<rparr>"

text \<open>One routing rule; \<open>None\<close> when it is dropped because its ports exclude every listener.\<close>

definition build_rule :: "(string, uint16 list) gomap \<Rightarrow> routingRuleSpec \<Rightarrow> sb_rule option" where
  "build_rule portsByTag r =
     (let tags = inboundMatchTags (rr_Inbound r) (rr_InboundPort r) portsByTag
      in if rr_Inbound r \<noteq> [] \<and> tags = [] then None
         else Some \<lparr>br_Inbound = (if rr_Inbound r \<noteq> [] then tags else []), br_Domain = rr_Domain r, br_DomainSuffix = rr_DomainSuffix r,
                br_DomainKeyword = rr_DomainKeyword r, br_IPCIDR = rr_IPCIDR r, br_IPIsPrivate = rr_IPIsPrivate r,
                br_PortRange = rr_PortRange r, br_Network = rr_Network r, br_Protocol = rr_Protocol r,
                br_Port = map word_of_int (rr_Port r), br_Action = Route (resolveOutboundTag (rr_OutboundTag r))\<rparr>)"

definition build_dns_server :: "dnsServerSpec \<Rightarrow> config_error + sb_dns_server" where
  "build_dns_server s =
     (let type = dn_Type s; port = word_of_int (dn_Port s)
      in map_sum id (\<lambda>opts. \<lparr>bd_Type = type, bd_Tag = dn_Tag s, bd_Options = opts\<rparr>)
        (if type = ''local'' then Inr LocalDNS
         else if type = ''udp'' \<or> type = ''tcp'' then Inr (RemoteDNS (dn_Address s) port)
         else if type = ''tls'' then Inr (TLSDNS (dn_Address s) port)
         else if type = ''https'' then Inr (HTTPSDNS (dn_Address s) port (dn_Path s))
         else Inl (UnknownDNSType type)))"

definition implicit_outbounds :: "sb_outbound list" where
  "implicit_outbounds =
     [\<lparr>bo_Type = ''direct'', bo_Tag = implicitOutboundTagDirect, bo_Options = DirectOutbound []\<rparr>,
      \<lparr>bo_Type = ''block'', bo_Tag = implicitOutboundTagBlock, bo_Options = StubOptions\<rparr>]"

record core_options =
  cx_Outbounds :: "sb_outbound list"
  cx_Route :: sb_route
  cx_DNS :: "sb_dns_server list option"
  cx_LogLevel :: string
  cx_Fallbacks :: "FallbackGroup list"

definition buildCoreOptions :: "coreSpec option \<Rightarrow> (string, uint16 list) gomap \<Rightarrow> config_error + core_options" where
  "buildCoreOptions core portsByTag =
     (case core of
        None \<Rightarrow> Inr \<lparr>cx_Outbounds = implicit_outbounds, cx_Route = \<lparr>bu_Rules = [], bu_Final = implicitOutboundTagDirect\<rparr>,
                   cx_DNS = None, cx_LogLevel = [], cx_Fallbacks = []\<rparr>
      | Some c \<Rightarrow>
          (case foldE add_outbound (implicit_outbounds, []) (co_Outbounds c) of
             Inl err \<Rightarrow> Inl err
           | Inr (outs, groups) \<Rightarrow>
               (let rules = (if co_SniffEnabled c then [sniff_rule] else []) @ List.map_filter (build_rule portsByTag) (co_RoutingRules c)
                in case foldE (\<lambda>servers s. map_sum id (\<lambda>b. servers @ [b]) (build_dns_server s)) [] (co_DNSServers c) of
                     Inl err \<Rightarrow> Inl err
                   | Inr servers \<Rightarrow>
                       Inr \<lparr>cx_Outbounds = outs, cx_Route = \<lparr>bu_Rules = rules, bu_Final = implicitOutboundTagDirect\<rparr>,
                            cx_DNS = (if co_DNSServers c = [] then None else Some servers),
                            cx_LogLevel = co_LogLevel c, cx_Fallbacks = groups\<rparr>)))"

section \<open>The whole translation\<close>

definition add_inbound :: "ciphers \<Rightarrow> nodePlan \<times> (string, uint16 list) gomap \<times> sb_inbound list \<Rightarrow> inboundSpec
    \<Rightarrow> config_error + nodePlan \<times> (string, uint16 list) gomap \<times> sb_inbound list" where
  "add_inbound ci acc i =
     (case acc of (plan, portsByTag, inbounds) \<Rightarrow>
        map_sum id (\<lambda>(plan, inbounds). (plan, mput (in_Tag i) (ports i) portsByTag, inbounds))
          (foldE (add_listener ci i) (plan, inbounds) (ports i)))"

definition buildOptionsPlan :: "ciphers \<Rightarrow> startRequest \<Rightarrow> config_error + sb_options \<times> nodePlan" where
  "buildOptionsPlan ci req =
     (case foldE (add_inbound ci) (nodePlan_zero, [], []) (sr_Inbounds req) of
        Inl err \<Rightarrow> Inl err
      | Inr (plan, portsByTag, inbounds) \<Rightarrow>
          (case buildCoreOptions (sr_Core req) portsByTag of
             Inl err \<Rightarrow> Inl err
           | Inr core \<Rightarrow>
               Inr (\<lparr>bx_LogLevel = cx_LogLevel core, bx_DNS = cx_DNS core, bx_Inbounds = inbounds,
                     bx_Outbounds = cx_Outbounds core, bx_Route = cx_Route core\<rparr>,
                    plan\<lparr>pl_fallbacks := cx_Fallbacks core\<rparr>)))"

end
