(* ===== verification/NodeRoutes.thy ===== *)
theory NodeRoutes
  imports NodeConfig
begin

text \<open>
  What the translation of \<open>NodeConfig\<close> yields: the listeners and the plan in closed form, and that the
  routing rules built for sing-box route every connection as the configuration says.
\<close>

section \<open>The translation in closed form\<close>

text \<open>The error of an inbound does not depend on what was built before it.\<close>

definition inbound_error :: "ciphers \<Rightarrow> inboundSpec \<Rightarrow> config_error option" where
  "inbound_error ci i =
     (case buildInboundTransport i of
        Inl err \<Rightarrow> Some err
      | Inr _ \<Rightarrow> if in_Protocol i = ''shadowsocks'' then checkShadowsocksMethod ci (in_Tag i) (shadowsocksMethod (in_Users i)) else None)"

definition listeners :: "inboundSpec \<Rightarrow> uint16 \<Rightarrow> sb_inbound list" where
  "listeners i port =
     (case (build_users (in_Protocol i) (in_Users i), build_settings i (buildInboundTLS i) (projr (buildInboundTransport i))) of
        (Some users, Some settings) \<Rightarrow>
          [\<lparr>bi_Type = in_Protocol i, bi_Tag = listener_tag i port, bi_ListenPort = port, bi_Users = users, bi_Settings = settings\<rparr>]
      | _ \<Rightarrow> [])"

definition plan_inbound :: "inboundSpec \<Rightarrow> nodePlan \<Rightarrow> nodePlan" where
  "plan_inbound i plan =
     plan\<lparr>pl_derivedTags :=
            (if 1 < length (ports i)
             then mput (in_Tag i) (mget [] (pl_derivedTags plan) (in_Tag i) @ map (derivedInboundTag (in_Tag i)) (ports i)) (pl_derivedTags plan)
             else pl_derivedTags plan),
          pl_shadowsocksMethods :=
            (if in_Protocol i = ''shadowsocks''
             then mput (in_Tag i) (shadowsocksMethod (in_Users i)) (pl_shadowsocksMethods plan) else pl_shadowsocksMethods plan)\<rparr>"

lemma ports_nonempty [simp]: "ports i \<noteq> []"
  by (simp add: ports_def)

lemma build_users_shadowsocks [simp]: "build_users ''shadowsocks'' us \<noteq> None"
  by (simp add: build_users_def)

lemma build_settings_iff: "build_settings i tls tr = None \<longleftrightarrow> build_users (in_Protocol i) us = None"
  by (auto simp: build_settings_def build_users_def)

lemma add_listener_eq:
  "add_listener ci i (plan, built) port =
     (case inbound_error ci i of
        Some err \<Rightarrow> Inl err
      | None \<Rightarrow> Inr (plan\<lparr>pl_derivedTags := (if 1 < length (ports i)
                  then mput (in_Tag i) (mget [] (pl_derivedTags plan) (in_Tag i) @ [derivedInboundTag (in_Tag i) port]) (pl_derivedTags plan)
                  else pl_derivedTags plan),
                pl_shadowsocksMethods := (if in_Protocol i = ''shadowsocks''
                  then mput (in_Tag i) (shadowsocksMethod (in_Users i)) (pl_shadowsocksMethods plan) else pl_shadowsocksMethods plan)\<rparr>,
              built @ listeners i port))"
proof (cases "buildInboundTransport i")
  case (Inl err)
  then show ?thesis by (simp add: add_listener_def inbound_error_def Let_def)
next
  case (Inr tr)
  note iff = build_settings_iff [of i "buildInboundTLS i" tr "in_Users i"]
  show ?thesis
  proof (cases "build_users (in_Protocol i) (in_Users i)")
    case None
    then have "in_Protocol i \<noteq> ''shadowsocks''" using build_users_shadowsocks by metis
    then show ?thesis using None Inr iff
      by (simp add: add_listener_def inbound_error_def listeners_def Let_def listener_tag_def)
  next
    case (Some users)
    then obtain settings where "build_settings i (buildInboundTLS i) tr = Some settings" using iff by auto
    then show ?thesis using Some Inr
      by (cases "in_Protocol i = ''shadowsocks''")
        (simp_all add: add_listener_def inbound_error_def listeners_def Let_def listener_tag_def split: option.splits)
  qed
qed

lemma put_put: "mput k v (mput k w m) = mput k v m"
  by (induction m) auto

lemma add_listeners:
  assumes "inbound_error ci i = None"
  shows "foldE (add_listener ci i) (plan, built) ps =
    Inr (plan\<lparr>pl_derivedTags := (if 1 < length (ports i) \<and> ps \<noteq> []
                  then mput (in_Tag i) (mget [] (pl_derivedTags plan) (in_Tag i) @ map (derivedInboundTag (in_Tag i)) ps) (pl_derivedTags plan)
                  else pl_derivedTags plan),
              pl_shadowsocksMethods := (if in_Protocol i = ''shadowsocks'' \<and> ps \<noteq> []
                  then mput (in_Tag i) (shadowsocksMethod (in_Users i)) (pl_shadowsocksMethods plan) else pl_shadowsocksMethods plan)\<rparr>,
         built @ concat (map (listeners i) ps))"
proof (induction ps arbitrary: plan built)
  case (Cons p ps)
  show ?case using assms by (cases "ps = []") (simp_all add: add_listener_eq Cons.IH put_put)
qed simp

lemma add_inbound_eq:
  "add_inbound ci (plan, pbt, built) i =
     (case inbound_error ci i of
        Some err \<Rightarrow> Inl err
      | None \<Rightarrow> Inr (plan_inbound i plan, mput (in_Tag i) (ports i) pbt, built @ concat (map (listeners i) (ports i))))"
proof (cases "inbound_error ci i")
  case None
  then show ?thesis by (simp add: add_inbound_def add_listeners plan_inbound_def)
next
  case (Some err)
  obtain p ps where "ports i = p # ps" using ports_nonempty [of i] by (cases "ports i") auto
  then show ?thesis using Some by (simp add: add_inbound_def add_listener_eq)
qed

definition first_error :: "ciphers \<Rightarrow> inboundSpec list \<Rightarrow> config_error option" where
  "first_error ci is = (case List.map_filter (inbound_error ci) is of [] \<Rightarrow> None | err # _ \<Rightarrow> Some err)"

lemma add_inbounds_eq:
  "foldE (add_inbound ci) (plan, pbt, built) is =
     (case first_error ci is of
        Some err \<Rightarrow> Inl err
      | None \<Rightarrow> Inr (foldl (\<lambda>p i. plan_inbound i p) plan is, foldl (\<lambda>m i. mput (in_Tag i) (ports i) m) pbt is,
                   built @ concat (map (\<lambda>i. concat (map (listeners i) (ports i))) is)))"
  by (induction "is" arbitrary: plan pbt built)
    (auto simp: first_error_def add_inbound_eq map_filter_simps split: option.splits list.splits)

lemma first_error_None: "first_error ci is = None \<longleftrightarrow> (\<forall>i \<in> set is. inbound_error ci i = None)"
  by (induction "is") (auto simp: first_error_def map_filter_simps split: option.splits list.splits)

lemma find_absent: "k y \<notin> k ` set xs \<Longrightarrow> find (\<lambda>x. k x = k y) xs = None"
  by (induction xs) auto

text \<open>With distinct tags the ports of an inbound are found under its tag, and the plan knows its listeners.\<close>

lemma fold_put_lookup:
  "distinct (map k xs) \<Longrightarrow> map_of (foldl (\<lambda>m x. mput (k x) (v x) m) m0 xs) key =
     (case find (\<lambda>x. k x = key) xs of Some x \<Rightarrow> Some (v x) | None \<Rightarrow> map_of m0 key)"
proof (induction xs arbitrary: m0)
  case (Cons x xs)
  have "find (\<lambda>y. k y = k x) xs = None" using Cons.prems by (simp add: find_absent)
  then show ?case using Cons by (auto split: option.splits)
qed simp

lemma plan_inbounds_derived:
  "distinct (map in_Tag is) \<Longrightarrow> map_of (pl_derivedTags (foldl (\<lambda>p i. plan_inbound i p) plan is)) tag =
     (case find (\<lambda>i. in_Tag i = tag) is of
        Some i \<Rightarrow> if 1 < length (ports i) then Some (mget [] (pl_derivedTags plan) tag @ map (derivedInboundTag tag) (ports i))
                  else map_of (pl_derivedTags plan) tag
      | None \<Rightarrow> map_of (pl_derivedTags plan) tag)"
proof (induction "is" arbitrary: plan)
  case (Cons i "is")
  have "find (\<lambda>j. in_Tag j = in_Tag i) is = None" using Cons.prems by (simp add: find_absent)
  then show ?case using Cons by (auto simp: plan_inbound_def mget_def split: option.splits)
qed simp

lemma plan_inbounds_methods:
  "distinct (map in_Tag is) \<Longrightarrow> map_of (pl_shadowsocksMethods (foldl (\<lambda>p i. plan_inbound i p) plan is)) tag =
     (case find (\<lambda>i. in_Tag i = tag) is of
        Some i \<Rightarrow> if in_Protocol i = ''shadowsocks'' then Some (shadowsocksMethod (in_Users i))
                  else map_of (pl_shadowsocksMethods plan) tag
      | None \<Rightarrow> map_of (pl_shadowsocksMethods plan) tag)"
proof (induction "is" arbitrary: plan)
  case (Cons i "is")
  have "find (\<lambda>j. in_Tag j = in_Tag i) is = None" using Cons.prems by (simp add: find_absent)
  then show ?case using Cons by (auto simp: plan_inbound_def split: option.splits)
qed simp

lemma listenerTags_build:
  assumes "distinct (map in_Tag is)" and "i \<in> set is"
  shows "listenerTags (foldl (\<lambda>p i. plan_inbound i p) nodePlan_zero is) (in_Tag i) = map (listener_tag i) (ports i)"
proof (cases "1 < length (ports i)")
  case True
  then show ?thesis using plan_inbounds_derived [OF assms(1), of nodePlan_zero "in_Tag i"] find_unique [OF assms]
    by (simp add: listenerTags_def nodePlan_zero_def listener_tag_def)
next
  case False
  then obtain p where "ports i = [p]" using ports_nonempty [of i] by (cases "ports i") auto
  then show ?thesis using plan_inbounds_derived [OF assms(1), of nodePlan_zero "in_Tag i"] find_unique [OF assms]
    by (simp add: listenerTags_def nodePlan_zero_def listener_tag_def)
qed

section \<open>Routing\<close>

text \<open>
  How sing-box uses the rules: the first one that fits decides; a rule fits when the connection came
  through one of its inbounds (any, if it lists none) and its other criteria hold, which are the
  arbitrary predicate \<open>fits\<close> on the rule without inbounds and action. A sniff rule does not decide.
\<close>

definition criteria :: "sb_rule \<Rightarrow> sb_rule" where
  "criteria b = b\<lparr>br_Inbound := [], br_Action := Sniff\<rparr>"

definition routed :: "(sb_rule \<Rightarrow> bool) \<Rightarrow> sb_route \<Rightarrow> string \<Rightarrow> string" where
  "routed fits route tag =
     (case find (\<lambda>b. br_Action b \<noteq> Sniff \<and> (br_Inbound b = [] \<or> tag \<in> set (br_Inbound b)) \<and> fits (criteria b)) (bu_Rules route) of
        None \<Rightarrow> bu_Final route
      | Some b \<Rightarrow> (case br_Action b of Route out \<Rightarrow> out | Sniff \<Rightarrow> bu_Final route))"

definition rule_criteria :: "routingRuleSpec \<Rightarrow> sb_rule" where
  "rule_criteria r = \<lparr>br_Inbound = [], br_Domain = rr_Domain r, br_DomainSuffix = rr_DomainSuffix r,
     br_DomainKeyword = rr_DomainKeyword r, br_IPCIDR = rr_IPCIDR r, br_IPIsPrivate = rr_IPIsPrivate r,
     br_PortRange = rr_PortRange r, br_Network = rr_Network r, br_Protocol = rr_Protocol r,
     br_Port = map word_of_int (rr_Port r), br_Action = Sniff\<rparr>"

text \<open>What a rule of the configuration says of a connection that arrived on a port of an inbound.\<close>

definition rule_names :: "routingRuleSpec \<Rightarrow> inboundSpec \<Rightarrow> uint16 \<Rightarrow> bool" where
  "rule_names r i p \<longleftrightarrow> rr_Inbound r = [] \<or> in_Tag i \<in> set (rr_Inbound r) \<and> allowed (rr_InboundPort r) p"

lemma sep_inject: "c \<notin> set x \<Longrightarrow> c \<notin> set y \<Longrightarrow> x @ c # r = y @ c # s \<longleftrightarrow> x = y \<and> r = s"
  by (induction x arbitrary: y; case_tac y) auto

lemma derivedInboundTag_inject:
  assumes "CHR ''#'' \<notin> set t" and "CHR ''#'' \<notin> set t'"
  shows "derivedInboundTag t p = derivedInboundTag t' p' \<longleftrightarrow> t = t' \<and> p = p'"
proof
  assume "derivedInboundTag t p = derivedInboundTag t' p'"
  then have t: "t = t'" and "Itoa (uint p) = Itoa (uint p')"
    using assms by (simp_all add: derivedInboundTag_def sep_inject)
  then have "ParseInt64 (Itoa (uint p)) = ParseInt64 (Itoa (uint p'))" by simp
  moreover have "ParseInt64 (Itoa (uint q)) = Some (uint q)" for q :: uint16
    by (rule ParseInt64_Itoa) (rule order_trans [OF _ uint_ge_0], simp, rule less_le_trans [OF uint_lt2p], simp)
  ultimately show "t = t' \<and> p = p'" using t by (simp add: word_uint_eq_iff)
qed simp

lemma derived_not_plain: "CHR ''#'' \<notin> set t \<Longrightarrow> derivedInboundTag t' p \<noteq> t"
  by (auto simp: derivedInboundTag_def)

lemma inboundMatchTags_iff:
  assumes tags: "CHR ''#'' \<notin> set (in_Tag i)" "\<forall>t \<in> set ins. CHR ''#'' \<notin> set t"
    and pbt: "map_of pbt (in_Tag i) = Some (ports i)" and p: "p \<in> set (ports i)"
  shows "listener_tag i p \<in> set (inboundMatchTags ins ps pbt) \<longleftrightarrow> in_Tag i \<in> set ins \<and> allowed ps p"
proof -
  have "listener_tag i p \<in> set (case map_of pbt t of None \<Rightarrow> [t]
       | Some lp \<Rightarrow> if length lp \<le> 1 then (if lp = [] \<or> allowed ps (hd lp) then [t] else [])
           else map (derivedInboundTag t) (filter (allowed ps) lp)) \<longleftrightarrow> t = in_Tag i \<and> allowed ps p" if t: "CHR ''#'' \<notin> set t" for t
  proof (cases "t = in_Tag i")
    case True
    show ?thesis
    proof (cases "1 < length (ports i)")
      case multi: True
      then show ?thesis using True pbt p t by (auto simp: listener_tag_def derivedInboundTag_inject)
    next
      case False
      then have "ports i = [p]" using p ports_nonempty [of i] by (cases "ports i") auto
      then show ?thesis using True pbt by (simp add: listener_tag_def)
    qed
  next
    case False
    then show ?thesis using t tags(1) derived_not_plain [of "in_Tag i" t] derived_not_plain [of t "in_Tag i"]
      by (auto simp: listener_tag_def derivedInboundTag_inject split: option.splits if_splits) metis+
  qed
  then show ?thesis using tags(2) by (auto simp: inboundMatchTags_def)
qed

lemma build_rule_fits:
  assumes "CHR ''#'' \<notin> set (in_Tag i)" and "\<forall>t \<in> set (rr_Inbound r). CHR ''#'' \<notin> set t"
    and "map_of pbt (in_Tag i) = Some (ports i)" and "p \<in> set (ports i)"
  shows "case build_rule pbt r of
      None \<Rightarrow> \<not> rule_names r i p
    | Some b \<Rightarrow> br_Action b = Route (resolveOutboundTag (rr_OutboundTag r)) \<and> criteria b = rule_criteria r \<and>
        (br_Inbound b = [] \<or> listener_tag i p \<in> set (br_Inbound b) \<longleftrightarrow> rule_names r i p)"
  using inboundMatchTags_iff [OF assms, of "rr_InboundPort r"]
  by (auto simp: build_rule_def Let_def criteria_def rule_criteria_def rule_names_def)

lemma find_map_filter:
  assumes "\<forall>r \<in> set rs. case f r of None \<Rightarrow> \<not> Q r | Some b \<Rightarrow> P b = Q r"
  shows "find P (List.map_filter f rs) = (case find Q rs of None \<Rightarrow> None | Some r \<Rightarrow> f r)"
  using assms by (induction rs) (auto simp: map_filter_simps split: option.splits)

lemma buildOptionsPlan_Inr:
  assumes "buildOptionsPlan ci req = Inr (opts, plan)"
  shows "\<exists>core pbt. (\<forall>i \<in> set (sr_Inbounds req). inbound_error ci i = None)
    \<and> pbt = foldl (\<lambda>m i. mput (in_Tag i) (ports i) m) [] (sr_Inbounds req)
    \<and> buildCoreOptions (sr_Core req) pbt = Inr core
    \<and> plan = (foldl (\<lambda>p i. plan_inbound i p) nodePlan_zero (sr_Inbounds req))\<lparr>pl_fallbacks := cx_Fallbacks core\<rparr>
    \<and> opts = \<lparr>bx_LogLevel = cx_LogLevel core, bx_DNS = cx_DNS core,
         bx_Inbounds = concat (map (\<lambda>i. concat (map (listeners i) (ports i))) (sr_Inbounds req)),
         bx_Outbounds = cx_Outbounds core, bx_Route = cx_Route core\<rparr>"
  using assms by (auto simp: buildOptionsPlan_def add_inbounds_eq first_error_None split: sum.splits option.splits)

lemma buildCoreOptions_route:
  "buildCoreOptions (Some core) pbt = Inr built \<Longrightarrow>
    cx_Route built = \<lparr>bu_Rules = (if co_SniffEnabled core then [sniff_rule] else []) @ List.map_filter (build_rule pbt) (co_RoutingRules core),
      bu_Final = implicitOutboundTagDirect\<rparr>"
  by (auto simp: buildCoreOptions_def Let_def split: sum.splits)

text \<open>C19. Routing is what the configuration says. When the node has translated a configuration, every
  connection is sent where the first rule of the configuration that fits it points: a rule that
  names inbounds fits exactly the connections of those inbounds, on the named ports only when it
  names ports, whether an inbound has one port or many; its other criteria are passed on
  unchanged; and a connection no rule fits goes out directly. In particular a rule whose ports
  exclude every listener is dropped and never becomes a rule for everything.\<close>

theorem routing_as_configured:
  assumes "buildOptionsPlan ci req = Inr (opts, plan)" and "sr_Core req = Some core"
    and "distinct (map in_Tag (sr_Inbounds req))"
    and "\<forall>i \<in> set (sr_Inbounds req). CHR ''#'' \<notin> set (in_Tag i)"
    and "\<forall>r \<in> set (co_RoutingRules core). \<forall>t \<in> set (rr_Inbound r). CHR ''#'' \<notin> set t"
    and "i \<in> set (sr_Inbounds req)" and "p \<in> set (ports i)"
  shows "routed fits (bx_Route opts) (listener_tag i p) =
    (case find (\<lambda>r. rule_names r i p \<and> fits (rule_criteria r)) (co_RoutingRules core) of
       None \<Rightarrow> ''direct-out''
     | Some r \<Rightarrow> resolveOutboundTag (rr_OutboundTag r))"
proof -
  obtain built pbt where pbt: "pbt = foldl (\<lambda>m i. mput (in_Tag i) (ports i) m) [] (sr_Inbounds req)"
    and core: "buildCoreOptions (sr_Core req) pbt = Inr built" and route: "bx_Route opts = cx_Route built"
    using buildOptionsPlan_Inr [OF assms(1)] by auto
  have lookup: "map_of pbt (in_Tag i) = Some (ports i)"
    using fold_put_lookup [OF assms(3), of ports "[]" "in_Tag i"] find_unique [OF assms(3,6)] by (simp add: pbt)
  note rules = buildCoreOptions_route [OF core [unfolded assms(2)]]
  let ?P = "\<lambda>b. br_Action b \<noteq> Sniff \<and> (br_Inbound b = [] \<or> listener_tag i p \<in> set (br_Inbound b)) \<and> fits (criteria b)"
  let ?Q = "\<lambda>r. rule_names r i p \<and> fits (rule_criteria r)"
  have each: "case build_rule pbt r of None \<Rightarrow> \<not> ?Q r | Some b \<Rightarrow> ?P b = ?Q r" and
    act: "build_rule pbt r = Some b \<Longrightarrow> br_Action b = Route (resolveOutboundTag (rr_OutboundTag r))"
    if "r \<in> set (co_RoutingRules core)" for r b
    using build_rule_fits [of i r pbt p] assms(4-7) that lookup by (auto split: option.splits)
  have found: "find ?P (bu_Rules (bx_Route opts)) =
      (case find ?Q (co_RoutingRules core) of None \<Rightarrow> None | Some r \<Rightarrow> build_rule pbt r)"
    using find_map_filter [where rs = "co_RoutingRules core" and f = "build_rule pbt" and Q = ?Q and P = ?P] each by (simp add: route rules sniff_rule_def)
  show ?thesis
  proof (cases "find ?Q (co_RoutingRules core)")
    case None
    then show ?thesis using found by (simp add: routed_def route rules implicitOutboundTagDirect_def)
  next
    case (Some r)
    then have r: "r \<in> set (co_RoutingRules core)" "?Q r" by (auto simp: find_Some_iff in_set_conv_nth)
    then obtain b where "build_rule pbt r = Some b" using each [OF r(1)] by (cases "build_rule pbt r") auto
    then show ?thesis using Some found act [OF r(1)] by (simp add: routed_def)
  qed
qed

definition example_user :: userSpec where
  "example_user = \<lparr>us_Name = ''ann'', us_UUID = ''u1'', us_Password = [], us_Flow = [], us_Method = [], us_UserKey = []\<rparr>"

definition example_inbound :: inboundSpec where
  "example_inbound = \<lparr>in_Tag = ''de'', in_Protocol = ''vless'', in_ListenPort = 443, in_ListenPorts = [443, 8443], in_Users = [example_user],
     in_TLS = None, in_Transport = None, in_Hysteria2ObfsPassword = [], in_UpMbps = 0, in_DownMbps = 0, in_CongestionControl = [],
     in_ZeroRTTHandshake = False, in_SnellPSK = [], in_SnellV6Mode = []\<rparr>"

definition example_outbound :: outboundSpec where
  "example_outbound = \<lparr>ob_Tag = ''exit'', ob_Type = ''direct'', ob_Server = [], ob_ServerPort = 0, ob_Username = [], ob_Password = [],
     ob_Outbounds = [], ob_UUID = [], ob_Flow = [], ob_Method = [], ob_Security = [], ob_CongestionControl = [], ob_Version = 0, ob_PSK = [],
     ob_ObfsMode = [], ob_ObfsHost = [], ob_Obfs = [], ob_UpMbps = 0, ob_DownMbps = 0, ob_ExecutablePath = [], ob_DataDirectory = [],
     ob_TLSEnabled = False, ob_TLSServerName = [], ob_TLSInsecure = False, ob_BindInterface = ''wg0'', ob_DirectFallback = True\<rparr>"

definition example_core :: coreSpec where
  "example_core = \<lparr>co_LogLevel = ''warn'', co_SniffEnabled = True, co_Outbounds = [example_outbound],
     co_RoutingRules = [\<lparr>rr_Inbound = [''de''], rr_InboundPort = [8443], rr_Domain = [], rr_DomainSuffix = [], rr_DomainKeyword = [],
        rr_IPCIDR = [], rr_IPIsPrivate = False, rr_Port = [], rr_PortRange = [], rr_Network = [], rr_Protocol = [], rr_OutboundTag = ''exit''\<rparr>],
     co_DNSServers = []\<rparr>"

definition example_ciphers :: ciphers where
  "example_ciphers = \<lparr>ci_aead_2022 = [''2022-blake3-aes-128-gcm''], ci_aead = [''chacha20-ietf-poly1305'']\<rparr>"

definition example_request :: startRequest where
  "example_request = \<lparr>sr_Inbounds = [example_inbound], sr_Core = Some example_core\<rparr>"

lemmas example_config = example_request_def example_core_def example_outbound_def example_inbound_def example_user_def example_ciphers_def

lemma example_builds: "\<exists>opts plan. buildOptionsPlan example_ciphers example_request = Inr (opts, plan)"
  by (simp add: example_config buildOptionsPlan_def add_inbound_eq inbound_error_def buildInboundTransport_def buildCoreOptions_def
      add_outbound_def leafOutboundOptions_def Let_def)

theorem routing_as_configured_witness:
  "\<exists>opts plan. buildOptionsPlan example_ciphers example_request = Inr (opts, plan)
     \<and> routed (\<lambda>_. True) (bx_Route opts) (listener_tag example_inbound 8443) = ''exit''
     \<and> routed (\<lambda>_. True) (bx_Route opts) (listener_tag example_inbound 443) = ''direct-out''"
proof -
  obtain opts plan where b: "buildOptionsPlan example_ciphers example_request = Inr (opts, plan)" using example_builds by blast
  have "routed (\<lambda>_. True) (bx_Route opts) (listener_tag example_inbound p) =
      (case find (\<lambda>r. rule_names r example_inbound p \<and> True) (co_RoutingRules example_core) of None \<Rightarrow> ''direct-out''
       | Some r \<Rightarrow> resolveOutboundTag (rr_OutboundTag r))" if "p \<in> set (ports example_inbound)" for p
    by (rule routing_as_configured [OF b]) (use that in \<open>simp_all add: example_config\<close>)
  from this [of 8443] this [of 443] b show ?thesis
    by (simp add: ports_def rule_names_def allowed_def resolveOutboundTag_def example_inbound_def example_core_def)
qed

end
