(* ===== verification/CoreConfig.thy ===== *)
theory CoreConfig
  imports NodeRoutes
begin

text \<open>
  The panel's check of a core configuration (\<open>validateCoreConfig\<close> of \<open>internal/httpapi/coreconfig.go\<close>)
  and what it guarantees to the node that builds it. The panel's types \<open>outboundDTO\<close>,
  \<open>routingRuleDTO\<close> and \<open>dnsServerDTO\<close> have the JSON fields of the node's \<open>outboundSpec\<close>,
  \<open>routingRuleSpec\<close> and \<open>dnsServerSpec\<close>, so both are the same records here. The answer is the error
  message, empty when the configuration is accepted.
\<close>

section \<open>The tables\<close>

definition implicitOutboundTags :: "string list" where
  "implicitOutboundTags = [''direct'', ''block'']"

definition validOutboundTypes :: "string list" where
  "validOutboundTypes = [''direct'', ''block'', ''socks'', ''http'', ''shadowsocks'', ''vmess'', ''trojan'', ''vless'', ''hysteria2'', ''tuic'',
     ''selector'', ''urltest'', ''anytls'', ''hysteria'', ''shadowtls'', ''snell'', ''ssh'', ''tor'']"

definition validDNSTypes :: "string list" where
  "validDNSTypes = [''local'', ''udp'', ''tcp'', ''tls'', ''https'']"

definition validLogLevels :: "string list" where
  "validLogLevels = [''trace'', ''debug'', ''info'', ''warn'', ''error'', ''fatal'', ''panic'']"

definition validNetworks :: "string list" where
  "validNetworks = [''tcp'', ''udp'', ''icmp'']"

definition validProtocols :: "string list" where
  "validProtocols = [''tls'', ''http'', ''quic'', ''dns'', ''stun'', ''bittorrent'', ''dtls'', ''ssh'', ''rdp'', ''ntp'']"

definition validShadowsocksMethods :: "string list" where
  "validShadowsocksMethods = [''none'', ''aes-128-gcm'', ''aes-192-gcm'', ''aes-256-gcm'', ''chacha20-ietf-poly1305'', ''xchacha20-ietf-poly1305'',
     ''2022-blake3-aes-128-gcm'', ''2022-blake3-aes-256-gcm'', ''2022-blake3-chacha20-poly1305'']"

definition validVMessSecurity :: "string list" where
  "validVMessSecurity = [''auto'', ''none'', ''zero'', ''aes-128-gcm'', ''chacha20-poly1305'']"

definition validCongestionControl :: "string list" where
  "validCongestionControl = [''cubic'', ''new_reno'', ''bbr'']"

definition validSnellObfsModes :: "string list" where
  "validSnellObfsModes = [''none'', ''http'', ''tls'']"

section \<open>Validation\<close>

text \<open>\<open>first_msg\<close> is the way the code reports: the first check that fails gives the message.\<close>

fun first_msg :: "(bool \<times> string) list \<Rightarrow> string option" where
  "first_msg [] = None"
| "first_msg ((bad, msg) # rest) = (if bad then Some msg else first_msg rest)"

definition needsServer :: "string \<Rightarrow> bool" where
  "needsServer type \<longleftrightarrow> type \<in> set [''socks'', ''http'', ''shadowsocks'', ''vmess'', ''trojan'', ''vless'', ''hysteria2'', ''tuic'',
     ''anytls'', ''hysteria'', ''shadowtls'', ''snell'', ''ssh'']"

text \<open>The switch over the type.\<close>

definition check_fields :: "outboundSpec \<Rightarrow> (bool \<times> string) list" where
  "check_fields ob =
     (let type = ob_Type ob; head = ''outbound '' @ ob_Tag ob @ '': ''
      in if type = ''shadowsocks''
         then [(ob_Method ob \<notin> set validShadowsocksMethods, head @ ''invalid shadowsocks method '' @ ob_Method ob),
               (ob_Password ob = [], head @ ''password is required for type shadowsocks'')]
         else if type = ''vmess''
         then [(ob_UUID ob = [], head @ ''uuid is required for type vmess''),
               (ob_Security ob \<notin> set validVMessSecurity, head @ ''invalid vmess security '' @ ob_Security ob)]
         else if type = ''trojan'' then [(ob_Password ob = [], head @ ''password is required for type trojan'')]
         else if type = ''vless'' then [(ob_UUID ob = [], head @ ''uuid is required for type vless'')]
         else if type = ''hysteria2'' then [(ob_Password ob = [], head @ ''password is required for type hysteria2'')]
         else if type = ''tuic''
         then [(ob_UUID ob = [] \<or> ob_Password ob = [], head @ ''uuid and password are required for type tuic''),
               (ob_CongestionControl ob \<noteq> [] \<and> ob_CongestionControl ob \<notin> set validCongestionControl,
                head @ ''invalid congestion_control '' @ ob_CongestionControl ob)]
         else if type = ''anytls'' then [(ob_Password ob = [], head @ ''password is required for type anytls'')]
         else if type = ''hysteria''
         then [(ob_UpMbps ob \<le> 0 \<or> ob_DownMbps ob \<le> 0, head @ ''up_mbps and down_mbps (both > 0) are required for type hysteria'')]
         else if type = ''shadowtls''
         then [(ob_Version ob < 1 \<or> ob_Version ob > 3, head @ ''version must be 1, 2 or 3 for type shadowtls''),
               (ob_Version ob \<noteq> 1 \<and> ob_Password ob = [], head @ ''password is required for shadowtls version '' @ Itoa (ob_Version ob))]
         else if type = ''snell''
         then [(ob_PSK ob = [], head @ ''psk is required for type snell''),
               (ob_ObfsMode ob \<noteq> [] \<and> ob_ObfsMode ob \<notin> set validSnellObfsModes, head @ ''invalid snell obfs_mode '' @ ob_ObfsMode ob)]
         else if type = ''ssh''
         then [(ob_Username ob = [] \<or> ob_Password ob = [], head @ ''username and password are required for type ssh'')]
         else [])"

text \<open>A word in single quotes.\<close>

definition quoted :: "string \<Rightarrow> string" where
  "quoted s = CHR 0x27 # s @ [CHR 0x27]"

definition check_outbound :: "string list \<Rightarrow> outboundSpec \<Rightarrow> string option" where
  "check_outbound tags ob =
     (let type = ob_Type ob; head = ''outbound '' @ ob_Tag ob @ '': ''
      in first_msg
        ([(ob_Tag ob = [] \<or> ob_Tag ob \<in> set implicitOutboundTags,
           ''outbound tag must be non-empty and not '' @ quoted ''direct'' @ ''/'' @ quoted ''block'' @ '' (reserved)''),
          (ob_Tag ob \<in> set tags, ''duplicate outbound tag: '' @ ob_Tag ob),
          (type \<notin> set validOutboundTypes, ''invalid outbound type: '' @ type),
          (needsServer type \<and> (ob_Server ob = [] \<or> ob_ServerPort ob = 0), head @ ''server and server_port are required for type '' @ type),
          ((type = ''selector'' \<or> type = ''urltest'') \<and> ob_Outbounds ob = [],
           head @ ''at least one member outbound is required for type '' @ type),
          (ob_DirectFallback ob \<and> ob_BindInterface ob = [], head @ ''direct_fallback requires bind_interface''),
          (ob_DirectFallback ob \<and> (type = ''selector'' \<or> type = ''urltest'' \<or> type = ''block''),
           head @ ''direct_fallback is not allowed for type '' @ type)]
         @ check_fields ob))"

fun check_outbounds :: "string list \<Rightarrow> outboundSpec list \<Rightarrow> string option" where
  "check_outbounds tags [] = None"
| "check_outbounds tags (ob # obs) =
     (case check_outbound tags ob of Some msg \<Rightarrow> Some msg | None \<Rightarrow> check_outbounds (ob_Tag ob # tags) obs)"

definition validTarget :: "outboundSpec list \<Rightarrow> string \<Rightarrow> bool" where
  "validTarget obs tag \<longleftrightarrow> tag \<in> set implicitOutboundTags \<or> tag \<in> ob_Tag ` set obs"

definition check_members :: "outboundSpec list \<Rightarrow> (bool \<times> string) list" where
  "check_members obs =
     concat (map (\<lambda>ob. map (\<lambda>member. (\<not> validTarget obs member,
        ''outbound '' @ ob_Tag ob @ '': unknown member outbound '' @ member)) (ob_Outbounds ob)) obs)"

fun check_ports :: "int list \<Rightarrow> int list \<Rightarrow> (bool \<times> string) list" where
  "check_ports seen [] = []"
| "check_ports seen (p # ps) =
     (p < 1 \<or> p > 65535, ''routing rule: invalid inbound_port '' @ Itoa p @ '' (must be 1-65535)'')
     # (p \<in> set seen, ''routing rule: duplicate inbound_port '' @ Itoa p)
     # check_ports (p # seen) ps"

definition check_rule :: "outboundSpec list \<Rightarrow> routingRuleSpec \<Rightarrow> (bool \<times> string) list" where
  "check_rule obs r =
     [(\<not> validTarget obs (rr_OutboundTag r), ''routing rule targets unknown outbound: '' @ rr_OutboundTag r)]
     @ map (\<lambda>n. (n \<notin> set validNetworks, ''routing rule: invalid network '' @ n)) (rr_Network r)
     @ map (\<lambda>p. (p \<notin> set validProtocols, ''routing rule: invalid protocol '' @ p)) (rr_Protocol r)
     @ (if rr_InboundPort r \<noteq> []
        then (rr_Inbound r = [], ''routing rule: inbound_port requires a non-empty inbound'') # check_ports [] (rr_InboundPort r)
        else [])"

fun check_dns :: "string list \<Rightarrow> dnsServerSpec list \<Rightarrow> (bool \<times> string) list" where
  "check_dns tags [] = []"
| "check_dns tags (s # ss) =
     [(dn_Tag s = [], ''dns server tag is required''),
      (dn_Tag s \<in> set tags, ''duplicate dns server tag: '' @ dn_Tag s),
      (dn_Type s \<notin> set validDNSTypes, ''invalid dns server type: '' @ dn_Type s),
      (dn_Type s \<noteq> ''local'' \<and> dn_Address s = [], ''dns server '' @ dn_Tag s @ '': address is required for type '' @ dn_Type s)]
     @ check_dns (dn_Tag s # tags) ss"

definition validateCoreConfig :: "coreSpec \<Rightarrow> string" where
  "validateCoreConfig dto =
     (if co_LogLevel dto \<noteq> [] \<and> co_LogLevel dto \<notin> set validLogLevels then ''invalid log_level''
      else case check_outbounds [] (co_Outbounds dto) of
        Some msg \<Rightarrow> msg
      | None \<Rightarrow>
          (case first_msg (check_members (co_Outbounds dto)
                 @ concat (map (check_rule (co_Outbounds dto)) (co_RoutingRules dto)) @ check_dns [] (co_DNSServers dto)) of
             Some msg \<Rightarrow> msg
           | None \<Rightarrow> ''''))"

section \<open>What an accepted configuration builds\<close>

lemma first_msg_None: "first_msg xs = None \<longleftrightarrow> (\<forall>(bad, msg) \<in> set xs. \<not> bad)"
  by (induction xs rule: first_msg.induct) auto

lemma first_msg_nonempty: "first_msg xs = Some msg \<Longrightarrow> (\<forall>(bad, m) \<in> set xs. m \<noteq> []) \<Longrightarrow> msg \<noteq> []"
  by (induction xs rule: first_msg.induct) (auto split: if_splits)

lemma check_fields_nonempty: "\<forall>(bad, m) \<in> set (check_fields ob). m \<noteq> []"
  by (simp add: check_fields_def Let_def)

lemma check_outbound_nonempty: "check_outbound tags ob \<noteq> Some []"
proof
  assume "check_outbound tags ob = Some []"
  from first_msg_nonempty [OF this [unfolded check_outbound_def Let_def]] check_fields_nonempty [of ob]
  show False by simp
qed

lemma check_outbounds_nonempty: "check_outbounds tags obs \<noteq> Some []"
  by (induction obs arbitrary: tags) (auto simp: check_outbound_nonempty split: option.splits)

lemma check_ports_nonempty: "(bad, m) \<in> set (check_ports seen ps) \<Longrightarrow> m \<noteq> []"
  by (induction seen ps rule: check_ports.induct) auto

lemma check_dns_nonempty: "(bad, m) \<in> set (check_dns tags ss) \<Longrightarrow> m \<noteq> []"
  by (induction tags ss rule: check_dns.induct) auto

lemma check_rest_nonempty:
  "(bad, m) \<in> set (check_members obs @ concat (map (check_rule obs) rs) @ check_dns [] ss) \<Longrightarrow> m \<noteq> []"
  using check_ports_nonempty check_dns_nonempty
  by (fastforce simp: check_members_def check_rule_def split: if_splits)

lemma validate_iff:
  "validateCoreConfig dto = '''' \<longleftrightarrow>
     (co_LogLevel dto = [] \<or> co_LogLevel dto \<in> set validLogLevels) \<and> check_outbounds [] (co_Outbounds dto) = None \<and>
     (\<forall>(bad, msg) \<in> set (check_members (co_Outbounds dto)
        @ concat (map (check_rule (co_Outbounds dto)) (co_RoutingRules dto)) @ check_dns [] (co_DNSServers dto)). \<not> bad)"
  (is "_ \<longleftrightarrow> ?log \<and> ?outs \<and> (\<forall>(bad, msg) \<in> set ?rest. \<not> bad)")
proof -
  have "check_outbounds [] (co_Outbounds dto) \<noteq> Some []" by (rule check_outbounds_nonempty)
  moreover have "first_msg ?rest \<noteq> Some []"
    using first_msg_nonempty [of ?rest "[]"] check_rest_nonempty by blast
  ultimately show ?thesis unfolding first_msg_None [symmetric]
    by (auto simp: validateCoreConfig_def simp del: set_append split: option.splits)
qed

lemma check_outbounds_None:
  "check_outbounds tags obs = None \<longleftrightarrow>
     (\<forall>ob \<in> set obs. check_outbound [] ob = None) \<and> distinct (map ob_Tag obs) \<and> set tags \<inter> ob_Tag ` set obs = {}"
proof (induction obs arbitrary: tags)
  case (Cons ob obs)
  have "check_outbound tags ob = None \<longleftrightarrow> check_outbound [] ob = None \<and> ob_Tag ob \<notin> set tags"
    by (auto simp: check_outbound_def Let_def first_msg_None)
  then show ?case using Cons by (auto split: option.splits)
qed simp

definition is_fallback :: "outboundSpec \<Rightarrow> bool" where
  "is_fallback ob \<longleftrightarrow> ob_DirectFallback ob \<and> ob_BindInterface ob \<noteq> [] \<and> ob_Type ob \<notin> set [''block'', ''selector'', ''urltest'']"

lemma check_outbound_ok:
  "check_outbound tags ob = None \<Longrightarrow> ob_Type ob \<in> set validOutboundTypes \<and> ob_DirectFallback ob = is_fallback ob"
  unfolding check_outbound_def Let_def first_msg_None by (auto simp: is_fallback_def)

definition group_of :: "outboundSpec \<Rightarrow> FallbackGroup" where
  "group_of ob = \<lparr>fg_Group = ob_Tag ob, fg_Primary = ob_Tag ob @ ''~wg'', fg_Fallback = ob_Tag ob @ ''~direct'', fg_Interface = ob_BindInterface ob\<rparr>"

definition outbounds_of :: "outboundSpec \<Rightarrow> sb_outbound list" where
  "outbounds_of ob =
     (if ob_Type ob = ''block'' then [\<lparr>bo_Type = ''block'', bo_Tag = ob_Tag ob, bo_Options = StubOptions\<rparr>]
      else if ob_Type ob = ''selector''
      then [\<lparr>bo_Type = ''selector'', bo_Tag = ob_Tag ob, bo_Options = SelectorOutbound (resolveOutboundTags (ob_Outbounds ob)) [] False\<rparr>]
      else if ob_Type ob = ''urltest''
      then [\<lparr>bo_Type = ''urltest'', bo_Tag = ob_Tag ob, bo_Options = URLTestOutbound (resolveOutboundTags (ob_Outbounds ob))\<rparr>]
      else if is_fallback ob
      then [\<lparr>bo_Type = ob_Type ob, bo_Tag = ob_Tag ob @ ''~wg'', bo_Options = projr (leafOutboundOptions ob (ob_BindInterface ob))\<rparr>,
            \<lparr>bo_Type = ob_Type ob, bo_Tag = ob_Tag ob @ ''~direct'', bo_Options = projr (leafOutboundOptions ob [])\<rparr>,
            \<lparr>bo_Type = ''selector'', bo_Tag = ob_Tag ob,
             bo_Options = SelectorOutbound [ob_Tag ob @ ''~wg'', ob_Tag ob @ ''~direct''] (ob_Tag ob @ ''~wg'') True\<rparr>]
      else [\<lparr>bo_Type = ob_Type ob, bo_Tag = ob_Tag ob, bo_Options = projr (leafOutboundOptions ob (ob_BindInterface ob))\<rparr>])"

lemma leaf_builds:
  "ob_Type ob \<in> set validOutboundTypes \<Longrightarrow> ob_Type ob \<notin> set [''block'', ''selector'', ''urltest''] \<Longrightarrow>
    leafOutboundOptions ob bind = Inr (projr (leafOutboundOptions ob bind))"
  by (auto simp: validOutboundTypes_def leafOutboundOptions_def Let_def)

lemma add_outbound_valid:
  assumes "ob_Type ob \<in> set validOutboundTypes"
  shows "add_outbound (outs, groups) ob =
    Inr (outs @ outbounds_of ob, groups @ (if is_fallback ob then [group_of ob] else []))"
proof (cases "ob_Type ob \<in> set [''block'', ''selector'', ''urltest'']")
  case True
  then show ?thesis by (auto simp: add_outbound_def outbounds_of_def is_fallback_def)
next
  case False
  obtain a b where "leafOutboundOptions ob (ob_BindInterface ob) = Inr a" "leafOutboundOptions ob [] = Inr b"
    using leaf_builds [OF assms False] by meson
  then show ?thesis using False
    by (auto simp: add_outbound_def outbounds_of_def is_fallback_def group_of_def Let_def
        fallbackPrimarySuffix_def fallbackFallbackSuffix_def)
qed

lemma add_outbounds_valid:
  "\<forall>ob \<in> set obs. ob_Type ob \<in> set validOutboundTypes \<Longrightarrow>
    foldE add_outbound (outs, groups) obs =
      Inr (outs @ concat (map outbounds_of obs), groups @ map group_of (filter is_fallback obs))"
  by (induction obs arbitrary: outs groups) (simp_all add: add_outbound_valid)

lemma dns_builds:
  "\<forall>s \<in> set ss. dn_Type s \<in> set validDNSTypes \<Longrightarrow>
    foldE (\<lambda>servers s. map_sum id (\<lambda>b. servers @ [b]) (build_dns_server s)) acc ss =
      Inr (acc @ map (\<lambda>s. projr (build_dns_server s)) ss)"
proof (induction ss arbitrary: acc)
  case (Cons s ss)
  then obtain b where "build_dns_server s = Inr b"
    by (auto simp: validDNSTypes_def build_dns_server_def Let_def)
  then show ?case using Cons by simp
qed simp

lemma check_dns_types: "\<forall>(bad, msg) \<in> set (check_dns tags ss). \<not> bad \<Longrightarrow> s \<in> set ss \<Longrightarrow> dn_Type s \<in> set validDNSTypes"
  by (induction tags ss rule: check_dns.induct) auto

text \<open>The outbounds another outbound picks from.\<close>

fun members :: "sb_outbound_options \<Rightarrow> string list" where
  "members (SelectorOutbound ms d interrupt) = ms"
| "members (URLTestOutbound ms) = ms"
| "members _ = []"

lemma members_leaf [simp]: "members (projr (leafOutboundOptions ob bind)) = []" if "ob_Type ob \<in> set validOutboundTypes"
    "ob_Type ob \<notin> set [''block'', ''selector'', ''urltest'']"
  using that by (auto simp: validOutboundTypes_def leafOutboundOptions_def Let_def)

definition tags_of :: "outboundSpec \<Rightarrow> string list" where
  "tags_of ob = (if is_fallback ob then [ob_Tag ob @ ''~wg'', ob_Tag ob @ ''~direct'', ob_Tag ob] else [ob_Tag ob])"

lemma outbound_tags: "map bo_Tag (outbounds_of ob) = tags_of ob"
  by (auto simp: outbounds_of_def tags_of_def is_fallback_def)

lemma own_tag: "ob_Tag ob \<in> set (tags_of ob)"
  by (simp add: tags_of_def)

lemma outbound_members:
  assumes "o' \<in> set (outbounds_of ob)" and "m \<in> set (members (bo_Options o'))" and "ob_Type ob \<in> set validOutboundTypes"
  shows "m \<in> set (tags_of ob) \<or> m \<in> resolveOutboundTag ` set (ob_Outbounds ob)"
  using assms members_leaf [OF assms(3)]
  by (auto simp: outbounds_of_def tags_of_def is_fallback_def resolveOutboundTags_def split: if_splits)

lemma accepted_core_builds_to:
  assumes "validateCoreConfig core = ''''"
  shows "\<exists>built. buildCoreOptions (Some core) pbt = Inr built
    \<and> cx_Outbounds built = implicit_outbounds @ concat (map outbounds_of (co_Outbounds core))
    \<and> cx_Fallbacks built = map group_of (filter is_fallback (co_Outbounds core))"
proof -
  have obs: "\<forall>ob \<in> set (co_Outbounds core). ob_Type ob \<in> set validOutboundTypes"
    using assms check_outbound_ok by (auto simp: validate_iff check_outbounds_None)
  have "\<forall>s \<in> set (co_DNSServers core). dn_Type s \<in> set validDNSTypes"
    using assms check_dns_types [of "[]" "co_DNSServers core"] by (auto simp: validate_iff)
  from add_outbounds_valid [OF obs, of implicit_outbounds "[]"] dns_builds [OF this, of "[]"]
  show ?thesis by (simp add: buildCoreOptions_def Let_def)
qed

text \<open>A configuration the panel accepts is one every node can build. If \<open>validateCoreConfig\<close> finds
  nothing wrong, the node's translation succeeds, whatever the inbounds; every outbound a rule, a
  selector or a latency test refers to, and the default, exists; the outbounds are the two built-in
  ones and each configured one under its tag; and there is one fallback group for each outbound
  with a direct fallback, whose selector has exactly the two members of the group, the first bound
  to the tunnel and the second not.\<close>

theorem accepted_core_builds:
  assumes "validateCoreConfig core = ''''"
  shows "\<exists>built. buildCoreOptions (Some core) pbt = Inr built \<and>
    (let tags = map bo_Tag (cx_Outbounds built)
     in tags = [''direct-out'', ''block-out''] @ concat (map tags_of (co_Outbounds core))
      \<and> (\<forall>b \<in> set (bu_Rules (cx_Route built)). \<forall>out. br_Action b = Route out \<longrightarrow> out \<in> set tags)
      \<and> bu_Final (cx_Route built) \<in> set tags
      \<and> (\<forall>b \<in> set (cx_Outbounds built). set (members (bo_Options b)) \<subseteq> set tags)
      \<and> map fg_Group (cx_Fallbacks built) = map ob_Tag (filter ob_DirectFallback (co_Outbounds core))
      \<and> distinct (map fg_Group (cx_Fallbacks built))
      \<and> (\<forall>g \<in> set (cx_Fallbacks built). fg_Primary g \<noteq> fg_Fallback g \<and>
           (\<exists>ob \<in> set (co_Outbounds core). \<exists>a b. leafOutboundOptions ob (fg_Interface g) = Inr a \<and> leafOutboundOptions ob [] = Inr b \<and>
             {\<lparr>bo_Type = ob_Type ob, bo_Tag = fg_Primary g, bo_Options = a\<rparr>, \<lparr>bo_Type = ob_Type ob, bo_Tag = fg_Fallback g, bo_Options = b\<rparr>,
              \<lparr>bo_Type = ''selector'', bo_Tag = fg_Group g, bo_Options = SelectorOutbound [fg_Primary g, fg_Fallback g] (fg_Primary g) True\<rparr>}
               \<subseteq> set (cx_Outbounds built))))"
proof -
  define obs where "obs = co_Outbounds core"
  have valid: "check_outbounds [] obs = None" "\<forall>(bad, msg) \<in> set (check_members obs). \<not> bad"
    "\<forall>r \<in> set (co_RoutingRules core). \<forall>(bad, msg) \<in> set (check_rule obs r). \<not> bad"
    using assms by (auto simp: validate_iff obs_def)
  have types: "\<forall>ob \<in> set obs. ob_Type ob \<in> set validOutboundTypes" and dist: "distinct (map ob_Tag obs)"
    and fb: "\<forall>ob \<in> set obs. ob_DirectFallback ob = is_fallback ob"
    using valid(1) check_outbound_ok by (auto simp: check_outbounds_None)
  obtain built where built: "buildCoreOptions (Some core) pbt = Inr built"
    and outs: "cx_Outbounds built = implicit_outbounds @ concat (map outbounds_of obs)"
    and groups: "cx_Fallbacks built = map group_of (filter is_fallback obs)"
    using accepted_core_builds_to [OF assms] unfolding obs_def by blast
  define tags where "tags = map bo_Tag (cx_Outbounds built)"
  have tags: "tags = [''direct-out'', ''block-out''] @ concat (map tags_of obs)"
    by (simp add: tags_def outs implicit_outbounds_def implicitOutboundTagDirect_def implicitOutboundTagBlock_def
        map_concat comp_def outbound_tags)
  have target: "resolveOutboundTag t \<in> set tags" if "validTarget obs t" for t
    using that own_tag by (auto simp: validTarget_def implicitOutboundTags_def resolveOutboundTag_def tags
        implicitOutboundTagDirect_def implicitOutboundTagBlock_def)
  have rules: "out \<in> set tags" if b: "b \<in> set (bu_Rules (cx_Route built))" and act: "br_Action b = Route out" for b out
  proof -
    obtain r where "r \<in> set (co_RoutingRules core)" "build_rule pbt r = Some b"
      using b act buildCoreOptions_route [OF built] by (auto simp: sniff_rule_def map_filter_def split: if_splits)
    then show ?thesis using act valid(3) target
      by (auto simp: build_rule_def Let_def check_rule_def split: if_splits)
  qed
  have mem: "set (members (bo_Options b)) \<subseteq> set tags" if b: "b \<in> set (cx_Outbounds built)" for b
  proof
    fix m assume m: "m \<in> set (members (bo_Options b))"
    then obtain ob where ob: "ob \<in> set obs" "b \<in> set (outbounds_of ob)"
      using b by (auto simp: outs implicit_outbounds_def)
    then have "m \<in> set (tags_of ob) \<or> m \<in> resolveOutboundTag ` set (ob_Outbounds ob)"
      using outbound_members m types by blast
    moreover have "validTarget obs t" if "t \<in> set (ob_Outbounds ob)" for t
      using that ob(1) valid(2) by (fastforce simp: check_members_def)
    ultimately show "m \<in> set tags" using target ob(1) by (auto simp: tags)
  qed
  have group: "fg_Primary g \<noteq> fg_Fallback g \<and> (\<exists>ob \<in> set obs. \<exists>a b. leafOutboundOptions ob (fg_Interface g) = Inr a \<and>
      leafOutboundOptions ob [] = Inr b \<and>
             {\<lparr>bo_Type = ob_Type ob, bo_Tag = fg_Primary g, bo_Options = a\<rparr>, \<lparr>bo_Type = ob_Type ob, bo_Tag = fg_Fallback g, bo_Options = b\<rparr>,
              \<lparr>bo_Type = ''selector'', bo_Tag = fg_Group g, bo_Options = SelectorOutbound [fg_Primary g, fg_Fallback g] (fg_Primary g) True\<rparr>}
               \<subseteq> set (cx_Outbounds built))" if g: "g \<in> set (cx_Fallbacks built)" for g
  proof -
    obtain ob where ob: "ob \<in> set obs" "is_fallback ob" "g = group_of ob" using g by (auto simp: groups)
    then have leaf: "leafOutboundOptions ob bind = Inr (projr (leafOutboundOptions ob bind))" for bind
      using types by (intro leaf_builds) (auto simp: is_fallback_def)
    have "set (outbounds_of ob) \<subseteq> set (cx_Outbounds built)" using ob(1) by (auto simp: outs)
    then show ?thesis using ob leaf by (intro conjI bexI [of _ ob] exI) (auto simp: group_of_def outbounds_of_def is_fallback_def)
  qed
  have "map fg_Group (cx_Fallbacks built) = map ob_Tag (filter ob_DirectFallback obs)"
    using fb by (simp add: groups group_of_def comp_def cong: filter_cong)
  moreover have "distinct (map ob_Tag (filter ob_DirectFallback obs))" using dist by (simp add: distinct_map_filter)
  moreover have "bu_Final (cx_Route built) \<in> set tags"
    using buildCoreOptions_route [OF built] by (simp add: tags implicitOutboundTagDirect_def)
  ultimately show ?thesis using built tags rules mem group
    by - (rule exI [of _ built], unfold Let_def tags_def [symmetric] obs_def [symmetric], intro conjI ballI allI impI; simp only: not_False_eq_True)
qed

text \<open>The example configuration is accepted.\<close>

theorem accepted_core_builds_witness:
  "\<exists>built. buildCoreOptions (Some example_core) [] = Inr built \<and>
     map bo_Tag (cx_Outbounds built) = [''direct-out'', ''block-out'', ''exit~wg'', ''exit~direct'', ''exit'']"
proof -
  have "validateCoreConfig example_core = ''''"
    by (simp add: validateCoreConfig_def example_core_def example_outbound_def check_outbound_def check_fields_def check_members_def
        check_rule_def validTarget_def implicitOutboundTags_def validOutboundTypes_def validLogLevels_def needsServer_def Let_def)
  from accepted_core_builds [OF this, of "[]"] show ?thesis
    by (auto simp: Let_def tags_of_def is_fallback_def example_core_def example_outbound_def)
qed

text \<open>The reserved names are the ones an admin types, not the ones sing-box sees: an outbound may be
  called like a built-in one, and the built list then has two outbounds of one tag.\<close>

lemma accepted_core_may_repeat_tag:
  "\<exists>core built. validateCoreConfig core = '''' \<and> buildCoreOptions (Some core) [] = Inr built
     \<and> \<not> distinct (map bo_Tag (cx_Outbounds built))"
proof -
  let ?core = "example_core\<lparr>co_Outbounds := [example_outbound\<lparr>ob_Tag := ''direct-out''\<rparr>], co_RoutingRules := []\<rparr>"
  have "validateCoreConfig ?core = ''''"
    by (simp add: validateCoreConfig_def example_core_def example_outbound_def check_outbound_def check_fields_def check_members_def
        implicitOutboundTags_def validOutboundTypes_def validLogLevels_def needsServer_def Let_def)
  then obtain built where "buildCoreOptions (Some ?core) [] = Inr built"
    "cx_Outbounds built = implicit_outbounds @ concat (map outbounds_of (co_Outbounds ?core))"
    using accepted_core_builds_to by blast
  moreover from this have "\<not> distinct (map bo_Tag (cx_Outbounds built))"
    by (simp add: outbound_tags tags_of_def implicit_outbounds_def implicitOutboundTagDirect_def)
  ultimately show ?thesis using \<open>validateCoreConfig ?core = ''''\<close> by blast
qed

end
