(* ===== verification/NodeAgent.thy ===== *)
theory NodeAgent
  imports NodeRoutes NodeReport Presence
begin

text \<open>
  The node agent (\<open>cmd/node/main.go\<close> and \<open>internal/nodecore/nodecore.go\<close>): the one sing-box core a node
  runs, started and stopped over HTTP or by the pulled configuration, and the hot update of its
  users. The core itself is third-party code: the parameter \<open>api\<close> is the record of the calls the
  agent makes on it, and \<open>core_laws\<close> is what the agent relies on.
\<close>

section \<open>The core\<close>

text \<open>\<open>core_inbound b tag\<close> is the type of the running inbound, \<open>core_set_users\<close> the \<open>UpdateUsers\<close> of that
  inbound (\<open>None\<close> for an error) and \<open>core_users\<close> the list it authenticates against.\<close>

record 'b core_api =
  core_new :: "sb_options \<Rightarrow> 'b option"
  core_start :: "'b \<Rightarrow> 'b option"
  core_close :: "'b \<Rightarrow> bool"
  core_inbound :: "'b \<Rightarrow> string \<Rightarrow> string option"
  core_set_users :: "'b \<Rightarrow> string \<Rightarrow> sb_users \<Rightarrow> 'b option"
  core_users :: "'b \<Rightarrow> string \<Rightarrow> sb_users option"

record core_User =
  cu_Name :: string
  cu_UUID :: string
  cu_Password :: string
  cu_Flow :: string
  cu_UserKey :: string

datatype update_error = UnsupportedProtocol string | NoInbound string | WrongInbound string string | UsersRefused string

definition runningInbound :: "'b core_api \<Rightarrow> 'b \<Rightarrow> string \<Rightarrow> string \<Rightarrow> update_error option" where
  "runningInbound api b tag protocol =
     (case core_inbound api b tag of
        None \<Rightarrow> Some (NoInbound tag)
      | Some type \<Rightarrow> if type \<noteq> protocol then Some (WrongInbound tag protocol) else None)"

text \<open>The conversions of the switch of \<open>Node.UpdateUsers\<close>.\<close>

definition convert_users :: "string \<Rightarrow> core_User list \<Rightarrow> sb_users option" where
  "convert_users protocol us =
     (if protocol = ''vless'' then Some (VLESSUsers (map (\<lambda>u. (cu_Name u, cu_UUID u, cu_Flow u)) us))
      else if protocol = ''vmess'' then Some (VMessUsers (map (\<lambda>u. (cu_Name u, cu_UUID u)) us))
      else if protocol = ''trojan'' then Some (TrojanUsers (map (\<lambda>u. (cu_Name u, cu_Password u)) us))
      else if protocol = ''shadowsocks'' then Some (ShadowsocksUsers (map (\<lambda>u. (cu_Name u, cu_Password u)) us))
      else if protocol = ''hysteria2'' then Some (Hysteria2Users (map (\<lambda>u. (cu_Name u, cu_Password u)) us))
      else if protocol = ''tuic'' then Some (TUICUsers (map (\<lambda>u. (cu_Name u, cu_UUID u, cu_Password u)) us))
      else if protocol = ''snell'' then Some (SnellUsers (map (\<lambda>u. (cu_Name u, cu_UserKey u)) us))
      else if protocol = ''anytls'' then Some (AnyTLSUsers (map (\<lambda>u. (cu_Name u, cu_Password u)) us))
      else None)"

text \<open>\<open>UpdateVLESSUsers\<close> and its siblings: the inbound of that type takes the list.\<close>

definition UpdateInboundUsers :: "'b core_api \<Rightarrow> 'b \<Rightarrow> string \<Rightarrow> string \<Rightarrow> sb_users \<Rightarrow> update_error + 'b" where
  "UpdateInboundUsers api b tag protocol us =
     (case runningInbound api b tag protocol of
        Some err \<Rightarrow> Inl err
      | None \<Rightarrow>
          (case core_set_users api b tag us of
             None \<Rightarrow> Inl (UsersRefused tag)
           | Some b' \<Rightarrow> Inr b'))"

definition UpdateUsers :: "'b core_api \<Rightarrow> 'b \<Rightarrow> string \<Rightarrow> string \<Rightarrow> core_User list \<Rightarrow> update_error + 'b" where
  "UpdateUsers api b tag protocol users =
     (case convert_users protocol users of
        None \<Rightarrow> Inl (UnsupportedProtocol protocol)
      | Some us \<Rightarrow> UpdateInboundUsers api b tag protocol us)"

definition nodeUsers :: "userSpec list \<Rightarrow> core_User list" where
  "nodeUsers specs = map (\<lambda>u. \<lparr>cu_Name = us_Name u, cu_UUID = us_UUID u, cu_Password = us_Password u, cu_Flow = us_Flow u,
     cu_UserKey = us_UserKey u\<rparr>) specs"

section \<open>The server\<close>

record pulledConfig =
  pc_Version :: string
  pc_Inbounds :: "inboundSpec list"
  pc_Core :: coreSpec

text \<open>The supervisor is its groups and the map of active fallbacks; \<open>None\<close> stands for a nil pointer.\<close>

record 'b server =
  sv_node :: "'b option"
  sv_presence :: "presence_state option"
  sv_lastPulled :: "pulledConfig option"
  sv_monitor :: "Monitor option"
  sv_plan :: nodePlan
  sv_supervisor :: "(FallbackGroup list \<times> (string, bool) gomap) option"

datatype start_error = BadConfig config_error | NewFailed | StartFailed

definition startSupervisorLocked :: "'b server \<Rightarrow> nodePlan \<Rightarrow> 'b server" where
  "startSupervisorLocked s plan =
     (case sv_monitor s of
        None \<Rightarrow> s
      | Some m \<Rightarrow>
          (let s = s\<lparr>sv_monitor := Some (Monitor_Watch m (watchedInterfaces plan))\<rparr>
           in if pl_fallbacks plan = [] then s else s\<lparr>sv_supervisor := Some (pl_fallbacks plan, [])\<rparr>))"

definition startNodeLocked :: "'b core_api \<Rightarrow> ciphers \<Rightarrow> 'b server \<Rightarrow> startRequest \<Rightarrow> start_error option \<times> 'b server" where
  "startNodeLocked api ci s req =
     (case buildOptionsPlan ci req of
        Inl err \<Rightarrow> (Some (BadConfig err), s)
      | Inr (opts, plan) \<Rightarrow>
          (case core_new api opts of
             None \<Rightarrow> (Some NewFailed, s)
           | Some b \<Rightarrow>
               (case core_start api b of
                  None \<Rightarrow> (Some StartFailed, s)
                | Some b' \<Rightarrow> (None, startSupervisorLocked (s\<lparr>sv_node := Some b', sv_plan := plan\<rparr>) plan))))"

text \<open>Stopping; the flag is whether closing reported an error.\<close>

definition stopNodeLocked :: "'b core_api \<Rightarrow> 'b server \<Rightarrow> bool \<times> 'b server" where
  "stopNodeLocked api s =
     (let s = s\<lparr>sv_supervisor := None,
                sv_monitor := map_option (\<lambda>m. Monitor_Watch m []) (sv_monitor s), sv_plan := nodePlan_zero\<rparr>
      in case sv_node s of
           None \<Rightarrow> (False, s)
         | Some b \<Rightarrow> (\<not> core_close api b,
             s\<lparr>sv_node := None, sv_presence := map_option ResetPresence (sv_presence s)\<rparr>))"

text \<open>The handlers; the answer is the HTTP status and \<open>None\<close> is a body that does not decode.\<close>

definition handleStart :: "'b core_api \<Rightarrow> ciphers \<Rightarrow> 'b server \<Rightarrow> startRequest option \<Rightarrow> nat \<times> 'b server" where
  "handleStart api ci s req =
     (case req of
        None \<Rightarrow> (422, s)
      | Some req \<Rightarrow>
          (case buildOptionsPlan ci req of
             Inl err \<Rightarrow> (422, s)
           | Inr _ \<Rightarrow>
               if sv_node s \<noteq> None then (409, s)
               else (case startNodeLocked api ci s req of
                       (Some err, s') \<Rightarrow> (500, s')
                     | (None, s') \<Rightarrow> (200, s'))))"

definition handleStop :: "'b core_api \<Rightarrow> 'b server \<Rightarrow> nat \<times> 'b server" where
  "handleStop api s =
     (if sv_node s = None then (200, s)
      else (case stopNodeLocked api s of (failed, s') \<Rightarrow> (if failed then 500 else 200, s')))"

definition hotUpdatableProtocol :: "string \<Rightarrow> bool" where
  "hotUpdatableProtocol protocol \<longleftrightarrow>
     protocol \<in> set [''vless'', ''vmess'', ''trojan'', ''shadowsocks'', ''hysteria2'', ''tuic'', ''snell'', ''anytls'']"

definition handleUpdateUsers :: "'b core_api \<Rightarrow> 'b server \<Rightarrow> string \<Rightarrow> (string \<times> userSpec list) option \<Rightarrow> nat \<times> 'b server" where
  "handleUpdateUsers api s tag req =
     (case req of
        None \<Rightarrow> (422, s)
      | Some (protocol, users) \<Rightarrow>
          (case sv_node s of
             None \<Rightarrow> (409, s)
           | Some b \<Rightarrow>
               if \<not> hotUpdatableProtocol protocol then (422, s)
               else if protocol = ''shadowsocks'' \<and> users \<noteq> [] \<and>
                 (case map_of (pl_shadowsocksMethods (sv_plan s)) tag of Some running \<Rightarrow> shadowsocksMethod users \<noteq> running | None \<Rightarrow> False)
               then (409, s)
               else
                 (case foldl (\<lambda>(ok, b) listener. if \<not> ok then (ok, b)
                          else (case UpdateUsers api b listener protocol (nodeUsers users) of Inl err \<Rightarrow> (False, b) | Inr b' \<Rightarrow> (True, b')))
                        (True, b) (listenerTags (sv_plan s) tag) of
                    (ok, b') \<Rightarrow> (if ok then 200 else 422, s\<lparr>sv_node := Some b'\<rparr>))))"

section \<open>Pulling the configuration\<close>

type_synonym userUpdate = "string \<times> string"

text \<open>The loop of \<open>diffPulledConfig\<close> over the new inbounds.\<close>

fun diff_inbounds :: "(string, inboundSpec) gomap \<Rightarrow> inboundSpec list \<Rightarrow> userUpdate list \<Rightarrow> bool \<times> userUpdate list" where
  "diff_inbounds oldByTag [] hot = (False, hot)"
| "diff_inbounds oldByTag (i # is) hot =
     (case map_of oldByTag (in_Tag i) of
        None \<Rightarrow> (True, [])
      | Some oldIn \<Rightarrow>
          if oldIn\<lparr>in_Users := []\<rparr> \<noteq> i\<lparr>in_Users := []\<rparr> then (True, [])
          else if in_Users oldIn \<noteq> in_Users i
          then (if \<not> hotUpdatableProtocol (in_Protocol i) then (True, [])
                else if in_Protocol i = ''shadowsocks'' \<and> shadowsocksMethod (in_Users oldIn) \<noteq> shadowsocksMethod (in_Users i) then (True, [])
                else diff_inbounds oldByTag is (hot @ [(in_Tag i, in_Protocol i)]))
          else diff_inbounds oldByTag is hot)"

definition diffPulledConfig :: "pulledConfig option \<Rightarrow> pulledConfig \<Rightarrow> bool \<times> userUpdate list" where
  "diffPulledConfig old new =
     (case old of
        None \<Rightarrow> (True, [])
      | Some o' \<Rightarrow>
          if pc_Core o' \<noteq> pc_Core new then (True, [])
          else (let oldByTag = foldl (\<lambda>m i. mput (in_Tag i) i m) [] (pc_Inbounds o')
                in if length oldByTag \<noteq> length (pc_Inbounds new) then (True, [])
                   else diff_inbounds oldByTag (pc_Inbounds new) []))"

definition runningLastPulledLocked :: "'b server \<Rightarrow> bool" where
  "runningLastPulledLocked s =
     (case sv_lastPulled s of None \<Rightarrow> False | Some c \<Rightarrow> sv_node s \<noteq> None \<or> pc_Inbounds c = [])"

definition config_request :: "pulledConfig \<Rightarrow> startRequest" where
  "config_request c = \<lparr>sr_Inbounds = pc_Inbounds c, sr_Core = Some (pc_Core c)\<rparr>"

definition applyFullLocked :: "'b core_api \<Rightarrow> ciphers \<Rightarrow> 'b server \<Rightarrow> pulledConfig \<Rightarrow> 'b server" where
  "applyFullLocked api ci s pulled =
     (case startNodeLocked api ci (snd (stopNodeLocked api s)) (config_request pulled) of
        (Some err, s') \<Rightarrow> s'
      | (None, s') \<Rightarrow> s'\<lparr>sv_lastPulled := Some pulled\<rparr>)"

text \<open>The hot updates: every listener is tried, the flag says whether one failed.\<close>

definition hot_listener :: "'b core_api \<Rightarrow> string \<Rightarrow> core_User list \<Rightarrow> bool \<times> 'b \<Rightarrow> string \<Rightarrow> bool \<times> 'b" where
  "hot_listener api protocol users acc listener =
     (case acc of (failed, b) \<Rightarrow>
        (case UpdateUsers api b listener protocol users of Inl err \<Rightarrow> (True, b) | Inr b' \<Rightarrow> (failed, b')))"

definition hot_update :: "'b core_api \<Rightarrow> nodePlan \<Rightarrow> (string, userSpec list) gomap \<Rightarrow> bool \<times> 'b \<Rightarrow> userUpdate \<Rightarrow> bool \<times> 'b" where
  "hot_update api plan usersByTag acc u =
     (case u of (tag, protocol) \<Rightarrow>
        foldl (hot_listener api protocol (nodeUsers (mget [] usersByTag tag))) acc (listenerTags plan tag))"

datatype pull_resp = RequestFailed | NotModified | BadStatus | Undecodable | Pulled pulledConfig

text \<open>\<open>panel\<close> answers the request; its argument is the \<open>If-None-Match\<close> version, when one is sent.\<close>

definition pullOnce :: "'b core_api \<Rightarrow> ciphers \<Rightarrow> (string option \<Rightarrow> pull_resp) \<Rightarrow> 'b server \<Rightarrow> 'b server" where
  "pullOnce api ci panel s =
     (case panel (if runningLastPulledLocked s then map_option pc_Version (sv_lastPulled s) else None) of
        Pulled pulled \<Rightarrow>
          if runningLastPulledLocked s \<and> map_option pc_Version (sv_lastPulled s) = Some (pc_Version pulled) then s
          else
            (let (needsRestart, hot) = diffPulledConfig (sv_lastPulled s) pulled
             in case sv_node s of
                  None \<Rightarrow> if pc_Inbounds pulled = [] then s\<lparr>sv_lastPulled := Some pulled\<rparr> else applyFullLocked api ci s pulled
                | Some b \<Rightarrow>
                    if needsRestart then applyFullLocked api ci s pulled
                    else
                      (let usersByTag = foldl (\<lambda>m i. mput (in_Tag i) (in_Users i) m) [] (pc_Inbounds pulled);
                           (failed, b') = foldl (hot_update api (sv_plan s) usersByTag) (False, b) hot;
                           s' = s\<lparr>sv_node := Some b'\<rparr>
                       in if failed then s' else s'\<lparr>sv_lastPulled := Some pulled\<rparr>))
      | _ \<Rightarrow> s)"

section \<open>The tunnel report\<close>

text \<open>\<open>read\<close> are the tunnels found on the host, \<open>configured\<close> the configured names, \<open>discovered\<close> what the
  monitor discovers.\<close>

definition tunnelReport :: "string list \<Rightarrow> string list \<Rightarrow> 'b server \<Rightarrow> Tunnel list \<Rightarrow> Tunnel list" where
  "tunnelReport configured discovered s read =
     (case sv_monitor s of
        None \<Rightarrow> read
      | Some m \<Rightarrow>
          (let active = (case sv_supervisor s of
                 None \<Rightarrow> []
               | Some (groups, act) \<Rightarrow> ActiveByInterface groups \<lparr>su_box = (), su_active = act, su_log = []\<rparr>);
               health = map (\<lambda>(name, h). (name, if mget False active name then h\<lparr>th_FallbackActive := True\<rparr> else h))
                          (Monitor_Health m discovered)
           in ApplyTunnelHealth read configured health))"

definition clientConnections :: "'b server \<Rightarrow> int \<times> 'b server" where
  "clientConnections s =
     (case sv_presence s of
        None \<Rightarrow> (0, s)
      | Some st \<Rightarrow> (case Presence st of (snap, st') \<Rightarrow> (snap_Total snap, s\<lparr>sv_presence := Some st'\<rparr>)))"

end
