(* ===== verification/ConfigSync.thy ===== *)
theory ConfigSync
  imports NodeAgent
begin

text \<open>
  Configuration sync of the node: a core started from a configuration runs exactly that configuration,
  a hot update leaves the core as a restart would, and a node that keeps pulling converges to the
  configuration of the panel.
\<close>

section \<open>What the agent relies on\<close>

text \<open>
  The documented behaviour of the core and of the forked inbounds: a started core has one inbound per
  option block, of its type and with its users, and no other; replacing the users of an inbound
  changes that inbound's list and nothing else.
\<close>

definition core_laws :: "'b core_api \<Rightarrow> bool" where
  "core_laws api \<longleftrightarrow>
     (\<forall>opts b b' t. core_new api opts = Some b \<and> core_start api b = Some b' \<and> distinct (map bi_Tag (bx_Inbounds opts)) \<longrightarrow>
        core_inbound api b' t = map_option bi_Type (find (\<lambda>x. bi_Tag x = t) (bx_Inbounds opts)) \<and>
        core_users api b' t = map_option bi_Users (find (\<lambda>x. bi_Tag x = t) (bx_Inbounds opts))) \<and>
     (\<forall>b t us b'. core_inbound api b t \<noteq> None \<and> core_set_users api b t us = Some b' \<longrightarrow>
        core_inbound api b' = core_inbound api b \<and> core_users api b' = (core_users api b)(t \<mapsto> us))"

lemma core_laws_update:
  "core_laws api \<Longrightarrow> core_inbound api b t \<noteq> None \<Longrightarrow> core_set_users api b t us = Some b' \<Longrightarrow>
    core_inbound api b' = core_inbound api b \<and> core_users api b' = (core_users api b)(t \<mapsto> us)"
  unfolding core_laws_def by blast

text \<open>What the panel sends: distinct tags without the separator, and distinct ports.\<close>

definition wf_config :: "pulledConfig \<Rightarrow> bool" where
  "wf_config c \<longleftrightarrow> distinct (map in_Tag (pc_Inbounds c)) \<and>
     (\<forall>i \<in> set (pc_Inbounds c). CHR ''#'' \<notin> set (in_Tag i) \<and> distinct (ports i))"

text \<open>The core has exactly the listeners of the configuration, each with its users.\<close>

definition runs :: "'b core_api \<Rightarrow> 'b \<Rightarrow> pulledConfig \<Rightarrow> bool" where
  "runs api b c \<longleftrightarrow>
     (\<forall>i \<in> set (pc_Inbounds c). \<forall>p \<in> set (ports i).
        core_inbound api b (listener_tag i p) = map_option (\<lambda>_. in_Protocol i) (build_users (in_Protocol i) (in_Users i)) \<and>
        core_users api b (listener_tag i p) = build_users (in_Protocol i) (in_Users i)) \<and>
     (\<forall>t. (\<forall>i \<in> set (pc_Inbounds c). \<forall>p \<in> set (ports i). t \<noteq> listener_tag i p) \<longrightarrow>
        core_inbound api b t = None \<and> core_users api b t = None)"

section \<open>A started core\<close>

lemma listener_tag_inject:
  assumes "wf_config c" and "i \<in> set (pc_Inbounds c)" and "j \<in> set (pc_Inbounds c)"
    and "p \<in> set (ports i)" and "q \<in> set (ports j)"
  shows "listener_tag i p = listener_tag j q \<longleftrightarrow> i = j \<and> p = q"
proof
  assume eq: "listener_tag i p = listener_tag j q"
  have tags: "CHR ''#'' \<notin> set (in_Tag i)" "CHR ''#'' \<notin> set (in_Tag j)" using assms(1-3) by (auto simp: wf_config_def)
  have "in_Tag i = in_Tag j \<and> (1 < length (ports i) \<and> 1 < length (ports j) \<longrightarrow> p = q)"
    using eq tags by (auto simp: listener_tag_def derivedInboundTag_inject derived_not_plain
        dest: derived_not_plain [THEN notE, OF _ sym] split: if_splits)
  moreover from this have "i = j" using assms(1-3) by (auto simp: wf_config_def distinct_map dest: inj_onD)
  moreover have "p = q" if "\<not> 1 < length (ports j)" "i = j"
    using that assms(4,5) ports_nonempty [of j] by (cases "ports j") auto
  ultimately show "i = j \<and> p = q" by auto
qed simp

lemma find_concat:
  assumes "x \<in> set xs" and "\<forall>y \<in> set xs. y \<noteq> x \<longrightarrow> (\<forall>z \<in> set (f y). \<not> P z)" and "\<forall>z \<in> set (f x). P z"
  shows "find P (concat (map f xs)) = (case f x of [] \<Rightarrow> None | z # _ \<Rightarrow> Some z)"
proof -
  have app: "find P (as @ bs) = (case find P as of Some z \<Rightarrow> Some z | None \<Rightarrow> find P bs)" for as bs
    by (induction as) auto
  have none: "find P (concat (map f ys)) = None" if "\<forall>y \<in> set ys. \<forall>z \<in> set (f y). \<not> P z" for ys
    using that by (auto simp: find_None_iff)
  show ?thesis using assms
  proof (induction xs)
    case (Cons y xs)
    show ?case
    proof (cases "y = x")
      case True
      show ?thesis
      proof (cases "f x")
        case Nil
        have "find P (concat (map f xs)) = None" using Cons.prems(2) Nil by (intro none) (metis empty_iff list.set(1) list.set_intros(2))
        then show ?thesis using True Nil by simp
      next
        case (Cons z zs)
        then show ?thesis using True \<open>\<forall>z \<in> set (f x). P z\<close> by simp
      qed
    next
      case False
      have "find P (f y) = None" using Cons.prems(2) False by (auto simp: find_None_iff)
      then show ?thesis using Cons False by (simp add: app)
    qed
  qed simp
qed

definition port_pairs :: "inboundSpec list \<Rightarrow> (inboundSpec \<times> uint16) list" where
  "port_pairs is = concat (map (\<lambda>i. map (Pair i) (ports i)) is)"

lemma set_port_pairs: "(i, p) \<in> set (port_pairs is) \<longleftrightarrow> i \<in> set is \<and> p \<in> set (ports i)"
  by (auto simp: port_pairs_def)

lemma concat_listeners:
  "concat (map (\<lambda>i. concat (map (listeners i) (ports i))) is) = concat (map (\<lambda>(i, p). listeners i p) (port_pairs is))"
  by (induction "is") (simp_all add: port_pairs_def comp_def)

lemma distinct_port_pairs: "wf_config c \<Longrightarrow> distinct (port_pairs (pc_Inbounds c))"
proof -
  assume "wf_config c"
  then have "distinct is \<Longrightarrow> set is \<subseteq> set (pc_Inbounds c) \<Longrightarrow> distinct (port_pairs is)" for "is"
    by (induction "is") (auto simp: port_pairs_def wf_config_def distinct_map inj_on_def)
  then show ?thesis using \<open>wf_config c\<close> by (auto simp: wf_config_def distinct_map)
qed

lemma listeners_tag: "map bi_Tag (listeners i p) = (if listeners i p = [] then [] else [listener_tag i p])"
  by (auto simp: listeners_def split: option.splits)

lemma listeners_case:
  "map_option bi_Type (case listeners i p of [] \<Rightarrow> None | x # _ \<Rightarrow> Some x) = map_option (\<lambda>_. in_Protocol i) (build_users (in_Protocol i) (in_Users i))"
  "map_option bi_Users (case listeners i p of [] \<Rightarrow> None | x # _ \<Rightarrow> Some x) = build_users (in_Protocol i) (in_Users i)"
  using build_settings_iff [of i "buildInboundTLS i" "projr (buildInboundTransport i)" "in_Users i"]
  by (auto simp: listeners_def split: option.splits)

lemma listener_tags_distinct:
  assumes "wf_config c"
  shows "distinct (map bi_Tag (concat (map (\<lambda>(i, p). listeners i p) (port_pairs (pc_Inbounds c)))))"
proof -
  have "map bi_Tag (concat (map (\<lambda>(i, p). listeners i p) ps)) =
      map (\<lambda>(i, p). listener_tag i p) (filter (\<lambda>(i, p). listeners i p \<noteq> []) ps)" for ps
    by (induction ps) (auto simp: listeners_tag)
  moreover have "inj_on (\<lambda>(i, p). listener_tag i p) (set (port_pairs (pc_Inbounds c)))"
    using listener_tag_inject [OF assms] by (auto simp: inj_on_def set_port_pairs)
  ultimately show ?thesis using distinct_port_pairs [OF assms]
    by (auto simp: distinct_map intro: inj_on_subset)
qed

lemma start_runs:
  assumes laws: "core_laws api" and wf: "wf_config c" and opts: "buildOptionsPlan ci (config_request c) = Inr (opts, plan)"
    and start: "core_new api opts = Some b" "core_start api b = Some b'"
  shows "runs api b' c"
proof -
  let ?ps = "port_pairs (pc_Inbounds c)"
  have ins: "bx_Inbounds opts = concat (map (\<lambda>(i, p). listeners i p) ?ps)"
    using buildOptionsPlan_Inr [OF opts] by (auto simp: config_request_def concat_listeners)
  have dist: "distinct (map bi_Tag (bx_Inbounds opts))" using listener_tags_distinct [OF wf] by (simp only: ins)
  have obs: "core_inbound api b' t = map_option bi_Type (find (\<lambda>x. bi_Tag x = t) (bx_Inbounds opts))"
    "core_users api b' t = map_option bi_Users (find (\<lambda>x. bi_Tag x = t) (bx_Inbounds opts))" for t
    using laws start dist unfolding core_laws_def by blast+
  have tag: "bi_Tag x = listener_tag i p" if "x \<in> set (listeners i p)" for x i p
    using that by (auto simp: listeners_def split: option.splits)
  have found: "find (\<lambda>x. bi_Tag x = listener_tag i p) (bx_Inbounds opts) = (case listeners i p of [] \<Rightarrow> None | x # _ \<Rightarrow> Some x)"
    if ip: "i \<in> set (pc_Inbounds c)" "p \<in> set (ports i)" for i p
  proof -
    have "\<forall>y \<in> set ?ps. y \<noteq> (i, p) \<longrightarrow> (\<forall>x \<in> set (case y of (j, q) \<Rightarrow> listeners j q). bi_Tag x \<noteq> listener_tag i p)"
      using tag listener_tag_inject [OF wf] ip by (fastforce simp: set_port_pairs)
    then show ?thesis using find_concat [of "(i, p)" ?ps "\<lambda>(i, p). listeners i p" "\<lambda>x. bi_Tag x = listener_tag i p"] ip tag
      by (simp add: ins set_port_pairs)
  qed
  have none: "find (\<lambda>x. bi_Tag x = t) (bx_Inbounds opts) = None"
    if "\<forall>i \<in> set (pc_Inbounds c). \<forall>p \<in> set (ports i). t \<noteq> listener_tag i p" for t
    using that tag by (fastforce simp: find_None_iff ins set_port_pairs)
  show ?thesis unfolding runs_def
    by (auto simp: obs found none listeners_case)
qed

section \<open>Hot updates\<close>

lemma convert_nodeUsers: "convert_users protocol (nodeUsers us) = build_users protocol us"
  by (simp add: convert_users_def build_users_def nodeUsers_def comp_def)

lemma hot_listeners:
  assumes laws: "core_laws api"
  shows "foldl (hot_listener api protocol users) (failed, b) ls = (False, b') \<Longrightarrow>
    \<not> failed \<and> core_inbound api b' = core_inbound api b \<and>
    (\<forall>t. core_users api b' t = (if t \<in> set ls then convert_users protocol users else core_users api b t))"
proof (induction ls arbitrary: failed b)
  case (Cons l ls)
  show ?case
  proof (cases "UpdateUsers api b l protocol users")
    case (Inl err)
    then have "hot_listener api protocol users (failed, b) l = (True, b)" by (simp add: hot_listener_def)
    then show ?thesis using Cons.IH [of True b] Cons.prems by simp
  next
    case (Inr b1)
    then obtain us where "convert_users protocol users = Some us" "core_set_users api b l us = Some b1" "core_inbound api b l \<noteq> None"
      by (auto simp: UpdateUsers_def UpdateInboundUsers_def runningInbound_def split: option.splits)
    then have "core_inbound api b1 = core_inbound api b" "core_users api b1 = (core_users api b)(l \<mapsto> us)"
      using core_laws_update [OF laws] by blast+
    moreover have "hot_listener api protocol users (failed, b) l = (failed, b1)" using Inr by (simp add: hot_listener_def)
    then have "foldl (hot_listener api protocol users) (failed, b1) ls = (False, b')" using Cons.prems by simp
    ultimately show ?thesis using Cons.IH [of failed b1] \<open>convert_users protocol users = Some us\<close> by auto
  qed
qed simp

text \<open>The last update that reaches a listener decides.\<close>

lemma hot_updates:
  assumes laws: "core_laws api"
  shows "foldl (hot_update api plan users) (failed, b) hot = (False, b') \<Longrightarrow>
    \<not> failed \<and> core_inbound api b' = core_inbound api b \<and>
    core_users api b' t = (case find (\<lambda>u. t \<in> set (listenerTags plan (fst u))) (rev hot) of
        None \<Rightarrow> core_users api b t | Some u \<Rightarrow> build_users (snd u) (mget [] users (fst u)))"
proof (induction hot arbitrary: failed b)
  case (Cons u hot)
  obtain tag protocol where u: "u = (tag, protocol)" by force
  obtain failed1 b1 where b1: "hot_update api plan users (failed, b) u = (failed1, b1)" by force
  have rest: "foldl (hot_update api plan users) (failed1, b1) hot = (False, b')" using Cons.prems b1 by simp
  note IH = Cons.IH [OF rest]
  have "foldl (hot_listener api protocol (nodeUsers (mget [] users tag))) (failed, b) (listenerTags plan tag) = (False, b1)"
    using b1 conjunct1 [OF IH] unfolding hot_update_def u prod.case by simp
  note one = hot_listeners [OF laws this]
  then show ?case using IH by (auto simp: u find_snoc convert_nodeUsers split: option.splits)
qed simp

text \<open>When every list is accepted and every listener is there, no update fails.\<close>

lemma hot_listeners_accepted:
  assumes laws: "core_laws api" and acc: "\<And>b t us. core_set_users api b t us \<noteq> None" and "convert_users protocol users \<noteq> None"
  shows "\<forall>l \<in> set ls. core_inbound api b l = Some protocol \<Longrightarrow>
    \<exists>b'. foldl (hot_listener api protocol users) (failed, b) ls = (failed, b') \<and> core_inbound api b' = core_inbound api b"
proof (induction ls arbitrary: b)
  case (Cons l ls)
  obtain us b1 where us: "convert_users protocol users = Some us" "core_set_users api b l us = Some b1"
    using assms(3) acc by blast
  then have "UpdateUsers api b l protocol users = Inr b1" using Cons.prems by (simp add: UpdateUsers_def UpdateInboundUsers_def runningInbound_def)
  then have "hot_listener api protocol users (failed, b) l = (failed, b1)" by (simp add: hot_listener_def)
  moreover have "core_inbound api b1 = core_inbound api b" using core_laws_update [OF laws _ us(2)] Cons.prems by simp
  ultimately show ?case using Cons.IH [of b1] Cons.prems by simp
qed simp

lemma hot_updates_accepted:
  assumes laws: "core_laws api" and acc: "\<And>b t us. core_set_users api b t us \<noteq> None"
  shows "\<forall>(tag, protocol) \<in> set hot. hotUpdatableProtocol protocol \<and> (\<forall>l \<in> set (listenerTags plan tag). core_inbound api b l = Some protocol) \<Longrightarrow>
    \<exists>b'. foldl (hot_update api plan users) (False, b) hot = (False, b')"
proof (induction hot arbitrary: b)
  case (Cons u hot)
  obtain tag protocol where u: "u = (tag, protocol)" by force
  have "convert_users protocol us \<noteq> None" for us using Cons.prems by (auto simp: u hotUpdatableProtocol_def convert_users_def)
  then obtain b1 where "hot_update api plan users (False, b) u = (False, b1)" "core_inbound api b1 = core_inbound api b"
    using hot_listeners_accepted [OF laws acc, of protocol "nodeUsers (mget [] users tag)" "listenerTags plan tag" b False] Cons.prems
    by (auto simp: hot_update_def u)
  then show ?case using Cons by simp
qed simp

section \<open>The difference of two configurations\<close>

lemma fold_put_fresh: "distinct (map k xs) \<Longrightarrow> k ` set xs \<inter> fst ` set m = {} \<Longrightarrow>
    foldl (\<lambda>m x. mput (k x) (v x) m) m xs = m @ map (\<lambda>x. (k x, v x)) xs"
  by (induction xs arbitrary: m) (auto simp: mput_fresh)

lemma diff_inbounds_hot:
  "diff_inbounds m is hot = (False, hot') \<Longrightarrow>
    hot' = hot @ map (\<lambda>i. (in_Tag i, in_Protocol i)) (filter (\<lambda>i. in_Users (the (map_of m (in_Tag i))) \<noteq> in_Users i) is) \<and>
    (\<forall>i \<in> set is. \<exists>j. map_of m (in_Tag i) = Some j \<and> j\<lparr>in_Users := []\<rparr> = i\<lparr>in_Users := []\<rparr> \<and>
       (in_Users j \<noteq> in_Users i \<longrightarrow> hotUpdatableProtocol (in_Protocol i) \<and>
          (in_Protocol i = ''shadowsocks'' \<longrightarrow> shadowsocksMethod (in_Users j) = shadowsocksMethod (in_Users i))))"
  by (induction m "is" hot rule: diff_inbounds.induct) (auto split: option.splits if_splits)

lemma same_shape:
  assumes "j\<lparr>in_Users := []\<rparr> = i\<lparr>in_Users := us\<rparr>"
  shows "in_Tag j = in_Tag i" "in_Protocol j = in_Protocol i" "ports j = ports i" "listener_tag j = listener_tag i"
    "i = j\<lparr>in_Users := in_Users i\<rparr>"
proof -
  show "in_Tag j = in_Tag i" "in_Protocol j = in_Protocol i" "ports j = ports i"
    using assms by (cases i, cases j, simp add: ports_def)+
  then show "listener_tag j = listener_tag i" by (simp add: fun_eq_iff listener_tag_def)
  show "i = j\<lparr>in_Users := in_Users i\<rparr>" using assms by (cases i, cases j) simp
qed

text \<open>What a difference without restart says: the inbounds are the same ones up to their users.\<close>

lemma diffPulledConfig_hot:
  assumes "diffPulledConfig (Some c) c' = (False, hot)" and "wf_config c" and "wf_config c'"
  shows "pc_Core c = pc_Core c'"
    and "in_Tag ` set (pc_Inbounds c) = in_Tag ` set (pc_Inbounds c')"
    and "i \<in> set (pc_Inbounds c') \<Longrightarrow> \<exists>j \<in> set (pc_Inbounds c). j\<lparr>in_Users := []\<rparr> = i\<lparr>in_Users := []\<rparr> \<and>
       ((in_Tag i, in_Protocol i) \<in> set hot \<longleftrightarrow> in_Users j \<noteq> in_Users i) \<and>
       (in_Protocol i = ''shadowsocks'' \<longrightarrow> shadowsocksMethod (in_Users j) = shadowsocksMethod (in_Users i))"
    and "(t, protocol) \<in> set hot \<Longrightarrow> hotUpdatableProtocol protocol \<and> (\<exists>i \<in> set (pc_Inbounds c'). t = in_Tag i \<and> protocol = in_Protocol i)"
proof -
  define m where "m = map (\<lambda>i. (in_Tag i, i)) (pc_Inbounds c)"
  have m: "foldl (\<lambda>m i. mput (in_Tag i) i m) [] (pc_Inbounds c) = m"
    using fold_put_fresh [of in_Tag "pc_Inbounds c" "[]" "\<lambda>i. i"] assms(2) by (simp add: m_def wf_config_def)
  have lookup: "map_of m t = Some j \<longleftrightarrow> j \<in> set (pc_Inbounds c) \<and> in_Tag j = t" for t j
    using assms(2) by (subst map_of_wf_eq) (auto simp: m_def wf_map_def comp_def wf_config_def)
  have diff: "diff_inbounds m (pc_Inbounds c') [] = (False, hot)" and len: "length (pc_Inbounds c) = length (pc_Inbounds c')"
    and core: "pc_Core c = pc_Core c'"
    using assms(1) by (auto simp: diffPulledConfig_def Let_def m m_def split: if_splits)
  show "pc_Core c = pc_Core c'" by (rule core)
  note hot = diff_inbounds_hot [OF diff]
  have sub: "in_Tag ` set (pc_Inbounds c') \<subseteq> in_Tag ` set (pc_Inbounds c)"
  proof
    fix t assume "t \<in> in_Tag ` set (pc_Inbounds c')"
    then obtain i where i: "i \<in> set (pc_Inbounds c')" "t = in_Tag i" by auto
    obtain j where "map_of m t = Some j" using bspec [OF conjunct2 [OF hot] i(1)] i(2) by auto
    then have "j \<in> set (pc_Inbounds c) \<and> in_Tag j = t" by (simp only: lookup)
    then show "t \<in> in_Tag ` set (pc_Inbounds c)" by auto
  qed
  have "card (in_Tag ` set (pc_Inbounds x)) = length (pc_Inbounds x)" if "wf_config x" for x
    using that by (metis distinct_card list.set_map length_map wf_config_def)
  then show "in_Tag ` set (pc_Inbounds c) = in_Tag ` set (pc_Inbounds c')"
    using card_subset_eq [OF _ sub] assms(2,3) len by simp
  have eq: "x = y" if "x \<in> set (pc_Inbounds c')" "y \<in> set (pc_Inbounds c')" "in_Tag x = in_Tag y" for x y
    using that assms(3) by (auto simp: wf_config_def distinct_map dest: inj_onD)
  show "\<exists>j \<in> set (pc_Inbounds c). j\<lparr>in_Users := []\<rparr> = i\<lparr>in_Users := []\<rparr> \<and>
       ((in_Tag i, in_Protocol i) \<in> set hot \<longleftrightarrow> in_Users j \<noteq> in_Users i) \<and>
       (in_Protocol i = ''shadowsocks'' \<longrightarrow> shadowsocksMethod (in_Users j) = shadowsocksMethod (in_Users i))" if i: "i \<in> set (pc_Inbounds c')"
  proof -
    obtain j where j: "map_of m (in_Tag i) = Some j" "j\<lparr>in_Users := []\<rparr> = i\<lparr>in_Users := []\<rparr>"
      "in_Users j \<noteq> in_Users i \<Longrightarrow> in_Protocol i = ''shadowsocks'' \<Longrightarrow> shadowsocksMethod (in_Users j) = shadowsocksMethod (in_Users i)"
      using bspec [OF conjunct2 [OF hot] i] by auto
    have "(in_Tag i, in_Protocol i) \<in> set hot \<longleftrightarrow> in_Users j \<noteq> in_Users i" 
    proof
      assume "(in_Tag i, in_Protocol i) \<in> set hot"
      then obtain i' where "i' \<in> set (pc_Inbounds c')" "in_Tag i' = in_Tag i" "in_Users (the (map_of m (in_Tag i'))) \<noteq> in_Users i'"
        unfolding conjunct1 [OF hot] by auto
      then show "in_Users j \<noteq> in_Users i" using eq [OF _ i] j(1) by auto
    next
      assume "in_Users j \<noteq> in_Users i"
      then show "(in_Tag i, in_Protocol i) \<in> set hot" unfolding conjunct1 [OF hot] using i j(1) by auto
    qed
    moreover have "j \<in> set (pc_Inbounds c)" using j(1) lookup by simp
    ultimately show ?thesis using j(2,3) by metis
  qed
  show "hotUpdatableProtocol protocol \<and> (\<exists>i \<in> set (pc_Inbounds c'). t = in_Tag i \<and> protocol = in_Protocol i)"
    if hot_in: "(t, protocol) \<in> set hot"
  proof -
    obtain i where i: "i \<in> set (pc_Inbounds c')" "t = in_Tag i" "protocol = in_Protocol i" "in_Users (the (map_of m (in_Tag i))) \<noteq> in_Users i"
      using hot_in unfolding conjunct1 [OF hot] by auto
    moreover obtain j where "map_of m (in_Tag i) = Some j" "in_Users j \<noteq> in_Users i \<longrightarrow> hotUpdatableProtocol (in_Protocol i)"
      using bspec [OF conjunct2 [OF hot] i(1)] by auto
    ultimately show ?thesis by auto
  qed
qed

section \<open>A hot update leaves the core as a restart would\<close>

definition plan_fits :: "nodePlan \<Rightarrow> pulledConfig \<Rightarrow> bool" where
  "plan_fits plan c \<longleftrightarrow> (\<forall>i \<in> set (pc_Inbounds c). listenerTags plan (in_Tag i) = map (listener_tag i) (ports i))"

lemma plan_fits_build:
  "wf_config c \<Longrightarrow> buildOptionsPlan ci (config_request c) = Inr (opts, plan) \<Longrightarrow> plan_fits plan c"
  using buildOptionsPlan_Inr [of ci "config_request c" opts plan] listenerTags_build [of "pc_Inbounds c"]
  by (auto simp: plan_fits_def config_request_def wf_config_def listenerTags_def)

lemma build_users_None: "build_users protocol us = None \<longleftrightarrow> build_users protocol vs = None"
  by (simp add: build_users_def)

lemma protocol_known: "map_option (\<lambda>_. protocol) (build_users protocol us) = map_option (\<lambda>_. protocol) (build_users protocol vs)"
  using build_users_None [of protocol us vs] by (cases "build_users protocol us"; cases "build_users protocol vs") auto

text \<open>The inbounds before and after a difference without restart correspond.\<close>

lemma same_inbounds:
  assumes diff: "diffPulledConfig (Some c) c' = (False, hot)" and wf: "wf_config c" "wf_config c'" and j: "j \<in> set (pc_Inbounds c)"
  shows "\<exists>i \<in> set (pc_Inbounds c'). j\<lparr>in_Users := []\<rparr> = i\<lparr>in_Users := []\<rparr>"
proof -
  obtain i where i: "i \<in> set (pc_Inbounds c')" "in_Tag i = in_Tag j"
    using diffPulledConfig_hot(2) [OF diff wf] j by (metis image_iff)
  obtain j' where j': "j' \<in> set (pc_Inbounds c)" "j'\<lparr>in_Users := []\<rparr> = i\<lparr>in_Users := []\<rparr>"
    using diffPulledConfig_hot(3) [OF diff wf i(1)] by blast
  have "in_Tag j' = in_Tag j" using same_shape(1) [OF j'(2)] i(2) by simp
  then have "j' = j" using j j'(1) wf(1) by (auto simp: wf_config_def distinct_map dest: inj_onD)
  then show ?thesis using i j' by blast
qed

lemma hot_reaches:
  assumes diff: "diffPulledConfig (Some c) c' = (False, hot)" and wf: "wf_config c" "wf_config c'" and fits: "plan_fits plan c"
    and u: "u \<in> set hot"
  shows "\<exists>i \<in> set (pc_Inbounds c'). u = (in_Tag i, in_Protocol i) \<and> listenerTags plan (fst u) = map (listener_tag i) (ports i)"
proof -
  obtain i where i: "i \<in> set (pc_Inbounds c')" "u = (in_Tag i, in_Protocol i)"
    using diffPulledConfig_hot(4) [OF diff wf, of "fst u" "snd u"] u by (metis prod.collapse)
  obtain j where j: "j \<in> set (pc_Inbounds c)" "j\<lparr>in_Users := []\<rparr> = i\<lparr>in_Users := []\<rparr>"
    using diffPulledConfig_hot(3) [OF diff wf i(1)] by blast
  then have "listenerTags plan (fst u) = map (listener_tag i) (ports i)"
    using fits same_shape [OF j(2)] i(2) by (auto simp: plan_fits_def)
  then show ?thesis using i by blast
qed

lemma hot_runs:
  assumes laws: "core_laws api" and wf: "wf_config c" "wf_config c'" and diff: "diffPulledConfig (Some c) c' = (False, hot)"
    and run: "runs api b c" and fits: "plan_fits plan c"
    and hot: "foldl (hot_update api plan (foldl (\<lambda>m i. mput (in_Tag i) (in_Users i) m) [] (pc_Inbounds c'))) (False, b) hot = (False, b')"
  shows "runs api b' c'" and "plan_fits plan c'"
proof -
  let ?users = "foldl (\<lambda>m i. mput (in_Tag i) (in_Users i) m) [] (pc_Inbounds c')"
  note upd = hot_updates [OF laws hot]
  have partner: "\<exists>j \<in> set (pc_Inbounds c). j\<lparr>in_Users := []\<rparr> = i\<lparr>in_Users := []\<rparr> \<and>
      ((in_Tag i, in_Protocol i) \<in> set hot \<longleftrightarrow> in_Users j \<noteq> in_Users i)" if "i \<in> set (pc_Inbounds c')" for i
    using diffPulledConfig_hot(3) [OF diff wf that] by blast
  show "plan_fits plan c'"
    unfolding plan_fits_def using partner fits same_shape by (metis plan_fits_def)
  have users: "mget [] ?users (in_Tag i) = in_Users i" if "i \<in> set (pc_Inbounds c')" for i
    using fold_put_lookup [of in_Tag "pc_Inbounds c'" in_Users "[]" "in_Tag i"] find_unique [of in_Tag "pc_Inbounds c'" i] that wf(2)
    by (simp add: wf_config_def mget_def)
  have reach: "u = (in_Tag i, in_Protocol i)"
    if "i \<in> set (pc_Inbounds c')" "p \<in> set (ports i)" "u \<in> set hot" "listener_tag i p \<in> set (listenerTags plan (fst u))" for i p u
    using hot_reaches [OF diff wf fits that(3)] that listener_tag_inject [OF wf(2)] by auto
  have own: "core_inbound api b' (listener_tag i p) = map_option (\<lambda>_. in_Protocol i) (build_users (in_Protocol i) (in_Users i)) \<and>
      core_users api b' (listener_tag i p) = build_users (in_Protocol i) (in_Users i)"
    if ip: "i \<in> set (pc_Inbounds c')" "p \<in> set (ports i)" for i p
  proof -
    obtain j where j: "j \<in> set (pc_Inbounds c)" "j\<lparr>in_Users := []\<rparr> = i\<lparr>in_Users := []\<rparr>"
      "(in_Tag i, in_Protocol i) \<in> set hot \<longleftrightarrow> in_Users j \<noteq> in_Users i" using partner [OF ip(1)] by blast
    note shape = same_shape [OF j(2)]
    have old: "core_inbound api b (listener_tag i p) = map_option (\<lambda>_. in_Protocol i) (build_users (in_Protocol i) (in_Users j)) \<and>
        core_users api b (listener_tag i p) = build_users (in_Protocol i) (in_Users j)"
      using run j(1) ip(2) shape by (auto simp: runs_def)
    have "core_users api b' (listener_tag i p) = build_users (in_Protocol i) (in_Users i)"
    proof (cases "find (\<lambda>u. listener_tag i p \<in> set (listenerTags plan (fst u))) (rev hot)")
      case None
      have "listener_tag i p \<in> set (listenerTags plan (in_Tag i))"
        using \<open>plan_fits plan c'\<close> ip by (auto simp: plan_fits_def)
      then have "(in_Tag i, in_Protocol i) \<notin> set hot" using None by (auto simp: find_None_iff)
      then show ?thesis using None upd old j(3) by simp
    next
      case (Some u)
      then have "u \<in> set hot" "listener_tag i p \<in> set (listenerTags plan (fst u))"
        by (auto simp: find_Some_iff) (metis length_rev nth_mem set_rev)
      then have "u = (in_Tag i, in_Protocol i)" using reach ip by blast
      then show ?thesis using Some upd users [OF ip(1)] by simp
    qed
    then show ?thesis using upd old protocol_known by metis
  qed
  have other: "core_inbound api b' t = None \<and> core_users api b' t = None"
    if t: "\<forall>i \<in> set (pc_Inbounds c'). \<forall>p \<in> set (ports i). t \<noteq> listener_tag i p" for t
  proof -
    have "t \<noteq> listener_tag j p" if "j \<in> set (pc_Inbounds c)" "p \<in> set (ports j)" for j p
      using same_inbounds [OF diff wf that(1)] t that(2) same_shape by metis
    then have "core_inbound api b t = None \<and> core_users api b t = None" using run by (auto simp: runs_def)
    moreover have "find (\<lambda>u. t \<in> set (listenerTags plan (fst u))) (rev hot) = None"
      using hot_reaches [OF diff wf fits] t by (fastforce simp: find_None_iff)
    ultimately show ?thesis using upd [of t] by simp
  qed
  show "runs api b' c'" using own other by (simp add: runs_def)
qed


section \<open>Convergence\<close>

text \<open>What holds of the server between two pulls: if a core runs, it runs the last pulled configuration.\<close>

definition sync_inv :: "'b core_api \<Rightarrow> 'b server \<Rightarrow> bool" where
  "sync_inv api s \<longleftrightarrow> (\<forall>c. sv_lastPulled s = Some c \<longrightarrow> wf_config c \<and>
     (\<forall>b. sv_node s = Some b \<longrightarrow> runs api b c \<and> plan_fits (sv_plan s) c))"

lemma stop_state:
  "sv_node (snd (stopNodeLocked api s)) = None" "sv_lastPulled (snd (stopNodeLocked api s)) = sv_lastPulled s"
  by (auto simp: stopNodeLocked_def Let_def split: option.splits)

lemma start_supervisor_state [simp]:
  "sv_node (startSupervisorLocked s plan) = sv_node s" "sv_plan (startSupervisorLocked s plan) = sv_plan s"
  "sv_lastPulled (startSupervisorLocked s plan) = sv_lastPulled s"
  by (simp_all add: startSupervisorLocked_def Let_def split: option.splits)

lemma apply_full:
  assumes "core_laws api" and "wf_config c" and "sync_inv api s"
  shows "sync_inv api (applyFullLocked api ci s c)"
    and "buildOptionsPlan ci (config_request c) = Inr (opts, plan) \<Longrightarrow> core_new api opts = Some b0 \<Longrightarrow> core_start api b0 = Some b1 \<Longrightarrow>
      sv_lastPulled (applyFullLocked api ci s c) = Some c \<and> sv_node (applyFullLocked api ci s c) = Some b1 \<and> runs api b1 c"
proof -
  define s0 where "s0 = snd (stopNodeLocked api s)"
  have s0: "sv_node s0 = None" "sv_lastPulled s0 = sv_lastPulled s" by (simp_all add: s0_def stop_state)
  have keep: "sync_inv api s0" using assms(3) s0 by (auto simp: sync_inv_def)
  show "sync_inv api (applyFullLocked api ci s c)"
  proof (cases "startNodeLocked api ci s0 (config_request c)")
    case (Pair err s1)
    show ?thesis
    proof (cases err)
      case None
      with Pair obtain opts plan b0 b1 where b: "buildOptionsPlan ci (config_request c) = Inr (opts, plan)"
        "core_new api opts = Some b0" "core_start api b0 = Some b1"
        "s1 = startSupervisorLocked (s0\<lparr>sv_node := Some b1, sv_plan := plan\<rparr>) plan"
        by (auto simp: startNodeLocked_def split: sum.splits option.splits)
      then show ?thesis using None Pair start_runs [OF assms(1,2) b(1-3)] plan_fits_build [OF assms(2) b(1)] assms(2)
        by (simp add: applyFullLocked_def s0_def [symmetric] sync_inv_def)
    next
      case (Some e)
      then have "s1 = s0" using Pair by (auto simp: startNodeLocked_def split: sum.splits option.splits)
      then show ?thesis using Some Pair keep by (simp add: applyFullLocked_def s0_def [symmetric])
    qed
  qed
  show "sv_lastPulled (applyFullLocked api ci s c) = Some c \<and> sv_node (applyFullLocked api ci s c) = Some b1 \<and> runs api b1 c"
    if "buildOptionsPlan ci (config_request c) = Inr (opts, plan)" "core_new api opts = Some b0" "core_start api b0 = Some b1"
    using that start_runs [OF assms(1,2) that] by (simp add: applyFullLocked_def startNodeLocked_def)
qed

text \<open>The hot branch of \<open>pullOnce\<close>, when every listener accepts its users.\<close>

lemma hot_branch:
  assumes laws: "core_laws api" and acc: "\<And>b t us. core_set_users api b t us \<noteq> None" and wf: "wf_config c" "wf_config c'"
    and diff: "diffPulledConfig (Some c) c' = (False, hot)" and run: "runs api b c" "plan_fits plan c"
  shows "\<exists>b'. foldl (hot_update api plan (foldl (\<lambda>m i. mput (in_Tag i) (in_Users i) m) [] (pc_Inbounds c'))) (False, b) hot = (False, b')
    \<and> runs api b' c' \<and> plan_fits plan c'"
proof -
  have "\<forall>(tag, protocol) \<in> set hot. hotUpdatableProtocol protocol \<and> (\<forall>l \<in> set (listenerTags plan tag). core_inbound api b l = Some protocol)"
  proof (clarify, intro conjI ballI)
    fix tag protocol l assume u: "(tag, protocol) \<in> set hot"
    show hp: "hotUpdatableProtocol protocol" using diffPulledConfig_hot(4) [OF diff wf u] by simp
    assume l: "l \<in> set (listenerTags plan tag)"
    obtain i where i: "i \<in> set (pc_Inbounds c')" "tag = in_Tag i" "protocol = in_Protocol i" "set (listenerTags plan tag) = listener_tag i ` set (ports i)"
      using hot_reaches [OF diff wf run(2) u] by auto
    then obtain p j where pj: "l = listener_tag i p" "p \<in> set (ports i)" "j \<in> set (pc_Inbounds c)" "j\<lparr>in_Users := []\<rparr> = i\<lparr>in_Users := []\<rparr>"
      using diffPulledConfig_hot(3) [OF diff wf i(1)] l by blast
    then have "core_inbound api b l = map_option (\<lambda>_. protocol) (build_users protocol (in_Users j))"
      using run(1) same_shape [OF pj(4)] i by (auto simp: runs_def)
    moreover have "build_users protocol (in_Users j) \<noteq> None" using hp by (auto simp: build_users_def hotUpdatableProtocol_def)
    ultimately show "core_inbound api b l = Some protocol" by auto
  qed
  from hot_updates_accepted [OF laws acc this] obtain b' where
    "foldl (hot_update api plan (foldl (\<lambda>m i. mput (in_Tag i) (in_Users i) m) [] (pc_Inbounds c'))) (False, b) hot = (False, b')" by blast
  then show ?thesis using hot_runs [OF laws wf diff run] by blast
qed

lemma pull_inv:
  assumes laws: "core_laws api" and acc: "\<And>b t us. core_set_users api b t us \<noteq> None" and inv: "sync_inv api s"
    and answers: "\<And>v c. panel v = Pulled c \<Longrightarrow> wf_config c"
  shows "sync_inv api (pullOnce api ci panel s)"
proof -
  let ?v = "if runningLastPulledLocked s then map_option pc_Version (sv_lastPulled s) else None"
  show ?thesis
  proof (cases "panel ?v")
    case (Pulled c)
    note wf = answers [OF Pulled]
    obtain restart hot where diff: "diffPulledConfig (sv_lastPulled s) c = (restart, hot)" by force
    show ?thesis
    proof (cases "sv_node s")
      case None
      then show ?thesis using Pulled inv wf diff apply_full(1) [OF laws wf inv]
        by (auto simp: pullOnce_def sync_inv_def)
    next
      case (Some b)
      show ?thesis
      proof (cases restart)
        case True
        then show ?thesis using Pulled Some inv diff apply_full(1) [OF laws wf inv] by (simp add: pullOnce_def)
      next
        case False
        then obtain old where old: "sv_lastPulled s = Some old" using diff by (cases "sv_lastPulled s") (auto simp: diffPulledConfig_def)
        have "wf_config old" "runs api b old" "plan_fits (sv_plan s) old" using inv old Some by (auto simp: sync_inv_def)
        with hot_branch [OF laws acc _ wf, of old hot b "sv_plan s"] diff False old
        obtain b' where "foldl (hot_update api (sv_plan s) (foldl (\<lambda>m i. mput (in_Tag i) (in_Users i) m) [] (pc_Inbounds c))) (False, b) hot = (False, b')"
          "runs api b' c" "plan_fits (sv_plan s) c" by auto
        then show ?thesis using Pulled Some False inv diff wf by (simp add: pullOnce_def sync_inv_def)
      qed
    qed
  qed (use inv in \<open>simp_all add: pullOnce_def\<close>)
qed

text \<open>The panel's answer while its configuration is \<open>cur\<close> (\<open>handleGetNodeConfig\<close>: the version is the entity tag).\<close>

definition panel_of :: "pulledConfig \<Rightarrow> string option \<Rightarrow> pull_resp" where
  "panel_of cur v = (if v = Some (pc_Version cur) then NotModified else Pulled cur)"

lemma pull_reaches:
  assumes laws: "core_laws api" and acc: "\<And>b t us. core_set_users api b t us \<noteq> None" and inv: "sync_inv api s" and wf: "wf_config cur"
    and versions: "\<And>c. sv_lastPulled s = Some c \<Longrightarrow> pc_Version c = pc_Version cur \<Longrightarrow> c = cur"
    and boots: "buildOptionsPlan ci (config_request cur) = Inr (opts, plan)" "core_new api opts = Some b0" "core_start api b0 = Some b1"
  shows "sv_lastPulled (pullOnce api ci (panel_of cur) s) = Some cur
    \<and> (sv_node (pullOnce api ci (panel_of cur) s) = None \<longrightarrow> pc_Inbounds cur = [])"
proof (cases "runningLastPulledLocked s \<and> map_option pc_Version (sv_lastPulled s) = Some (pc_Version cur)")
  case True
  then obtain c where "sv_lastPulled s = Some c" "pc_Version c = pc_Version cur" by auto
  moreover from this have "c = cur" by (rule versions)
  ultimately show ?thesis using True by (auto simp: pullOnce_def panel_of_def runningLastPulledLocked_def)
next
  case False
  then have pulled: "panel_of cur (if runningLastPulledLocked s then map_option pc_Version (sv_lastPulled s) else None) = Pulled cur"
    by (auto simp: panel_of_def)
  obtain restart hot where diff: "diffPulledConfig (sv_lastPulled s) cur = (restart, hot)" by force
  note full = apply_full(2) [OF laws wf inv boots]
  show ?thesis
  proof (cases "sv_node s")
    case None
    then show ?thesis using pulled False diff full by (auto simp: pullOnce_def)
  next
    case (Some b)
    show ?thesis
    proof (cases restart)
      case True
      then show ?thesis using pulled Some False diff full by (auto simp: pullOnce_def)
    next
      case hot: False
      then obtain old where old: "sv_lastPulled s = Some old" using diff by (cases "sv_lastPulled s") (auto simp: diffPulledConfig_def)
      have "wf_config old" "runs api b old" "plan_fits (sv_plan s) old" using inv old Some by (auto simp: sync_inv_def)
      with hot_branch [OF laws acc _ wf, of old hot b "sv_plan s"] diff hot old
      obtain b' where "foldl (hot_update api (sv_plan s) (foldl (\<lambda>m i. mput (in_Tag i) (in_Users i) m) [] (pc_Inbounds cur))) (False, b) hot = (False, b')"
        by auto
      then show ?thesis using pulled Some False diff hot by (auto simp: pullOnce_def)
    qed
  qed
qed

lemma pull_settles:
  assumes "core_laws api" and "\<And>b t us. core_set_users api b t us \<noteq> None" and "sync_inv api s"
    and cur: "wf_config cur" "\<forall>c. sv_lastPulled s = Some c \<and> pc_Version c = pc_Version cur \<longrightarrow> c = cur"
      "buildOptionsPlan ci (config_request cur) = Inr (opts, plan)" "core_new api opts = Some b0" "core_start api b0 = Some b1"
  shows "let s' = pullOnce api ci (panel_of cur) s
    in sv_lastPulled s' = Some cur \<and> (case sv_node s' of None \<Rightarrow> pc_Inbounds cur = [] | Some b \<Rightarrow> runs api b cur)
       \<and> pullOnce api ci (panel_of cur) s' = s'"
proof -
  define s' where "s' = pullOnce api ci (panel_of cur) s"
  have last: "sv_lastPulled s' = Some cur" "sv_node s' = None \<Longrightarrow> pc_Inbounds cur = []"
    using pull_reaches [OF assms(1-3) cur(1) _ cur(3-5)] cur(2) by (auto simp: s'_def)
  have "panel_of cur v = Pulled c \<Longrightarrow> wf_config c" for v c using cur(1) by (auto simp: panel_of_def split: if_splits)
  then have "sync_inv api s'" unfolding s'_def by (intro pull_inv assms(1-3))
  then have "sv_node s' = Some b \<Longrightarrow> runs api b cur" for b using last(1) by (auto simp: sync_inv_def)
  moreover have "runningLastPulledLocked s'" using last by (auto simp: runningLastPulledLocked_def)
  then have "pullOnce api ci (panel_of cur) s' = s'" by (simp add: pullOnce_def panel_of_def last)
  ultimately show ?thesis using last by (simp add: Let_def flip: s'_def split: option.splits)
qed


section \<open>A core for the witnesses\<close>

text \<open>A core as a table of inbound types and users; the listeners in \<open>refuse\<close> take no new users.\<close>

type_synonym table_core = "(string \<rightharpoonup> string) \<times> (string \<rightharpoonup> sb_users)"

definition table_core_api :: "string list \<Rightarrow> table_core core_api" where
  "table_core_api refuse =
     \<lparr>core_new = (\<lambda>opts. Some (\<lambda>t. map_option bi_Type (find (\<lambda>x. bi_Tag x = t) (bx_Inbounds opts)),
                              \<lambda>t. map_option bi_Users (find (\<lambda>x. bi_Tag x = t) (bx_Inbounds opts)))),
      core_start = Some, core_close = (\<lambda>_. True), core_inbound = fst,
      core_set_users = (\<lambda>b t us. if t \<in> set refuse then None else Some (fst b, (snd b)(t \<mapsto> us))),
      core_users = snd\<rparr>"

lemma table_core_laws: "core_laws (table_core_api refuse)"
  by (auto simp: core_laws_def table_core_api_def split: if_splits)

definition example_config_at :: "string \<Rightarrow> string \<Rightarrow> pulledConfig" where
  "example_config_at version uuid = \<lparr>pc_Version = version,
     pc_Inbounds = [example_inbound\<lparr>in_Tag := ''a'', in_ListenPorts := [], in_Users := [example_user\<lparr>us_UUID := uuid\<rparr>]\<rparr>,
                    example_inbound\<lparr>in_Tag := ''b'', in_ListenPorts := [], in_Users := [example_user\<lparr>us_UUID := uuid\<rparr>]\<rparr>],
     pc_Core = example_core\<lparr>co_RoutingRules := []\<rparr>\<rparr>"

definition example_server :: "table_core server" where
  "example_server = \<lparr>sv_node = None, sv_presence = None, sv_lastPulled = None, sv_monitor = None, sv_plan = nodePlan_zero, sv_supervisor = None\<rparr>"

lemmas example_sync = example_config_at_def example_config config_request_def

lemma example_config_wf: "wf_config (example_config_at v u)"
  by (auto simp: wf_config_def example_config_at_def ports_def)

lemma example_config_builds: "\<exists>opts plan. buildOptionsPlan example_ciphers (config_request (example_config_at v u)) = Inr (opts, plan)"
  by (simp add: example_sync buildOptionsPlan_def add_inbound_eq inbound_error_def buildInboundTransport_def buildCoreOptions_def
      add_outbound_def leafOutboundOptions_def Let_def)


lemma example_config_core:
  "pc_Inbounds (example_config_at v u) \<noteq> []" "pc_Version (example_config_at v u) = v"
  by (simp_all add: example_config_at_def)

lemma example_diff: "diffPulledConfig (Some (example_config_at ''1'' ''x'')) (example_config_at ''2'' ''y'') = (False, [(''a'', ''vless''), (''b'', ''vless'')])"
  by (simp add: diffPulledConfig_def example_config_at_def hotUpdatableProtocol_def example_inbound_def example_user_def)



text \<open>
  When a listener refuses its users, the ones tried before it keep the new list, and the node still
  records the old configuration. If the panel then goes back to that one, the node takes it for
  running and the new users stay.
\<close>

lemma reverted_hot_update_stays:
  "let api = table_core_api [''b'']; old = example_config_at ''1'' ''x''; new = example_config_at ''2'' ''y'';
       s1 = pullOnce api example_ciphers (panel_of old) example_server;
       s2 = pullOnce api example_ciphers (panel_of new) s1;
       s3 = pullOnce api example_ciphers (panel_of old) s2
   in (\<exists>b. sv_node s1 = Some b \<and> runs api b old) \<and> sv_lastPulled s3 = Some old
     \<and> (\<exists>b. sv_node s3 = Some b \<and> core_users api b ''a'' = Some (VLESSUsers [(''ann'', ''y'', [])])
              \<and> core_users api b ''b'' = Some (VLESSUsers [(''ann'', ''x'', [])]))"
proof -
  let ?api = "table_core_api [''b'']" and ?old = "example_config_at ''1'' ''x''" and ?new = "example_config_at ''2'' ''y''"
  obtain opts plan where build: "buildOptionsPlan example_ciphers (config_request ?old) = Inr (opts, plan)" using example_config_builds by blast
  obtain b where start: "core_new ?api opts = Some b" "core_start ?api b = Some b" by (simp add: table_core_api_def)
  have run: "runs ?api b ?old" "plan_fits plan ?old"
    using start_runs [OF table_core_laws example_config_wf build start] plan_fits_build [OF example_config_wf build] by simp_all
  have s1: "pullOnce ?api example_ciphers (panel_of ?old) example_server = example_server\<lparr>sv_node := Some b, sv_plan := plan, sv_lastPulled := Some ?old\<rparr>"
    using build start by (simp add: pullOnce_def panel_of_def runningLastPulledLocked_def example_server_def diffPulledConfig_def
        example_config_core applyFullLocked_def stopNodeLocked_def startNodeLocked_def startSupervisorLocked_def)
  have at_a: "core_inbound ?api b ''a'' = Some ''vless''" "core_inbound ?api b ''b'' = Some ''vless''"
    "core_users ?api b ''a'' = Some (VLESSUsers [(''ann'', ''x'', [])])" "core_users ?api b ''b'' = Some (VLESSUsers [(''ann'', ''x'', [])])"
    "listenerTags plan ''a'' = [''a'']" "listenerTags plan ''b'' = [''b'']"
    using run by (simp_all add: runs_def plan_fits_def example_config_at_def example_inbound_def example_user_def ports_def listener_tag_def build_users_def)
  then have hot: "foldl (hot_update ?api plan (foldl (\<lambda>m i. mput (in_Tag i) (in_Users i) m) [] (pc_Inbounds ?new))) (False, b)
      [(''a'', ''vless''), (''b'', ''vless'')] = (True, (fst b, (snd b)(''a'' \<mapsto> VLESSUsers [(''ann'', ''y'', [])])))"
    by (simp add: hot_update_def hot_listener_def UpdateUsers_def UpdateInboundUsers_def runningInbound_def convert_users_def nodeUsers_def table_core_api_def
        example_config_at_def example_inbound_def example_user_def mget_def)
  have s2: "pullOnce ?api example_ciphers (panel_of ?new) (example_server\<lparr>sv_node := Some b, sv_plan := plan, sv_lastPulled := Some ?old\<rparr>)
      = example_server\<lparr>sv_node := Some (fst b, (snd b)(''a'' \<mapsto> VLESSUsers [(''ann'', ''y'', [])])), sv_plan := plan, sv_lastPulled := Some ?old\<rparr>"
    using hot by (simp add: pullOnce_def panel_of_def runningLastPulledLocked_def example_config_core example_diff)
  show ?thesis using run(1) at_a(4) unfolding Let_def s1 s2
    by (simp add: pullOnce_def panel_of_def runningLastPulledLocked_def table_core_api_def)
qed

end
