(* ===== verification/UsageFlow.thy ===== *)
theory UsageFlow
  imports NodeReport
begin

text \<open>
  The way of a byte from a connection to the user's account: the node's counters
  (\<open>internal/nodecore/traffic\<close>), the push (\<open>pushOnce\<close> of \<open>cmd/node/main.go\<close>) and the panel's report
  handler composed over any number of report intervals.
\<close>

section \<open>One interval\<close>

record push_round =
  rd_adds :: "(string \<times> int64 \<times> int64) list"
  rd_delivered :: bool
  rd_now :: instant
  rd_settings :: "bool option"
  rd_host :: Sample

text \<open>Connections count their bytes, then the ticker of \<open>syncLoop\<close> fires and the node pushes.\<close>

definition push_interval ::
  "(Sample \<Rightarrow> string option) \<Rightarrow> int \<Rightarrow> manager \<times> tracker \<times> panel \<Rightarrow> push_round \<Rightarrow> manager \<times> tracker \<times> panel" where
  "push_interval json nid st r =
     (case st of (m, t, p) \<Rightarrow>
        pushOnce json nid (rd_now r) (rd_settings r) (rd_delivered r) (rd_host r)
          (foldl (\<lambda>m (user, a, b). Manager_Add m user a b) m (rd_adds r)) t p)"

definition push_intervals ::
  "(Sample \<Rightarrow> string option) \<Rightarrow> int \<Rightarrow> manager \<times> tracker \<times> panel \<Rightarrow> push_round list \<Rightarrow> manager \<times> tracker \<times> panel" where
  "push_intervals json nid st rs = foldl (push_interval json nid) st rs"

text \<open>The bytes counted for a user in one interval, and what bounds them: no count is negative and all
  of them together fit into 63 bits.\<close>

definition bytes_of :: "(string \<times> int64 \<times> int64) list \<Rightarrow> string \<Rightarrow> int" where
  "bytes_of adds name = sum_list (map (\<lambda>(user, a, b). if user = name then sint a + sint b else 0) adds)"

definition counts_fit :: "(string \<times> int64 \<times> int64) list \<Rightarrow> bool" where
  "counts_fit adds \<longleftrightarrow> (\<forall>(user, a, b) \<in> set adds. 0 \<le> sint a \<and> 0 \<le> sint b) \<and>
     sum_list (map (\<lambda>(user, a, b). sint a + sint b) adds) < 2 ^ 63"

section \<open>The counters\<close>

lemma sint_sum:
  "(\<forall>w \<in> set ws. 0 \<le> sint (w :: int64)) \<Longrightarrow> sum_list (map sint ws) < 2 ^ 63 \<Longrightarrow> sint (sum_list ws) = sum_list (map sint ws)"
proof -
  assume nn: "\<forall>w \<in> set ws. 0 \<le> sint w" and fit: "sum_list (map sint ws) < 2 ^ 63"
  have "sum_list ws = of_nat (sum_list (map (\<lambda>w. nat (sint w)) ws)) \<and> int (sum_list (map (\<lambda>w. nat (sint w)) ws)) = sum_list (map sint ws)"
    using nn by (induction ws) (auto simp: of_nat_nat)
  moreover from this fit have "int (sum_list (map (\<lambda>w. nat (sint w)) ws)) < 2 ^ 63" by (simp only:)
  then have "sum_list (map (\<lambda>w. nat (sint w)) ws) < 2 ^ 63" by simp
  ultimately show ?thesis using sint_of_nat_small [of "sum_list (map (\<lambda>w. nat (sint w)) ws)"] by simp
qed

definition dir_counts :: "(string \<times> int64 \<times> int64) list \<Rightarrow> string \<times> direction \<Rightarrow> int64 list" where
  "dir_counts adds k = map (\<lambda>x. add_amount x k) adds"

lemma pending_adds:
  "pending_bytes (foldl (\<lambda>m (user, a, b). Manager_Add m user a b) m adds) k = pending_bytes m k + sum_list (dir_counts adds k)"
  by (induction adds arbitrary: m) (auto simp: dir_counts_def pending_Manager_Add)

lemma dir_sint:
  assumes "counts_fit adds"
  shows "sint (sum_list (dir_counts adds (name, d))) = sum_list (map sint (dir_counts adds (name, d)))"
    and "0 \<le> sum_list (map sint (dir_counts adds (name, d)))"
proof -
  have nn: "0 \<le> sint (add_amount x (name, d))" if "x \<in> set adds" for x
    using assms that by (cases x; cases d) (auto simp: counts_fit_def)
  have "sint (add_amount x (name, d)) \<le> (case x of (user, a, b) \<Rightarrow> sint a + sint b)" if "x \<in> set adds" for x
    using assms that by (cases x; cases d) (auto simp: counts_fit_def)
  then have "sum_list (map sint (dir_counts adds (name, d))) \<le> sum_list (map (\<lambda>(user, a, b). sint a + sint b) adds)"
    unfolding dir_counts_def by (simp add: comp_def sum_list_mono)
  also have "\<dots> < 2 ^ 63" using assms by (simp add: counts_fit_def)
  finally show "sint (sum_list (dir_counts adds (name, d))) = sum_list (map sint (dir_counts adds (name, d)))"
    using nn by (intro sint_sum) (auto simp: dir_counts_def)
  show "0 \<le> sum_list (map sint (dir_counts adds (name, d)))" using nn by (auto simp: dir_counts_def intro!: sum_list_nonneg)
qed

lemma bytes_of_dirs:
  "bytes_of adds name = sum_list (map sint (dir_counts adds (name, Uplink))) + sum_list (map sint (dir_counts adds (name, Downlink)))"
  by (induction adds) (auto simp: bytes_of_def dir_counts_def)

lemma sum_bytes_of:
  assumes "counts_fit adds" and "finite U"
  shows "sum (bytes_of adds) U \<le> sum_list (map (\<lambda>(user, a, b). sint a + sint b) adds)"
proof -
  have "(\<forall>(user, a, b) \<in> set adds. 0 \<le> sint a \<and> 0 \<le> sint b) \<Longrightarrow> sum (bytes_of adds) U \<le> sum_list (map (\<lambda>(user, a, b). sint a + sint b) adds)"
  proof (induction adds)
    case (Cons x adds)
    obtain v a b where x: "x = (v, a, b)" by (cases x)
    have "sum (bytes_of (x # adds)) U = (\<Sum>u \<in> U. (if v = u then sint a + sint b else 0)) + sum (bytes_of adds) U"
      by (simp add: bytes_of_def x sum.distrib)
    moreover have "(\<Sum>u \<in> U. (if v = u then sint a + sint b else 0)) \<le> sint a + sint b"
      using assms(2) Cons.prems by (auto simp: x sum.delta' split: if_splits)
    ultimately show ?case using Cons by (simp add: x)
  qed (simp add: bytes_of_def)
  then show ?thesis using assms(1) by (simp add: counts_fit_def)
qed

section \<open>The drained report\<close>

lemma find_report:
  "find (\<lambda>r. ru_Username r = n) (map (\<lambda>(name, u). \<lparr>ru_Username = name, ru_Uplink = sint (usage_Up u), ru_Downlink = sint (usage_Down u)\<rparr>) out) =
    map_option (\<lambda>u. \<lparr>ru_Username = n, ru_Uplink = sint (usage_Up u), ru_Downlink = sint (usage_Down u)\<rparr>) (map_of out n)"
  by (induction out) auto

lemma drained_report:
  assumes wf: "wf_map m" and fit: "counts_fit adds" and pend: "\<And>k. pending_bytes m k = sum_list (dir_counts adds k)"
  defines "users \<equiv> report_of (snd (Manager_Drain m))"
  shows "wf_report users" and "amount_of users name = bytes_of adds name"
proof -
  let ?out = "snd (Manager_Drain m)"
  have keys: "distinct (map fst ?out)"
    using wf by (simp add: Manager_Drain_def Drain_range_snd wf_map_def comp_def split_beta distinct_map_filter)
  have names: "map ru_Username users = map fst ?out" by (simp add: users_def report_of_def comp_def split_beta)
  have look: "map_of ?out n = Some u \<Longrightarrow> sint (usage_Up u) = sum_list (map sint (dir_counts adds (n, Uplink))) \<and>
      sint (usage_Down u) = sum_list (map sint (dir_counts adds (n, Downlink)))" for n u
    using payload_Drain [OF wf, of "(n, Uplink)"] payload_Drain [OF wf, of "(n, Downlink)"] pend dir_sint(1) [OF fit]
    by (auto simp: payload_def)
  have none: "map_of ?out n = None \<Longrightarrow> bytes_of adds n = 0" for n
    using payload_Drain [OF wf, of "(n, Uplink)"] payload_Drain [OF wf, of "(n, Downlink)"] pend
    by (simp add: payload_def bytes_of_dirs flip: dir_sint(1) [OF fit])
  have find: "find (\<lambda>r. ru_Username r = n) users =
      map_option (\<lambda>u. \<lparr>ru_Username = n, ru_Uplink = sint (usage_Up u), ru_Downlink = sint (usage_Down u)\<rparr>) (map_of ?out n)" for n
    unfolding users_def report_of_def by (rule find_report)
  have dist: "distinct (map ru_Username users)" using keys by (simp add: names)
  show amount: "amount_of users n = bytes_of adds n" for n
  proof (cases "map_of ?out n")
    case None
    then show ?thesis using none amount_find(2) [OF dist] find by (simp add: amount_of_def)
  next
    case (Some u)
    then show ?thesis using look amount_find(1) [OF dist] find by (simp add: amount_of_def bytes_of_dirs)
  qed
  have each: "0 \<le> ru_Uplink r \<and> 0 \<le> ru_Downlink r \<and> ru_Uplink r + ru_Downlink r = bytes_of adds (ru_Username r)" if r_in: "r \<in> set users" for r
  proof -
    obtain n u where r: "(n, u) \<in> set ?out" "r = \<lparr>ru_Username = n, ru_Uplink = sint (usage_Up u), ru_Downlink = sint (usage_Down u)\<rparr>"
      using r_in by (auto simp: users_def report_of_def)
    then have "map_of ?out n = Some u" using keys by simp
    then show ?thesis using look dir_sint(2) [OF fit] r(2) by (simp add: bytes_of_dirs)
  qed
  have "sum_list (map (\<lambda>r. ru_Uplink r + ru_Downlink r) users) = sum_list (map (bytes_of adds) (map ru_Username users))"
    using each by (simp add: comp_def cong: map_cong)
  also have "\<dots> = sum (bytes_of adds) (set (map ru_Username users))" by (rule sum_list_distinct_conv_sum_set [OF dist])
  also have "\<dots> \<le> sum_list (map (\<lambda>(user, a, b). sint a + sint b) adds)" by (rule sum_bytes_of [OF fit]) simp
  also have "\<dots> < 2 ^ 63" using fit by (simp add: counts_fit_def)
  finally show "wf_report users" using dist each by (simp add: wf_report_def)
qed

section \<open>The account after a report\<close>

lemma system_env:
  "p_fault (logged (IncrementSystemCumulative a b) q) = p_fault q" "p_calls (logged (IncrementSystemCumulative a b) q) = p_calls q + 1"
  by (simp_all add: logged_def IncrementSystemCumulative_def stmt_def Let_def)

lemma apply_deltas_env:
  "p_fault (apply_deltas nid hb settings acc p) = p_fault p" "p_calls p \<le> p_calls (apply_deltas nid hb settings acc p)"
  by (simp_all add: apply_deltas_def Let_def logged_env system_env)

lemma record_host_env:
  "p_fault (snd (record_host json nid now host tr q)) = p_fault q" "p_calls q \<le> p_calls (snd (record_host json nid now host tr q))"
  by (simp_all add: record_host_def Let_def split_beta logged_def Store_def InsertHostMetric_def stmt_def)

lemma mark_connected_env:
  "p_fault (logged (MarkNodeConnectedIfNotDisabled nid) q) = p_fault q" "p_calls q \<le> p_calls (logged (MarkNodeConnectedIfNotDisabled nid) q)"
  "p_users (logged (MarkNodeConnectedIfNotDisabled nid) q) = p_users q"
  by (simp_all add: logged_def MarkNodeConnectedIfNotDisabled_def stmt_def Let_def)

lemma report_users:
  assumes nf: "no_faults p" and wf: "wf_report users"
    and dist: "distinct (map u_username (p_users p))" "distinct (map u_id (p_users p))"
    and p'_def: "p' = snd (snd (handleNodeReport json nid now settings users host tr p))"
  shows "p_users p' = map (\<lambda>u. if amount_of users (u_username u) = 0 then u
      else u\<lparr>u_used_traffic := u_used_traffic u + amount_of users (u_username u), u_online_at := Some (p_now p)\<rparr>) (p_users p)"
    and "no_faults p'"
proof -
  show "p_users p' = map (\<lambda>u. if amount_of users (u_username u) = 0 then u
      else u\<lparr>u_used_traffic := u_used_traffic u + amount_of users (u_username u), u_online_at := Some (p_now p)\<rparr>) (p_users p)"
  proof (cases "users = []")
    case True
    have "p_users (snd (record_host json nid now host tr q)) = p_users q" for q
      using host_fields [of json nid now host tr q] by (simp add: usage_fields_def)
    then show ?thesis using True by (simp add: p'_def handleNodeReport_def Let_def split_beta mark_connected_env amount_of_def up_of_def down_of_def)
  next
    case False
    have nf1: "no_faults (p\<lparr>p_calls := p_calls p + 1\<rparr>)" using nf by (simp add: no_faults_def)
    have "p_users p' = map (\<lambda>u. case map_of (ra_users (report_deltas users (filter (\<lambda>u. u_username u \<in> set (map ru_Username users)) (p_users p)))) (u_id u) of
          None \<Rightarrow> u | Some d \<Rightarrow> u\<lparr>u_used_traffic := u_used_traffic u + d, u_online_at := Some (p_now p)\<rparr>) (p_users p)"
      using handleNodeReport_fields [OF nf False, of json nid now settings host tr] unfolding apply_deltas_fields [OF nf1] p'_def
      by (simp add: usage_fields_def cong: option.case_cong if_cong)
    then show ?thesis using report_acc_users(2) [OF wf dist] by (simp cong: map_cong)
  qed
  obtain q where q: "p' = logged (MarkNodeConnectedIfNotDisabled nid) (snd (record_host json nid now host tr q))" "p_fault q = p_fault p" "p_calls p \<le> p_calls q"
  proof (cases "users = []")
    case True
    then show ?thesis using that [of p] by (simp add: p'_def handleNodeReport_def Let_def split_beta)
  next
    case False
    let ?p = "p\<lparr>p_calls := p_calls p + 1\<rparr>"
    let ?q = "apply_deltas nid (now - now mod hour) settings (report_deltas users (filter (\<lambda>u. u_username u \<in> set (map ru_Username users)) (p_users p))) ?p"
    have "p_fault ?q = p_fault p" "p_calls p \<le> p_calls ?q"
      using apply_deltas_env(1) [of nid "now - now mod hour" settings _ ?p] apply_deltas_env(2) [of ?p nid "now - now mod hour" settings] by (auto intro: Suc_leD)
    then show ?thesis using False no_faults_now [OF nf] that [of ?q]
      by (simp add: p'_def handleNodeReport_def Let_def split_beta GetUsersByUsernames_def stmt_ok)
  qed
  have "p_calls p \<le> p_calls p'" unfolding q(1) by (rule order_trans [OF q(3) order_trans [OF record_host_env(2) mark_connected_env(2)]])
  moreover have "p_fault p' = p_fault p" by (simp add: q(1,2) mark_connected_env record_host_env)
  ultimately show "no_faults p'" using nf by (auto simp: no_faults_def)
qed

section \<open>Any number of intervals\<close>

definition accounts_ok :: "panel \<Rightarrow> bool" where
  "accounts_ok p \<longleftrightarrow> no_faults p \<and> distinct (map u_username (p_users p)) \<and> distinct (map u_id (p_users p))"

definition credited :: "push_round list \<Rightarrow> string \<Rightarrow> int" where
  "credited rs name = sum_list (map (\<lambda>r. bytes_of (rd_adds r) name) (filter rd_delivered rs))"

lemma push_interval_credits:
  assumes "wf_map m" and "\<And>k. pending_bytes m k = 0" and "counts_fit (rd_adds r)" and "accounts_ok p"
    and "push_interval json nid (m, t, p) r = (m', t', p')"
  shows "wf_map m'" and "pending_bytes m' k = 0" and "accounts_ok p'"
    and "map (\<lambda>u. (u_username u, u_used_traffic u)) (p_users p') =
      map (\<lambda>u. (u_username u, u_used_traffic u + (if rd_delivered r then bytes_of (rd_adds r) (u_username u) else 0))) (p_users p)"
proof -
  define m1 where "m1 = foldl (\<lambda>m (user, a, b). Manager_Add m user a b) m (rd_adds r)"
  have wf: "wf_map m1" unfolding m1_def by (rule wf_map_Adds [OF assms(1)])
  have pend: "pending_bytes m1 k = sum_list (dir_counts (rd_adds r) k)" for k by (simp add: m1_def pending_adds assms(2))
  note rep = drained_report [OF wf assms(3) pend]
  have m': "m' = fst (Manager_Drain m1)" and p': "p' = (if rd_delivered r
      then snd (snd (handleNodeReport json nid (rd_now r) (rd_settings r) (report_of (snd (Manager_Drain m1))) (rd_host r) t p)) else p)"
    using assms(5) by (auto simp: push_interval_def pushOnce_def Let_def split_beta m1_def [symmetric] split: if_splits)
  show "wf_map m'" using wf by (simp add: m')
  show "pending_bytes m' k = 0" by (simp add: m' Drain_resets)
  show "accounts_ok p'" and "map (\<lambda>u. (u_username u, u_used_traffic u)) (p_users p') =
      map (\<lambda>u. (u_username u, u_used_traffic u + (if rd_delivered r then bytes_of (rd_adds r) (u_username u) else 0))) (p_users p)"
  proof -
    have "accounts_ok p' \<and> map (\<lambda>u. (u_username u, u_used_traffic u)) (p_users p') =
        map (\<lambda>u. (u_username u, u_used_traffic u + (if rd_delivered r then bytes_of (rd_adds r) (u_username u) else 0))) (p_users p)"
    proof (cases "rd_delivered r")
      case True
      have acc: "no_faults p" "distinct (map u_username (p_users p))" "distinct (map u_id (p_users p))" using assms(4) by (simp_all add: accounts_ok_def)
      note res = report_users [OF acc(1) rep(1) acc(2,3), of p' json nid "rd_now r" "rd_settings r" "rd_host r" t]
      have users: "p_users p' = map (\<lambda>u. if bytes_of (rd_adds r) (u_username u) = 0 then u
          else u\<lparr>u_used_traffic := u_used_traffic u + bytes_of (rd_adds r) (u_username u), u_online_at := Some (p_now p)\<rparr>) (p_users p)"
        and nf: "no_faults p'" using res True by (simp_all add: p' rep(2))
      have ids: "map u_username (p_users p') = map u_username (p_users p)" "map u_id (p_users p') = map u_id (p_users p)"
        by (simp_all add: users)
      then have "accounts_ok p'" using nf acc by (simp add: accounts_ok_def)
      then show ?thesis using True by (simp add: users)
    qed (use assms(4) p' in simp)
    then show "accounts_ok p'" and "map (\<lambda>u. (u_username u, u_used_traffic u)) (p_users p') =
        map (\<lambda>u. (u_username u, u_used_traffic u + (if rd_delivered r then bytes_of (rd_adds r) (u_username u) else 0))) (p_users p)" by simp_all
  qed
qed

lemma push_intervals_credit:
  assumes "wf_map m" and "\<And>k. pending_bytes m k = 0" and "accounts_ok p" and "\<forall>r \<in> set rs. counts_fit (rd_adds r)"
    and "push_intervals json nid (m, t, p) rs = (m', t', p')"
  shows "accounts_ok p' \<and> (\<forall>k. pending_bytes m' k = 0) \<and> map (\<lambda>u. (u_username u, u_used_traffic u)) (p_users p') =
      map (\<lambda>u. (u_username u, u_used_traffic u + credited rs (u_username u))) (p_users p)"
  using assms
proof (induction rs arbitrary: m t p)
  case Nil
  then show ?case by (simp add: push_intervals_def credited_def)
next
  case (Cons r rs)
  obtain m1 t1 p1 where one: "push_interval json nid (m, t, p) r = (m1, t1, p1)" by (metis prod_cases3)
  note step = push_interval_credits [OF Cons.prems(1,2) _ Cons.prems(3) one]
  have "push_intervals json nid (m1, t1, p1) rs = (m', t', p')" using Cons.prems(5) one by (simp add: push_intervals_def)
  from Cons.IH [OF _ _ _ _ this] step Cons.prems(4)
  have IH: "accounts_ok p' \<and> (\<forall>k. pending_bytes m' k = 0) \<and> map (\<lambda>u. (u_username u, u_used_traffic u)) (p_users p') =
      map (\<lambda>u. (u_username u, u_used_traffic u + credited rs (u_username u))) (p_users p1)" by simp
  have "map (\<lambda>u. (u_username u, u_used_traffic u + credited rs (u_username u))) (p_users p1) =
      map (\<lambda>(n, x). (n, x + credited rs n)) (map (\<lambda>u. (u_username u, u_used_traffic u)) (p_users p1))" by simp
  also have "\<dots> = map (\<lambda>u. (u_username u, u_used_traffic u + credited (r # rs) (u_username u))) (p_users p)"
    using step(4) Cons.prems(4) by (simp add: credited_def)
  finally show ?case using IH by simp
qed

end
