(* ===== verification/Json.thy ===== *)
theory Json
  imports GoStrings
begin

text \<open>
  JSON as the Go package \<open>encoding/json\<close> writes and reads it: the text \<open>Marshal\<close> produces (compact, with
  the escapes of \<open>appendString\<close>), a reader of JSON texts, and the rules by which a value is stored into
  Go variables. Reading a written text gives the value back. Numbers keep their literal, as the
  package does until it knows the type of the variable. \<open>JRaw\<close> is a \<open>json.RawMessage\<close> that \<open>Marshal\<close>
  wrote before: it is copied into the text; the reader never yields it. The nesting limit of the package (10000) is
  not modelled.
\<close>

datatype json =
    JNull
  | JBool bool
  | JNum string
  | JStr string
  | JArr "json list"
  | JObj "(string \<times> json) list"
  | JRaw string

section \<open>Writing\<close>

definition hex_digit :: "nat \<Rightarrow> char" where
  "hex_digit n = ''0123456789abcdef'' ! n"

text \<open>\<open>\u00XX\<close>, and the escapes of one ASCII byte; \<open>0x5C\<close> is the backslash, \<open>0x22\<close> the quote.\<close>

definition u_escape :: "nat \<Rightarrow> nat \<Rightarrow> nat \<Rightarrow> nat \<Rightarrow> string" where
  "u_escape a b c d = [CHR 0x5C, CHR ''u'', hex_digit a, hex_digit b, hex_digit c, hex_digit d]"

definition escape_ascii :: "char \<Rightarrow> string" where
  "escape_ascii c =
     (if c = CHR 0x22 \<or> c = CHR 0x5C then [CHR 0x5C, c]
      else if c = CHR 0x08 then [CHR 0x5C, CHR ''b'']
      else if c = CHR 0x0C then [CHR 0x5C, CHR ''f'']
      else if c = CHR 0x0A then [CHR 0x5C, CHR ''n'']
      else if c = CHR 0x0D then [CHR 0x5C, CHR ''r'']
      else if c = CHR 0x09 then [CHR 0x5C, CHR ''t'']
      else if byte c < 32 \<or> c = CHR ''<'' \<or> c = CHR ''>'' \<or> c = CHR ''&''
      then u_escape 0 0 (byte c div 16) (byte c mod 16)
      else [c])"

text \<open>The line separators U+2028 and U+2029 are escaped, a byte that is not UTF-8 becomes U+FFFD.\<close>

definition escape_rune :: "string \<Rightarrow> string" where
  "escape_rune r =
     (if r = [CHR 0xE2, CHR 0x80, CHR 0xA8] then u_escape 2 0 2 8
      else if r = [CHR 0xE2, CHR 0x80, CHR 0xA9] then u_escape 2 0 2 9
      else if length r = 1 then escape_ascii (hd r)
      else r)"

function escape_string :: "string \<Rightarrow> string" where
  "escape_string s =
     (if s = [] then []
      else if rune_width s = 0 then u_escape 15 15 15 13 @ escape_string (tl s)
      else escape_rune (take (rune_width s) s) @ escape_string (drop (rune_width s) s))"
  by pat_completeness auto
termination
  by (relation "measure length") (auto simp: neq_Nil_conv)

declare escape_string.simps [simp del]

definition json_quote :: "string \<Rightarrow> string" where
  "json_quote s = CHR 0x22 # escape_string s @ [CHR 0x22]"

fun commas :: "string list \<Rightarrow> string" where
  "commas [] = []"
| "commas [x] = x"
| "commas (x # y # xs) = x @ CHR '','' # commas (y # xs)"

fun json_print :: "json \<Rightarrow> string" where
  "json_print JNull = ''null''"
| "json_print (JBool b) = (if b then ''true'' else ''false'')"
| "json_print (JNum lit) = lit"
| "json_print (JStr s) = json_quote s"
| "json_print (JArr vs) = CHR ''['' # commas (map json_print vs) @ '']''"
| "json_print (JObj ms) = CHR ''{'' # commas (map (\<lambda>(k, v). json_quote k @ CHR '':'' # json_print v) ms) @ ''}''"
| "json_print (JRaw s) = s"

section \<open>Reading\<close>

definition json_space :: "char \<Rightarrow> bool" where
  "json_space c = (c \<in> set [CHR '' '', CHR 0x09, CHR 0x0A, CHR 0x0D])"

definition skip_ws :: "string \<Rightarrow> string" where
  "skip_ws s = dropWhile json_space s"

definition hex_val :: "char \<Rightarrow> nat option" where
  "hex_val c =
     (if 48 \<le> byte c \<and> byte c \<le> 57 then Some (byte c - 48)
      else if 97 \<le> byte c \<and> byte c \<le> 102 then Some (byte c - 87)
      else if 65 \<le> byte c \<and> byte c \<le> 70 then Some (byte c - 55)
      else None)"

fun hex4 :: "string \<Rightarrow> (nat \<times> string) option" where
  "hex4 (a # b # c # d # r) =
     (case (hex_val a, hex_val b, hex_val c, hex_val d) of
        (Some w, Some x, Some y, Some z) \<Rightarrow> Some (((w * 16 + x) * 16 + y) * 16 + z, r)
      | _ \<Rightarrow> None)"
| "hex4 _ = None"

text \<open>\<open>utf8.AppendRune\<close>; a surrogate half is replaced by U+FFFD.\<close>

definition encode_rune :: "nat \<Rightarrow> string" where
  "encode_rune r =
     (let r = (if 55296 \<le> r \<and> r < 57344 then 65533 else r)
      in if r < 128 then [char_of r]
         else if r < 2048 then [char_of (192 + r div 64), char_of (128 + r mod 64)]
         else if r < 65536 then [char_of (224 + r div 4096), char_of (128 + r div 64 mod 64), char_of (128 + r mod 64)]
         else [char_of (240 + r div 262144), char_of (128 + r div 4096 mod 64), char_of (128 + r div 64 mod 64), char_of (128 + r mod 64)])"

text \<open>What follows \<open>\u\<close>: a surrogate pair takes both halves.\<close>

definition read_u :: "string \<Rightarrow> (string \<times> string) option" where
  "read_u s =
     (case hex4 s of
        None \<Rightarrow> None
      | Some (r, rest) \<Rightarrow>
          if 55296 \<le> r \<and> r < 56320
          then (case rest of
                  a # b # rest' \<Rightarrow>
                    if a = CHR 0x5C \<and> b = CHR ''u''
                    then (case hex4 rest' of
                            Some (r2, rest2) \<Rightarrow>
                              if 56320 \<le> r2 \<and> r2 < 57344
                              then Some (encode_rune (65536 + (r - 55296) * 1024 + (r2 - 56320)), rest2)
                              else Some (encode_rune 65533, rest)
                          | None \<Rightarrow> Some (encode_rune 65533, rest))
                    else Some (encode_rune 65533, rest)
                | _ \<Rightarrow> Some (encode_rune 65533, rest))
          else Some (encode_rune r, rest))"

text \<open>One character of a string literal, \<open>None\<close> at a control byte or a bad escape.\<close>

definition read_char :: "string \<Rightarrow> (string \<times> string) option" where
  "read_char s =
     (case s of
        [] \<Rightarrow> None
      | c # r \<Rightarrow>
          if byte c < 32 then None
          else if c = CHR 0x5C then
            (case r of
               [] \<Rightarrow> None
             | e # r' \<Rightarrow>
                 if e \<in> set [CHR 0x22, CHR 0x5C, CHR ''/''] then Some ([e], r')
                 else if e = CHR ''b'' then Some ([CHR 0x08], r')
                 else if e = CHR ''f'' then Some ([CHR 0x0C], r')
                 else if e = CHR ''n'' then Some ([CHR 0x0A], r')
                 else if e = CHR ''r'' then Some ([CHR 0x0D], r')
                 else if e = CHR ''t'' then Some ([CHR 0x09], r')
                 else if e = CHR ''u'' then read_u r'
                 else None)
          else if rune_width s = 0 then Some (encode_rune 65533, r)
          else Some (take (rune_width s) s, drop (rune_width s) s))"

text \<open>The rest of a literal after its opening quote; every character takes at least one byte.\<close>

fun read_string :: "nat \<Rightarrow> string \<Rightarrow> (string \<times> string) option" where
  "read_string 0 s = None"
| "read_string (Suc n) s =
     (case s of
        [] \<Rightarrow> None
      | c # r \<Rightarrow>
          if c = CHR 0x22 then Some ([], r)
          else (case read_char s of
                  None \<Rightarrow> None
                | Some (t, r') \<Rightarrow> map_option (\<lambda>(ts, r''). (t @ ts, r'')) (read_string n r')))"

definition read_digits :: "string \<Rightarrow> (string \<times> string) option" where
  "read_digits s = (if takeWhile is_digit s = [] then None else Some (takeWhile is_digit s, dropWhile is_digit s))"

text \<open>The grammar of a number: an integer without leading zeros, a fraction, an exponent.\<close>

definition read_int :: "string \<Rightarrow> (string \<times> string) option" where
  "read_int s = (if HasPrefix s ''0'' then Some (''0'', tl s) else read_digits s)"

definition read_frac :: "string \<Rightarrow> (string \<times> string) option" where
  "read_frac s =
     (if HasPrefix s ''.'' then map_option (\<lambda>(ds, r). (CHR ''.'' # ds, r)) (read_digits (tl s)) else Some ([], s))"

definition read_exp :: "string \<Rightarrow> (string \<times> string) option" where
  "read_exp s =
     (if HasPrefix s ''e'' \<or> HasPrefix s ''E''
      then (if HasPrefix (tl s) ''+'' \<or> HasPrefix (tl s) ''-''
            then map_option (\<lambda>(ds, r). (take 2 s @ ds, r)) (read_digits (drop 2 s))
            else map_option (\<lambda>(ds, r). (take 1 s @ ds, r)) (read_digits (tl s)))
      else Some ([], s))"

definition read_number :: "string \<Rightarrow> (string \<times> string) option" where
  "read_number s =
     (let sign = (if HasPrefix s ''-'' then ''-'' else [])
      in case read_int (drop (length sign) s) of
           None \<Rightarrow> None
         | Some (i, r1) \<Rightarrow>
             (case read_frac r1 of
                None \<Rightarrow> None
              | Some (f, r2) \<Rightarrow> map_option (\<lambda>(e, r3). (sign @ i @ f @ e, r3)) (read_exp r2)))"

text \<open>A member's name with its colon.\<close>

definition read_key :: "string \<Rightarrow> (string \<times> string) option" where
  "read_key s =
     (case skip_ws s of
        [] \<Rightarrow> None
      | c # r \<Rightarrow>
          if c \<noteq> CHR 0x22 then None
          else (case read_string (Suc (length r)) r of
                  None \<Rightarrow> None
                | Some (k, r1) \<Rightarrow> if HasPrefix (skip_ws r1) '':'' then Some (k, tl (skip_ws r1)) else None))"

text \<open>A value, the rest of an array and the rest of an object. Every call takes at least one byte,
  so as much fuel as bytes is enough.\<close>

fun read_value :: "nat \<Rightarrow> string \<Rightarrow> (json \<times> string) option"
  and read_elems :: "nat \<Rightarrow> string \<Rightarrow> (json list \<times> string) option"
  and read_members :: "nat \<Rightarrow> string \<Rightarrow> ((string \<times> json) list \<times> string) option" where
  "read_value 0 s = None"
| "read_value (Suc n) s =
     (case skip_ws s of
        [] \<Rightarrow> None
      | c # r \<Rightarrow>
          if c = CHR 0x22 then map_option (\<lambda>(t, r'). (JStr t, r')) (read_string (Suc (length r)) r)
          else if c = CHR ''['' then
            (if HasPrefix (skip_ws r) '']'' then Some (JArr [], tl (skip_ws r))
             else map_option (\<lambda>(vs, r'). (JArr vs, r')) (read_elems n r))
          else if c = CHR ''{'' then
            (if HasPrefix (skip_ws r) ''}'' then Some (JObj [], tl (skip_ws r))
             else map_option (\<lambda>(ms, r'). (JObj ms, r')) (read_members n r))
          else if HasPrefix (c # r) ''null'' then Some (JNull, drop 4 (c # r))
          else if HasPrefix (c # r) ''true'' then Some (JBool True, drop 4 (c # r))
          else if HasPrefix (c # r) ''false'' then Some (JBool False, drop 5 (c # r))
          else map_option (\<lambda>(l, r'). (JNum l, r')) (read_number (c # r)))"
| "read_elems 0 s = None"
| "read_elems (Suc n) s =
     (case read_value n s of
        None \<Rightarrow> None
      | Some (v, r) \<Rightarrow>
          (case skip_ws r of
             [] \<Rightarrow> None
           | c # r' \<Rightarrow>
               if c = CHR '','' then map_option (\<lambda>(vs, r''). (v # vs, r'')) (read_elems n r')
               else if c = CHR '']'' then Some ([v], r')
               else None))"
| "read_members 0 s = None"
| "read_members (Suc n) s =
     (case read_key s of
        None \<Rightarrow> None
      | Some (k, r2) \<Rightarrow>
          (case read_value n r2 of
             None \<Rightarrow> None
           | Some (v, r3) \<Rightarrow>
               (case skip_ws r3 of
                  [] \<Rightarrow> None
                | c # r4 \<Rightarrow>
                    if c = CHR '','' then map_option (\<lambda>(ms, r5). ((k, v) # ms, r5)) (read_members n r4)
                    else if c = CHR ''}'' then Some ([(k, v)], r4)
                    else None)))"

text \<open>\<open>Decoder.Decode\<close> reads one value and leaves the rest, \<open>Unmarshal\<close> takes the whole text.\<close>

definition json_decode :: "string \<Rightarrow> (json \<times> string) option" where
  "json_decode s = read_value (Suc (length s)) s"

definition json_parse :: "string \<Rightarrow> json option" where
  "json_parse s = (case json_decode s of Some (v, r) \<Rightarrow> if skip_ws r = [] then Some v else None | None \<Rightarrow> None)"

section \<open>Reading what was written\<close>

lemma hex_val_digit: "n < 16 \<Longrightarrow> hex_val (hex_digit n) = Some n"
proof -
  assume "n < 16"
  then have "n \<in> set [0..<16]" by simp
  moreover have "\<forall>n \<in> set [0..<16]. hex_val (hex_digit n) = Some n" by code_simp
  ultimately show ?thesis by blast
qed

lemma read_u_escape:
  assumes "a < 16" "b < 16" "c < 16" "d < 16" and "((a * 16 + b) * 16 + c) * 16 + d < 55296"
  shows "read_char (u_escape a b c d @ t) = Some (encode_rune (((a * 16 + b) * 16 + c) * 16 + d), t)"
  using assms by (simp add: read_char_def u_escape_def read_u_def hex_val_digit)

lemma read_char_plain:
  assumes "0 < rune_width s" and "32 \<le> byte (hd s)" and "hd s \<noteq> CHR 0x5C"
  shows "read_char s = Some (take (rune_width s) s, drop (rune_width s) s)"
  using assms by (cases s) (simp_all add: read_char_def rune_width.simps(1) del: rune_width.simps(2))

lemma rune_width_append: "0 < rune_width s \<Longrightarrow> rune_width (take (rune_width s) s @ t) = rune_width s"
  by (erule rune_width_shape) (simp_all del: rune_width.simps)

lemma read_escape_ascii:
  assumes "byte c < 128"
  shows "read_char (escape_ascii c @ t) = Some ([c], t)"
proof (cases "c \<in> set [CHR 0x22, CHR 0x5C, CHR 0x08, CHR 0x0C, CHR 0x0A, CHR 0x0D, CHR 0x09]")
  case True
  then show ?thesis by (auto simp: escape_ascii_def read_char_def)
next
  case False
  show ?thesis
  proof (cases "byte c < 32 \<or> c = CHR ''<'' \<or> c = CHR ''>'' \<or> c = CHR ''&''")
    case True
    then have "escape_ascii c = u_escape 0 0 (byte c div 16) (byte c mod 16)" using False by (simp add: escape_ascii_def)
    then show ?thesis using read_u_escape [of 0 0 "byte c div 16" "byte c mod 16" t] assms
      by (simp add: mult.commute encode_rune_def)
  next
    case plain: False
    then have "escape_ascii c = [c]" using False by (simp add: escape_ascii_def)
    then show ?thesis using read_char_plain [of "c # t"] assms plain False by simp
  qed
qed

lemma rune_width_cases:
  assumes "0 < rune_width s"
  obtains c t where "s = c # t" "byte c < 128" "rune_width s = 1"
  | c t where "s = c # t" "128 \<le> byte c" "1 < rune_width s"
proof (cases s)
  case Nil
  then show ?thesis using assms by simp
next
  case (Cons c t)
  show ?thesis
  proof (cases "byte c < 128")
    case True
    then show ?thesis using that(1) Cons by simp
  next
    case False
    then have "1 < rune_width s" using assms Cons by (auto split: if_splits list.splits)
    then show ?thesis using that(2) Cons False by simp
  qed
qed

lemma escape_wide:
  assumes "0 < rune_width s" and "128 \<le> byte (hd s)"
  shows "read_char (take (rune_width s) s @ t) = Some (take (rune_width s) s, t)"
proof -
  let ?r = "take (rune_width s) s"
  have r: "length ?r = rune_width s" using rune_width_le [of s] by simp
  then have "hd (?r @ t) = hd s" using assms(1) by (cases s) (simp_all add: rune_width.simps(1) del: rune_width.simps(2))
  then have "hd (?r @ t) \<noteq> CHR 0x5C" "32 \<le> byte (hd (?r @ t))" using assms(2) by auto
  then show ?thesis using read_char_plain [of "?r @ t"] rune_width_append [OF assms(1), of t] assms(1) r by simp
qed

lemma line_separators:
  "encode_rune 8232 = [CHR 0xE2, CHR 0x80, CHR 0xA8]" "encode_rune 8233 = [CHR 0xE2, CHR 0x80, CHR 0xA9]"
  by (simp_all add: encode_rune_def char_of_eq_iff)

lemma escape_rune_props:
  assumes "0 < rune_width s"
  shows "read_char (escape_rune (take (rune_width s) s) @ t) = Some (take (rune_width s) s, t)"
    and "hd (escape_rune (take (rune_width s) s)) \<noteq> CHR 0x22" and "rune_width s \<le> length (escape_rune (take (rune_width s) s))"
proof -
  let ?r = "take (rune_width s) s"
  have "read_char (escape_rune ?r @ t) = Some (?r, t) \<and> hd (escape_rune ?r) \<noteq> CHR 0x22 \<and> length ?r \<le> length (escape_rune ?r)"
    using assms
  proof (cases rule: rune_width_cases)
    case (1 c u)
    then have "?r = [c]" by (simp del: rune_width.simps)
    then show ?thesis using read_escape_ascii [OF 1(2), of t] by (auto simp: escape_rune_def escape_ascii_def u_escape_def)
  next
    case (2 c u)
    then have r: "length ?r \<noteq> 1" "hd ?r = c" "?r \<noteq> []" using rune_width_le [of s] by (simp_all del: rune_width.simps)
    consider "?r = [CHR 0xE2, CHR 0x80, CHR 0xA8]" | "?r = [CHR 0xE2, CHR 0x80, CHR 0xA9]" | "escape_rune ?r = ?r"
      using r(1) unfolding escape_rune_def by metis
    then show ?thesis
    proof cases
      case 1
      then show ?thesis using read_u_escape [of 2 0 2 8 t] by (simp add: escape_rune_def line_separators u_escape_def)
    next
      case 2
      then show ?thesis using read_u_escape [of 2 0 2 9 t] by (simp add: escape_rune_def line_separators u_escape_def)
    next
      case 3
      then show ?thesis using escape_wide [OF assms, of t] 2 r by auto
    qed
  qed
  then show "read_char (escape_rune ?r @ t) = Some (?r, t)" "hd (escape_rune ?r) \<noteq> CHR 0x22" "rune_width s \<le> length (escape_rune ?r)"
    using rune_width_le [of s] by auto
qed

lemma read_string_Suc:
  assumes "s \<noteq> []" and "hd s \<noteq> CHR 0x22"
  shows "read_string (Suc n) s =
    (case read_char s of None \<Rightarrow> None | Some (t, r') \<Rightarrow> map_option (\<lambda>(ts, r''). (t @ ts, r'')) (read_string n r'))"
  using assms by (cases s) simp_all

lemma utf8_Valid_step: "utf8_Valid s \<Longrightarrow> s \<noteq> [] \<Longrightarrow> 0 < rune_width s \<and> utf8_Valid (drop (rune_width s) s)"
  using utf8_Valid.simps [of s] by (auto split: if_splits)

lemma read_escaped: "utf8_Valid s \<Longrightarrow> length s < n \<Longrightarrow> read_string n (escape_string s @ CHR 0x22 # t) = Some (s, t)"
proof (induction s arbitrary: n rule: utf8_Valid.induct)
  case (1 s)
  obtain k where n: "n = Suc k" using "1.prems"(2) by (cases n) auto
  show ?case
  proof (cases "s = []")
    case True
    then show ?thesis by (simp add: n escape_string.simps)
  next
    case False
    note step = utf8_Valid_step [OF "1.prems"(1) False]
    let ?r = "take (rune_width s) s" and ?s = "drop (rune_width s) s"
    note props = escape_rune_props [OF step [THEN conjunct1]]
    have ne: "escape_rune ?r \<noteq> []" using props(3) step by auto
    have "read_string k (escape_string ?s @ CHR 0x22 # t) = Some (?s, t)"
      using "1.IH" [of k] False step "1.prems"(2) n rune_width_le [of s] by fastforce
    then show ?thesis using props(1,2) ne step False
      by (subst escape_string.simps) (simp add: n read_string_Suc del: read_string.simps)
  qed
qed

lemma length_escape_string: "utf8_Valid s \<Longrightarrow> length s \<le> length (escape_string s)"
proof (induction s rule: utf8_Valid.induct)
  case (1 s)
  show ?case
  proof (cases "s = []")
    case False
    note step = utf8_Valid_step [OF "1.prems" False]
    then have "length (drop (rune_width s) s) \<le> length (escape_string (drop (rune_width s) s))"
      using "1.IH" False by auto
    then show ?thesis using escape_rune_props(3) [OF step [THEN conjunct1]] step False
      by (subst escape_string.simps) simp
  qed simp
qed

text \<open>Values whose strings are UTF-8 and whose numbers are written from integers.\<close>

fun json_ok :: "json \<Rightarrow> bool" where
  "json_ok (JRaw s) \<longleftrightarrow> False"
| "json_ok (JNum lit) \<longleftrightarrow> (\<exists>n. lit = Itoa n)"
| "json_ok (JStr s) \<longleftrightarrow> utf8_Valid s"
| "json_ok (JArr vs) \<longleftrightarrow> (\<forall>v \<in> set vs. json_ok v)"
| "json_ok (JObj ms) \<longleftrightarrow> (\<forall>m \<in> set ms. utf8_Valid (fst m) \<and> json_ok (snd m))"
| "json_ok v \<longleftrightarrow> True"

definition delim :: "string \<Rightarrow> bool" where
  "delim t \<longleftrightarrow> (t = [] \<or> hd t \<in> set [CHR '','', CHR '']'', CHR ''}''])"

lemma delim_simps [simp]: "delim []" "delim (CHR '','' # t)" "delim (CHR '']'' # t)" "delim (CHR ''}'' # t)"
  by (simp_all add: delim_def)

lemma nat_digits_zero: "hd (nat_digits n) = CHR ''0'' \<Longrightarrow> n = 0"
proof (induction n rule: nat_digits.induct)
  case (1 n)
  show ?case
  proof (cases "n < 10")
    case True
    then have "digit_val (digit_char n) = n" by (rule digit_char_props)
    then show ?thesis using "1.prems" True by (simp add: nat_digits.simps [of n] digit_val_def)
  next
    case False
    then have "hd (nat_digits (n div 10)) = CHR ''0''" using "1.prems" nat_digits_props(3) by (simp add: nat_digits.simps [of n])
    then show ?thesis using "1.IH" False by simp
  qed
qed

lemma delim_cases:
  assumes "delim t"
  shows "takeWhile is_digit t = []" "\<not> HasPrefix t ''.''" "\<not> HasPrefix t ''e''" "\<not> HasPrefix t ''E''" "dropWhile is_digit t = t"
  using assms by (cases t; auto simp: delim_def HasPrefix_def is_digit_def)+

lemma read_nat_digits:
  assumes "delim t"
  shows "read_int (nat_digits n @ t) = Some (nat_digits n, t)"
proof (cases "HasPrefix (nat_digits n @ t) ''0''")
  case True
  then have "hd (nat_digits n) = CHR ''0''" using nat_digits_props(3) [of n] by (cases "nat_digits n") (auto simp: HasPrefix_def)
  then have "n = 0" by (rule nat_digits_zero)
  moreover have "nat_digits 0 = ''0''" by (simp add: nat_digits.simps digit_char_def char_of_eq_iff)
  ultimately show ?thesis by (simp add: read_int_def HasPrefix_def)
next
  case False
  have "takeWhile is_digit (nat_digits n @ t) = nat_digits n" "dropWhile is_digit (nat_digits n @ t) = t"
    using nat_digits_props(1) [of n] delim_cases [OF assms] by (simp_all add: list_all_iff)
  then show ?thesis using False nat_digits_props(3) by (simp add: read_int_def read_digits_def)
qed

lemma read_number_Itoa: "delim t \<Longrightarrow> read_number (Itoa n @ t) = Some (Itoa n, t)"
proof -
  assume d: "delim t"
  have plain: "\<not> HasPrefix (nat_digits k @ t) ''-''" for k
    using nat_digits_hd(1) [of k] nat_digits_props(3) [of k] by (cases "nat_digits k") (auto simp: HasPrefix_def)
  show ?thesis using read_nat_digits [OF d] delim_cases [OF d] plain
    by (auto simp: read_number_def Itoa_def read_frac_def read_exp_def Let_def) (simp_all add: HasPrefix_def)
qed

lemma Itoa_head: "\<exists>c r. Itoa n = c # r \<and> (is_digit c \<or> c = CHR ''-'')"
  using nat_digits_props(1,3) [of "nat n"] by (cases "nat_digits (nat n)") (auto simp: Itoa_def)

lemma skip_ws_head [simp]: "\<not> json_space c \<Longrightarrow> skip_ws (c # s) = c # s"
  by (simp add: skip_ws_def)

lemma json_space_literals [simp]:
  "\<not> json_space (CHR 0x22)" "\<not> json_space (CHR ''['')" "\<not> json_space (CHR ''{'')" "\<not> json_space (CHR '','')"
  "\<not> json_space (CHR '']'')" "\<not> json_space (CHR ''}'')" "\<not> json_space (CHR '':'')" "\<not> json_space (CHR ''n'')"
  "\<not> json_space (CHR ''t'')" "\<not> json_space (CHR ''f'')" "\<not> json_space (CHR ''-'')"
  by (simp_all add: json_space_def)

lemma read_quoted: "utf8_Valid s \<Longrightarrow> read_string (Suc (length (escape_string s @ CHR 0x22 # t))) (escape_string s @ CHR 0x22 # t) = Some (s, t)"
  by (intro read_escaped) (use length_escape_string [of s] in simp_all)

lemma read_key_quoted: "utf8_Valid k \<Longrightarrow> read_key (json_quote k @ CHR '':'' # t) = Some (k, t)"
  using read_quoted [of k "CHR '':'' # t"] by (simp add: read_key_def json_quote_def HasPrefix_def del: read_string.simps)

lemma read_value_number:
  assumes "delim t"
  shows "read_value (Suc n) (Itoa k @ t) = Some (JNum (Itoa k), t)"
proof -
  obtain c r where c: "Itoa k = c # r" "is_digit c \<or> c = CHR ''-''" using Itoa_head by blast
  then have "\<not> json_space c" "c \<notin> set [CHR 0x22, CHR ''['', CHR ''{'', CHR ''n'', CHR ''t'', CHR ''f'']"
    by (auto simp: is_digit_def json_space_def)
  then show ?thesis using read_number_Itoa [OF assms, of k] c(1) by (simp add: HasPrefix_def)
qed

lemma json_print_head:
  assumes "json_ok v"
  shows "\<exists>c r. json_print v = c # r \<and> \<not> json_space c \<and> c \<noteq> CHR '']'' \<and> c \<noteq> CHR ''}''"
proof (cases v)
  case (JNum lit)
  then obtain k where "lit = Itoa k" using assms by auto
  then show ?thesis using Itoa_head [of k] JNum by (auto simp: is_digit_def json_space_def)
qed (use assms in \<open>auto simp: json_quote_def\<close>)

lemma read_elems_commas:
  assumes "\<And>v n t. v \<in> set vs \<Longrightarrow> delim t \<Longrightarrow> length (json_print v) \<le> n \<Longrightarrow> read_value n (json_print v @ t) = Some (v, t)"
    and "vs \<noteq> []" and "length (commas (map json_print vs)) < n"
  shows "read_elems n (commas (map json_print vs) @ CHR '']'' # t) = Some (vs, t)"
  using assms
proof (induction vs arbitrary: n)
  case (Cons v vs)
  then obtain k where n: "n = Suc k" by (cases n) auto
  show ?case
  proof (cases vs)
    case Nil
    then show ?thesis using Cons.prems(1) [of v "CHR '']'' # t" k] Cons.prems(3) n by simp
  next
    case (Cons w ws)
    let ?rest = "commas (map json_print vs) @ CHR '']'' # t"
    have "commas (map json_print (v # vs)) @ CHR '']'' # t = json_print v @ CHR '','' # ?rest" using Cons by simp
    moreover have "read_value k (json_print v @ CHR '','' # ?rest) = Some (v, CHR '','' # ?rest)"
      using Cons.prems(1) [of v] Cons.prems(3) n Cons by auto
    moreover have "read_elems k ?rest = Some (vs, t)"
      using Cons.IH [of k] Cons.prems(1,3) n Cons by auto
    ultimately show ?thesis using n by simp
  qed
qed simp

definition json_member :: "string \<times> json \<Rightarrow> string" where
  "json_member m = json_quote (fst m) @ CHR '':'' # json_print (snd m)"

lemma read_members_commas:
  assumes "\<And>m n t. m \<in> set ms \<Longrightarrow> delim t \<Longrightarrow> length (json_print (snd m)) \<le> n \<Longrightarrow> read_value n (json_print (snd m) @ t) = Some (snd m, t)"
    and "\<And>m. m \<in> set ms \<Longrightarrow> utf8_Valid (fst m)" and "ms \<noteq> []" and "length (commas (map json_member ms)) < n"
  shows "read_members n (commas (map json_member ms) @ CHR ''}'' # t) = Some (ms, t)"
  using assms
proof (induction ms arbitrary: n)
  case (Cons m ms)
  then obtain k where n: "n = Suc k" by (cases n) auto
  have key: "read_key (json_member m @ u) = Some (fst m, json_print (snd m) @ u)" for u
    using read_key_quoted [of "fst m"] Cons.prems(2) by (simp add: json_member_def)
  have le: "length (json_print (snd m)) \<le> length (json_member m)" by (simp add: json_member_def)
  show ?case
  proof (cases ms)
    case Nil
    then show ?thesis using Cons.prems(1) [of m "CHR ''}'' # t" k] Cons.prems(4) n key le by simp
  next
    case (Cons w ws)
    let ?rest = "commas (map json_member ms) @ CHR ''}'' # t"
    have "commas (map json_member (m # ms)) @ CHR ''}'' # t = json_member m @ CHR '','' # ?rest" using Cons by simp
    moreover have "read_value k (json_print (snd m) @ CHR '','' # ?rest) = Some (snd m, CHR '','' # ?rest)"
      using Cons.prems(1) [of m] Cons.prems(4) n Cons le by auto
    moreover have "read_members k ?rest = Some (ms, t)"
      using Cons.IH [of k] Cons.prems(1,2,4) n Cons by auto
    ultimately show ?thesis using n key by simp
  qed
qed simp

lemma commas_head: "xs \<noteq> [] \<Longrightarrow> hd xs = c # r \<Longrightarrow> \<exists>r'. commas xs = c # r'"
  by (cases xs rule: commas.cases) auto

lemma read_array:
  assumes "\<And>v n t. v \<in> set vs \<Longrightarrow> delim t \<Longrightarrow> length (json_print v) \<le> n \<Longrightarrow> read_value n (json_print v @ t) = Some (v, t)"
    and "\<forall>v \<in> set vs. json_ok v" and "length (json_print (JArr vs)) \<le> n"
  shows "read_value n (json_print (JArr vs) @ t) = Some (JArr vs, t)"
proof -
  obtain k where n: "n = Suc k" using assms(3) by (cases n) auto
  show ?thesis
  proof (cases "vs = []")
    case False
    then have "json_ok (hd vs)" "hd (map json_print vs) = json_print (hd vs)" using assms(2) by (simp_all add: hd_map)
    then obtain c r where c: "commas (map json_print vs) = c # r" "\<not> json_space c" "c \<noteq> CHR '']''"
      using json_print_head [of "hd vs"] commas_head [of "map json_print vs"] False by auto
    have "read_elems k (commas (map json_print vs) @ CHR '']'' # t) = Some (vs, t)"
      using read_elems_commas [of vs k t] assms(1,3) False n by simp
    then show ?thesis using c by (simp add: n HasPrefix_def)
  qed (simp add: n HasPrefix_def)
qed

lemma read_object:
  assumes "\<And>m n t. m \<in> set ms \<Longrightarrow> delim t \<Longrightarrow> length (json_print (snd m)) \<le> n \<Longrightarrow> read_value n (json_print (snd m) @ t) = Some (snd m, t)"
    and "\<And>m. m \<in> set ms \<Longrightarrow> utf8_Valid (fst m)" and "length (json_print (JObj ms)) \<le> n"
  shows "read_value n (json_print (JObj ms) @ t) = Some (JObj ms, t)"
proof -
  obtain k where n: "n = Suc k" using assms(3) by (cases n) auto
  have ms: "json_print (JObj ms) = CHR ''{'' # commas (map json_member ms) @ ''}''"
    by (auto simp: json_member_def intro!: arg_cong [where f = commas])
  show ?thesis
  proof (cases "ms = []")
    case False
    then obtain r where c: "commas (map json_member ms) = CHR 0x22 # r"
      using commas_head [of "map json_member ms"] by (auto simp: hd_map json_member_def json_quote_def)
    have "read_members k (commas (map json_member ms) @ CHR ''}'' # t) = Some (ms, t)"
      using read_members_commas [of ms k t] assms False n ms by simp
    then show ?thesis using c by (simp add: n ms HasPrefix_def del: json_print.simps)
  qed (simp add: n HasPrefix_def)
qed

lemma read_printed: "json_ok v \<Longrightarrow> delim t \<Longrightarrow> length (json_print v) \<le> n \<Longrightarrow> read_value n (json_print v @ t) = Some (v, t)"
proof (induction v arbitrary: n t)
  case (JNum lit)
  then obtain k where "lit = Itoa k" by auto
  moreover have "Itoa k \<noteq> []" using Itoa_head [of k] by force
  then have "0 < n" using JNum(3) \<open>lit = Itoa k\<close> by (cases n) simp_all
  ultimately show ?case using read_value_number [of t "n - 1" k] JNum(2) by (simp del: read_value.simps)
next
  case (JStr s)
  then obtain k where "n = Suc k" by (cases n) (auto simp: json_quote_def)
  then show ?case using JStr read_quoted [of s t] by (simp add: json_quote_def del: read_string.simps)
next
  case (JArr vs)
  then show ?case by (intro read_array) auto
next
  case (JObj ms)
  then show ?case by (intro read_object) (auto simp: snds.simps)
next
  case JNull
  then obtain k where "n = Suc k" by (cases n) auto
  then show ?case by (simp add: HasPrefix_def)
next
  case (JBool b)
  then obtain k where "n = Suc k" by (cases n) (auto split: if_splits)
  then show ?case by (simp add: HasPrefix_def)
qed simp

lemma decode_printed: "json_ok v \<Longrightarrow> delim t \<Longrightarrow> json_decode (json_print v @ t) = Some (v, t)"
  unfolding json_decode_def by (rule read_printed) simp_all

theorem json_round_trip: "json_ok v \<Longrightarrow> json_parse (json_print v) = Some v"
  using decode_printed [of v "[]"] by (simp add: json_parse_def skip_ws_def)

section \<open>Storing into Go variables\<close>

text \<open>A decoder stores a value over the old content of a variable; \<open>None\<close> is the type error the package
  returns in the end. \<open>null\<close> leaves a plain variable as it is and clears a slice or a pointer. The
  fields of a struct are found by name, first exactly and then without regard to case; an unknown
  member is skipped, or refused after \<open>DisallowUnknownFields\<close>.\<close>

type_synonym 'v decoder = "json \<Rightarrow> 'v \<Rightarrow> 'v option"

definition dec_string :: "string decoder" where
  "dec_string j old = (case j of JNull \<Rightarrow> Some old | JStr s \<Rightarrow> Some s | _ \<Rightarrow> None)"

definition dec_bool :: "bool decoder" where
  "dec_bool j old = (case j of JNull \<Rightarrow> Some old | JBool b \<Rightarrow> Some b | _ \<Rightarrow> None)"

text \<open>Signed integers of \<open>bits\<close> bits and \<open>uint16\<close>.\<close>

definition dec_int :: "nat \<Rightarrow> int decoder" where
  "dec_int bits j old =
     (case j of
        JNull \<Rightarrow> Some old
      | JNum lit \<Rightarrow>
          (case ParseInt64 lit of
             Some n \<Rightarrow> if - (2 ^ (bits - 1)) \<le> n \<and> n < 2 ^ (bits - 1) then Some n else None
           | None \<Rightarrow> None)
      | _ \<Rightarrow> None)"

definition dec_uint16 :: "uint16 decoder" where
  "dec_uint16 j old =
     (case j of
        JNull \<Rightarrow> Some old
      | JNum lit \<Rightarrow> (case ParseUint 64 lit of Some n \<Rightarrow> if n < 2 ^ 16 then Some (of_nat n) else None | None \<Rightarrow> None)
      | _ \<Rightarrow> None)"

text \<open>The elements of a slice are stored over its old elements.\<close>

fun dec_elems :: "'v decoder \<Rightarrow> 'v \<Rightarrow> json list \<Rightarrow> 'v list \<Rightarrow> 'v list option" where
  "dec_elems dec zero [] old = Some []"
| "dec_elems dec zero (j # js) old =
     (case dec j (case old of [] \<Rightarrow> zero | x # _ \<Rightarrow> x) of
        None \<Rightarrow> None
      | Some v \<Rightarrow> map_option (Cons v) (dec_elems dec zero js (tl old)))"

definition dec_list :: "'v decoder \<Rightarrow> 'v \<Rightarrow> 'v list decoder" where
  "dec_list dec zero j old = (case j of JNull \<Rightarrow> Some [] | JArr js \<Rightarrow> dec_elems dec zero js old | _ \<Rightarrow> None)"

definition dec_ptr :: "'v decoder \<Rightarrow> 'v \<Rightarrow> 'v option decoder" where
  "dec_ptr dec zero j old =
     (case j of JNull \<Rightarrow> Some None | _ \<Rightarrow> map_option Some (dec j (case old of None \<Rightarrow> zero | Some x \<Rightarrow> x)))"

text \<open>\<open>foldName\<close> on the names of fields, which are ASCII: besides the case of letters it equates the
  long s (U+017F) and the Kelvin sign (U+212A).\<close>

fun fold_name :: "string \<Rightarrow> string" where
  "fold_name [] = []"
| "fold_name (c # s) =
     (if c = CHR 0xC5 \<and> HasPrefix s [CHR 0xBF] then CHR ''s'' # fold_name (drop 1 s)
      else if c = CHR 0xE2 \<and> HasPrefix s [CHR 0x84, CHR 0xAA] then CHR ''k'' # fold_name (drop 2 s)
      else if 65 \<le> byte c \<and> byte c \<le> 90 then char_of (byte c + 32) # fold_name s
      else c # fold_name s)"

definition find_field :: "(string \<times> 'v decoder) list \<Rightarrow> string \<Rightarrow> 'v decoder option" where
  "find_field fs k =
     (case map_of fs k of Some f \<Rightarrow> Some f | None \<Rightarrow> map_of (map (\<lambda>(n, f). (fold_name n, f)) fs) (fold_name k))"

fun dec_members :: "bool \<Rightarrow> (string \<times> 'v decoder) list \<Rightarrow> (string \<times> json) list \<Rightarrow> 'v \<Rightarrow> 'v option" where
  "dec_members strict fs [] r = Some r"
| "dec_members strict fs ((k, j) # ms) r =
     (case find_field fs k of
        None \<Rightarrow> if strict then None else dec_members strict fs ms r
      | Some f \<Rightarrow> (case f j r of None \<Rightarrow> None | Some r' \<Rightarrow> dec_members strict fs ms r'))"

definition dec_struct :: "bool \<Rightarrow> (string \<times> 'v decoder) list \<Rightarrow> 'v decoder" where
  "dec_struct strict fs j r = (case j of JNull \<Rightarrow> Some r | JObj ms \<Rightarrow> dec_members strict fs ms r | _ \<Rightarrow> None)"

text \<open>A field of a record, from its selector and its update.\<close>

definition into :: "('r \<Rightarrow> 'v) \<Rightarrow> (('v \<Rightarrow> 'v) \<Rightarrow> 'r \<Rightarrow> 'r) \<Rightarrow> 'v decoder \<Rightarrow> 'r decoder" where
  "into get upd dec j r = map_option (\<lambda>v. upd (\<lambda>_. v) r) (dec j (get r))"

text \<open>Writing: a member of a struct, with \<open>omitempty\<close> left out at the zero value.\<close>

definition omit :: "bool \<Rightarrow> string \<times> json \<Rightarrow> (string \<times> json) list" where
  "omit z m = (if z then [] else [m])"

abbreviation omit_str :: "string \<Rightarrow> string \<Rightarrow> (string \<times> json) list" where
  "omit_str k s \<equiv> omit (s = []) (k, JStr s)"

abbreviation JInt :: "int \<Rightarrow> json" where
  "JInt n \<equiv> JNum (Itoa n)"

abbreviation omit_int :: "string \<Rightarrow> int \<Rightarrow> (string \<times> json) list" where
  "omit_int k n \<equiv> omit (n = 0) (k, JInt n)"

abbreviation omit_bool :: "string \<Rightarrow> bool \<Rightarrow> (string \<times> json) list" where
  "omit_bool k b \<equiv> omit (\<not> b) (k, JBool b)"

abbreviation omit_strs :: "string \<Rightarrow> string list \<Rightarrow> (string \<times> json) list" where
  "omit_strs k ss \<equiv> omit (ss = []) (k, JArr (map JStr ss))"

abbreviation omit_ints :: "string \<Rightarrow> int list \<Rightarrow> (string \<times> json) list" where
  "omit_ints k ns \<equiv> omit (ns = []) (k, JArr (map JInt ns))"

subsection \<open>Storing what was written\<close>

lemma dec_simps [simp]:
  "dec_string (JStr s) s0 = Some s" "dec_bool (JBool b) b0 = Some b"
  "dec_list dec zero (JArr js) old = dec_elems dec zero js old"
  "dec_ptr dec zero (JObj ms) None = map_option Some (dec (JObj ms) zero)"
  "dec_struct strict fs (JObj ms) r = dec_members strict fs ms r"
  by (simp_all add: dec_string_def dec_bool_def dec_list_def dec_ptr_def dec_struct_def)

lemma dec_int_JInt: "- (2 ^ (bits - 1)) \<le> n \<Longrightarrow> n < 2 ^ (bits - 1) \<Longrightarrow> bits \<le> 64 \<Longrightarrow> dec_int bits (JInt n) old = Some n"
proof -
  assume a: "- (2 ^ (bits - 1)) \<le> n" "n < 2 ^ (bits - 1)" "bits \<le> 64"
  have "(2::int) ^ (bits - 1) \<le> 2 ^ 63" using a(3) by (intro power_increasing) auto
  then have "ParseInt64 (Itoa n) = Some n" using a by (intro ParseInt64_Itoa) linarith+
  then show ?thesis using a by (simp add: dec_int_def)
qed

lemma ParseUint_Itoa: "n < 2 ^ bits \<Longrightarrow> ParseUint bits (Itoa (int n)) = Some n"
  using nat_digits_props [of n] by (simp add: ParseUint_def Itoa_def)

lemma dec_uint16_JInt [simp]: "dec_uint16 (JInt (uint p)) old = Some p"
proof -
  have "unat p < 2 ^ 16" using unsigned_less [of p] by simp
  moreover from this have "ParseUint 64 (Itoa (int (unat p))) = Some (unat p)" by (intro ParseUint_Itoa) simp
  ultimately show ?thesis by (simp add: dec_uint16_def)
qed

lemma dec_elems_fresh: "(\<And>x. x \<in> set xs \<Longrightarrow> dec (e x) zero = Some x) \<Longrightarrow> dec_elems dec zero (map e xs) [] = Some xs"
  by (induction xs) auto

lemma dec_strings [simp]: "dec_elems dec_string [] (map JStr ss) [] = Some ss"
  by (rule dec_elems_fresh) simp

lemma dec_uint16s [simp]: "dec_elems dec_uint16 0 (map (\<lambda>p. JInt (uint p)) ps) [] = Some ps"
  by (rule dec_elems_fresh) simp

text \<open>One member is decoded; a member left out makes no difference when its value is the old one.\<close>

lemma dec_members_omit:
  assumes "z \<Longrightarrow> (case find_field fs k of None \<Rightarrow> Some r | Some f \<Rightarrow> f j r) = Some r" and "find_field fs k \<noteq> None"
  shows "dec_members strict fs (omit z (k, j) @ ms) r =
    (case find_field fs k of Some f \<Rightarrow> (case f j r of None \<Rightarrow> None | Some r' \<Rightarrow> dec_members strict fs ms r') | None \<Rightarrow> None)"
  using assms by (cases z) (auto simp: omit_def split: option.splits)

lemma dec_members_omit_last:
  assumes "z \<Longrightarrow> (case find_field fs k of None \<Rightarrow> Some r | Some f \<Rightarrow> f j r) = Some r" and "find_field fs k \<noteq> None"
  shows "dec_members strict fs (omit z (k, j)) r =
    (case find_field fs k of Some f \<Rightarrow> f j r | None \<Rightarrow> None)"
  using assms by (cases z) (auto simp: omit_def split: option.splits)

lemma json_ok_omit: "(\<forall>m \<in> set (omit z (k, j)). P m) \<longleftrightarrow> (\<not> z \<longrightarrow> P (k, j))"
  by (simp add: omit_def)

end
