(* ===== verification/NodeWire.thy ===== *)
theory NodeWire
  imports Json NodeAgent CoreConfig
begin

text \<open>
  The wire format between panel and node: the JSON the panel writes for its configuration types
  (struct tags of \<open>internal/httpapi/nodeconfig.go\<close> and \<open>coreconfig.go\<close>) and the decoding of the node's types
  (struct tags of \<open>cmd/node/main.go\<close>). The two sets of types are kept in step by hand; that they agree
  is proved here. A nil slice that is not left out is written as the empty array; Go writes
  \<open>null\<close>, which the node reads alike.
\<close>

section \<open>The panel writes\<close>

definition enc_user :: "userSpec \<Rightarrow> json" where
  "enc_user u = JObj ([(''name'', JStr (us_Name u))] @ omit_str ''uuid'' (us_UUID u) @ omit_str ''password'' (us_Password u)
     @ omit_str ''flow'' (us_Flow u) @ omit_str ''method'' (us_Method u) @ omit_str ''user_key'' (us_UserKey u))"

definition enc_reality :: "realitySpec \<Rightarrow> json" where
  "enc_reality r = JObj [(''private_key'', JStr (rs_PrivateKey r)), (''short_id'', JArr (map JStr (rs_ShortID r))),
     (''handshake'', JObj [(''server_name'', JStr (rs_ServerName r)), (''server_port'', JInt (uint (rs_ServerPort r)))])]"

text \<open>A pointer is left out when it is nil.\<close>

definition omit_ptr :: "string \<Rightarrow> ('v \<Rightarrow> json) \<Rightarrow> 'v option \<Rightarrow> (string \<times> json) list" where
  "omit_ptr k enc p = (case p of None \<Rightarrow> [] | Some v \<Rightarrow> [(k, enc v)])"

definition enc_tls :: "tlsSpec \<Rightarrow> json" where
  "enc_tls t = JObj ([(''server_name'', JStr (ts_ServerName t)), (''certificate'', JStr (ts_Certificate t)), (''key'', JStr (ts_Key t))]
     @ omit_ptr ''reality'' enc_reality (ts_Reality t))"

definition enc_transport :: "transportSpec \<Rightarrow> json" where
  "enc_transport t = JObj ([(''type'', JStr (tr_Type t))] @ omit_str ''path'' (tr_Path t) @ omit_str ''host'' (tr_Host t))"

text \<open>\<open>nodeConfigInboundWire\<close>: the inbound around its user list, which is encoded already.\<close>

definition enc_inbound :: "json \<Rightarrow> 'a inboundSpec_scheme \<Rightarrow> json" where
  "enc_inbound users i = JObj
     ([(''tag'', JStr (in_Tag i)), (''protocol'', JStr (in_Protocol i)), (''listen_port'', JInt (uint (in_ListenPort i)))]
      @ omit (in_ListenPorts i = []) (''listen_ports'', JArr (map (\<lambda>p. JInt (uint p)) (in_ListenPorts i)))
      @ [(''users'', users)]
      @ omit_ptr ''tls'' enc_tls (in_TLS i) @ omit_ptr ''transport'' enc_transport (in_Transport i)
      @ omit_str ''hysteria2_obfs_password'' (in_Hysteria2ObfsPassword i)
      @ omit_int ''up_mbps'' (in_UpMbps i) @ omit_int ''down_mbps'' (in_DownMbps i)
      @ omit_str ''congestion_control'' (in_CongestionControl i) @ omit_bool ''zero_rtt_handshake'' (in_ZeroRTTHandshake i)
      @ omit_str ''snell_psk'' (in_SnellPSK i) @ omit_str ''snell_v6_mode'' (in_SnellV6Mode i))"

text \<open>\<open>nodeConfigInboundSpec\<close>: the same with its own users.\<close>

definition enc_users :: "userSpec list \<Rightarrow> json" where
  "enc_users us = JArr (map enc_user us)"

definition enc_inbound_spec :: "'a inboundSpec_scheme \<Rightarrow> json" where
  "enc_inbound_spec i = enc_inbound (enc_users (in_Users i)) i"

definition enc_outbound :: "outboundSpec \<Rightarrow> json" where
  "enc_outbound ob = JObj
     ([(''tag'', JStr (ob_Tag ob)), (''type'', JStr (ob_Type ob))]
      @ omit_str ''server'' (ob_Server ob) @ omit_int ''server_port'' (ob_ServerPort ob)
      @ omit_str ''username'' (ob_Username ob) @ omit_str ''password'' (ob_Password ob) @ omit_strs ''outbounds'' (ob_Outbounds ob)
      @ omit_str ''uuid'' (ob_UUID ob) @ omit_str ''flow'' (ob_Flow ob) @ omit_str ''method'' (ob_Method ob)
      @ omit_str ''security'' (ob_Security ob) @ omit_str ''congestion_control'' (ob_CongestionControl ob)
      @ omit_int ''version'' (ob_Version ob)
      @ omit_str ''psk'' (ob_PSK ob) @ omit_str ''obfs_mode'' (ob_ObfsMode ob) @ omit_str ''obfs_host'' (ob_ObfsHost ob)
      @ omit_str ''obfs'' (ob_Obfs ob) @ omit_int ''up_mbps'' (ob_UpMbps ob) @ omit_int ''down_mbps'' (ob_DownMbps ob)
      @ omit_str ''executable_path'' (ob_ExecutablePath ob) @ omit_str ''data_directory'' (ob_DataDirectory ob)
      @ omit_bool ''tls_enabled'' (ob_TLSEnabled ob) @ omit_str ''tls_server_name'' (ob_TLSServerName ob)
      @ omit_bool ''tls_insecure'' (ob_TLSInsecure ob)
      @ omit_str ''bind_interface'' (ob_BindInterface ob) @ omit_bool ''direct_fallback'' (ob_DirectFallback ob))"

definition enc_rule :: "routingRuleSpec \<Rightarrow> json" where
  "enc_rule r = JObj
     (omit_strs ''inbound'' (rr_Inbound r) @ omit_ints ''inbound_port'' (rr_InboundPort r)
      @ omit_strs ''domain'' (rr_Domain r) @ omit_strs ''domain_suffix'' (rr_DomainSuffix r)
      @ omit_strs ''domain_keyword'' (rr_DomainKeyword r) @ omit_strs ''ip_cidr'' (rr_IPCIDR r)
      @ omit_bool ''ip_is_private'' (rr_IPIsPrivate r) @ omit_ints ''port'' (rr_Port r)
      @ omit_strs ''port_range'' (rr_PortRange r) @ omit_strs ''network'' (rr_Network r)
      @ omit_strs ''protocol'' (rr_Protocol r) @ [(''outbound_tag'', JStr (rr_OutboundTag r))])"

definition enc_dns :: "dnsServerSpec \<Rightarrow> json" where
  "enc_dns d = JObj
     ([(''tag'', JStr (dn_Tag d)), (''type'', JStr (dn_Type d))]
      @ omit_str ''address'' (dn_Address d) @ omit_int ''port'' (dn_Port d) @ omit_str ''path'' (dn_Path d))"

text \<open>\<open>coreConfigDTO\<close> has the time of its last change, here its RFC 3339 text, besides the node's fields.\<close>

record coreConfigDTO = coreSpec +
  cd_UpdatedAt :: "string option"

definition enc_core :: "coreConfigDTO \<Rightarrow> json" where
  "enc_core c = JObj
     ([(''log_level'', JStr (co_LogLevel c)), (''sniff_enabled'', JBool (co_SniffEnabled c)),
       (''outbounds'', JArr (map enc_outbound (co_Outbounds c))), (''routing_rules'', JArr (map enc_rule (co_RoutingRules c))),
       (''dns_servers'', JArr (map enc_dns (co_DNSServers c)))]
      @ omit_ptr ''updated_at'' JStr (cd_UpdatedAt c))"

section \<open>The node reads\<close>

definition zero_user :: userSpec where
  "zero_user = \<lparr>us_Name = [], us_UUID = [], us_Password = [], us_Flow = [], us_Method = [], us_UserKey = []\<rparr>"

definition dec_user :: "userSpec decoder" where
  "dec_user = dec_struct False
     [(''name'', into us_Name us_Name_update dec_string), (''uuid'', into us_UUID us_UUID_update dec_string),
      (''password'', into us_Password us_Password_update dec_string), (''flow'', into us_Flow us_Flow_update dec_string),
      (''method'', into us_Method us_Method_update dec_string), (''user_key'', into us_UserKey us_UserKey_update dec_string)]"

text \<open>The anonymous struct \<open>Handshake\<close> is the two fields of \<open>realitySpec\<close>.\<close>

definition zero_reality :: realitySpec where
  "zero_reality = \<lparr>rs_PrivateKey = [], rs_ShortID = [], rs_ServerName = [], rs_ServerPort = 0\<rparr>"

definition dec_handshake :: "realitySpec decoder" where
  "dec_handshake = dec_struct False
     [(''server_name'', into rs_ServerName rs_ServerName_update dec_string),
      (''server_port'', into rs_ServerPort rs_ServerPort_update dec_uint16)]"

definition dec_reality :: "realitySpec decoder" where
  "dec_reality = dec_struct False
     [(''private_key'', into rs_PrivateKey rs_PrivateKey_update dec_string),
      (''short_id'', into rs_ShortID rs_ShortID_update (dec_list dec_string [])),
      (''handshake'', dec_handshake)]"

definition zero_tls :: tlsSpec where
  "zero_tls = \<lparr>ts_ServerName = [], ts_Certificate = [], ts_Key = [], ts_Reality = None\<rparr>"

definition dec_tls :: "tlsSpec decoder" where
  "dec_tls = dec_struct False
     [(''server_name'', into ts_ServerName ts_ServerName_update dec_string),
      (''certificate'', into ts_Certificate ts_Certificate_update dec_string), (''key'', into ts_Key ts_Key_update dec_string),
      (''reality'', into ts_Reality ts_Reality_update (dec_ptr dec_reality zero_reality))]"

definition zero_transport :: transportSpec where
  "zero_transport = \<lparr>tr_Type = [], tr_Path = [], tr_Host = []\<rparr>"

definition dec_transport :: "transportSpec decoder" where
  "dec_transport = dec_struct False
     [(''type'', into tr_Type tr_Type_update dec_string), (''path'', into tr_Path tr_Path_update dec_string),
      (''host'', into tr_Host tr_Host_update dec_string)]"

definition zero_inbound :: inboundSpec where
  "zero_inbound = \<lparr>in_Tag = [], in_Protocol = [], in_ListenPort = 0, in_ListenPorts = [], in_Users = [], in_TLS = None,
     in_Transport = None, in_Hysteria2ObfsPassword = [], in_UpMbps = 0, in_DownMbps = 0, in_CongestionControl = [],
     in_ZeroRTTHandshake = False, in_SnellPSK = [], in_SnellV6Mode = []\<rparr>"

definition dec_inbound :: "inboundSpec decoder" where
  "dec_inbound = dec_struct False
     [(''tag'', into in_Tag in_Tag_update dec_string), (''protocol'', into in_Protocol in_Protocol_update dec_string),
      (''listen_port'', into in_ListenPort in_ListenPort_update dec_uint16),
      (''listen_ports'', into in_ListenPorts in_ListenPorts_update (dec_list dec_uint16 0)),
      (''users'', into in_Users in_Users_update (dec_list dec_user zero_user)),
      (''tls'', into in_TLS in_TLS_update (dec_ptr dec_tls zero_tls)),
      (''transport'', into in_Transport in_Transport_update (dec_ptr dec_transport zero_transport)),
      (''hysteria2_obfs_password'', into in_Hysteria2ObfsPassword in_Hysteria2ObfsPassword_update dec_string),
      (''up_mbps'', into in_UpMbps in_UpMbps_update (dec_int 32)), (''down_mbps'', into in_DownMbps in_DownMbps_update (dec_int 32)),
      (''congestion_control'', into in_CongestionControl in_CongestionControl_update dec_string),
      (''zero_rtt_handshake'', into in_ZeroRTTHandshake in_ZeroRTTHandshake_update dec_bool),
      (''snell_psk'', into in_SnellPSK in_SnellPSK_update dec_string), (''snell_v6_mode'', into in_SnellV6Mode in_SnellV6Mode_update dec_string)]"

definition zero_outbound :: outboundSpec where
  "zero_outbound = \<lparr>ob_Tag = [], ob_Type = [], ob_Server = [], ob_ServerPort = 0, ob_Username = [], ob_Password = [], ob_Outbounds = [],
     ob_UUID = [], ob_Flow = [], ob_Method = [], ob_Security = [], ob_CongestionControl = [], ob_Version = 0, ob_PSK = [], ob_ObfsMode = [],
     ob_ObfsHost = [], ob_Obfs = [], ob_UpMbps = 0, ob_DownMbps = 0, ob_ExecutablePath = [], ob_DataDirectory = [], ob_TLSEnabled = False,
     ob_TLSServerName = [], ob_TLSInsecure = False, ob_BindInterface = [], ob_DirectFallback = False\<rparr>"

definition dec_outbound :: "bool \<Rightarrow> outboundSpec decoder" where
  "dec_outbound strict = dec_struct strict
     [(''tag'', into ob_Tag ob_Tag_update dec_string), (''type'', into ob_Type ob_Type_update dec_string),
      (''server'', into ob_Server ob_Server_update dec_string), (''server_port'', into ob_ServerPort ob_ServerPort_update (dec_int 64)),
      (''username'', into ob_Username ob_Username_update dec_string), (''password'', into ob_Password ob_Password_update dec_string),
      (''outbounds'', into ob_Outbounds ob_Outbounds_update (dec_list dec_string [])),
      (''uuid'', into ob_UUID ob_UUID_update dec_string), (''flow'', into ob_Flow ob_Flow_update dec_string),
      (''method'', into ob_Method ob_Method_update dec_string), (''security'', into ob_Security ob_Security_update dec_string),
      (''congestion_control'', into ob_CongestionControl ob_CongestionControl_update dec_string),
      (''version'', into ob_Version ob_Version_update (dec_int 64)), (''psk'', into ob_PSK ob_PSK_update dec_string),
      (''obfs_mode'', into ob_ObfsMode ob_ObfsMode_update dec_string), (''obfs_host'', into ob_ObfsHost ob_ObfsHost_update dec_string),
      (''obfs'', into ob_Obfs ob_Obfs_update dec_string), (''up_mbps'', into ob_UpMbps ob_UpMbps_update (dec_int 64)),
      (''down_mbps'', into ob_DownMbps ob_DownMbps_update (dec_int 64)),
      (''executable_path'', into ob_ExecutablePath ob_ExecutablePath_update dec_string),
      (''data_directory'', into ob_DataDirectory ob_DataDirectory_update dec_string),
      (''tls_enabled'', into ob_TLSEnabled ob_TLSEnabled_update dec_bool),
      (''tls_server_name'', into ob_TLSServerName ob_TLSServerName_update dec_string),
      (''tls_insecure'', into ob_TLSInsecure ob_TLSInsecure_update dec_bool),
      (''bind_interface'', into ob_BindInterface ob_BindInterface_update dec_string),
      (''direct_fallback'', into ob_DirectFallback ob_DirectFallback_update dec_bool)]"

definition zero_rule :: routingRuleSpec where
  "zero_rule = \<lparr>rr_Inbound = [], rr_InboundPort = [], rr_Domain = [], rr_DomainSuffix = [], rr_DomainKeyword = [], rr_IPCIDR = [],
     rr_IPIsPrivate = False, rr_Port = [], rr_PortRange = [], rr_Network = [], rr_Protocol = [], rr_OutboundTag = []\<rparr>"

definition dec_rule :: "bool \<Rightarrow> routingRuleSpec decoder" where
  "dec_rule strict = dec_struct strict
     [(''inbound'', into rr_Inbound rr_Inbound_update (dec_list dec_string [])),
      (''inbound_port'', into rr_InboundPort rr_InboundPort_update (dec_list (dec_int 64) 0)),
      (''domain'', into rr_Domain rr_Domain_update (dec_list dec_string [])),
      (''domain_suffix'', into rr_DomainSuffix rr_DomainSuffix_update (dec_list dec_string [])),
      (''domain_keyword'', into rr_DomainKeyword rr_DomainKeyword_update (dec_list dec_string [])),
      (''ip_cidr'', into rr_IPCIDR rr_IPCIDR_update (dec_list dec_string [])),
      (''ip_is_private'', into rr_IPIsPrivate rr_IPIsPrivate_update dec_bool),
      (''port'', into rr_Port rr_Port_update (dec_list (dec_int 64) 0)),
      (''port_range'', into rr_PortRange rr_PortRange_update (dec_list dec_string [])),
      (''network'', into rr_Network rr_Network_update (dec_list dec_string [])),
      (''protocol'', into rr_Protocol rr_Protocol_update (dec_list dec_string [])),
      (''outbound_tag'', into rr_OutboundTag rr_OutboundTag_update dec_string)]"

definition zero_dns :: dnsServerSpec where
  "zero_dns = \<lparr>dn_Tag = [], dn_Type = [], dn_Address = [], dn_Port = 0, dn_Path = []\<rparr>"

definition dec_dns :: "bool \<Rightarrow> dnsServerSpec decoder" where
  "dec_dns strict = dec_struct strict
     [(''tag'', into dn_Tag dn_Tag_update dec_string), (''type'', into dn_Type dn_Type_update dec_string),
      (''address'', into dn_Address dn_Address_update dec_string), (''port'', into dn_Port dn_Port_update (dec_int 64)),
      (''path'', into dn_Path dn_Path_update dec_string)]"

definition zero_core :: coreSpec where
  "zero_core = \<lparr>co_LogLevel = [], co_SniffEnabled = False, co_Outbounds = [], co_RoutingRules = [], co_DNSServers = []\<rparr>"

definition dec_core :: "coreSpec decoder" where
  "dec_core = dec_struct False
     [(''log_level'', into co_LogLevel co_LogLevel_update dec_string),
      (''sniff_enabled'', into co_SniffEnabled co_SniffEnabled_update dec_bool),
      (''outbounds'', into co_Outbounds co_Outbounds_update (dec_list (dec_outbound False) zero_outbound)),
      (''routing_rules'', into co_RoutingRules co_RoutingRules_update (dec_list (dec_rule False) zero_rule)),
      (''dns_servers'', into co_DNSServers co_DNSServers_update (dec_list (dec_dns False) zero_dns))]"

definition dec_pulled :: "pulledConfig decoder" where
  "dec_pulled = dec_struct False
     [(''version'', into pc_Version pc_Version_update dec_string),
      (''inbounds'', into pc_Inbounds pc_Inbounds_update (dec_list dec_inbound zero_inbound)),
      (''core'', into pc_Core pc_Core_update dec_core)]"

text \<open>The decoding of a pull's answer in \<open>pullOnce\<close>.\<close>

definition decode_pulled :: "string \<Rightarrow> pulledConfig option" where
  "decode_pulled body =
     (case json_decode body of
        None \<Rightarrow> None
      | Some (j, _) \<Rightarrow> dec_pulled j \<lparr>pc_Version = [], pc_Inbounds = [], pc_Core = zero_core\<rparr>)"

section \<open>The two sides agree\<close>

lemmas wire_simps = find_field_def into_def dec_members_omit dec_members_omit_last

lemma dec_members_Cons:
  "find_field fs k \<noteq> None \<Longrightarrow> dec_members strict fs ((k, j) # ms) r =
    (case the (find_field fs k) j r of None \<Rightarrow> None | Some r' \<Rightarrow> dec_members strict fs ms r')"
  by (auto split: option.splits)

lemma dec_user_enc: "dec_user (enc_user u) zero_user = Some u"
  by (simp add: dec_user_def enc_user_def zero_user_def wire_simps)

lemma dec_transport_enc: "dec_transport (enc_transport t) zero_transport = Some t"
  by (simp add: dec_transport_def enc_transport_def zero_transport_def wire_simps)

lemma dec_reality_enc: "dec_reality (enc_reality r) zero_reality = Some r"
  by (simp add: dec_reality_def enc_reality_def zero_reality_def dec_handshake_def wire_simps)

lemma dec_dns_enc: "- (2 ^ 63) \<le> dn_Port d \<Longrightarrow> dn_Port d < 2 ^ 63 \<Longrightarrow> dec_dns s (enc_dns d) zero_dns = Some d"
  by (simp add: dec_dns_def enc_dns_def zero_dns_def wire_simps dec_int_JInt)

lemma enc_is_object: "\<exists>ms. enc_tls t = JObj ms" "\<exists>ms. enc_transport tr = JObj ms" "\<exists>ms. enc_reality r = JObj ms"
  by (simp_all add: enc_tls_def enc_transport_def enc_reality_def)

lemma dec_ptr_object: "\<exists>ms. j = JObj ms \<Longrightarrow> dec j zero = Some v \<Longrightarrow> dec_ptr dec zero j None = Some (Some v)"
  by auto

lemma dec_reality_ptr: "dec_ptr dec_reality zero_reality (enc_reality r) None = Some (Some r)"
  by (rule dec_ptr_object) (simp_all add: enc_is_object dec_reality_enc)

lemma dec_transport_ptr: "dec_ptr dec_transport zero_transport (enc_transport t) None = Some (Some t)"
  by (rule dec_ptr_object) (simp_all add: enc_is_object dec_transport_enc)

lemma dec_tls_enc: "dec_tls (enc_tls t) zero_tls = Some t"
  by (cases "ts_Reality t") (simp_all add: dec_tls_def enc_tls_def zero_tls_def omit_ptr_def dec_reality_ptr wire_simps)

lemma dec_tls_ptr: "dec_ptr dec_tls zero_tls (enc_tls t) None = Some (Some t)"
  by (rule dec_ptr_object) (simp_all add: enc_is_object dec_tls_enc)

definition inbound_in_range :: "'a inboundSpec_scheme \<Rightarrow> bool" where
  "inbound_in_range i \<longleftrightarrow> - (2 ^ 31) \<le> in_UpMbps i \<and> in_UpMbps i < 2 ^ 31 \<and> - (2 ^ 31) \<le> in_DownMbps i \<and> in_DownMbps i < 2 ^ 31"

lemma dec_users_enc: "dec_elems dec_user zero_user (map enc_user us) [] = Some us"
  by (rule dec_elems_fresh) (rule dec_user_enc)

lemma dec_inbound_enc:
  assumes "inbound_in_range i"
  shows "dec_inbound (enc_inbound_spec i) zero_inbound = Some (inboundSpec.truncate i)"
  by (cases "in_TLS i"; cases "in_Transport i")
    (use assms in \<open>simp_all add: dec_inbound_def enc_inbound_spec_def enc_inbound_def enc_users_def zero_inbound_def omit_ptr_def
       dec_tls_ptr dec_transport_ptr wire_simps dec_int_JInt inbound_in_range_def dec_users_enc inboundSpec.defs\<close>)

definition outbound_in_range :: "outboundSpec \<Rightarrow> bool" where
  "outbound_in_range ob \<longleftrightarrow> (\<forall>n \<in> set [ob_ServerPort ob, ob_Version ob, ob_UpMbps ob, ob_DownMbps ob]. - (2 ^ 63) \<le> n \<and> n < 2 ^ 63)"

lemma dec_outbound_enc: "outbound_in_range ob \<Longrightarrow> dec_outbound s (enc_outbound ob) zero_outbound = Some ob"
  by (simp add: dec_outbound_def enc_outbound_def zero_outbound_def wire_simps dec_int_JInt outbound_in_range_def)

definition rule_in_range :: "routingRuleSpec \<Rightarrow> bool" where
  "rule_in_range r \<longleftrightarrow> (\<forall>n \<in> set (rr_InboundPort r @ rr_Port r). - (2 ^ 63) \<le> n \<and> n < 2 ^ 63)"

lemma dec_ints: "\<forall>n \<in> set ns. - (2 ^ 63) \<le> n \<and> n < 2 ^ 63 \<Longrightarrow> dec_elems (dec_int 64) 0 (map JInt ns) [] = Some ns"
  by (rule dec_elems_fresh) (simp add: dec_int_JInt)

lemma dec_rule_enc: "rule_in_range r \<Longrightarrow> dec_rule s (enc_rule r) zero_rule = Some r"
  by (simp add: dec_rule_def enc_rule_def zero_rule_def wire_simps dec_ints rule_in_range_def)

definition core_in_range :: "'a coreSpec_scheme \<Rightarrow> bool" where
  "core_in_range c \<longleftrightarrow> (\<forall>ob \<in> set (co_Outbounds c). outbound_in_range ob) \<and> (\<forall>r \<in> set (co_RoutingRules c). rule_in_range r)
     \<and> (\<forall>d \<in> set (co_DNSServers c). - (2 ^ 63) \<le> dn_Port d \<and> dn_Port d < 2 ^ 63)"

lemma dec_core_enc:
  assumes "core_in_range c"
  shows "dec_core (enc_core c) zero_core = Some (coreSpec.truncate c)"
proof -
  have "dec_elems (dec_outbound False) zero_outbound (map enc_outbound (co_Outbounds c)) [] = Some (co_Outbounds c)"
    "dec_elems (dec_rule False) zero_rule (map enc_rule (co_RoutingRules c)) [] = Some (co_RoutingRules c)"
    "dec_elems (dec_dns False) zero_dns (map enc_dns (co_DNSServers c)) [] = Some (co_DNSServers c)"
    using assms by (auto intro!: dec_elems_fresh dec_outbound_enc dec_rule_enc dec_dns_enc simp: core_in_range_def)
  then show ?thesis
    by (cases "cd_UpdatedAt c") (simp_all add: dec_core_def enc_core_def zero_core_def omit_ptr_def wire_simps coreSpec.defs)
qed

end
