(* ===== verification/NodeProfile.thy ===== *)
theory NodeProfile
  imports NodeWire SubToken
begin

text \<open>
  Node profiles (\<open>internal/httpapi/nodeprofile.go\<close>): which inbounds and ports one node serves and which
  keys of the fleet's core configuration it overrides; validation of a profile against the fleet,
  and of a new fleet configuration against every profile (\<open>applyCoreConfig\<close> of \<open>coreconfig.go\<close>). SHA-256 is
  the argument \<open>sha\<close>. The message of a validation is empty when all is well.
\<close>

section \<open>Overrides of the core configuration\<close>

record coreOverridesDTO =
  ov_LogLevel :: "string option"
  ov_SniffEnabled :: "bool option"
  ov_DNSServers :: "dnsServerSpec list option"
  ov_Outbounds :: "outboundSpec list"
  ov_RoutingRulesFirst :: "routingRuleSpec list"

definition zero_overrides :: coreOverridesDTO where
  "zero_overrides = \<lparr>ov_LogLevel = None, ov_SniffEnabled = None, ov_DNSServers = None, ov_Outbounds = [], ov_RoutingRulesFirst = []\<rparr>"

definition isZero :: "coreOverridesDTO \<Rightarrow> bool" where
  "isZero v \<longleftrightarrow> ov_LogLevel v = None \<and> ov_SniffEnabled v = None \<and> ov_DNSServers v = None \<and> ov_Outbounds v = [] \<and> ov_RoutingRulesFirst v = []"

definition enc_overrides :: "coreOverridesDTO \<Rightarrow> json" where
  "enc_overrides v = JObj
     (omit_ptr ''log_level'' JStr (ov_LogLevel v) @ omit_ptr ''sniff_enabled'' JBool (ov_SniffEnabled v)
      @ omit_ptr ''dns_servers'' (\<lambda>ds. JArr (map enc_dns ds)) (ov_DNSServers v)
      @ omit (ov_Outbounds v = []) (''outbounds'', JArr (map enc_outbound (ov_Outbounds v)))
      @ omit (ov_RoutingRulesFirst v = []) (''routing_rules_first'', JArr (map enc_rule (ov_RoutingRulesFirst v))))"

definition dec_overrides :: "coreOverridesDTO decoder" where
  "dec_overrides = dec_struct True
     [(''log_level'', into ov_LogLevel ov_LogLevel_update (dec_ptr dec_string [])),
      (''sniff_enabled'', into ov_SniffEnabled ov_SniffEnabled_update (dec_ptr dec_bool False)),
      (''dns_servers'', into ov_DNSServers ov_DNSServers_update (dec_ptr (dec_list (dec_dns True) zero_dns) [])),
      (''outbounds'', into ov_Outbounds ov_Outbounds_update (dec_list (dec_outbound True) zero_outbound)),
      (''routing_rules_first'', into ov_RoutingRulesFirst ov_RoutingRulesFirst_update (dec_list (dec_rule True) zero_rule))]"

datatype overrides_error = NotAnObject | Undecodable_overrides | TrailingData

definition parseCoreOverrides :: "string \<Rightarrow> overrides_error + coreOverridesDTO" where
  "parseCoreOverrides raw =
     (let trimmed = TrimSpace raw
      in if trimmed = [] \<or> trimmed = ''null'' then Inr zero_overrides
         else if hd trimmed \<noteq> CHR ''{'' then Inl NotAnObject
         else (case json_decode trimmed of
                 None \<Rightarrow> Inl Undecodable_overrides
               | Some (j, rest) \<Rightarrow>
                   (case dec_overrides j zero_overrides of
                      None \<Rightarrow> Inl Undecodable_overrides
                    | Some v \<Rightarrow> if skip_ws rest \<noteq> [] then Inl TrailingData else Inr v)))"

text \<open>The map \<open>at\<close> from tags to positions, and the loop that replaces in place or appends.\<close>

definition positions :: "outboundSpec list \<Rightarrow> (string, nat) gomap" where
  "positions obs = foldl (\<lambda>m (i, ob). mput (ob_Tag ob) i m) [] (zip [0..<length obs] obs)"

definition merge_outbound :: "outboundSpec list \<times> (string, nat) gomap \<Rightarrow> outboundSpec \<Rightarrow> outboundSpec list \<times> (string, nat) gomap" where
  "merge_outbound acc ob =
     (case acc of (merged, pos) \<Rightarrow>
        (case map_of pos (ob_Tag ob) of
           Some i \<Rightarrow> (merged[i := ob], pos)
         | None \<Rightarrow> (merged @ [ob], mput (ob_Tag ob) (length merged) pos)))"

definition merge_outbounds :: "outboundSpec list \<Rightarrow> outboundSpec list \<Rightarrow> outboundSpec list" where
  "merge_outbounds fleet obs = fst (foldl merge_outbound (fleet, positions fleet) obs)"

definition apply_overrides :: "coreOverridesDTO \<Rightarrow> 'a coreSpec_scheme \<Rightarrow> 'a coreSpec_scheme" where
  "apply_overrides v fleet =
     (if isZero v then fleet
      else (let out = fleet;
                out = (case ov_LogLevel v of None \<Rightarrow> out | Some l \<Rightarrow> out\<lparr>co_LogLevel := l\<rparr>);
                out = (case ov_SniffEnabled v of None \<Rightarrow> out | Some b \<Rightarrow> out\<lparr>co_SniffEnabled := b\<rparr>);
                out = (case ov_DNSServers v of None \<Rightarrow> out | Some ds \<Rightarrow> out\<lparr>co_DNSServers := ds\<rparr>);
                out = (if ov_Outbounds v \<noteq> [] then out\<lparr>co_Outbounds := merge_outbounds (co_Outbounds fleet) (ov_Outbounds v)\<rparr> else out)
            in if ov_RoutingRulesFirst v \<noteq> [] then out\<lparr>co_RoutingRules := ov_RoutingRulesFirst v @ co_RoutingRules fleet\<rparr> else out))"

fun duplicate_tag :: "string list \<Rightarrow> outboundSpec list \<Rightarrow> string option" where
  "duplicate_tag seen [] = None"
| "duplicate_tag seen (ob # obs) = (if ob_Tag ob \<in> set seen then Some (ob_Tag ob) else duplicate_tag (ob_Tag ob # seen) obs)"

text \<open>\<open>knownInbounds\<close> is \<open>None\<close> for a nil map.\<close>

definition validateCoreOverrides :: "'a coreSpec_scheme \<Rightarrow> coreOverridesDTO \<Rightarrow> string list option \<Rightarrow> string" where
  "validateCoreOverrides fleet v known =
     (if (case ov_LogLevel v of None \<Rightarrow> False | Some l \<Rightarrow> l \<notin> set validLogLevels) then ''core_overrides: invalid log_level''
      else case duplicate_tag [] (ov_Outbounds v) of
        Some t \<Rightarrow> ''core_overrides: duplicate outbound tag: '' @ t
      | None \<Rightarrow>
          (let msg = validateCoreConfig (coreSpec.truncate (apply_overrides v fleet))
           in if msg \<noteq> [] then ''core_overrides: '' @ msg
              else (case find (\<lambda>t. case known of None \<Rightarrow> False | Some ks \<Rightarrow> t \<notin> set ks) (concat (map rr_Inbound (ov_RoutingRulesFirst v))) of
                      Some t \<Rightarrow> ''core_overrides: routing rule targets unknown inbound: '' @ t
                    | None \<Rightarrow> [])))"

section \<open>Profiles\<close>

type_synonym int32 = int

record nodeProfile =
  pf_InboundTags :: "string list"
  pf_ListenPorts :: "int32 list"
  pf_CoreOverrides :: coreOverridesDTO

text \<open>The columns of a node's row that make its profile.\<close>

record nodeProfileFields =
  nf_tags :: "string list"
  nf_ports :: "int32 list"
  nf_overrides :: string

definition profileFromNode :: "nodeProfileFields \<Rightarrow> overrides_error + nodeProfile" where
  "profileFromNode n =
     (case parseCoreOverrides (nf_overrides n) of
        Inl e \<Rightarrow> Inl e
      | Inr v \<Rightarrow> Inr \<lparr>pf_InboundTags = nf_tags n, pf_ListenPorts = nf_ports n, pf_CoreOverrides = v\<rparr>)"

definition isDefault :: "nodeProfile \<Rightarrow> bool" where
  "isDefault p \<longleftrightarrow> pf_InboundTags p = [] \<and> pf_ListenPorts p = [] \<and> isZero (pf_CoreOverrides p)"

text \<open>An empty copy of a slice is nil and written \<open>null\<close>.\<close>

definition enc_slice :: "json list \<Rightarrow> json" where
  "enc_slice js = (if js = [] then JNull else JArr js)"

text \<open>\<open>sort.Strings\<close> orders by bytes.\<close>

definition sort_strings :: "string list \<Rightarrow> string list" where
  "sort_strings ss = map (map char_of) (sort (map (map (of_char :: char \<Rightarrow> nat)) ss))"

definition key_json :: "nodeProfile \<Rightarrow> json" where
  "key_json p = JObj [(''t'', enc_slice (map JStr (sort_strings (pf_InboundTags p)))),
     (''p'', enc_slice (map JInt (sort (pf_ListenPorts p)))), (''c'', enc_overrides (pf_CoreOverrides p))]"

definition profile_key :: "(string \<Rightarrow> string) \<Rightarrow> nodeProfile \<Rightarrow> string" where
  "profile_key sha p = (if isDefault p then ''default'' else hex_Encode (take 16 (sha (json_print (key_json p)))))"

definition specPorts :: "'a inboundSpec_scheme \<Rightarrow> uint16 list" where
  "specPorts i = (if in_ListenPorts i \<noteq> [] then in_ListenPorts i else [in_ListenPort i])"

definition filter_inbound :: "nodeProfile \<Rightarrow> 'a inboundSpec_scheme \<Rightarrow> 'a inboundSpec_scheme option" where
  "filter_inbound p i =
     (if pf_InboundTags p \<noteq> [] \<and> in_Tag i \<notin> set (pf_InboundTags p) then None
      else if pf_ListenPorts p = [] then Some i
      else (let wanted = map of_int (pf_ListenPorts p);
                all_ports = specPorts i;
                kept = filter (\<lambda>port. port \<in> set wanted) all_ports
            in if kept = [] then None
               else if length kept \<noteq> length all_ports
               then Some (i\<lparr>in_ListenPort := (if in_ListenPort i \<in> set kept then in_ListenPort i else hd kept),
                            in_ListenPorts := (if 1 < length kept then kept else [])\<rparr>)
               else Some i))"

definition filterInbounds :: "nodeProfile \<Rightarrow> 'a inboundSpec_scheme list \<Rightarrow> 'a inboundSpec_scheme list" where
  "filterInbounds p fleet =
     (if pf_InboundTags p = [] \<and> pf_ListenPorts p = [] then fleet else List.map_filter (filter_inbound p) fleet)"

section \<open>Saving a profile and a fleet configuration\<close>

datatype 'v patch = Absent | Null | Value 'v

datatype ('m, 'v) resolved = Internal | Invalid 'm | Resolved 'v

fun check_tags :: "string list \<Rightarrow> string list \<Rightarrow> string list \<Rightarrow> string option" where
  "check_tags known seen [] = None"
| "check_tags known seen (raw # raws) =
     (let tag = TrimSpace raw
      in if tag = [] then Some ''inbound_tags: a tag must not be empty''
         else if tag \<in> set seen then Some (''inbound_tags: duplicate tag '' @ tag)
         else if tag \<notin> set known then Some (''inbound_tags: unknown inbound '' @ tag)
         else check_tags known (tag # seen) raws)"

fun check_profile_ports :: "int list \<Rightarrow> int list \<Rightarrow> string option" where
  "check_profile_ports seen [] = None"
| "check_profile_ports seen (port # ps) =
     (if port < 1 \<or> port > 65535 then Some (''listen_ports: invalid port '' @ Itoa port @ '' (must be 1-65535)'')
      else if port \<in> set seen then Some (''listen_ports: duplicate port '' @ Itoa port)
      else check_profile_ports (port # seen) ps)"

text \<open>The three fields in turn. \<open>tagsQ\<close> and \<open>coreQ\<close> are the results of \<open>ListInboundTags\<close> and \<open>GetCoreConfig\<close>,
  \<open>None\<close> for an error; a query is made only where the code makes it.\<close>

definition resolve_tags :: "string list option \<Rightarrow> nodeProfileFields \<Rightarrow> string list patch \<Rightarrow> (string, nodeProfileFields) resolved" where
  "resolve_tags tagsQ f tagsIn =
     (case tagsIn of
        Absent \<Rightarrow> Resolved f
      | Null \<Rightarrow> Resolved (f\<lparr>nf_tags := []\<rparr>)
      | Value tags \<Rightarrow>
          if tags = [] then Resolved (f\<lparr>nf_tags := []\<rparr>)
          else (case tagsQ of
                  None \<Rightarrow> Internal
                | Some known \<Rightarrow>
                    (case check_tags known [] tags of
                       Some msg \<Rightarrow> Invalid msg
                     | None \<Rightarrow> Resolved (f\<lparr>nf_tags := sort_strings (map TrimSpace tags)\<rparr>))))"

definition resolve_ports :: "nodeProfileFields \<Rightarrow> int list patch \<Rightarrow> (string, nodeProfileFields) resolved" where
  "resolve_ports f portsIn =
     (case portsIn of
        Absent \<Rightarrow> Resolved f
      | Null \<Rightarrow> Resolved (f\<lparr>nf_ports := []\<rparr>)
      | Value ps \<Rightarrow>
          (case check_profile_ports [] ps of
             Some msg \<Rightarrow> Invalid msg
           | None \<Rightarrow> Resolved (f\<lparr>nf_ports := sort ps\<rparr>)))"

text \<open>The text of a refused value comes from the decoder: \<open>err_text\<close>.\<close>

definition resolve_overrides :: "(overrides_error \<Rightarrow> string) \<Rightarrow> string list option \<Rightarrow> coreConfigDTO option
    \<Rightarrow> nodeProfileFields \<Rightarrow> string patch \<Rightarrow> (string, nodeProfileFields) resolved" where
  "resolve_overrides err_text tagsQ coreQ f overridesIn =
     (case overridesIn of
        Absent \<Rightarrow> Resolved f
      | Null \<Rightarrow> Resolved (f\<lparr>nf_overrides := ''{}''\<rparr>)
      | Value raw \<Rightarrow>
          (case parseCoreOverrides raw of
             Inl e \<Rightarrow> Invalid (err_text e)
           | Inr v \<Rightarrow>
               if isZero v then Resolved (f\<lparr>nf_overrides := ''{}''\<rparr>)
               else (case (tagsQ, coreQ) of
                       (Some known, Some fleet) \<Rightarrow>
                         (let msg = validateCoreOverrides fleet v (Some known)
                          in if msg \<noteq> [] then Invalid msg
                             else Resolved (f\<lparr>nf_overrides := json_print (enc_overrides v)\<rparr>))
                     | _ \<Rightarrow> Internal)))"

definition resolveNodeProfile :: "(overrides_error \<Rightarrow> string) \<Rightarrow> string list option \<Rightarrow> coreConfigDTO option \<Rightarrow> nodeProfileFields
    \<Rightarrow> string list patch \<Rightarrow> int list patch \<Rightarrow> string patch \<Rightarrow> (string, nodeProfileFields) resolved" where
  "resolveNodeProfile err_text tagsQ coreQ base tagsIn portsIn overridesIn =
     (case resolve_tags tagsQ base tagsIn of
        Resolved f \<Rightarrow>
          (case resolve_ports f portsIn of
             Resolved f' \<Rightarrow> resolve_overrides err_text tagsQ coreQ f' overridesIn
           | r \<Rightarrow> r)
      | r \<Rightarrow> r)"

text \<open>The nodes are their names and stored overrides; \<open>None\<close> is a failed \<open>ListNodes\<close>.\<close>

fun check_nodes :: "'a coreSpec_scheme \<Rightarrow> (string \<times> string) list \<Rightarrow> string" where
  "check_nodes fleet [] = []"
| "check_nodes fleet ((name, overrides) # ns) =
     (case parseCoreOverrides overrides of
        Inl e \<Rightarrow> check_nodes fleet ns
      | Inr v \<Rightarrow>
          if isZero v then check_nodes fleet ns
          else (let msg = validateCoreOverrides fleet v None
                in if msg \<noteq> [] then ''node '' @ name @ '': '' @ msg else check_nodes fleet ns))"

definition validateNodeOverridesAgainstFleet :: "(string \<times> string) list option \<Rightarrow> 'a coreSpec_scheme \<Rightarrow> (string, unit) resolved" where
  "validateNodeOverridesAgainstFleet nodesQ fleet =
     (case nodesQ of
        None \<Rightarrow> Internal
      | Some ns \<Rightarrow> (let msg = check_nodes fleet ns in if msg \<noteq> [] then Invalid msg else Resolved ()))"

text \<open>\<open>applyCoreConfig\<close> up to the write: the fleet configuration that is saved. \<open>tagsQ\<close> and \<open>nodesQ\<close> are the results
  of \<open>ListInboundTags\<close> and \<open>ListNodes\<close>.\<close>

definition applyCoreConfig :: "string list option \<Rightarrow> (string \<times> string) list option \<Rightarrow> coreSpec \<Rightarrow> (string, coreSpec) resolved" where
  "applyCoreConfig tagsQ nodesQ dto =
     (let dto = (if co_LogLevel dto = [] then dto\<lparr>co_LogLevel := ''warn''\<rparr> else dto);
          msg = validateCoreConfig dto;
          refs = concat (map rr_Inbound (co_RoutingRules dto))
      in if msg \<noteq> [] then Invalid msg
         else if refs \<noteq> [] \<and> tagsQ = None then Internal
         else case find (\<lambda>tag. tag \<notin> set (the tagsQ)) refs of
           Some tag \<Rightarrow> Invalid (''routing rule targets unknown inbound: '' @ tag)
         | None \<Rightarrow>
             (case validateNodeOverridesAgainstFleet nodesQ dto of
                Internal \<Rightarrow> Internal
              | Invalid m \<Rightarrow> Invalid m
              | Resolved _ \<Rightarrow> Resolved dto))"

section \<open>What a profile changes\<close>

text \<open>The listeners of a list of inbounds: tag and port.\<close>

definition listeners_of :: "'a inboundSpec_scheme list \<Rightarrow> (string \<times> uint16) list" where
  "listeners_of is = concat (map (\<lambda>i. map (Pair (in_Tag i)) (specPorts i)) is)"

definition allowed :: "nodeProfile \<Rightarrow> string \<times> uint16 \<Rightarrow> bool" where
  "allowed p tp \<longleftrightarrow> (pf_InboundTags p = [] \<or> fst tp \<in> set (pf_InboundTags p))
     \<and> (pf_ListenPorts p = [] \<or> snd tp \<in> of_int ` set (pf_ListenPorts p))"

lemma filter_inbound_ports:
  "map (Pair (in_Tag i)) (case filter_inbound p i of None \<Rightarrow> [] | Some i' \<Rightarrow> specPorts i') =
    filter (allowed p) (map (Pair (in_Tag i)) (specPorts i))"
proof -
  define kept where "kept = filter (\<lambda>port. port \<in> set (map of_int (pf_ListenPorts p))) (specPorts i)"
  show ?thesis
  proof (cases "(pf_InboundTags p \<noteq> [] \<and> in_Tag i \<notin> set (pf_InboundTags p)) \<or> pf_ListenPorts p = []")
    case True
    then show ?thesis by (auto simp: filter_inbound_def allowed_def filter_map comp_def)
  next
    case False
    then have all: "filter (allowed p) (map (Pair (in_Tag i)) (specPorts i)) = map (Pair (in_Tag i)) kept"
      by (auto simp: allowed_def filter_map comp_def kept_def)
    have fi: "filter_inbound p i = (if kept = [] then None
        else if length kept \<noteq> length (specPorts i)
        then Some (i\<lparr>in_ListenPort := (if in_ListenPort i \<in> set kept then in_ListenPort i else hd kept),
                     in_ListenPorts := (if 1 < length kept then kept else [])\<rparr>) else Some i)"
      using False by (auto simp: filter_inbound_def kept_def Let_def)
    have full: "length kept = length (specPorts i) \<Longrightarrow> kept = specPorts i"
      unfolding kept_def by (metis filter_id_conv length_filter_less nat_less_le)
    have narrowed: "specPorts (i\<lparr>in_ListenPort := (if in_ListenPort i \<in> set kept then in_ListenPort i else hd kept),
        in_ListenPorts := (if 1 < length kept then kept else [])\<rparr>) = kept" if "kept \<noteq> []"
      using that by (cases kept) (auto simp: specPorts_def)
    show ?thesis using full narrowed unfolding all fi by (cases "length kept = length (specPorts i)") auto
  qed
qed

text \<open>Equal but for the ports.\<close>

definition same_but_ports :: "'a inboundSpec_scheme \<Rightarrow> 'a inboundSpec_scheme \<Rightarrow> bool" where
  "same_but_ports i i' \<longleftrightarrow> i\<lparr>in_ListenPort := 0, in_ListenPorts := []\<rparr> = i'\<lparr>in_ListenPort := 0, in_ListenPorts := []\<rparr>"

lemma same_but_ports_refl [simp]: "same_but_ports i i"
  by (simp add: same_but_ports_def)

lemma same_but_ports_fields:
  "same_but_ports i i' \<Longrightarrow> in_Tag i' = in_Tag i \<and> in_Protocol i' = in_Protocol i \<and> in_Users i' = in_Users i"
  unfolding same_but_ports_def
  by (metis inboundSpec.select_convs(1,2,5) inboundSpec.surjective inboundSpec.update_convs(3,4))

lemma filter_inbound_keeps:
  assumes "filter_inbound p i = Some i'"
  shows "same_but_ports i i'" and "in_ListenPort i \<in> set (specPorts i) \<Longrightarrow> in_ListenPort i' \<in> set (specPorts i')"
proof -
  define kept where "kept = filter (\<lambda>port. port \<in> set (map of_int (pf_ListenPorts p))) (specPorts i)"
  have cases: "i' = i \<or> kept \<noteq> [] \<and> i' = i\<lparr>in_ListenPort := (if in_ListenPort i \<in> set kept then in_ListenPort i else hd kept),
      in_ListenPorts := (if 1 < length kept then kept else [])\<rparr>"
    using assms by (auto simp: filter_inbound_def kept_def Let_def split: if_splits)
  then show "same_but_ports i i'" by (auto simp: same_but_ports_def)
  show "in_ListenPort i' \<in> set (specPorts i')" if "in_ListenPort i \<in> set (specPorts i)"
    using cases that by (auto simp: specPorts_def split: if_splits)
qed

lemma listeners_of_filter: "listeners_of (List.map_filter (filter_inbound p) fleet) = filter (allowed p) (listeners_of fleet)"
proof (induction fleet)
  case (Cons i fleet)
  have "in_Tag i' = in_Tag i" if "filter_inbound p i = Some i'" for i'
    using same_but_ports_fields [OF filter_inbound_keeps(1) [OF that]] by simp
  then show ?case using Cons filter_inbound_ports [of i p]
    by (cases "filter_inbound p i") (simp_all add: listeners_of_def map_filter_simps)
qed (simp add: listeners_of_def map_filter_simps)

lemma filterInbounds_listeners: "listeners_of (filterInbounds p fleet) = filter (allowed p) (listeners_of fleet)"
proof (cases "pf_InboundTags p = [] \<and> pf_ListenPorts p = []")
  case True
  have "filter (allowed p) xs = xs" for xs using True by (simp add: allowed_def)
  then show ?thesis using True by (simp add: filterInbounds_def)
next
  case False
  then show ?thesis using listeners_of_filter by (auto simp: filterInbounds_def)
qed

text \<open>A profile narrows and never alters. The listeners of the inbounds a node is served are exactly the
  fleet's listeners whose tag and port the profile allows, in the fleet's order; every served
  inbound is the fleet's in everything but its ports, and its single port, which an older node
  reads, stays one of the ports it serves.\<close>

theorem profile_narrows_listeners:
  "listeners_of (filterInbounds p fleet) = filter (allowed p) (listeners_of fleet)
    \<and> (\<forall>i' \<in> set (filterInbounds p fleet). \<exists>i \<in> set fleet. same_but_ports i i'
        \<and> (in_ListenPort i \<in> set (specPorts i) \<longrightarrow> in_ListenPort i' \<in> set (specPorts i')))"
proof (cases "pf_InboundTags p = [] \<and> pf_ListenPorts p = []")
  case True
  then show ?thesis using filterInbounds_listeners [of p fleet] by (auto simp: filterInbounds_def intro!: bexI)
next
  case False
  then have f: "filterInbounds p fleet = List.map_filter (filter_inbound p) fleet" by (auto simp: filterInbounds_def)
  have "\<exists>i \<in> set fleet. filter_inbound p i = Some i'" if "i' \<in> set (List.map_filter (filter_inbound p) fleet)" for i'
    using that by (auto simp: map_filter_def)
  then show ?thesis unfolding f using filter_inbound_keeps by (fastforce simp: listeners_of_filter)
qed

theorem profile_narrows_listeners_witness:
  "let i = zero_inbound\<lparr>in_Tag := ''a'', in_ListenPort := 443, in_ListenPorts := [443, 8443, 9443]\<rparr>;
       p = \<lparr>pf_InboundTags = [''a''], pf_ListenPorts = [9443, 8443], pf_CoreOverrides = zero_overrides\<rparr>
   in filterInbounds p [i, i\<lparr>in_Tag := ''b''\<rparr>] = [i\<lparr>in_ListenPort := 8443, in_ListenPorts := [8443, 9443]\<rparr>]
     \<and> listeners_of (filterInbounds p [i, i\<lparr>in_Tag := ''b''\<rparr>]) = [(''a'', 8443), (''a'', 9443)]"
proof -
  let ?i = "zero_inbound\<lparr>in_Tag := ''a'', in_ListenPort := 443, in_ListenPorts := [443, 8443, 9443]\<rparr>"
  let ?p = "\<lparr>pf_InboundTags = [''a''], pf_ListenPorts = [9443, 8443], pf_CoreOverrides = zero_overrides\<rparr>"
  have "listeners_of (filterInbounds ?p [?i, ?i\<lparr>in_Tag := ''b''\<rparr>]) = [(''a'', 8443), (''a'', 9443)]"
    using profile_narrows_listeners [of ?p "[?i, ?i\<lparr>in_Tag := ''b''\<rparr>]"] by (simp add: listeners_of_def allowed_def specPorts_def)
  then show ?thesis by (simp add: Let_def filterInbounds_def map_filter_simps filter_inbound_def specPorts_def)
qed

section \<open>Overrides and the fleet\<close>

text \<open>The map of positions is right for the list it belongs to.\<close>

definition pos_ok :: "outboundSpec list \<Rightarrow> (string, nat) gomap \<Rightarrow> bool" where
  "pos_ok obs pos \<longleftrightarrow> (\<forall>t i. map_of pos t = Some i \<longleftrightarrow> i < length obs \<and> ob_Tag (obs ! i) = t)"

lemma pos_ok_distinct: "pos_ok obs pos \<Longrightarrow> distinct (map ob_Tag obs)"
  unfolding distinct_conv_nth pos_ok_def by (metis length_map nth_map option.inject)

lemma positions_snoc: "positions (obs @ [ob]) = mput (ob_Tag ob) (length obs) (positions obs)"
  by (simp add: positions_def)

lemma pos_ok_snoc: "pos_ok obs pos \<Longrightarrow> ob_Tag ob \<notin> ob_Tag ` set obs \<Longrightarrow> pos_ok (obs @ [ob]) (mput (ob_Tag ob) (length obs) pos)"
  by (auto simp: pos_ok_def nth_append image_iff Bex_def in_set_conv_nth less_Suc_eq)

lemma positions_ok: "distinct (map ob_Tag obs) \<Longrightarrow> pos_ok obs (positions obs)"
proof (induction obs rule: rev_induct)
  case Nil
  show ?case by (simp add: pos_ok_def positions_def)
next
  case (snoc ob obs)
  then show ?case using pos_ok_snoc [of obs "positions obs" ob] by (simp add: positions_snoc)
qed

lemma pos_ok_update: "pos_ok obs pos \<Longrightarrow> map_of pos (ob_Tag ob) = Some i \<Longrightarrow> pos_ok (obs[i := ob]) pos"
  by (auto simp: pos_ok_def nth_list_update split: if_splits)

text \<open>The merge in closed form: each fleet outbound gives way to the override of its tag, the others follow.\<close>

definition replacement :: "outboundSpec list \<Rightarrow> outboundSpec \<Rightarrow> outboundSpec" where
  "replacement obs f = (case find (\<lambda>ob. ob_Tag ob = ob_Tag f) obs of None \<Rightarrow> f | Some ob \<Rightarrow> ob)"

definition merged_spec :: "outboundSpec list \<Rightarrow> outboundSpec list \<Rightarrow> outboundSpec list" where
  "merged_spec fleet obs = map (replacement obs) fleet @ filter (\<lambda>ob. ob_Tag ob \<notin> ob_Tag ` set fleet) obs"

lemma replacement_tag [simp]: "ob_Tag (replacement obs f) = ob_Tag f"
  by (auto simp: replacement_def find_Some_iff split: option.splits)

lemma replacement_snoc:
  "ob_Tag ob \<notin> ob_Tag ` set obs \<Longrightarrow> replacement (obs @ [ob]) f = (if ob_Tag f = ob_Tag ob then ob else replacement obs f)"
  by (induction obs) (auto simp: replacement_def)

lemma map_update_distinct:
  "distinct (map g xs) \<Longrightarrow> i < length xs \<Longrightarrow> (map f xs)[i := y] = map (\<lambda>x. if g x = g (xs ! i) then y else f x) xs"
  by (rule nth_equalityI) (auto simp: nth_list_update distinct_conv_nth)

lemma foldl_merge:
  assumes "distinct (map ob_Tag fleet)" and "distinct (map ob_Tag obs)"
  shows "\<exists>pos. foldl merge_outbound (fleet, positions fleet) obs = (merged_spec fleet obs, pos) \<and> pos_ok (merged_spec fleet obs) pos"
  using assms(2)
proof (induction obs rule: rev_induct)
  case Nil
  have "merged_spec fleet [] = fleet" by (simp add: merged_spec_def replacement_def map_idI)
  then show ?case using positions_ok [OF assms(1)] by simp
next
  case (snoc ob obs)
  let ?M = "merged_spec fleet obs"
  have fresh: "ob_Tag ob \<notin> ob_Tag ` set obs" using snoc.prems by auto
  obtain pos where pos: "foldl merge_outbound (fleet, positions fleet) obs = (?M, pos)" "pos_ok ?M pos"
    using snoc.IH snoc.prems by auto
  show ?case
  proof (cases "ob_Tag ob \<in> ob_Tag ` set fleet")
    case True
    then obtain i where i: "i < length fleet" "ob_Tag (fleet ! i) = ob_Tag ob" by (auto simp: in_set_conv_nth)
    have at: "map_of pos (ob_Tag ob) = Some i"
      using pos(2) i by (simp add: pos_ok_def merged_spec_def nth_append)
    have "?M[i := ob] = merged_spec fleet (obs @ [ob])"
      using i True fresh map_update_distinct [OF assms(1) i(1), of "replacement obs" ob]
      by (simp add: merged_spec_def list_update_append replacement_snoc cong: if_cong)
    moreover have "merge_outbound (?M, pos) ob = (?M[i := ob], pos)" using at by (simp add: merge_outbound_def)
    ultimately show ?thesis using pos pos_ok_update [OF pos(2) at] by simp
  next
    case False
    have app: "merged_spec fleet (obs @ [ob]) = ?M @ [ob]"
      using False fresh by (auto simp: merged_spec_def replacement_snoc image_iff)
    have "ob_Tag ob \<notin> ob_Tag ` set ?M" using False fresh by (auto simp: merged_spec_def image_iff)
    moreover from this have "map_of pos (ob_Tag ob) = None"
      using pos(2) unfolding pos_ok_def by (metis imageI not_None_eq nth_mem)
    moreover from this have "merge_outbound (?M, pos) ob = (?M @ [ob], mput (ob_Tag ob) (length ?M) pos)"
      by (simp add: merge_outbound_def)
    ultimately show ?thesis using pos app pos_ok_snoc [OF pos(2)] by simp
  qed
qed

lemma merge_outbounds_spec:
  "distinct (map ob_Tag fleet) \<Longrightarrow> distinct (map ob_Tag obs) \<Longrightarrow> merge_outbounds fleet obs = merged_spec fleet obs"
  using foldl_merge [of fleet obs] by (auto simp: merge_outbounds_def)

lemma duplicate_tag_None: "duplicate_tag seen obs = None \<longleftrightarrow> distinct (map ob_Tag obs) \<and> ob_Tag ` set obs \<inter> set seen = {}"
  by (induction obs arbitrary: seen) auto

definition overrides_in_range :: "coreOverridesDTO \<Rightarrow> bool" where
  "overrides_in_range v \<longleftrightarrow> (\<forall>ob \<in> set (ov_Outbounds v). outbound_in_range ob) \<and> (\<forall>r \<in> set (ov_RoutingRulesFirst v). rule_in_range r)
     \<and> (\<forall>d \<in> set (case ov_DNSServers v of None \<Rightarrow> [] | Some ds \<Rightarrow> ds). - (2 ^ 63) \<le> dn_Port d \<and> dn_Port d < 2 ^ 63)"

lemma dec_ptr_simps [simp]:
  "dec_ptr dec zero (JStr s) None = map_option Some (dec (JStr s) zero)"
  "dec_ptr dec zero (JBool b) None = map_option Some (dec (JBool b) zero)"
  "dec_ptr dec zero (JArr js) None = map_option Some (dec (JArr js) zero)"
  by (simp_all add: dec_ptr_def)

lemma dec_overrides_enc:
  assumes "overrides_in_range v"
  shows "dec_overrides (enc_overrides v) zero_overrides = Some v"
proof -
  have lists: "dec_elems (dec_outbound True) zero_outbound (map enc_outbound (ov_Outbounds v)) [] = Some (ov_Outbounds v)"
    "dec_elems (dec_rule True) zero_rule (map enc_rule (ov_RoutingRulesFirst v)) [] = Some (ov_RoutingRulesFirst v)"
    "\<And>ds. ov_DNSServers v = Some ds \<Longrightarrow> dec_elems (dec_dns True) zero_dns (map enc_dns ds) [] = Some ds"
    using assms by (auto intro!: dec_elems_fresh dec_outbound_enc dec_rule_enc dec_dns_enc simp: overrides_in_range_def)
  show ?thesis
    by (cases "ov_LogLevel v"; cases "ov_SniffEnabled v"; cases "ov_DNSServers v")
      (simp_all add: dec_overrides_def enc_overrides_def zero_overrides_def omit_ptr_def wire_simps lists)
qed

lemma parse_enc_overrides:
  assumes "overrides_in_range v" and "json_ok (enc_overrides v)"
  shows "parseCoreOverrides (json_print (enc_overrides v)) = Inr v"
proof -
  obtain ms where ms: "enc_overrides v = JObj ms" by (simp add: enc_overrides_def)
  then have "TrimSpace (json_print (enc_overrides v)) = json_print (enc_overrides v)" "hd (json_print (enc_overrides v)) = CHR ''{''"
    "json_print (enc_overrides v) \<noteq> []" "json_print (enc_overrides v) \<noteq> ''null''"
    by (simp_all add: TrimSpace_object)
  moreover have "json_decode (json_print (enc_overrides v)) = Some (enc_overrides v, [])"
    using decode_printed [OF assms(2), of "[]"] by simp
  ultimately show ?thesis using dec_overrides_enc [OF assms(1)] by (simp add: parseCoreOverrides_def Let_def skip_ws_def)
qed

text \<open>What an accepted override gives: a core configuration that passes the panel's check, so one that builds.\<close>

lemma accepted_overrides_valid:
  assumes "validateCoreOverrides fleet v known = []"
  shows "validateCoreConfig (coreSpec.truncate (apply_overrides v fleet)) = []" and "distinct (map ob_Tag (ov_Outbounds v))"
  using assms by (auto simp: validateCoreOverrides_def Let_def duplicate_tag_None split: if_splits option.splits)

lemma accepted_overrides_build:
  assumes "validateCoreOverrides fleet v known = []"
  shows "\<exists>built. buildCoreOptions (Some (coreSpec.truncate (apply_overrides v fleet))) pbt = Inr built"
  using accepted_core_builds_to [OF accepted_overrides_valid(1) [OF assms]] by blast

lemma truncate_truncate [simp]: "coreSpec.truncate (coreSpec.truncate c) = coreSpec.truncate c"
  by (simp add: coreSpec.defs)

lemma truncate_coreSpec [simp]: "coreSpec.truncate (c :: coreSpec) = c"
  by (simp add: coreSpec.defs)

lemma check_nodes_ok:
  "check_nodes fleet ns = [] \<Longrightarrow> (name, raw) \<in> set ns \<Longrightarrow> parseCoreOverrides raw = Inr v \<Longrightarrow> \<not> isZero v \<Longrightarrow> validateCoreOverrides fleet v None = []"
proof (induction ns)
  case (Cons n ns)
  then show ?case by (cases n) (auto simp: Let_def split: sum.splits if_splits)
qed simp

lemma applyCoreConfig_ok:
  assumes "applyCoreConfig tagsQ nodesQ dto = Resolved c"
  shows "validateCoreConfig c = []" and "\<exists>ns. nodesQ = Some ns \<and> check_nodes c ns = []"
    and "\<forall>r \<in> set (co_RoutingRules c). \<forall>t \<in> set (rr_Inbound r). \<exists>known. tagsQ = Some known \<and> t \<in> set known"
proof -
  define d where "d = (if co_LogLevel dto = [] then dto\<lparr>co_LogLevel := ''warn''\<rparr> else dto)"
  define refs where "refs = concat (map rr_Inbound (co_RoutingRules d))"
  have ok: "validateCoreConfig d = []" "refs = [] \<or> tagsQ \<noteq> None" "\<forall>t \<in> set refs. t \<in> set (the tagsQ)"
    "validateNodeOverridesAgainstFleet nodesQ d = Resolved ()" "c = d"
    using assms unfolding applyCoreConfig_def d_def [symmetric] Let_def refs_def [symmetric]
    by (auto simp: find_None_iff split: if_splits option.splits resolved.splits)
  then show "validateCoreConfig c = []" "\<exists>ns. nodesQ = Some ns \<and> check_nodes c ns = []"
    by (auto simp: validateNodeOverridesAgainstFleet_def Let_def split: option.splits if_splits)
  show "\<forall>r \<in> set (co_RoutingRules c). \<forall>t \<in> set (rr_Inbound r). \<exists>known. tagsQ = Some known \<and> t \<in> set known"
  proof (intro ballI)
    fix r t assume "r \<in> set (co_RoutingRules c)" "t \<in> set (rr_Inbound r)"
    then have "t \<in> set refs" using ok(5) by (auto simp: refs_def)
    moreover from this have "tagsQ \<noteq> None" using ok(2) by auto
    ultimately show "\<exists>known. tagsQ = Some known \<and> t \<in> set known" using ok(3) by auto
  qed
qed

lemma isZero_iff: "isZero v \<longleftrightarrow> v = zero_overrides"
  by (auto simp: isZero_def zero_overrides_def)

lemma parse_empty_object: "parseCoreOverrides ''{}'' = Inr zero_overrides"
  using parse_enc_overrides [of zero_overrides]
  by (simp add: overrides_in_range_def enc_overrides_def zero_overrides_def omit_ptr_def omit_def)

lemma resolve_overrides_ok:
  assumes "resolve_overrides err_text tagsQ (Some current) f (Value raw) = Resolved f'" and "parseCoreOverrides raw = Inr v"
    and "overrides_in_range v" and "json_ok (enc_overrides v)"
  shows "parseCoreOverrides (nf_overrides f') = Inr v" and "isZero v \<or> (\<exists>known. validateCoreOverrides current v known = [])"
  using assms parse_enc_overrides [of v] parse_empty_object
  by (auto simp: resolve_overrides_def isZero_iff Let_def split: if_splits option.splits)

text \<open>C16. No save can leave a node with a configuration it cannot build. When the panel accepts a new fleet
  configuration, then for every node whose stored overrides can be read, the fleet configuration
  with these overrides on top passes the same check, and the node's translation of it succeeds;
  its routing rules name only inbounds that exist. And when the panel accepts new overrides for a
  node, the stored text reads back as exactly these overrides, and a valid current fleet
  configuration with them on top passes the check and builds.\<close>

theorem saved_configs_build_everywhere:
  "(applyCoreConfig tagsQ (Some nodes) dto = Resolved fleet \<longrightarrow>
      (\<forall>(name, raw) \<in> set nodes. \<forall>v. parseCoreOverrides raw = Inr v \<longrightarrow>
        validateCoreConfig (apply_overrides v fleet) = [] \<and> (\<exists>built. buildCoreOptions (Some (apply_overrides v fleet)) pbt = Inr built))
      \<and> (\<forall>r \<in> set (co_RoutingRules fleet). \<forall>t \<in> set (rr_Inbound r). \<exists>known. tagsQ = Some known \<and> t \<in> set known))
  \<and> (resolve_overrides err_text tagsQ (Some current) f (Value raw) = Resolved f' \<and> parseCoreOverrides raw = Inr v
      \<and> overrides_in_range v \<and> json_ok (enc_overrides v) \<and> validateCoreConfig (coreSpec.truncate current) = [] \<longrightarrow>
      parseCoreOverrides (nf_overrides f') = Inr v
      \<and> validateCoreConfig (coreSpec.truncate (apply_overrides v current)) = []
      \<and> (\<exists>built. buildCoreOptions (Some (coreSpec.truncate (apply_overrides v current))) pbt = Inr built))"
proof (intro conjI impI)
  assume ok: "applyCoreConfig tagsQ (Some nodes) dto = Resolved fleet"
  note saved = applyCoreConfig_ok [OF ok]
  show "\<forall>r \<in> set (co_RoutingRules fleet). \<forall>t \<in> set (rr_Inbound r). \<exists>known. tagsQ = Some known \<and> t \<in> set known" by (rule saved(3))
  have "validateCoreConfig (apply_overrides v fleet) = []" if "(name, raw) \<in> set nodes" "parseCoreOverrides raw = Inr v" for name raw v
  proof (cases "isZero v")
    case True
    then show ?thesis using saved(1) by (simp add: apply_overrides_def)
  next
    case False
    then have "validateCoreOverrides fleet v None = []" using saved(2) check_nodes_ok that by auto
    then show ?thesis using accepted_overrides_valid(1) by fastforce
  qed
  then show "\<forall>(name, raw) \<in> set nodes. \<forall>v. parseCoreOverrides raw = Inr v \<longrightarrow>
      validateCoreConfig (apply_overrides v fleet) = [] \<and> (\<exists>built. buildCoreOptions (Some (apply_overrides v fleet)) pbt = Inr built)"
    using accepted_core_builds_to by blast
next
  assume a: "resolve_overrides err_text tagsQ (Some current) f (Value raw) = Resolved f' \<and> parseCoreOverrides raw = Inr v
      \<and> overrides_in_range v \<and> json_ok (enc_overrides v) \<and> validateCoreConfig (coreSpec.truncate current) = []"
  then show "parseCoreOverrides (nf_overrides f') = Inr v" using resolve_overrides_ok(1) by blast
  show valid: "validateCoreConfig (coreSpec.truncate (apply_overrides v current)) = []"
    using resolve_overrides_ok(2) [of err_text tagsQ current f raw f' v] a accepted_overrides_valid(1) [of current v]
    by (auto simp: apply_overrides_def)
  show "\<exists>built. buildCoreOptions (Some (coreSpec.truncate (apply_overrides v current))) pbt = Inr built"
    using accepted_core_builds_to [OF valid] by blast
qed

definition example_dto :: coreConfigDTO where
  "example_dto = coreSpec.extend example_core \<lparr>cd_UpdatedAt = None\<rparr>"

lemmas validate_simps = validateCoreConfig_def check_outbound_def check_fields_def check_members_def
  check_rule_def validTarget_def implicitOutboundTags_def validOutboundTypes_def validLogLevels_def needsServer_def

definition debug_overrides :: coreOverridesDTO where
  "debug_overrides = zero_overrides\<lparr>ov_LogLevel := Some ''debug''\<rparr>"

lemma debug_overrides_ok: "overrides_in_range debug_overrides" "json_ok (enc_overrides debug_overrides)" "\<not> isZero debug_overrides"
  by (auto simp: debug_overrides_def zero_overrides_def overrides_in_range_def enc_overrides_def omit_ptr_def omit_def isZero_def
      intro!: utf8_Valid_ascii)

theorem saved_configs_build_everywhere_witness:
  "let debug = json_print (enc_overrides debug_overrides)
   in (\<exists>built. buildCoreOptions (Some (apply_overrides debug_overrides example_core)) [] = Inr built)
    \<and> co_LogLevel (apply_overrides debug_overrides example_core) = ''debug''
    \<and> parseCoreOverrides debug = Inr debug_overrides"
proof -
  let ?debug = "json_print (enc_overrides debug_overrides)"
  have valid: "validateCoreConfig (example_core\<lparr>co_LogLevel := l\<rparr>) = []" if "l \<in> set validLogLevels" for l
    using that by (simp add: validate_simps example_core_def example_outbound_def Let_def)
  have parse: "parseCoreOverrides ?debug = Inr debug_overrides" using parse_enc_overrides debug_overrides_ok by blast
  have ap: "apply_overrides debug_overrides example_core = example_core\<lparr>co_LogLevel := ''debug''\<rparr>"
    using debug_overrides_ok(3) by (simp add: apply_overrides_def debug_overrides_def zero_overrides_def Let_def)
  have dto: "coreSpec.truncate (apply_overrides debug_overrides example_dto) = example_core\<lparr>co_LogLevel := ''debug''\<rparr>"
    using debug_overrides_ok(3)
    by (simp add: apply_overrides_def debug_overrides_def zero_overrides_def Let_def example_dto_def coreSpec.defs)
  have fields: "ov_LogLevel debug_overrides = Some ''debug''" "ov_Outbounds debug_overrides = []" "ov_RoutingRulesFirst debug_overrides = []"
    by (simp_all add: debug_overrides_def zero_overrides_def)
  have checked: "validateCoreOverrides example_core debug_overrides k = []" "validateCoreOverrides example_dto debug_overrides k = []" for k
    using valid [of "''debug''"] by (simp_all add: validateCoreOverrides_def ap dto fields validLogLevels_def Let_def)
  have core: "co_LogLevel example_core = ''warn''" "co_RoutingRules example_core \<noteq> []"
    "concat (map rr_Inbound (co_RoutingRules example_core)) = [''de'']" by (simp_all add: example_core_def)
  have "example_core\<lparr>co_LogLevel := ''warn''\<rparr> = example_core" by (simp add: example_core_def)
  then have "validateCoreConfig example_core = []" using valid [of "''warn''"] by (simp add: validLogLevels_def)
  then have saved: "applyCoreConfig (Some [''de'']) (Some [(''n1'', ?debug)]) example_core = Resolved example_core"
    using core parse debug_overrides_ok(3) checked
    by (simp add: applyCoreConfig_def validateNodeOverridesAgainstFleet_def Let_def)
  have "resolve_overrides (\<lambda>_. []) (Some [''de'']) (Some example_dto) f (Value ?debug) = Resolved (f\<lparr>nf_overrides := ?debug\<rparr>)" for f
    using parse debug_overrides_ok(3) checked(2) by (simp add: resolve_overrides_def Let_def)
  moreover have "coreSpec.truncate example_dto = example_core" by (simp add: example_dto_def coreSpec.defs)
  moreover note saved_configs_build_everywhere [where nodes = "[(''n1'', ?debug)]" and fleet = example_core and dto = example_core
      and tagsQ = "Some [''de'']" and pbt = "[]" and err_text = "\<lambda>_. []" and current = example_dto and raw = ?debug and v = debug_overrides
      and f = "\<lparr>nf_tags = [], nf_ports = [], nf_overrides = []\<rparr>"]
  ultimately show ?thesis using saved parse debug_overrides_ok by (simp add: Let_def ap)
qed

section \<open>The key of a profile\<close>

lemma set_sort_strings [simp]: "set (sort_strings ss) = set ss"
  by (simp add: sort_strings_def image_comp comp_def)

lemma sort_strings_Nil [simp]: "sort_strings ss = [] \<longleftrightarrow> ss = []"
  by (metis set_empty set_sort_strings)

lemma enc_slice_inject:
  assumes "enc_slice (map f xs) = enc_slice (map f ys)" and "inj f"
  shows "xs = ys"
  using assms by (auto simp: enc_slice_def inj_map_eq_map split: if_splits)

lemma inj_JInt: "inj JInt"
proof (rule injI)
  fix m n assume "JInt m = JInt n"
  then have e: "Itoa m = Itoa n" by simp
  have neg: "k < 0 \<longleftrightarrow> hd (Itoa k) = CHR ''-''" for k using nat_digits_hd(1) by (auto simp: Itoa_def)
  have "nat (- m) = nat (- n)" if "m < 0" "n < 0" using e that by (simp add: Itoa_def) (metis nat_digits_props(2))
  moreover have "nat m = nat n" if "\<not> m < 0" "\<not> n < 0" using e that by (simp add: Itoa_def) (metis nat_digits_props(2))
  ultimately show "m = n" using neg [of m] neg [of n] e by (cases "m < 0") auto
qed

lemma json_print_inject: "json_ok a \<Longrightarrow> json_ok b \<Longrightarrow> json_print a = json_print b \<Longrightarrow> a = b"
  by (metis json_round_trip option.inject)

definition profile_ok :: "nodeProfile \<Rightarrow> bool" where
  "profile_ok p \<longleftrightarrow> json_ok (key_json p) \<and> overrides_in_range (pf_CoreOverrides p)"

lemma key_json_inject:
  assumes "key_json p = key_json q" and "profile_ok p" and "profile_ok q"
  shows "set (pf_InboundTags p) = set (pf_InboundTags q)" "set (pf_ListenPorts p) = set (pf_ListenPorts q)"
    "pf_CoreOverrides p = pf_CoreOverrides q"
proof -
  have "sort_strings (pf_InboundTags p) = sort_strings (pf_InboundTags q)" "sort (pf_ListenPorts p) = sort (pf_ListenPorts q)"
    and ov: "enc_overrides (pf_CoreOverrides p) = enc_overrides (pf_CoreOverrides q)"
    using assms(1) enc_slice_inject [OF _ inj_JInt] enc_slice_inject [of JStr] by (auto simp: key_json_def inj_def)
  then show "set (pf_InboundTags p) = set (pf_InboundTags q)" "set (pf_ListenPorts p) = set (pf_ListenPorts q)"
    by (metis set_sort_strings) (metis set_sort \<open>sort (pf_ListenPorts p) = sort (pf_ListenPorts q)\<close>)
  show "pf_CoreOverrides p = pf_CoreOverrides q"
    using ov dec_overrides_enc assms(2,3) by (metis option.inject profile_ok_def)
qed

lemma filter_same:
  fixes fleet :: "'a inboundSpec_scheme list"
  assumes "set (pf_InboundTags p) = set (pf_InboundTags q)" "set (pf_ListenPorts p) = set (pf_ListenPorts q)"
  shows "filterInbounds p fleet = filterInbounds q fleet"
proof -
  have empties: "pf_InboundTags p = [] \<longleftrightarrow> pf_InboundTags q = []" "pf_ListenPorts p = [] \<longleftrightarrow> pf_ListenPorts q = []"
    using assms by (metis set_empty)+
  then have "filter_inbound p i = filter_inbound q i" for i :: "'a inboundSpec_scheme"
    using assms by (auto simp: filter_inbound_def)
  then have "(filter_inbound p :: 'a inboundSpec_scheme \<Rightarrow> _) = filter_inbound q" by blast
  then show ?thesis using empties by (simp add: filterInbounds_def)
qed

lemma key_length:
  assumes "\<And>x. length (sha x) = 32"
  shows "length (profile_key sha p) = (if isDefault p then 7 else 32)"
  by (simp add: profile_key_def length_hex assms)

lemma hex_digits_inject: "a < 16 \<Longrightarrow> b < 16 \<Longrightarrow> hex_digits ! a = hex_digits ! b \<longleftrightarrow> a = b"
  by (rule nth_eq_iff_index_eq) (simp_all add: hex_digits_def)

lemma hex_Encode_inject: "hex_Encode a = hex_Encode b \<Longrightarrow> length a = length b \<Longrightarrow> a = b"
proof (induction a b rule: list_induct2')
  case (4 c a d b)
  have "byte c div 16 = byte d div 16" "byte c mod 16 = byte d mod 16"
    using "4.prems"(1) by (auto simp: hex_Encode_def hex_digits_inject byte_parts(2))
  then have "byte c = byte d" by (metis div_mult_mod_eq)
  then show ?case using 4 by (auto simp: hex_Encode_def)
qed auto

text \<open>Two profiles do not collide under the truncated hash.\<close>

definition no_collision :: "(string \<Rightarrow> string) \<Rightarrow> nodeProfile \<Rightarrow> nodeProfile \<Rightarrow> bool" where
  "no_collision sha p q \<longleftrightarrow> (take 16 (sha (json_print (key_json p))) = take 16 (sha (json_print (key_json q))) \<longrightarrow>
     json_print (key_json p) = json_print (key_json q))"

definition equal_profiles :: "nodeProfile \<Rightarrow> nodeProfile \<Rightarrow> bool" where
  "equal_profiles p q \<longleftrightarrow> set (pf_InboundTags p) = set (pf_InboundTags q) \<and> set (pf_ListenPorts p) = set (pf_ListenPorts q)
     \<and> pf_CoreOverrides p = pf_CoreOverrides q"

lemma equal_keys_profiles:
  assumes "profile_key sha p = profile_key sha q" and "\<And>x. length (sha x) = 32"
    and "no_collision sha p q" and "profile_ok p" and "profile_ok q"
  shows "isDefault p = isDefault q" and "equal_profiles p q"
proof -
  show default: "isDefault p = isDefault q"
    using arg_cong [OF assms(1), of length] key_length [of sha, OF assms(2)] by (simp split: if_splits)
  show "equal_profiles p q"
  proof (cases "isDefault p")
    case True
    then show ?thesis using default by (simp add: isDefault_def equal_profiles_def isZero_iff)
  next
    case False
    then have "take 16 (sha (json_print (key_json p))) = take 16 (sha (json_print (key_json q)))"
      using assms(1,2) default hex_Encode_inject by (simp add: profile_key_def)
    then have "key_json p = key_json q" using assms(3-5) json_print_inject unfolding profile_ok_def no_collision_def by blast
    from key_json_inject [OF this assms(4,5)] show ?thesis by (simp add: equal_profiles_def)
  qed
qed

lemma equal_profiles_same:
  "equal_profiles p q \<Longrightarrow> filterInbounds p fleet = filterInbounds q fleet \<and> apply_overrides (pf_CoreOverrides p) core = apply_overrides (pf_CoreOverrides q) core"
  by (auto simp: equal_profiles_def intro: filter_same)

text \<open>C17. Nodes share a cached payload only when they are served the same. If two profiles have the same
  key and the truncated hash does not collide on them, then for every fleet both nodes are served
  the same inbounds and the same core configuration; and the key of the default profile is shared
  with no other.\<close>

theorem equal_keys_equal_payloads:
  assumes "profile_key sha p = profile_key sha q" and "\<And>x. length (sha x) = 32"
    and "no_collision sha p q" and "profile_ok p" and "profile_ok q"
  shows "filterInbounds p fleet = filterInbounds q fleet \<and> apply_overrides (pf_CoreOverrides p) core = apply_overrides (pf_CoreOverrides q) core
    \<and> isDefault p = isDefault q"
  using equal_keys_profiles [OF assms] equal_profiles_same by blast

theorem equal_keys_equal_payloads_witness:
  "let sha = (\<lambda>x. replicate 32 (CHR ''0'')); p = \<lparr>pf_InboundTags = [''b'', ''a''], pf_ListenPorts = [2, 1], pf_CoreOverrides = zero_overrides\<rparr>;
       q = \<lparr>pf_InboundTags = [''a'', ''b''], pf_ListenPorts = [1, 2], pf_CoreOverrides = zero_overrides\<rparr>
   in filterInbounds p [zero_inbound] = filterInbounds q [zero_inbound] \<and> apply_overrides (pf_CoreOverrides p) example_core = apply_overrides (pf_CoreOverrides q) example_core"
proof -
  let ?p = "\<lparr>pf_InboundTags = [''b'', ''a''], pf_ListenPorts = [2, 1], pf_CoreOverrides = zero_overrides\<rparr>"
  let ?q = "\<lparr>pf_InboundTags = [''a'', ''b''], pf_ListenPorts = [1, 2], pf_CoreOverrides = zero_overrides\<rparr>"
  have same: "key_json ?p = key_json ?q" by (simp add: key_json_def sort_strings_def)
  have ok: "profile_ok ?q"
    by (auto simp: profile_ok_def key_json_def sort_strings_def enc_slice_def enc_overrides_def zero_overrides_def omit_ptr_def omit_def
        overrides_in_range_def intro!: utf8_Valid_ascii)
  moreover have "profile_ok ?p" using ok same by (simp add: profile_ok_def)
  ultimately show ?thesis
    using equal_keys_equal_payloads [of "\<lambda>x. replicate 32 (CHR ''0'')" ?p ?q "[zero_inbound]" example_core] same
    by (simp add: profile_key_def isDefault_def no_collision_def)
qed

text \<open>Repeated tags do change the text that is hashed, so such profiles do not share a payload.\<close>

lemma repeats_change_key_text:
  "key_json \<lparr>pf_InboundTags = [t, t], pf_ListenPorts = [], pf_CoreOverrides = v\<rparr> \<noteq> key_json \<lparr>pf_InboundTags = [t], pf_ListenPorts = [], pf_CoreOverrides = v\<rparr>"
  by (simp add: key_json_def sort_strings_def enc_slice_def)

section \<open>The overridden configuration in closed form\<close>

lemma apply_overrides_fields:
  assumes "distinct (map ob_Tag (co_Outbounds fleet))" and "distinct (map ob_Tag (ov_Outbounds v))"
  shows "co_LogLevel (apply_overrides v fleet) = (case ov_LogLevel v of None \<Rightarrow> co_LogLevel fleet | Some l \<Rightarrow> l)"
    and "co_SniffEnabled (apply_overrides v fleet) = (case ov_SniffEnabled v of None \<Rightarrow> co_SniffEnabled fleet | Some b \<Rightarrow> b)"
    and "co_DNSServers (apply_overrides v fleet) = (case ov_DNSServers v of None \<Rightarrow> co_DNSServers fleet | Some ds \<Rightarrow> ds)"
    and "co_Outbounds (apply_overrides v fleet) = merged_spec (co_Outbounds fleet) (ov_Outbounds v)"
    and "co_RoutingRules (apply_overrides v fleet) = ov_RoutingRulesFirst v @ co_RoutingRules fleet"
proof -
  have none: "merged_spec obs [] = obs" for obs by (simp add: merged_spec_def replacement_def map_idI)
  note merge = merge_outbounds_spec [OF assms]
  show "co_LogLevel (apply_overrides v fleet) = (case ov_LogLevel v of None \<Rightarrow> co_LogLevel fleet | Some l \<Rightarrow> l)"
    "co_SniffEnabled (apply_overrides v fleet) = (case ov_SniffEnabled v of None \<Rightarrow> co_SniffEnabled fleet | Some b \<Rightarrow> b)"
    "co_DNSServers (apply_overrides v fleet) = (case ov_DNSServers v of None \<Rightarrow> co_DNSServers fleet | Some ds \<Rightarrow> ds)"
    "co_RoutingRules (apply_overrides v fleet) = ov_RoutingRulesFirst v @ co_RoutingRules fleet"
    by (auto simp: apply_overrides_def isZero_def Let_def split: option.splits)
  show "co_Outbounds (apply_overrides v fleet) = merged_spec (co_Outbounds fleet) (ov_Outbounds v)"
    using merge none by (auto simp: apply_overrides_def isZero_def Let_def split: option.splits)
qed

end
