(* ===== verification/ProxySettings.thy ===== *)
theory ProxySettings
  imports Json "HOL-Library.Multiset"
begin

text \<open>
  The credentials of a user for one protocol (\<open>internal/proxysettings/proxysettings.go\<close>): parsing what a
  client sends and what the database holds, writing them, and rotating the secret. A Go
  \<open>Settings\<close> has exactly one of its pointers set, the one of its type: a datatype with one constructor
  per type. \<open>uuid.NewString\<close> and \<open>randomPassword\<close> are random; the fresh id and the fresh password a call
  would draw are its arguments \<open>fid\<close> and \<open>fpw\<close>.
\<close>

datatype Settings =
    VMess string
  | VLESS string string
  | Trojan string string
  | Shadowsocks string string
  | Hysteria2 string
  | TUIC string string
  | Snell string
  | AnyTLS string

definition ProxyType_Valid :: "string \<Rightarrow> bool" where
  "ProxyType_Valid t \<longleftrightarrow>
     t \<in> set [''vmess'', ''vless'', ''trojan'', ''shadowsocks'', ''hysteria2'', ''tuic'', ''snell'', ''anytls'']"

definition settings_type :: "Settings \<Rightarrow> string" where
  "settings_type s =
     (case s of VMess _ \<Rightarrow> ''vmess'' | VLESS _ _ \<Rightarrow> ''vless'' | Trojan _ _ \<Rightarrow> ''trojan'' | Shadowsocks _ _ \<Rightarrow> ''shadowsocks''
      | Hysteria2 _ \<Rightarrow> ''hysteria2'' | TUIC _ _ \<Rightarrow> ''tuic'' | Snell _ \<Rightarrow> ''snell'' | AnyTLS _ \<Rightarrow> ''anytls'')"

definition hasSettings :: "string \<Rightarrow> bool" where
  "hasSettings raw \<longleftrightarrow> raw \<noteq> [] \<and> TrimSpace raw \<noteq> ''[]''"

text \<open>\<open>json.Unmarshal\<close> into a struct of one or two string fields; the second name is \<open>None\<close> for one.\<close>

definition unmarshal_fields :: "string \<Rightarrow> string option \<Rightarrow> string \<Rightarrow> (string \<times> string) option" where
  "unmarshal_fields n1 n2 raw =
     (if \<not> hasSettings raw then Some ([], [])
      else (case json_parse raw of
              None \<Rightarrow> None
            | Some j \<Rightarrow> dec_struct False
                ((n1, into fst apfst dec_string) # (case n2 of None \<Rightarrow> [] | Some n \<Rightarrow> [(n, into snd apsnd dec_string)])) j ([], [])))"

abbreviation or_else :: "string \<Rightarrow> string \<Rightarrow> string" where
  "or_else s d \<equiv> (if s = [] then d else s)"

definition parse_settings :: "string \<Rightarrow> string \<Rightarrow> string \<Rightarrow> string \<Rightarrow> bool \<Rightarrow> Settings option" where
  "parse_settings fid fpw proxyType raw coerceVisionFlow =
     (if proxyType = ''vmess'' then map_option (\<lambda>(i, _). VMess (or_else i fid)) (unmarshal_fields ''id'' None raw)
      else if proxyType = ''vless'' then
        map_option (\<lambda>(i, flow). VLESS (or_else i fid) (if coerceVisionFlow then or_else flow ''xtls-rprx-vision'' else flow))
          (unmarshal_fields ''id'' (Some ''flow'') raw)
      else if proxyType = ''trojan'' then
        map_option (\<lambda>(pw, flow). Trojan (or_else pw fpw) flow) (unmarshal_fields ''password'' (Some ''flow'') raw)
      else if proxyType = ''shadowsocks'' then
        map_option (\<lambda>(pw, m). Shadowsocks (or_else pw fpw) (or_else m ''chacha20-ietf-poly1305''))
          (unmarshal_fields ''password'' (Some ''method'') raw)
      else if proxyType = ''hysteria2'' then map_option (\<lambda>(pw, _). Hysteria2 (or_else pw fpw)) (unmarshal_fields ''password'' None raw)
      else if proxyType = ''tuic'' then
        map_option (\<lambda>(i, pw). TUIC (or_else i fid) (or_else pw fpw)) (unmarshal_fields ''id'' (Some ''password'') raw)
      else if proxyType = ''snell'' then map_option (\<lambda>(k, _). Snell (or_else k fpw)) (unmarshal_fields ''user_key'' None raw)
      else if proxyType = ''anytls'' then map_option (\<lambda>(pw, _). AnyTLS (or_else pw fpw)) (unmarshal_fields ''password'' None raw)
      else None)"

definition FromWire :: "string \<Rightarrow> string \<Rightarrow> string \<Rightarrow> string \<Rightarrow> Settings option" where
  "FromWire fid fpw proxyType raw = parse_settings fid fpw proxyType raw True"

definition FromStored :: "string \<Rightarrow> string \<Rightarrow> string \<Rightarrow> string \<Rightarrow> Settings option" where
  "FromStored fid fpw proxyType raw = parse_settings fid fpw proxyType raw False"

definition settings_json :: "Settings \<Rightarrow> json" where
  "settings_json s =
     JObj (case s of
        VMess i \<Rightarrow> [(''id'', JStr i)]
      | VLESS i flow \<Rightarrow> [(''id'', JStr i), (''flow'', JStr flow)]
      | Trojan pw flow \<Rightarrow> [(''password'', JStr pw), (''flow'', JStr flow)]
      | Shadowsocks pw m \<Rightarrow> [(''password'', JStr pw), (''method'', JStr m)]
      | Hysteria2 pw \<Rightarrow> [(''password'', JStr pw)]
      | TUIC i pw \<Rightarrow> [(''id'', JStr i), (''password'', JStr pw)]
      | Snell k \<Rightarrow> [(''user_key'', JStr k)]
      | AnyTLS pw \<Rightarrow> [(''password'', JStr pw)])"

definition Settings_MarshalJSON :: "Settings \<Rightarrow> string" where
  "Settings_MarshalJSON s = json_print (settings_json s)"

definition Revoke :: "string \<Rightarrow> string \<Rightarrow> Settings \<Rightarrow> Settings" where
  "Revoke fid fpw s =
     (case s of
        VMess _ \<Rightarrow> VMess fid
      | VLESS _ flow \<Rightarrow> VLESS fid flow
      | Trojan _ flow \<Rightarrow> Trojan fpw flow
      | Shadowsocks _ m \<Rightarrow> Shadowsocks fpw m
      | Hysteria2 _ \<Rightarrow> Hysteria2 fpw
      | TUIC _ _ \<Rightarrow> TUIC fid fpw
      | Snell _ \<Rightarrow> Snell fpw
      | AnyTLS _ \<Rightarrow> AnyTLS fpw)"

section \<open>Reading back what was stored\<close>

text \<open>No secret and no method is empty.\<close>

fun complete_settings :: "Settings \<Rightarrow> bool" where
  "complete_settings (VMess i) \<longleftrightarrow> i \<noteq> []"
| "complete_settings (VLESS i flow) \<longleftrightarrow> i \<noteq> []"
| "complete_settings (Trojan pw flow) \<longleftrightarrow> pw \<noteq> []"
| "complete_settings (Shadowsocks pw m) \<longleftrightarrow> pw \<noteq> [] \<and> m \<noteq> []"
| "complete_settings (Hysteria2 pw) \<longleftrightarrow> pw \<noteq> []"
| "complete_settings (TUIC i pw) \<longleftrightarrow> i \<noteq> [] \<and> pw \<noteq> []"
| "complete_settings (Snell k) \<longleftrightarrow> k \<noteq> []"
| "complete_settings (AnyTLS pw) \<longleftrightarrow> pw \<noteq> []"

definition settings_utf8 :: "Settings \<Rightarrow> bool" where
  "settings_utf8 s \<longleftrightarrow>
     (case s of VMess i \<Rightarrow> utf8_Valid i | VLESS i flow \<Rightarrow> utf8_Valid i \<and> utf8_Valid flow
      | Trojan pw flow \<Rightarrow> utf8_Valid pw \<and> utf8_Valid flow | Shadowsocks pw m \<Rightarrow> utf8_Valid pw \<and> utf8_Valid m
      | Hysteria2 pw \<Rightarrow> utf8_Valid pw | TUIC i pw \<Rightarrow> utf8_Valid i \<and> utf8_Valid pw | Snell k \<Rightarrow> utf8_Valid k | AnyTLS pw \<Rightarrow> utf8_Valid pw)"

lemma hasSettings_object: "hasSettings (json_print (JObj ms))"
  by (simp add: hasSettings_def TrimSpace_object)

lemma Unmarshal_stored:
  assumes "json_ok (JObj ms)"
  shows "unmarshal_fields n1 n2 (json_print (JObj ms)) = dec_members False
    ((n1, into fst apfst dec_string) # (case n2 of None \<Rightarrow> [] | Some n \<Rightarrow> [(n, into snd apsnd dec_string)])) ms ([], [])"
  using json_round_trip [OF assms] hasSettings_object [of ms] by (simp add: unmarshal_fields_def del: json_print.simps)

lemma settings_json_ok: "settings_utf8 s \<Longrightarrow> json_ok (settings_json s)"
  by (cases s) (auto simp: settings_utf8_def settings_json_def intro!: utf8_Valid_ascii)

lemma stored_round_trip:
  assumes "settings_utf8 s"
  shows "parse_settings fid fpw (settings_type s) (Settings_MarshalJSON s) False =
    Some (case s of
        VMess i \<Rightarrow> VMess (or_else i fid) | VLESS i flow \<Rightarrow> VLESS (or_else i fid) flow
      | Trojan pw flow \<Rightarrow> Trojan (or_else pw fpw) flow
      | Shadowsocks pw m \<Rightarrow> Shadowsocks (or_else pw fpw) (or_else m ''chacha20-ietf-poly1305'')
      | Hysteria2 pw \<Rightarrow> Hysteria2 (or_else pw fpw) | TUIC i pw \<Rightarrow> TUIC (or_else i fid) (or_else pw fpw)
      | Snell k \<Rightarrow> Snell (or_else k fpw) | AnyTLS pw \<Rightarrow> AnyTLS (or_else pw fpw))"
  using settings_json_ok [OF assms]
  by (cases s) (simp_all add: settings_type_def Settings_MarshalJSON_def settings_json_def parse_settings_def Unmarshal_stored
      find_field_def into_def del: json_print.simps json_ok.simps)

text \<open>The column is \<open>jsonb\<close>: Postgres gives back the same object, with its own spacing and order of members.\<close>

definition jsonb_of :: "string \<Rightarrow> string \<Rightarrow> bool" where
  "jsonb_of sent stored \<longleftrightarrow> hasSettings stored \<and>
     (\<exists>ms ms'. json_parse sent = Some (JObj ms) \<and> json_parse stored = Some (JObj ms') \<and> mset ms' = mset ms)"

lemma mset_pair: "mset ms' = mset [a, b] \<Longrightarrow> ms' = [a, b] \<or> ms' = [b, a]"
proof -
  assume eq: "mset ms' = mset [a, b]"
  then have "length ms' = 2" by (metis mset_eq_length length_Cons list.size(3) numeral_2_eq_2)
  then obtain c d where "ms' = [c, d]" by (auto simp: length_Suc_conv numeral_2_eq_2)
  then show ?thesis using eq by (auto simp: add_eq_conv_ex)
qed

lemma mset_single: "mset ms' = mset [a] \<Longrightarrow> ms' = [a]"
  by (cases ms') auto

lemma jsonb_refl: "settings_utf8 s \<Longrightarrow> jsonb_of (Settings_MarshalJSON s) (Settings_MarshalJSON s)"
  using json_round_trip [OF settings_json_ok, of s] hasSettings_object
  by (auto simp: jsonb_of_def Settings_MarshalJSON_def settings_json_def simp del: json_print.simps)

lemma FromStored_jsonb:
  assumes "settings_utf8 s" and "jsonb_of (Settings_MarshalJSON s) stored"
  shows "FromStored x y (settings_type s) stored = FromStored x y (settings_type s) (Settings_MarshalJSON s)"
proof -
  obtain ms where ms: "settings_json s = JObj ms" "json_ok (JObj ms)"
    using settings_json_ok [OF assms(1)] by (simp add: settings_json_def)
  then have "json_parse (Settings_MarshalJSON s) = Some (JObj ms)"
    using json_round_trip [OF ms(2)] by (simp add: Settings_MarshalJSON_def)
  then obtain ms' where ms': "hasSettings stored" "json_parse stored = Some (JObj ms')" "mset ms' = mset ms"
    using assms(2) by (auto simp: jsonb_of_def)
  then have stored: "unmarshal_fields n1 n2 stored = dec_members False
      ((n1, into fst apfst dec_string) # (case n2 of None \<Rightarrow> [] | Some n \<Rightarrow> [(n, into snd apsnd dec_string)])) ms' ([], [])" for n1 n2
    by (simp add: unmarshal_fields_def)
  have "parse_settings x y (settings_type s) stored False = parse_settings x y (settings_type s) (Settings_MarshalJSON s) False"
    using ms ms'(3)
    by (cases s) (auto simp: settings_type_def Settings_MarshalJSON_def settings_json_def parse_settings_def Unmarshal_stored stored
        find_field_def into_def dest!: mset_single mset_pair simp del: json_print.simps json_ok.simps mset.simps)
  then show ?thesis by (simp add: FromStored_def)
qed

lemma complete_stored:
  "settings_utf8 s \<Longrightarrow> complete_settings s \<Longrightarrow> FromStored x y (settings_type s) (Settings_MarshalJSON s) = Some s"
  using stored_round_trip [of s x y] by (cases s) (simp_all add: FromStored_def)

lemma complete_jsonb:
  "settings_utf8 s \<Longrightarrow> complete_settings s \<Longrightarrow> jsonb_of (Settings_MarshalJSON s) stored \<Longrightarrow>
    FromStored x y (settings_type s) stored = Some s"
  using FromStored_jsonb complete_stored by simp

lemma FromWire_complete:
  assumes "FromWire fid fpw t raw = Some s" and "fid \<noteq> []" and "fpw \<noteq> []"
  shows "complete_settings s" and "settings_type s = t" and "\<And>i flow. s = VLESS i flow \<Longrightarrow> flow \<noteq> []"
  using assms by (auto simp: FromWire_def parse_settings_def settings_type_def split: if_splits)

fun secrets :: "Settings \<Rightarrow> string list" where
  "secrets (VMess i) = [i]"
| "secrets (VLESS i flow) = [i]"
| "secrets (Trojan pw flow) = [pw]"
| "secrets (Shadowsocks pw m) = [pw]"
| "secrets (Hysteria2 pw) = [pw]"
| "secrets (TUIC i pw) = [i, pw]"
| "secrets (Snell k) = [k]"
| "secrets (AnyTLS pw) = [pw]"

lemma Revoke_props:
  assumes "settings_utf8 s" and "complete_settings s" and "a \<noteq> []" "b \<noteq> []" "utf8_Valid a" "utf8_Valid b"
  shows "settings_utf8 (Revoke a b s) \<and> complete_settings (Revoke a b s) \<and> settings_type (Revoke a b s) = settings_type s
    \<and> set (secrets (Revoke a b s)) \<subseteq> {a, b}"
  using assms by (cases s) (simp_all add: Revoke_def settings_utf8_def settings_type_def)

text \<open>C18. Credentials survive storage. Whatever a client sends and the panel accepts has no empty secret
  and belongs to the requested, known protocol, and reading the stored object, in
  whatever order and spacing the database gives it back, yields exactly the accepted settings again,
  whatever fresh secrets the reading could draw; an accepted VLESS setting never has the empty flow.
  After a rotation the same holds, and only the new secrets are left.\<close>

theorem accepted_settings_survive_storage:
  assumes "FromWire fid fpw t raw = Some s" and "fid \<noteq> []" and "fpw \<noteq> []" and "settings_utf8 s"
    and "a \<noteq> []" and "b \<noteq> []" and "utf8_Valid a" and "utf8_Valid b"
  shows "ProxyType_Valid t \<and> complete_settings s
    \<and> (\<forall>stored. jsonb_of (Settings_MarshalJSON s) stored \<longrightarrow> FromStored x y t stored = Some s)
    \<and> (case s of VLESS i flow \<Rightarrow> flow \<noteq> [] | _ \<Rightarrow> True)
    \<and> (\<forall>stored. jsonb_of (Settings_MarshalJSON (Revoke a b s)) stored \<longrightarrow> FromStored x y t stored = Some (Revoke a b s))
    \<and> set (secrets (Revoke a b s)) \<subseteq> {a, b}"
proof -
  note s = FromWire_complete [OF assms(1-3)]
  note r = Revoke_props [OF assms(4) s(1) assms(5-8)]
  have "ProxyType_Valid t" using s(2) by (cases s) (auto simp: settings_type_def ProxyType_Valid_def)
  moreover have "\<forall>stored. jsonb_of (Settings_MarshalJSON s) stored \<longrightarrow> FromStored x y t stored = Some s"
    using complete_jsonb [OF assms(4) s(1)] s(2) by blast
  moreover have "\<forall>stored. jsonb_of (Settings_MarshalJSON (Revoke a b s)) stored \<longrightarrow> FromStored x y t stored = Some (Revoke a b s)"
    using complete_jsonb [of "Revoke a b s"] r s(2) by metis
  moreover have "case s of VLESS i flow \<Rightarrow> flow \<noteq> [] | _ \<Rightarrow> True" using s(3) by (cases s) auto
  ultimately show ?thesis using s(1) r by blast
qed

theorem accepted_settings_survive_storage_witness:
  "FromWire ''u1'' ''p1'' ''vless'' ''[]'' = Some (VLESS ''u1'' ''xtls-rprx-vision'')
    \<and> FromStored ''u9'' ''p9'' ''vless'' (Settings_MarshalJSON (VLESS ''u1'' ''xtls-rprx-vision'')) = Some (VLESS ''u1'' ''xtls-rprx-vision'')
    \<and> FromStored ''u9'' ''p9'' ''vless'' (Settings_MarshalJSON (VLESS ''u2'' ''xtls-rprx-vision'')) = Some (VLESS ''u2'' ''xtls-rprx-vision'')"
proof -
  have wire: "FromWire ''u1'' ''p1'' ''vless'' ''[]'' = Some (VLESS ''u1'' ''xtls-rprx-vision'')"
    by (simp add: FromWire_def parse_settings_def unmarshal_fields_def hasSettings_def TrimSpace_def trim_left_zero space_width_def
        space_runes_def HasPrefix_def Let_def)
  have "utf8_Valid ''u1''" "utf8_Valid ''u2''" "utf8_Valid ''p2''" "settings_utf8 (VLESS ''u1'' ''xtls-rprx-vision'')"
    by (auto simp: settings_utf8_def intro!: utf8_Valid_ascii)
  with accepted_settings_survive_storage [OF wire, of "''u2''" "''p2''" "''u9''" "''p9''"] wire
    jsonb_refl [of "VLESS ''u1'' ''xtls-rprx-vision''"] jsonb_refl [of "VLESS ''u2'' ''xtls-rprx-vision''"]
  show ?thesis by (simp add: Revoke_def settings_utf8_def)
qed

text \<open>A stored setting with an empty secret is completed anew at every reading, so two readings differ.\<close>

lemma FromStored_defaults:
  "FromStored fid fpw ''vless'' (Settings_MarshalJSON (VLESS [] flow)) = Some (VLESS fid flow)" if "utf8_Valid flow"
  using stored_round_trip [of "VLESS [] flow" fid fpw] that by (simp add: FromStored_def settings_type_def settings_utf8_def utf8_Valid.simps)

end
