(* ===== verification/NodeServe.thy ===== *)
theory NodeServe
  imports NodeProfile ProxySettings
begin

text \<open>
  What the panel serves to its nodes (\<open>internal/httpapi/nodeconfig.go\<close>): the queries that read the fleet's
  inbounds and the credentials of its users, the snapshot built from them, and the response body
  rendered for one profile. Rows of the database are records; a nullable text column that the code
  reads by \<open>.String\<close> is a string, empty for NULL.
\<close>

section \<open>The rows\<close>

record inbound_row =
  ir_Tag :: string
  ir_Protocol :: string
  ir_Network :: string
  ir_HeaderType :: string
  ir_Security :: string
  ir_RealityPrivateKey :: string
  ir_RealityShortIds :: "string list"
  ir_RealityServerName :: string
  ir_RealityServerPort :: int
  ir_TlsCertificate :: string
  ir_TlsKey :: string
  ir_TlsServerName :: string
  ir_Hysteria2ObfsPassword :: string
  ir_UpMbps :: int
  ir_DownMbps :: int
  ir_CongestionControl :: string
  ir_ZeroRttHandshake :: bool
  ir_SnellPsk :: string
  ir_SnellV6Mode :: string

record host_row =
  ho_ID :: int
  ho_InboundTag :: string
  ho_Port :: "int option"
  ho_Disabled :: "bool option"
  ho_Host :: string
  ho_Path :: string

record user_row =
  us_row_ID :: int
  us_row_Username :: string
  us_row_Status :: string

record proxy_row =
  px_UserID :: int
  px_Type :: string
  px_Settings :: string

record fleet_db =
  fd_inbounds :: "inbound_row list"
  fd_hosts :: "host_row list"
  fd_users :: "user_row list"
  fd_proxies :: "proxy_row list"
  fd_core :: coreConfigDTO

text \<open>\<open>ListAutoSyncInbounds\<close>: an eligible inbound with the row of its primary host and all its ports.\<close>

record sync_row = inbound_row +
  sy_Port :: int
  sy_Host :: string
  sy_Path :: string
  sy_Ports :: "int list"

definition usable_hosts :: "fleet_db \<Rightarrow> string \<Rightarrow> host_row list" where
  "usable_hosts db tag = filter (\<lambda>h. ho_InboundTag h = tag \<and> ho_Disabled h \<noteq> Some True \<and> ho_Port h \<noteq> None) (fd_hosts db)"

definition eligible :: "inbound_row \<Rightarrow> bool" where
  "eligible i \<longleftrightarrow> ir_Security i = ''none'' \<or> ir_Security i = ''reality''
     \<or> (ir_Security i = ''tls'' \<and> ir_TlsCertificate i \<noteq> [] \<and> ir_TlsKey i \<noteq> [])"

definition sync_inbound :: "fleet_db \<Rightarrow> inbound_row \<Rightarrow> sync_row option" where
  "sync_inbound db i =
     (case sort_key ho_ID (usable_hosts db (ir_Tag i)) of
        [] \<Rightarrow> None
      | h # _ \<Rightarrow>
          if eligible i
          then Some (inbound_row.extend i \<lparr>sy_Port = the (ho_Port h), sy_Host = ho_Host h, sy_Path = ho_Path h,
            sy_Ports = sort (remdups (map (\<lambda>h. the (ho_Port h)) (usable_hosts db (ir_Tag i))))\<rparr>)
          else None)"

definition bytes_key :: "string \<Rightarrow> nat list" where
  "bytes_key s = map of_char s"

definition ListAutoSyncInbounds :: "fleet_db \<Rightarrow> sync_row list" where
  "ListAutoSyncInbounds db = sort_key (\<lambda>i. bytes_key (ir_Tag i)) (List.map_filter (sync_inbound db) (fd_inbounds db))"

text \<open>\<open>ListActiveUserProxiesForNodeConfig\<close>: user name, type and settings.\<close>

definition ListActiveUserProxies :: "fleet_db \<Rightarrow> (string \<times> string \<times> string) list" where
  "ListActiveUserProxies db =
     concat (map (\<lambda>u. map (\<lambda>p. (us_row_Username u, px_Type p, px_Settings p)) (filter (\<lambda>p. px_UserID p = us_row_ID u) (fd_proxies db)))
       (sort_key us_row_ID (filter (\<lambda>u. us_row_Status u = ''active'' \<or> us_row_Status u = ''on_hold'') (fd_users db))))"

section \<open>The snapshot\<close>

definition flowApplies :: "string \<Rightarrow> string \<Rightarrow> string \<Rightarrow> bool" where
  "flowApplies network security headerType \<longleftrightarrow>
     (security = ''tls'' \<or> security = ''reality'') \<and> (network = ''tcp'' \<or> network = ''raw'' \<or> network = ''kcp'') \<and> headerType \<noteq> ''http''"

definition noFlowUsersKey :: "string \<Rightarrow> string" where
  "noFlowUsersKey protocol = protocol @ ''/no-flow''"

definition nodeInboundTransport :: "string \<Rightarrow> string \<Rightarrow> string \<Rightarrow> string \<Rightarrow> transportSpec option" where
  "nodeInboundTransport protocol network path host =
     (if protocol \<notin> set [''vless'', ''vmess'', ''trojan''] then None
      else if network = ''ws'' \<or> network = ''httpupgrade''
      then Some \<lparr>tr_Type = network, tr_Path = (if path = [] then ''/'' else path), tr_Host = host\<rparr>
      else None)"

definition validHostPorts :: "int list \<Rightarrow> int list" where
  "validHostPorts ps = filter (\<lambda>p. 1 \<le> p \<and> p \<le> 65535) ps"

definition multiListenPorts :: "int list \<Rightarrow> uint16 list" where
  "multiListenPorts ps = (let valid = validHostPorts ps in if length valid < 2 then [] else map of_int valid)"

record nodeConfigInboundSpec = inboundSpec +
  ni_usersKey :: string

record nodeConfigSnapshot =
  sn_version :: int
  sn_builtAt :: instant
  sn_inbounds :: "nodeConfigInboundSpec list"
  sn_usersJSON :: "(string, string) gomap"
  sn_core :: coreConfigDTO

text \<open>The credentials of one user for one protocol.\<close>

definition user_spec :: "string \<Rightarrow> Settings \<Rightarrow> userSpec" where
  "user_spec name s =
     (let u = \<lparr>us_Name = name, us_UUID = [], us_Password = [], us_Flow = [], us_Method = [], us_UserKey = []\<rparr>
      in case s of
           VMess i \<Rightarrow> u\<lparr>us_UUID := i\<rparr>
         | VLESS i flow \<Rightarrow> u\<lparr>us_UUID := i, us_Flow := flow\<rparr>
         | Trojan pw flow \<Rightarrow> u\<lparr>us_Password := pw, us_Flow := flow\<rparr>
         | Shadowsocks pw m \<Rightarrow> u\<lparr>us_Password := pw, us_Method := m\<rparr>
         | Hysteria2 pw \<Rightarrow> u\<lparr>us_Password := pw\<rparr>
         | TUIC i pw \<Rightarrow> u\<lparr>us_UUID := i, us_Password := pw\<rparr>
         | Snell k \<Rightarrow> u\<lparr>us_UserKey := k\<rparr>
         | AnyTLS pw \<Rightarrow> u\<lparr>us_Password := pw\<rparr>)"

text \<open>The row's user, \<open>None\<close> for a malformed row; \<open>fresh\<close> are the random secrets the reading could draw.\<close>

definition row_user :: "(string \<times> string) \<Rightarrow> string \<times> string \<times> string \<Rightarrow> (string \<times> userSpec) option" where
  "row_user fresh row =
     (case row of (name, type, settings) \<Rightarrow>
        map_option (\<lambda>s. (type, user_spec name s)) (FromStored (fst fresh) (snd fresh) type settings))"

definition group_users :: "(string \<times> userSpec) list \<Rightarrow> (string, userSpec list) gomap" where
  "group_users us = foldl (\<lambda>m (proto, u). mput proto (mget [] m proto @ [u]) m) [] us"

definition noFlow :: "'a inbound_row_scheme \<Rightarrow> bool" where
  "noFlow i \<longleftrightarrow> (ir_Protocol i = ''vless'' \<or> ir_Protocol i = ''trojan'') \<and> \<not> flowApplies (ir_Network i) (ir_Security i) (ir_HeaderType i)"

definition strip_step :: "(string, userSpec list) gomap \<Rightarrow> 'a inbound_row_scheme \<Rightarrow> (string, userSpec list) gomap" where
  "strip_step m i =
     (if \<not> noFlow i then m
      else (let key = noFlowUsersKey (ir_Protocol i)
            in case map_of m (ir_Protocol i) of
                 None \<Rightarrow> m
               | Some src \<Rightarrow> if map_of m key \<noteq> None then m else mput key (map (\<lambda>u. u\<lparr>us_Flow := []\<rparr>) src) m))"

definition users_key :: "'a inbound_row_scheme \<Rightarrow> string" where
  "users_key i = (if noFlow i then noFlowUsersKey (ir_Protocol i) else ir_Protocol i)"

definition inbound_tls :: "'a inbound_row_scheme \<Rightarrow> tlsSpec option" where
  "inbound_tls i =
     (if ir_Security i = ''reality''
      then Some \<lparr>ts_ServerName = [], ts_Certificate = [], ts_Key = [],
             ts_Reality = Some \<lparr>rs_PrivateKey = ir_RealityPrivateKey i, rs_ShortID = ir_RealityShortIds i,
               rs_ServerName = ir_RealityServerName i, rs_ServerPort = of_int (ir_RealityServerPort i)\<rparr>\<rparr>
      else if ir_Security i = ''tls''
      then Some \<lparr>ts_ServerName = ir_TlsServerName i, ts_Certificate = ir_TlsCertificate i, ts_Key = ir_TlsKey i, ts_Reality = None\<rparr>
      else None)"

definition inbound_spec :: "(string, userSpec list) gomap \<Rightarrow> sync_row \<Rightarrow> nodeConfigInboundSpec" where
  "inbound_spec usersBy i =
     \<lparr>in_Tag = ir_Tag i, in_Protocol = ir_Protocol i, in_ListenPort = of_int (sy_Port i),
      in_ListenPorts = multiListenPorts (sy_Ports i), in_Users = mget [] usersBy (users_key i),
      in_TLS = inbound_tls i, in_Transport = nodeInboundTransport (ir_Protocol i) (ir_Network i) (sy_Path i) (sy_Host i),
      in_Hysteria2ObfsPassword = (if ir_Protocol i = ''hysteria2'' then ir_Hysteria2ObfsPassword i else []),
      in_UpMbps = (if ir_Protocol i = ''hysteria2'' then ir_UpMbps i else 0),
      in_DownMbps = (if ir_Protocol i = ''hysteria2'' then ir_DownMbps i else 0),
      in_CongestionControl = (if ir_Protocol i = ''tuic'' then ir_CongestionControl i else []),
      in_ZeroRTTHandshake = (ir_Protocol i = ''tuic'' \<and> ir_ZeroRttHandshake i),
      in_SnellPSK = (if ir_Protocol i = ''snell'' then ir_SnellPsk i else []),
      in_SnellV6Mode = (if ir_Protocol i = ''snell'' then ir_SnellV6Mode i else []),
      ni_usersKey = users_key i\<rparr>"

text \<open>\<open>loadNodeConfigSnapshot\<close>: its three queries, \<open>None\<close> for a failed one, and the snapshot from their rows.\<close>

definition users_by_protocol :: "(nat \<Rightarrow> string \<times> string) \<Rightarrow> (string \<times> string \<times> string) list \<Rightarrow> (string, userSpec list) gomap" where
  "users_by_protocol fresh rows = group_users (List.map_filter (\<lambda>(k, row). row_user (fresh k) row) (zip [0..<length rows] rows))"

definition build_snapshot :: "int \<Rightarrow> instant \<Rightarrow> (nat \<Rightarrow> string \<times> string) \<Rightarrow> sync_row list \<Rightarrow> (string \<times> string \<times> string) list
    \<Rightarrow> coreConfigDTO \<Rightarrow> nodeConfigSnapshot" where
  "build_snapshot version now fresh inboundRows proxyRows core =
     (let usersBy = foldl strip_step (users_by_protocol fresh proxyRows) inboundRows
      in \<lparr>sn_version = version, sn_builtAt = now, sn_inbounds = map (inbound_spec usersBy) inboundRows,
          sn_usersJSON = map (\<lambda>(proto, us). (proto, json_print (enc_users us))) usersBy, sn_core = core\<rparr>)"

definition loadNodeConfigSnapshot :: "int \<Rightarrow> instant \<Rightarrow> (nat \<Rightarrow> string \<times> string) \<Rightarrow> sync_row list option
    \<Rightarrow> (string \<times> string \<times> string) list option \<Rightarrow> coreConfigDTO option \<Rightarrow> nodeConfigSnapshot option" where
  "loadNodeConfigSnapshot version now fresh inboundQ proxyQ coreQ =
     (case inboundQ of
        None \<Rightarrow> None
      | Some inboundRows \<Rightarrow>
          (case proxyQ of
             None \<Rightarrow> None
           | Some proxyRows \<Rightarrow> map_option (build_snapshot version now fresh inboundRows proxyRows) coreQ))"

section \<open>The response\<close>

record nodeConfigResponse =
  np_Version :: string
  np_Inbounds :: "nodeConfigInboundSpec list"
  np_Core :: coreConfigDTO

definition enc_response :: "nodeConfigResponse \<Rightarrow> json" where
  "enc_response r = JObj [(''version'', JStr (np_Version r)), (''inbounds'', JArr (map enc_inbound_spec (np_Inbounds r))),
     (''core'', enc_core (np_Core r))]"

definition wire_users :: "nodeConfigSnapshot \<Rightarrow> nodeConfigInboundSpec \<Rightarrow> json" where
  "wire_users s i =
     JRaw (case map_of (sn_usersJSON s) (if ni_usersKey i = [] then in_Protocol i else ni_usersKey i) of None \<Rightarrow> ''[]'' | Some raw \<Rightarrow> raw)"

definition render :: "(string \<Rightarrow> string) \<Rightarrow> nodeConfigSnapshot \<Rightarrow> nodeProfile \<Rightarrow> nodeConfigResponse \<times> string" where
  "render sha s p =
     (let inbounds = filterInbounds p (sn_inbounds s);
          core = apply_overrides (pf_CoreOverrides p) (sn_core s);
          canonical = json_print (JObj [(''inbounds'', JArr (map (\<lambda>i. enc_inbound (wire_users s i) i) inbounds)), (''core'', enc_core core)])
      in (\<lparr>np_Version = hex_Encode (sha canonical), np_Inbounds = inbounds, np_Core = core\<rparr>, canonical))"

definition nodeConfigBodyBytes :: "nodeConfigResponse \<Rightarrow> string \<Rightarrow> string" where
  "nodeConfigBodyBytes resp canonical =
     (if length canonical < 2 \<or> canonical ! 0 \<noteq> CHR ''{'' \<or> canonical ! 1 \<noteq> CHR 0x22 then json_print (enc_response resp)
      else CHR ''{'' # CHR 0x22 # ''version'' @ CHR 0x22 # CHR '':'' # CHR 0x22 # np_Version resp @ CHR 0x22 # CHR '','' # tl canonical)"

definition buildNodeConfigBody :: "(string \<Rightarrow> string) \<Rightarrow> nodeConfigSnapshot option \<Rightarrow> nodeProfile \<Rightarrow> string option" where
  "buildNodeConfigBody sha snapQ p = map_option (\<lambda>s. case render sha s p of (resp, canonical) \<Rightarrow> nodeConfigBodyBytes resp canonical) snapQ"

section \<open>The body is the payload\<close>

lemma escape_hex: "set s \<subseteq> set hex_digits \<Longrightarrow> escape_string s = s"
proof (induction s)
  case Nil
  show ?case by (simp add: escape_string.simps)
next
  case (Cons c s)
  have "\<forall>c \<in> set hex_digits. byte c < 128 \<and> escape_ascii c = [c]" by (simp add: hex_digits_def escape_ascii_def)
  then have "byte c < 128" "escape_ascii c = [c]" using Cons.prems by auto
  then show ?case using Cons by (subst escape_string.simps) (simp add: escape_rune_def)
qed

lemma quote_hex: "json_quote (hex_Encode s) = CHR 0x22 # hex_Encode s @ [CHR 0x22]"
  by (simp add: json_quote_def escape_hex [OF hex_chars])

lemma quote_version: "json_quote ''version'' = CHR 0x22 # ''version'' @ [CHR 0x22]"
  and quote_inbounds: "json_quote ''inbounds'' = CHR 0x22 # ''inbounds'' @ [CHR 0x22]"
  by (simp_all add: json_quote_def escape_string.simps [of "_ # _"] escape_string.simps [of "[]"] escape_rune_def escape_ascii_def)

text \<open>A member whose value was written before, in place of the value.\<close>

lemma print_inbound_raw: "json_print (enc_inbound (JRaw (json_print u)) i) = json_print (enc_inbound u i)"
  by (simp add: enc_inbound_def omit_ptr_def omit_def split: option.split)

text \<open>Every inbound finds its own users under its key.\<close>

definition users_match :: "nodeConfigSnapshot \<Rightarrow> nodeConfigInboundSpec \<Rightarrow> bool" where
  "users_match s i \<longleftrightarrow> wire_users s i = JRaw (json_print (enc_users (in_Users i)))"

lemma render_splice:
  assumes "\<forall>i \<in> set (np_Inbounds (fst (render sha s p))). users_match s i"
  shows "nodeConfigBodyBytes (fst (render sha s p)) (snd (render sha s p)) = json_print (enc_response (fst (render sha s p)))"
proof -
  define ins where "ins = filterInbounds p (sn_inbounds s)"
  define core where "core = enc_core (apply_overrides (pf_CoreOverrides p) (sn_core s))"
  have wire: "json_print (enc_inbound (wire_users s i) i) = json_print (enc_inbound_spec i)" if "i \<in> set ins" for i
    using assms that print_inbound_raw by (simp add: render_def ins_def users_match_def enc_inbound_spec_def Let_def)
  have arr: "json_print (JArr (map (\<lambda>i. enc_inbound (wire_users s i) i) ins)) = json_print (JArr (map enc_inbound_spec ins))"
    using wire by (simp add: comp_def cong: map_cong)
  show ?thesis
    using arr by (simp add: render_def nodeConfigBodyBytes_def enc_response_def Let_def ins_def [symmetric] core_def [symmetric]
        quote_version quote_inbounds quote_hex)
qed

section \<open>Whose credentials a snapshot holds\<close>

lemma group_users_append: "group_users (us @ [(proto, u)]) = mput proto (mget [] (group_users us) proto @ [u]) (group_users us)"
  by (simp add: group_users_def)

lemma map_of_group_users:
  "map_of (group_users us) proto = (let vs = map snd (filter (\<lambda>x. fst x = proto) us) in if vs = [] then None else Some vs)"
proof (induction us rule: rev_induct)
  case (snoc x us)
  obtain t u where x: "x = (t, u)" by force
  show ?case using snoc unfolding x group_users_append by (auto simp: mget_def Let_def split: option.splits if_splits)
qed (simp add: group_users_def)

definition stripped :: "userSpec list \<Rightarrow> userSpec list" where
  "stripped us = map (\<lambda>u. u\<lparr>us_Flow := []\<rparr>) us"

lemma noFlow_protocol: "noFlow i \<Longrightarrow> ir_Protocol i = ''vless'' \<or> ir_Protocol i = ''trojan''"
  by (auto simp: noFlow_def)

lemma noFlowUsersKey_inject [simp]: "noFlowUsersKey p = noFlowUsersKey q \<longleftrightarrow> p = q"
  by (simp add: noFlowUsersKey_def)

lemma noFlowUsersKey_neq:
  assumes "p = ''vless'' \<or> p = ''trojan''"
  shows "noFlowUsersKey q \<noteq> p" "ProxyType_Valid t \<Longrightarrow> noFlowUsersKey q \<noteq> t"
proof -
  have "CHR ''/'' \<in> set (noFlowUsersKey q)" by (simp add: noFlowUsersKey_def)
  then show "noFlowUsersKey q \<noteq> p" "ProxyType_Valid t \<Longrightarrow> noFlowUsersKey q \<noteq> t"
    using assms by (auto simp: ProxyType_Valid_def)
qed

text \<open>The stripped lists are added once and nothing else changes.\<close>

lemma strip_steps:
  assumes "\<And>q. map_of m0 (noFlowUsersKey q) = None"
  shows "(\<forall>q. map_of (foldl strip_step m0 is) (noFlowUsersKey q) =
      (if \<exists>i \<in> set is. noFlow i \<and> ir_Protocol i = q then map_option stripped (map_of m0 q) else None))
    \<and> (\<forall>k. (\<forall>q. k \<noteq> noFlowUsersKey q) \<longrightarrow> map_of (foldl strip_step m0 is) k = map_of m0 k)"
proof (induction "is" rule: rev_induct)
  case Nil
  then show ?case using assms by simp
next
  case (snoc i ins)
  define m where "m = foldl strip_step m0 ins"
  have m: "\<And>q. map_of m (noFlowUsersKey q) =
      (if \<exists>i \<in> set ins. noFlow i \<and> ir_Protocol i = q then map_option stripped (map_of m0 q) else None)"
    "\<And>k. (\<And>q. k \<noteq> noFlowUsersKey q) \<Longrightarrow> map_of m k = map_of m0 k"
    using snoc.IH by (auto simp: m_def)
  show ?case
  proof (cases "noFlow i")
    case False
    then show ?thesis using snoc.IH by (auto simp: strip_step_def)
  next
    case True
    let ?P = "ir_Protocol i"
    have src: "map_of m ?P = map_of m0 ?P" using m(2) noFlowUsersKey_neq(1) [OF noFlow_protocol [OF True]] by metis
    have step: "foldl strip_step m0 (ins @ [i]) = (case map_of m0 ?P of None \<Rightarrow> m
        | Some us \<Rightarrow> if map_of m (noFlowUsersKey ?P) \<noteq> None then m else mput (noFlowUsersKey ?P) (stripped us) m)"
      using True src by (simp add: strip_step_def m_def [symmetric] stripped_def Let_def split: option.split)
    show ?thesis unfolding step using m True by (auto split: option.split)
  qed
qed

lemma row_user_type: "row_user fresh row = Some (t, u) \<Longrightarrow> ProxyType_Valid t \<and> t = fst (snd row)"
  by (cases row) (auto simp: row_user_def FromStored_def parse_settings_def ProxyType_Valid_def split: if_splits)

definition spec_rows :: "(nat \<Rightarrow> string \<times> string) \<Rightarrow> (string \<times> string \<times> string) list \<Rightarrow> (string \<times> userSpec) list" where
  "spec_rows fresh rows = List.map_filter (\<lambda>(k, row). row_user (fresh k) row) (zip [0..<length rows] rows)"

text \<open>The users of one protocol, in the order of the rows.\<close>

definition protocol_users :: "(nat \<Rightarrow> string \<times> string) \<Rightarrow> (string \<times> string \<times> string) list \<Rightarrow> string \<Rightarrow> userSpec list" where
  "protocol_users fresh rows proto = map snd (filter (\<lambda>x. fst x = proto) (spec_rows fresh rows))"

lemma users_by_protocol_map:
  "map_of (users_by_protocol fresh rows) proto = (let us = protocol_users fresh rows proto in if us = [] then None else Some us)"
  by (simp add: users_by_protocol_def spec_rows_def [symmetric] map_of_group_users protocol_users_def)

lemma spec_rows_valid: "x \<in> set (spec_rows fresh rows) \<Longrightarrow> ProxyType_Valid (fst x)"
proof -
  assume "x \<in> set (spec_rows fresh rows)"
  then obtain k row where "row_user (fresh k) row = Some x" by (auto simp: spec_rows_def map_filter_def)
  then show ?thesis by (metis prod.collapse row_user_type)
qed

lemma no_stripped_rows: "map_of (users_by_protocol fresh rows) (noFlowUsersKey q) = None"
proof -
  have "protocol_users fresh rows (noFlowUsersKey q) = []"
    using spec_rows_valid noFlowUsersKey_neq(2) [of "''vless''"] by (fastforce simp: protocol_users_def filter_empty_conv)
  then show ?thesis by (simp add: users_by_protocol_map)
qed

lemma snapshot_users:
  assumes "i \<in> set rows" and "ProxyType_Valid (ir_Protocol i)"
  shows "mget [] (foldl strip_step (users_by_protocol fresh prox) rows) (users_key i) =
    (if noFlow i then stripped (protocol_users fresh prox (ir_Protocol i)) else protocol_users fresh prox (ir_Protocol i))"
proof -
  note steps = strip_steps [of "users_by_protocol fresh prox" rows, OF no_stripped_rows]
  show ?thesis
  proof (cases "noFlow i")
    case True
    then have "\<exists>j \<in> set rows. noFlow j \<and> ir_Protocol j = ir_Protocol i" using assms(1) by blast
    then show ?thesis using steps True by (auto simp: users_key_def mget_def users_by_protocol_map Let_def stripped_def)
  next
    case False
    have "\<forall>q. ir_Protocol i \<noteq> noFlowUsersKey q" using noFlowUsersKey_neq(2) [of "''vless''"] assms(2) by metis
    then show ?thesis using steps False by (auto simp: users_key_def mget_def users_by_protocol_map Let_def)
  qed
qed

lemma build_snapshot_inbounds:
  assumes "s = build_snapshot v now fresh rows prox core" and "\<forall>i \<in> set rows. ProxyType_Valid (ir_Protocol i)"
  shows "list_all2 (\<lambda>r i. in_Tag i = ir_Tag r \<and> in_Protocol i = ir_Protocol r \<and> ni_usersKey i = users_key r \<and>
      in_Users i = (if noFlow r then stripped (protocol_users fresh prox (ir_Protocol r)) else protocol_users fresh prox (ir_Protocol r))) rows (sn_inbounds s)"
  using assms by (simp add: build_snapshot_def Let_def list_all2_map2 list_all2_same inbound_spec_def snapshot_users)

lemma users_key_Nil: "users_key r = [] \<Longrightarrow> ir_Protocol r = []"
  by (auto simp: users_key_def noFlowUsersKey_def split: if_splits)

lemma snapshot_users_match:
  assumes "s = build_snapshot v now fresh rows prox core" and "i \<in> set (sn_inbounds s)"
  shows "users_match s i"
proof -
  define m where "m = foldl strip_step (users_by_protocol fresh prox) rows"
  obtain r where r: "r \<in> set rows" "i = inbound_spec m r"
    using assms by (auto simp: build_snapshot_def m_def Let_def)
  have key: "(if ni_usersKey i = [] then in_Protocol i else ni_usersKey i) = users_key r"
    using users_key_Nil [of r] by (simp add: r inbound_spec_def)
  have "sn_usersJSON s = map (\<lambda>(proto, us). (proto, json_print (enc_users us))) m" using assms(1) by (simp add: build_snapshot_def m_def Let_def)
  moreover have "map_of (map (\<lambda>(proto, us). (proto, json_print (enc_users us))) m) k = map_option (\<lambda>us. json_print (enc_users us)) (map_of m k)" for k
    by (induction m) auto
  ultimately show ?thesis unfolding users_match_def wire_users_def key
    by (simp add: r inbound_spec_def mget_def enc_users_def split: option.split)
qed

lemma same_but_ports_key: "same_but_ports i i' \<Longrightarrow> ni_usersKey i' = ni_usersKey i"
  unfolding same_but_ports_def by (drule arg_cong [where f = ni_usersKey]) simp

lemma filter_users_match:
  assumes "\<forall>i \<in> set ins. users_match s i" and "i' \<in> set (filterInbounds p ins)"
  shows "users_match s i'"
proof -
  obtain i where i: "i \<in> set ins" "same_but_ports i i'"
    using assms(2) filter_inbound_keeps(1) by (fastforce simp: filterInbounds_def map_filter_def split: if_splits)
  have "users_match s i' = users_match s i"
    using same_but_ports_fields [OF i(2)] same_but_ports_key [OF i(2)] by (simp add: users_match_def wire_users_def)
  then show ?thesis using assms(1) i(1) by blast
qed

lemma body_of_snapshot:
  assumes "s = build_snapshot v now fresh rows prox core"
  shows "nodeConfigBodyBytes (fst (render sha s p)) (snd (render sha s p)) = json_print (enc_response (fst (render sha s p)))"
proof (rule render_splice, intro ballI)
  fix i assume "i \<in> set (np_Inbounds (fst (render sha s p)))"
  then have "i \<in> set (filterInbounds p (sn_inbounds s))" by (simp add: render_def Let_def)
  then show "users_match s i" using filter_users_match snapshot_users_match [OF assms] by blast
qed

section \<open>What the node reads\<close>

lemma dec_elems_map: "(\<And>x. x \<in> set xs \<Longrightarrow> dec (e x) zero = Some (g x)) \<Longrightarrow> dec_elems dec zero (map e xs) [] = Some (map g xs)"
  by (induction xs) auto

text \<open>Strings are UTF-8, as the database guarantees, and integers fit the node's types.\<close>

definition payload_ok :: "nodeConfigResponse \<Rightarrow> bool" where
  "payload_ok r \<longleftrightarrow> json_ok (enc_response r) \<and> (\<forall>i \<in> set (np_Inbounds r). inbound_in_range i) \<and> core_in_range (np_Core r)"

definition pulled_of :: "nodeConfigResponse \<Rightarrow> pulledConfig" where
  "pulled_of r = \<lparr>pc_Version = np_Version r, pc_Inbounds = map inboundSpec.truncate (np_Inbounds r), pc_Core = coreSpec.truncate (np_Core r)\<rparr>"

lemma decode_response:
  assumes "payload_ok r"
  shows "decode_pulled (json_print (enc_response r)) = Some (pulled_of r)"
proof -
  have "dec_elems dec_inbound zero_inbound (map enc_inbound_spec (np_Inbounds r)) [] = Some (map inboundSpec.truncate (np_Inbounds r))"
    using assms by (intro dec_elems_map dec_inbound_enc) (simp add: payload_ok_def)
  moreover have "dec_core (enc_core (np_Core r)) zero_core = Some (coreSpec.truncate (np_Core r))"
    using assms by (intro dec_core_enc) (simp add: payload_ok_def)
  ultimately have "dec_pulled (enc_response r) \<lparr>pc_Version = [], pc_Inbounds = [], pc_Core = zero_core\<rparr> = Some (pulled_of r)"
    by (simp add: dec_pulled_def enc_response_def pulled_of_def wire_simps)
  moreover have "json_decode (json_print (enc_response r)) = Some (enc_response r, [])"
    using decode_printed [of "enc_response r" "[]"] assms by (simp add: payload_ok_def)
  ultimately show ?thesis by (simp add: decode_pulled_def)
qed

text \<open>C15. The wire contract between panel and node. For any rows of the database and any profile, the body
  the panel splices together from user lists it encoded once per protocol is byte for byte the JSON
  text of the payload; and the node, whose types are a copy of the panel's kept in step by hand, decodes it
  to exactly the version, the inbounds with their users and the core configuration of the payload.\<close>

theorem wire_contract:
  assumes "s = build_snapshot v now fresh rows prox core" and "render sha s p = (resp, canonical)" and "payload_ok resp"
  shows "nodeConfigBodyBytes resp canonical = json_print (enc_response resp)
    \<and> decode_pulled (nodeConfigBodyBytes resp canonical) = Some (pulled_of resp)"
  using body_of_snapshot [OF assms(1), of sha p] decode_response [OF assms(3)] assms(2) by simp

section \<open>Which users are served\<close>

text \<open>A stored setting that can be read; which secrets a reading draws does not matter for that.\<close>

definition readable :: "string \<Rightarrow> string \<Rightarrow> bool" where
  "readable t raw \<longleftrightarrow> FromStored [] [] t raw \<noteq> None"

lemma readable_iff: "(\<exists>s. FromStored fid fpw t raw = Some s) \<longleftrightarrow> readable t raw"
  by (simp add: readable_def FromStored_def parse_settings_def)

lemma user_spec_name [simp]: "us_Name (user_spec name s) = name"
  by (cases s) (simp_all add: user_spec_def Let_def)

lemma set_spec_rows: "x \<in> set (spec_rows fresh rows) \<longleftrightarrow> (\<exists>k < length rows. row_user (fresh k) (rows ! k) = Some x)"
proof -
  have "set (zip [0..<length rows] rows) = (\<lambda>k. (k, rows ! k)) ` {..<length rows}" by (force simp: set_zip image_def)
  then show ?thesis by (auto simp: spec_rows_def map_filter_def image_iff)
qed

lemma names_of_protocol:
  "us_Name ` set (protocol_users fresh rows proto) = {name. \<exists>raw. (name, proto, raw) \<in> set rows \<and> readable proto raw}"
proof -
  have user: "(\<exists>u. row_user (fresh k) row = Some (proto, u) \<and> n = us_Name u) \<longleftrightarrow> (\<exists>raw. row = (n, proto, raw) \<and> readable proto raw)" for k n row
    by (cases row) (auto simp: row_user_def readable_iff [of "fst (fresh k)" "snd (fresh k)", symmetric])
  have "n \<in> us_Name ` set (protocol_users fresh rows proto) \<longleftrightarrow>
      (\<exists>k < length rows. \<exists>u. row_user (fresh k) (rows ! k) = Some (proto, u) \<and> n = us_Name u)" for n
    by (auto simp: protocol_users_def image_iff set_spec_rows Bex_def)
  then have "n \<in> us_Name ` set (protocol_users fresh rows proto) \<longleftrightarrow> (\<exists>row \<in> set rows. \<exists>raw. row = (n, proto, raw) \<and> readable proto raw)" for n
    unfolding user set_conv_nth by blast
  then show ?thesis by blast
qed

lemma names_stripped [simp]: "us_Name ` set (stripped us) = us_Name ` set us"
  by (auto simp: stripped_def image_comp)

definition serves :: "fleet_db \<Rightarrow> string \<Rightarrow> string \<Rightarrow> bool" where
  "serves db proto name \<longleftrightarrow> (\<exists>u \<in> set (fd_users db). \<exists>p \<in> set (fd_proxies db). us_row_Username u = name
     \<and> (us_row_Status u = ''active'' \<or> us_row_Status u = ''on_hold'') \<and> px_UserID p = us_row_ID u \<and> px_Type p = proto
     \<and> readable proto (px_Settings p))"

lemma ListActiveUserProxies_iff:
  "(name, t, raw) \<in> set (ListActiveUserProxies db) \<longleftrightarrow> (\<exists>u \<in> set (fd_users db). \<exists>p \<in> set (fd_proxies db). us_row_Username u = name
     \<and> (us_row_Status u = ''active'' \<or> us_row_Status u = ''on_hold'') \<and> px_UserID p = us_row_ID u \<and> px_Type p = t \<and> px_Settings p = raw)"
  by (auto simp: ListActiveUserProxies_def)

lemma ListAutoSyncInbounds_row:
  assumes "r \<in> set (ListAutoSyncInbounds db)"
  shows "\<exists>i \<in> set (fd_inbounds db). inbound_row.truncate r = i \<and> eligible i \<and> usable_hosts db (ir_Tag i) \<noteq> []"
proof -
  obtain i where i: "i \<in> set (fd_inbounds db)" "sync_inbound db i = Some r"
    using assms by (auto simp: ListAutoSyncInbounds_def map_filter_def)
  have "usable_hosts db (ir_Tag i) \<noteq> []" using i(2) by (auto simp: sync_inbound_def)
  moreover have "eligible i" "inbound_row.truncate r = i"
    using i(2) by (auto simp: sync_inbound_def inbound_row.defs split: list.splits if_splits)
  ultimately show ?thesis using i(1) by blast
qed

lemma sync_row_valid:
  assumes "\<forall>i \<in> set (fd_inbounds db). ProxyType_Valid (ir_Protocol i)" and "r \<in> set (ListAutoSyncInbounds db)"
  shows "ProxyType_Valid (ir_Protocol r)"
  using ListAutoSyncInbounds_row [OF assms(2)] assms(1) by (metis inbound_row.select_convs(2) inbound_row.truncate_def)

text \<open>A served inbound and the row it comes from.\<close>

lemma served_inbound:
  assumes "s = build_snapshot v now fresh (ListAutoSyncInbounds db) (ListActiveUserProxies db) core"
    and "\<forall>i \<in> set (fd_inbounds db). ProxyType_Valid (ir_Protocol i)" and "i \<in> set (filterInbounds p (sn_inbounds s))"
  shows "\<exists>r \<in> set (ListAutoSyncInbounds db). in_Tag i = ir_Tag r \<and> in_Protocol i = ir_Protocol r \<and>
    in_Users i = (if noFlow r then stripped (protocol_users fresh (ListActiveUserProxies db) (ir_Protocol r))
      else protocol_users fresh (ListActiveUserProxies db) (ir_Protocol r))"
proof -
  obtain j where j: "j \<in> set (sn_inbounds s)" "same_but_ports j i"
    using assms(3) filter_inbound_keeps(1) by (fastforce simp: filterInbounds_def map_filter_def split: if_splits)
  have valid: "\<forall>r \<in> set (ListAutoSyncInbounds db). ProxyType_Valid (ir_Protocol r)" using sync_row_valid [OF assms(2)] by blast
  show ?thesis using build_snapshot_inbounds [OF assms(1) valid] j(1) same_but_ports_fields [OF j(2)]
    by (fastforce simp: list_all2_conv_all_nth in_set_conv_nth)
qed

lemma served_names:
  assumes "s = build_snapshot v now fresh (ListAutoSyncInbounds db) (ListActiveUserProxies db) core"
    and "\<forall>i \<in> set (fd_inbounds db). ProxyType_Valid (ir_Protocol i)" and "i \<in> set (filterInbounds p (sn_inbounds s))"
  shows "us_Name ` set (in_Users i) = {name. serves db (in_Protocol i) name}"
proof -
  have "{name. \<exists>raw. (name, proto, raw) \<in> set (ListActiveUserProxies db) \<and> readable proto raw} = {name. serves db proto name}" for proto
    unfolding serves_def ListActiveUserProxies_iff by blast
  then have names: "us_Name ` set (protocol_users fresh (ListActiveUserProxies db) proto) = {name. serves db proto name}" for proto
    by (simp add: names_of_protocol)
  obtain r where "r \<in> set (ListAutoSyncInbounds db)" "in_Protocol i = ir_Protocol r"
    "in_Users i = (if noFlow r then stripped (protocol_users fresh (ListActiveUserProxies db) (ir_Protocol r))
      else protocol_users fresh (ListActiveUserProxies db) (ir_Protocol r))" using served_inbound [OF assms] by blast
  then show ?thesis using names by simp
qed

text \<open>C14. Exactly the users who may connect are served. In a snapshot of the database, and in what any profile
  makes of it, an inbound carries precisely the users that are active or on hold and have readable
  credentials for its protocol, so a disabled, limited or expired user's credentials reach no node;
  its security material is complete; and no user carries a flow the inbound cannot use.\<close>

theorem served_users_are_entitled:
  assumes "s = build_snapshot v now fresh (ListAutoSyncInbounds db) (ListActiveUserProxies db) (fd_core db)"
    and "\<forall>i \<in> set (fd_inbounds db). ProxyType_Valid (ir_Protocol i)"
    and "i \<in> set (filterInbounds p (sn_inbounds s))"
  shows "us_Name ` set (in_Users i) = {name. serves db (in_Protocol i) name}
    \<and> (\<exists>row \<in> set (fd_inbounds db). ir_Tag row = in_Tag i \<and> ir_Protocol row = in_Protocol i \<and> eligible row
        \<and> usable_hosts db (in_Tag i) \<noteq> []
        \<and> (noFlow row \<longrightarrow> (\<forall>u \<in> set (in_Users i). us_Flow u = [])))"
proof -
  obtain r where r: "r \<in> set (ListAutoSyncInbounds db)" "in_Tag i = ir_Tag r" "in_Protocol i = ir_Protocol r"
    and users: "in_Users i = (if noFlow r then stripped (protocol_users fresh (ListActiveUserProxies db) (ir_Protocol r))
      else protocol_users fresh (ListActiveUserProxies db) (ir_Protocol r))"
    using served_inbound [OF assms] by blast
  obtain row where row: "row \<in> set (fd_inbounds db)" "inbound_row.truncate r = row" "eligible row" "usable_hosts db (ir_Tag row) \<noteq> []"
    using ListAutoSyncInbounds_row [OF r(1)] by blast
  then have same: "ir_Tag row = ir_Tag r" "ir_Protocol row = ir_Protocol r" "noFlow row = noFlow r"
    by (auto simp: inbound_row.defs noFlow_def)
  have "\<forall>u \<in> set (in_Users i). us_Flow u = []" if "noFlow row" using that same users by (auto simp: stripped_def)
  then show ?thesis using served_names [OF assms] r row same by auto
qed

section \<open>An example\<close>

text \<open>One WebSocket inbound on two ports, an active and a disabled user.\<close>

definition example_fleet :: fleet_db where
  "example_fleet = \<lparr>
     fd_inbounds = [\<lparr>ir_Tag = ''de'', ir_Protocol = ''vless'', ir_Network = ''ws'', ir_HeaderType = [], ir_Security = ''none'',
       ir_RealityPrivateKey = [], ir_RealityShortIds = [], ir_RealityServerName = [], ir_RealityServerPort = 0, ir_TlsCertificate = [],
       ir_TlsKey = [], ir_TlsServerName = [], ir_Hysteria2ObfsPassword = [], ir_UpMbps = 0, ir_DownMbps = 0, ir_CongestionControl = [],
       ir_ZeroRttHandshake = False, ir_SnellPsk = [], ir_SnellV6Mode = []\<rparr>],
     fd_hosts = [\<lparr>ho_ID = 2, ho_InboundTag = ''de'', ho_Port = Some 8443, ho_Disabled = None, ho_Host = [], ho_Path = ''/b''\<rparr>,
       \<lparr>ho_ID = 1, ho_InboundTag = ''de'', ho_Port = Some 443, ho_Disabled = Some False, ho_Host = [], ho_Path = ''/a''\<rparr>],
     fd_users = [\<lparr>us_row_ID = 1, us_row_Username = ''ann'', us_row_Status = ''active''\<rparr>,
       \<lparr>us_row_ID = 2, us_row_Username = ''bob'', us_row_Status = ''disabled''\<rparr>],
     fd_proxies = [\<lparr>px_UserID = 1, px_Type = ''vless'', px_Settings = Settings_MarshalJSON (VLESS ''u1'' ''xtls-rprx-vision'')\<rparr>,
       \<lparr>px_UserID = 2, px_Type = ''vless'', px_Settings = Settings_MarshalJSON (VLESS ''u2'' ''xtls-rprx-vision'')\<rparr>],
     fd_core = example_dto\<rparr>"

definition no_fresh :: "nat \<Rightarrow> string \<times> string" where
  "no_fresh k = (''f'', ''f'')"

definition example_snapshot :: nodeConfigSnapshot where
  "example_snapshot = build_snapshot 7 0 no_fresh (ListAutoSyncInbounds example_fleet) (ListActiveUserProxies example_fleet) (fd_core example_fleet)"

definition example_inbound_spec :: nodeConfigInboundSpec where
  "example_inbound_spec =
     \<lparr>in_Tag = ''de'', in_Protocol = ''vless'', in_ListenPort = 443, in_ListenPorts = [443, 8443],
      in_Users = [\<lparr>us_Name = ''ann'', us_UUID = ''u1'', us_Password = [], us_Flow = [], us_Method = [], us_UserKey = []\<rparr>],
      in_TLS = None, in_Transport = Some \<lparr>tr_Type = ''ws'', tr_Path = ''/a'', tr_Host = []\<rparr>, in_Hysteria2ObfsPassword = [],
      in_UpMbps = 0, in_DownMbps = 0, in_CongestionControl = [], in_ZeroRTTHandshake = False, in_SnellPSK = [], in_SnellV6Mode = [],
      ni_usersKey = ''vless/no-flow''\<rparr>"

lemma example_stored: "FromStored x y ''vless'' (Settings_MarshalJSON (VLESS ''u1'' ''xtls-rprx-vision'')) = Some (VLESS ''u1'' ''xtls-rprx-vision'')"
proof -
  have "settings_utf8 (VLESS ''u1'' ''xtls-rprx-vision'')" by (auto simp: settings_utf8_def intro!: utf8_Valid_ascii)
  from complete_stored [OF this, of x y] show ?thesis by (simp add: settings_type_def)
qed

lemma example_snapshot_inbounds: "sn_inbounds example_snapshot = [example_inbound_spec]"
  by (simp add: example_snapshot_def example_inbound_spec_def example_fleet_def build_snapshot_def ListAutoSyncInbounds_def ListActiveUserProxies_def
      map_filter_simps sync_inbound_def usable_hosts_def eligible_def inbound_row.defs Let_def users_by_protocol_def group_users_def
      row_user_def example_stored strip_step_def noFlow_def flowApplies_def noFlowUsersKey_def inbound_spec_def users_key_def
      mget_def user_spec_def inbound_tls_def nodeInboundTransport_def multiListenPorts_def validHostPorts_def)

definition all_profile :: nodeProfile where
  "all_profile = \<lparr>pf_InboundTags = [], pf_ListenPorts = [], pf_CoreOverrides = zero_overrides\<rparr>"

definition zero_sha :: "string \<Rightarrow> string" where
  "zero_sha x = replicate 32 (CHR 0x00)"

definition example_response :: nodeConfigResponse where
  "example_response = fst (render zero_sha example_snapshot all_profile)"

lemma example_response: "example_response = \<lparr>np_Version = replicate 64 (CHR ''0''), np_Inbounds = [example_inbound_spec], np_Core = example_dto\<rparr>"
proof -
  have "isZero (pf_CoreOverrides all_profile)" by (simp add: all_profile_def isZero_iff)
  then have "apply_overrides (pf_CoreOverrides all_profile) (sn_core example_snapshot) = example_dto"
    by (simp add: apply_overrides_def example_snapshot_def build_snapshot_def Let_def example_fleet_def)
  moreover have "hex_Encode (zero_sha x) = replicate 64 (CHR ''0'')" for x
  proof -
    have "concat (replicate n [c, c]) = replicate (2 * n) c" for n and c :: char by (induction n) auto
    from this [of 32 "CHR ''0''"] show ?thesis by (simp add: zero_sha_def hex_Encode_def hex_digits_def map_replicate)
  qed
  ultimately show ?thesis
    by (simp add: example_response_def render_def Let_def example_snapshot_inbounds filterInbounds_def all_profile_def)
qed

lemma ascii_strings: "list_all (\<lambda>c. byte c < 128) s \<Longrightarrow> utf8_Valid s"
  by (rule utf8_Valid_ascii) (simp add: list_all_iff)

lemma example_payload_ok: "payload_ok example_response"
proof -
  have "utf8_Valid (replicate 64 (CHR ''0''))" by (rule ascii_strings) (simp add: list_all_iff)
  then have "json_ok (enc_response example_response)"
    by (simp add: example_response enc_response_def enc_inbound_spec_def enc_inbound_def enc_users_def enc_user_def enc_core_def
        enc_outbound_def enc_rule_def enc_transport_def example_inbound_spec_def example_dto_def example_core_def example_outbound_def
        coreSpec.defs omit_def omit_ptr_def ascii_strings)
      blast?
  then show ?thesis
    by (simp add: payload_ok_def example_response inbound_in_range_def core_in_range_def outbound_in_range_def rule_in_range_def
        example_inbound_spec_def example_dto_def example_core_def example_outbound_def coreSpec.defs)
qed

theorem wire_contract_witness:
  "map (\<lambda>i. (in_Tag i, in_ListenPorts i, map us_Name (in_Users i)))
     (pc_Inbounds (the (decode_pulled (nodeConfigBodyBytes example_response (snd (render zero_sha example_snapshot all_profile))))))
   = [(''de'', [443, 8443], [''ann''])]"
proof -
  have "render zero_sha example_snapshot all_profile = (example_response, snd (render zero_sha example_snapshot all_profile))"
    by (simp add: example_response_def)
  from wire_contract [OF example_snapshot_def this example_payload_ok]
  have "decode_pulled (nodeConfigBodyBytes example_response (snd (render zero_sha example_snapshot all_profile))) = Some (pulled_of example_response)"
    by blast
  moreover have "pc_Inbounds (pulled_of example_response) = [inboundSpec.truncate example_inbound_spec]"
    by (simp add: pulled_of_def example_response)
  ultimately show ?thesis by (simp add: example_inbound_spec_def inboundSpec.defs)
qed

theorem served_users_are_entitled_witness:
  "us_Name ` set (in_Users (hd (filterInbounds all_profile (sn_inbounds example_snapshot)))) = {''ann''}
    \<and> {name. serves example_fleet ''vless'' name} = {''ann''}"
proof -
  have i: "hd (filterInbounds all_profile (sn_inbounds example_snapshot)) = example_inbound_spec"
    "example_inbound_spec \<in> set (filterInbounds all_profile (sn_inbounds example_snapshot))"
    by (simp_all add: example_snapshot_inbounds filterInbounds_def all_profile_def)
  have "\<forall>i \<in> set (fd_inbounds example_fleet). ProxyType_Valid (ir_Protocol i)" by (simp add: example_fleet_def ProxyType_Valid_def)
  from served_users_are_entitled [OF example_snapshot_def this i(2)] show ?thesis by (simp add: i example_inbound_spec_def)
qed

end
