(* ===== verification/ConfigCache.thy ===== *)
theory ConfigCache
  imports NodeServe
begin

text \<open>
  Serving a node's configuration from memory (\<open>internal/httpapi/nodeconfigcache.go\<close> and \<open>handleGetNodeConfig\<close> of
  \<open>nodeconfig.go\<close>): rendered bodies filed under the profile's key and the data version the database had
  before it was read. The version is raised by the triggers of migration 00015 whenever a row changes
  that a node's configuration depends on. Instants count nanoseconds.
\<close>

section \<open>The cache\<close>

record nodeConfigEntry =
  en_version :: int
  en_builtAt :: instant
  en_etag :: string
  en_body :: string

record nodeConfigCache =
  cc_snap :: "nodeConfigSnapshot option"
  cc_entries :: "(string, nodeConfigEntry) gomap"
  cc_snapshotLoads :: int
  cc_renders :: int

definition nodeConfigSafetyTTL :: duration where
  "nodeConfigSafetyTTL = 60 * 10 ^ 9"

definition cache_lookup :: "nodeConfigCache \<Rightarrow> string \<Rightarrow> int \<Rightarrow> instant \<Rightarrow> nodeConfigEntry option" where
  "cache_lookup c key version now =
     (case map_of (cc_entries c) key of
        None \<Rightarrow> None
      | Some e \<Rightarrow> if en_version e \<noteq> version \<or> now - en_builtAt e \<ge> nodeConfigSafetyTTL then None else Some e)"

definition cache_store :: "nodeConfigCache \<Rightarrow> string \<Rightarrow> nodeConfigEntry \<Rightarrow> instant \<Rightarrow> nodeConfigCache" where
  "cache_store c key e now =
     c\<lparr>cc_entries := mput key e
         (filter (\<lambda>(k, old). \<not> (en_version old < en_version e \<or> now - en_builtAt old \<ge> nodeConfigSafetyTTL)) (cc_entries c))\<rparr>"

definition lookupSnapshot :: "nodeConfigCache \<Rightarrow> int \<Rightarrow> instant \<Rightarrow> nodeConfigSnapshot option" where
  "lookupSnapshot c version now =
     (case cc_snap c of
        None \<Rightarrow> None
      | Some s \<Rightarrow> if sn_version s = version \<and> now - sn_builtAt s < nodeConfigSafetyTTL then Some s else None)"

definition storeSnapshot :: "nodeConfigCache \<Rightarrow> nodeConfigSnapshot \<Rightarrow> nodeConfigCache" where
  "storeSnapshot c s = c\<lparr>cc_snap := Some s\<rparr>"

text \<open>\<open>load\<close> is \<open>loadNodeConfigSnapshot\<close> for a version.\<close>

definition snapshotFor :: "(int \<Rightarrow> nodeConfigSnapshot option) \<Rightarrow> int \<Rightarrow> instant \<Rightarrow> nodeConfigCache \<Rightarrow> nodeConfigSnapshot option \<times> nodeConfigCache" where
  "snapshotFor load version now c =
     (case lookupSnapshot c version now of
        Some s \<Rightarrow> (Some s, c)
      | None \<Rightarrow>
          (let c = c\<lparr>cc_snapshotLoads := cc_snapshotLoads c + 1\<rparr>
           in case load version of None \<Rightarrow> (None, c) | Some s \<Rightarrow> (Some s, storeSnapshot c s)))"

definition renderNodeConfigEntry :: "(string \<Rightarrow> string) \<Rightarrow> nodeConfigSnapshot \<Rightarrow> nodeProfile \<Rightarrow> instant \<Rightarrow> nodeConfigEntry" where
  "renderNodeConfigEntry sha snap p now =
     (case render sha snap p of (resp, canonical) \<Rightarrow>
        \<lparr>en_version = sn_version snap, en_builtAt = now, en_etag = CHR 0x22 # np_Version resp @ [CHR 0x22],
         en_body = nodeConfigBodyBytes resp canonical\<rparr>)"

definition count_render :: "nodeConfigCache \<Rightarrow> nodeConfigCache" where
  "count_render c = c\<lparr>cc_renders := cc_renders c + 1\<rparr>"

text \<open>\<open>versionQ\<close> is the result of \<open>GetDataVersion\<close>.\<close>

definition cachedNodeConfig :: "(string \<Rightarrow> string) \<Rightarrow> int option \<Rightarrow> (int \<Rightarrow> nodeConfigSnapshot option) \<Rightarrow> nodeProfile \<Rightarrow> instant
    \<Rightarrow> nodeConfigCache \<Rightarrow> nodeConfigEntry option \<times> nodeConfigCache" where
  "cachedNodeConfig sha versionQ load p now c =
     (case versionQ of
        None \<Rightarrow>
          (let c = c\<lparr>cc_snapshotLoads := cc_snapshotLoads c + 1\<rparr>
           in case load 0 of
                None \<Rightarrow> (None, c)
              | Some s \<Rightarrow> (Some (renderNodeConfigEntry sha s p now), count_render c))
      | Some version \<Rightarrow>
          (let key = profile_key sha p
           in case cache_lookup c key version now of
                Some e \<Rightarrow> (Some e, c)
              | None \<Rightarrow>
                  (case snapshotFor load version now c of
                     (None, c) \<Rightarrow> (None, c)
                   | (Some s, c) \<Rightarrow>
                       (let e = renderNodeConfigEntry sha s p now
                        in (Some e, cache_store (count_render c) key e now)))))"

section \<open>The handler\<close>

definition TrimPrefix :: "string \<Rightarrow> string \<Rightarrow> string" where
  "TrimPrefix s pre = (if HasPrefix s pre then drop (length pre) s else s)"

definition etagMatches :: "string \<Rightarrow> string \<Rightarrow> bool" where
  "etagMatches header etag \<longleftrightarrow>
     (\<exists>part \<in> set (map TrimSpace (Split (CHR '','') header)). part = ''*'' \<or> TrimPrefix part ''W/'' = etag)"

datatype config_answer = ServerError | NotModified_answer string | Config_answer string string

definition handleGetNodeConfig :: "(string \<Rightarrow> string) \<Rightarrow> nodeProfileFields option \<Rightarrow> int option \<Rightarrow> (int \<Rightarrow> nodeConfigSnapshot option)
    \<Rightarrow> string \<Rightarrow> instant \<Rightarrow> nodeConfigCache \<Rightarrow> config_answer \<times> nodeConfigCache" where
  "handleGetNodeConfig sha nodeQ versionQ load ifNoneMatch now c =
     (case nodeQ of
        None \<Rightarrow> (ServerError, c)
      | Some node \<Rightarrow>
          (case profileFromNode node of
             Inl _ \<Rightarrow> (ServerError, c)
           | Inr p \<Rightarrow>
               (case cachedNodeConfig sha versionQ load p now c of
                  (None, c) \<Rightarrow> (ServerError, c)
                | (Some e, c) \<Rightarrow>
                    (if etagMatches ifNoneMatch (en_etag e) then NotModified_answer (en_etag e) else Config_answer (en_etag e) (en_body e), c))))"

section \<open>The panel under change\<close>

text \<open>The steps that can interleave: a change of the data, a poll reading the version, a load started at a
  version some poll has read, each of the three queries of a load, the end of a load, which stores
  the snapshot, and the rendering of a stored snapshot for a profile. Single flight only removes
  interleavings. \<open>w_rendered\<close> is the history of rendered profiles.\<close>

record load =
  ld_version :: int
  ld_inbounds :: "sync_row list option"
  ld_proxies :: "(string \<times> string \<times> string) list option"
  ld_core :: "coreConfigDTO option"

record world =
  w_db :: fleet_db
  w_version :: int
  w_read :: "int list"
  w_loads :: "load list"
  w_cache :: nodeConfigCache
  w_rendered :: "nodeProfile list"

datatype world_event =
    Change fleet_db int
  | ReadVersion
  | BeginLoad int
  | ReadInbounds nat
  | ReadProxies nat
  | ReadCore nat
  | FinishLoad nat instant "nat \<Rightarrow> string \<times> string"
  | RenderEntry nodeProfile int instant

text \<open>\<open>bump_data_version\<close>: at least one more, and not below the clock.\<close>

definition bump_data_version :: "int \<Rightarrow> int \<Rightarrow> int" where
  "bump_data_version version clock = max (version + 1) clock"

definition update_load :: "nat \<Rightarrow> (load \<Rightarrow> load) \<Rightarrow> world \<Rightarrow> world" where
  "update_load k f w = (if k < length (w_loads w) then w\<lparr>w_loads := (w_loads w)[k := f (w_loads w ! k)]\<rparr> else w)"

definition finish_load :: "load \<Rightarrow> instant \<Rightarrow> (nat \<Rightarrow> string \<times> string) \<Rightarrow> nodeConfigSnapshot option" where
  "finish_load l now fresh = loadNodeConfigSnapshot (ld_version l) now fresh (ld_inbounds l) (ld_proxies l) (ld_core l)"

fun world_step :: "(string \<Rightarrow> string) \<Rightarrow> world \<Rightarrow> world_event \<Rightarrow> world" where
  "world_step sha w (Change db clock) = w\<lparr>w_db := db, w_version := bump_data_version (w_version w) clock\<rparr>"
| "world_step sha w ReadVersion = w\<lparr>w_read := w_version w # w_read w\<rparr>"
| "world_step sha w (BeginLoad v) =
     (if v \<in> set (w_read w)
      then w\<lparr>w_loads := w_loads w @ [\<lparr>ld_version = v, ld_inbounds = None, ld_proxies = None, ld_core = None\<rparr>]\<rparr> else w)"
| "world_step sha w (ReadInbounds k) = update_load k (\<lambda>l. l\<lparr>ld_inbounds := Some (ListAutoSyncInbounds (w_db w))\<rparr>) w"
| "world_step sha w (ReadProxies k) = update_load k (\<lambda>l. l\<lparr>ld_proxies := Some (ListActiveUserProxies (w_db w))\<rparr>) w"
| "world_step sha w (ReadCore k) = update_load k (\<lambda>l. l\<lparr>ld_core := Some (fd_core (w_db w))\<rparr>) w"
| "world_step sha w (FinishLoad k now fresh) =
     (if k < length (w_loads w)
      then (case finish_load (w_loads w ! k) now fresh of None \<Rightarrow> w | Some s \<Rightarrow> w\<lparr>w_cache := storeSnapshot (w_cache w) s\<rparr>)
      else w)"
| "world_step sha w (RenderEntry p v now) =
     (case lookupSnapshot (w_cache w) v now of
        None \<Rightarrow> w
      | Some s \<Rightarrow> w\<lparr>w_cache := cache_store (w_cache w) (profile_key sha p) (renderNodeConfigEntry sha s p now) now,
                    w_rendered := p # w_rendered w\<rparr>)"

definition world_init :: "fleet_db \<Rightarrow> int \<Rightarrow> world" where
  "world_init db v = \<lparr>w_db = db, w_version = v, w_read = [], w_loads = [],
     w_cache = \<lparr>cc_snap = None, cc_entries = [], cc_snapshotLoads = 0, cc_renders = 0\<rparr>, w_rendered = []\<rparr>"

section \<open>What is filed under the current version is current\<close>

text \<open>Every stored setting is complete, so a reading draws no secret.\<close>

definition complete_db :: "fleet_db \<Rightarrow> bool" where
  "complete_db db \<longleftrightarrow> (\<forall>p \<in> set (fd_proxies db).
     case FromStored [] [] (px_Type p) (px_Settings p) of None \<Rightarrow> True | Some s \<Rightarrow> complete_settings s)"

text \<open>Completing the secrets a reading without fresh ones leaves empty.\<close>

fun fill_secrets :: "string \<Rightarrow> string \<Rightarrow> Settings \<Rightarrow> Settings" where
  "fill_secrets x y (VMess i) = VMess (or_else i x)"
| "fill_secrets x y (VLESS i flow) = VLESS (or_else i x) flow"
| "fill_secrets x y (Trojan pw flow) = Trojan (or_else pw y) flow"
| "fill_secrets x y (Shadowsocks pw m) = Shadowsocks (or_else pw y) m"
| "fill_secrets x y (Hysteria2 pw) = Hysteria2 (or_else pw y)"
| "fill_secrets x y (TUIC i pw) = TUIC (or_else i x) (or_else pw y)"
| "fill_secrets x y (Snell k) = Snell (or_else k y)"
| "fill_secrets x y (AnyTLS pw) = AnyTLS (or_else pw y)"

lemma FromStored_fill: "FromStored x y t raw = map_option (fill_secrets x y) (FromStored [] [] t raw)"
  by (simp add: FromStored_def parse_settings_def option.map_comp comp_def case_prod_unfold cong: if_cong)

lemma fill_complete: "complete_settings s \<Longrightarrow> fill_secrets x y s = s"
  by (cases s) auto

lemma FromStored_complete:
  assumes "case FromStored [] [] t raw of None \<Rightarrow> True | Some s \<Rightarrow> complete_settings s"
  shows "FromStored x y t raw = FromStored [] [] t raw"
  using assms fill_complete by (subst FromStored_fill) (auto split: option.splits)

lemma row_user_complete:
  assumes "complete_db db" and "row \<in> set (ListActiveUserProxies db)"
  shows "row_user fresh row = row_user ([], []) row"
proof -
  obtain name t raw where row: "row = (name, t, raw)" by (metis prod_cases3)
  then have "case FromStored [] [] t raw of None \<Rightarrow> True | Some s \<Rightarrow> complete_settings s"
    using assms by (auto simp: ListActiveUserProxies_iff complete_db_def)
  from FromStored_complete [OF this, of "fst fresh" "snd fresh"] show ?thesis by (simp add: row row_user_def)
qed

definition same_content :: "nodeConfigSnapshot \<Rightarrow> nodeConfigSnapshot \<Rightarrow> bool" where
  "same_content s s' \<longleftrightarrow> sn_inbounds s = sn_inbounds s' \<and> sn_usersJSON s = sn_usersJSON s' \<and> sn_core s = sn_core s'"

text \<open>The snapshot of a database.\<close>

definition snapshot_of :: "fleet_db \<Rightarrow> nodeConfigSnapshot" where
  "snapshot_of db = build_snapshot 0 0 (\<lambda>_. ([], [])) (ListAutoSyncInbounds db) (ListActiveUserProxies db) (fd_core db)"

lemma users_by_protocol_complete:
  assumes "complete_db db"
  shows "users_by_protocol fresh (ListActiveUserProxies db) = users_by_protocol (\<lambda>_. ([], [])) (ListActiveUserProxies db)"
proof -
  let ?rows = "ListActiveUserProxies db"
  have "row_user (fresh k) row = row_user ([], []) row" if "(k, row) \<in> set (zip [0..<length ?rows] ?rows)" for k row
    using row_user_complete [OF assms] that by (meson set_zip_rightD)
  then have "List.map_filter (\<lambda>(k, row). row_user (fresh k) row) (zip [0..<length ?rows] ?rows) =
      List.map_filter (\<lambda>(k, row). row_user ([], []) row) (zip [0..<length ?rows] ?rows)"
    by (auto simp: map_filter_def intro!: map_cong filter_cong)
  then show ?thesis by (simp add: users_by_protocol_def)
qed

lemma built_same_content:
  "complete_db db \<Longrightarrow> same_content (build_snapshot v now fresh (ListAutoSyncInbounds db) (ListActiveUserProxies db) (fd_core db)) (snapshot_of db)"
  using users_by_protocol_complete [of db fresh] by (simp add: same_content_def snapshot_of_def build_snapshot_def Let_def)

lemma render_same_content: "same_content s s' \<Longrightarrow> render sha s p = render sha s' p"
  by (simp add: same_content_def render_def wire_users_def)

text \<open>The payload and the entry of a database for a profile.\<close>

definition response_of :: "(string \<Rightarrow> string) \<Rightarrow> fleet_db \<Rightarrow> nodeProfile \<Rightarrow> nodeConfigResponse" where
  "response_of sha db p = fst (render sha (snapshot_of db) p)"

definition current_entry :: "(string \<Rightarrow> string) \<Rightarrow> fleet_db \<Rightarrow> nodeProfile \<Rightarrow> nodeConfigEntry \<Rightarrow> bool" where
  "current_entry sha db p e \<longleftrightarrow> en_body e = json_print (enc_response (response_of sha db p))
     \<and> en_etag e = CHR 0x22 # np_Version (response_of sha db p) @ [CHR 0x22]"

lemma rendered_current:
  assumes "same_content s (snapshot_of db)"
  shows "current_entry sha db p (renderNodeConfigEntry sha s p now)"
  using body_of_snapshot [OF snapshot_of_def, of sha db p] render_same_content [OF assms, of sha p]
  by (cases "render sha (snapshot_of db) p") (simp add: current_entry_def renderNodeConfigEntry_def response_of_def)

text \<open>The invariant: nothing is filed under a version that was not reached, and what is filed under the
  current one was read from the current data.\<close>

definition load_inv :: "world \<Rightarrow> load \<Rightarrow> bool" where
  "load_inv w l \<longleftrightarrow> ld_version l \<le> w_version w \<and> (ld_version l = w_version w \<longrightarrow>
     (\<forall>r. ld_inbounds l = Some r \<longrightarrow> r = ListAutoSyncInbounds (w_db w)) \<and>
     (\<forall>r. ld_proxies l = Some r \<longrightarrow> r = ListActiveUserProxies (w_db w)) \<and>
     (\<forall>r. ld_core l = Some r \<longrightarrow> r = fd_core (w_db w)))"

definition snap_inv :: "world \<Rightarrow> nodeConfigSnapshot \<Rightarrow> bool" where
  "snap_inv w s \<longleftrightarrow> sn_version s \<le> w_version w
     \<and> (sn_version s = w_version w \<and> complete_db (w_db w) \<longrightarrow> same_content s (snapshot_of (w_db w)))"

definition entry_inv' :: "(string \<Rightarrow> string) \<Rightarrow> world \<Rightarrow> string \<times> nodeConfigEntry \<Rightarrow> bool" where
  "entry_inv' sha w ke \<longleftrightarrow> en_version (snd ke) \<le> w_version w
     \<and> (\<exists>p \<in> set (w_rendered w). profile_key sha p = fst ke
         \<and> (en_version (snd ke) = w_version w \<and> complete_db (w_db w) \<longrightarrow> current_entry sha (w_db w) p (snd ke)))"

definition world_inv :: "(string \<Rightarrow> string) \<Rightarrow> world \<Rightarrow> bool" where
  "world_inv sha w \<longleftrightarrow> (\<forall>v \<in> set (w_read w). v \<le> w_version w) \<and> (\<forall>l \<in> set (w_loads w). load_inv w l)
     \<and> (\<forall>s. cc_snap (w_cache w) = Some s \<longrightarrow> snap_inv w s) \<and> (\<forall>ke \<in> set (cc_entries (w_cache w)). entry_inv' sha w ke)"

lemma bump_greater: "version < bump_data_version version clock"
  by (simp add: bump_data_version_def)

lemma finish_load_inv:
  assumes "load_inv w l" and "finish_load l now fresh = Some s"
  shows "snap_inv w s"
proof -
  obtain r1 r2 r3 where r: "ld_inbounds l = Some r1" "ld_proxies l = Some r2" "ld_core l = Some r3"
    and s: "s = build_snapshot (ld_version l) now fresh r1 r2 r3"
    using assms(2) by (auto simp: finish_load_def loadNodeConfigSnapshot_def split: option.splits)
  have "sn_version s = ld_version l" by (simp add: s build_snapshot_def Let_def)
  moreover have "same_content s (snapshot_of (w_db w))" if "ld_version l = w_version w" "complete_db (w_db w)"
    using that r assms(1) built_same_content [OF that(2)] by (auto simp: load_inv_def s)
  ultimately show ?thesis using assms(1) by (auto simp: snap_inv_def load_inv_def)
qed

lemma set_cache_store: "ke \<in> set (cc_entries (cache_store c key e now)) \<Longrightarrow> ke = (key, e) \<or> ke \<in> set (cc_entries c)"
  by (auto simp: cache_store_def dest!: set_mput [THEN subsetD])

lemma update_load_inv:
  assumes "world_inv sha w" and "\<And>l. load_inv w l \<Longrightarrow> load_inv w (f l)"
  shows "world_inv sha (update_load k f w)"
proof (cases "k < length (w_loads w)")
  case True
  have "load_inv w l" if "l \<in> set ((w_loads w)[k := f (w_loads w ! k)])" for l
    using that assms True set_update_subset_insert [of "w_loads w" k "f (w_loads w ! k)"] by (auto simp: world_inv_def)
  then show ?thesis using assms(1) True
    by (auto simp: world_inv_def update_load_def load_inv_def snap_inv_def entry_inv'_def)
qed (use assms(1) in \<open>simp add: update_load_def\<close>)

lemma world_inv_init: "world_inv sha (world_init db v)"
  by (simp add: world_inv_def world_init_def)

lemma change_inv:
  assumes "world_inv sha w"
  shows "world_inv sha (w\<lparr>w_db := db, w_version := bump_data_version (w_version w) clock\<rparr>)"
proof -
  let ?w = "w\<lparr>w_db := db, w_version := bump_data_version (w_version w) clock\<rparr>"
  note less = bump_greater [of "w_version w" clock]
  have "load_inv ?w l" if "load_inv w l" for l using that less by (auto simp: load_inv_def)
  moreover have "snap_inv ?w s" if "snap_inv w s" for s using that less by (auto simp: snap_inv_def)
  moreover have "entry_inv' sha ?w ke" if "entry_inv' sha w ke" for ke using that less by (auto simp: entry_inv'_def)
  moreover have "\<forall>v \<in> set (w_read w). v \<le> bump_data_version (w_version w) clock" using assms less by (fastforce simp: world_inv_def)
  ultimately show ?thesis using assms by (simp add: world_inv_def)
qed

lemma render_inv:
  assumes "world_inv sha w" and "lookupSnapshot (w_cache w) v now = Some s"
  shows "world_inv sha (w\<lparr>w_cache := cache_store (w_cache w) (profile_key sha p) (renderNodeConfigEntry sha s p now) now,
    w_rendered := p # w_rendered w\<rparr>)"
proof -
  let ?e = "renderNodeConfigEntry sha s p now"
  let ?w = "w\<lparr>w_cache := cache_store (w_cache w) (profile_key sha p) ?e now, w_rendered := p # w_rendered w\<rparr>"
  have snap: "snap_inv w s" using assms by (auto simp: world_inv_def lookupSnapshot_def split: option.splits if_splits)
  have ver: "en_version ?e = sn_version s" by (simp add: renderNodeConfigEntry_def split: prod.split)
  have "entry_inv' sha ?w (profile_key sha p, ?e)"
    using snap rendered_current [of s "w_db w" sha p now] by (auto simp: entry_inv'_def snap_inv_def ver)
  moreover have "entry_inv' sha ?w ke" if "entry_inv' sha w ke" for ke using that by (auto simp: entry_inv'_def)
  ultimately have "\<forall>ke \<in> set (cc_entries (w_cache ?w)). entry_inv' sha ?w ke"
    using assms(1) set_cache_store by (fastforce simp: world_inv_def)
  moreover have "cc_snap (cache_store c k e t) = cc_snap c" for c k e t by (simp add: cache_store_def)
  ultimately show ?thesis using assms(1) by (simp add: world_inv_def load_inv_def snap_inv_def)
qed

lemma world_inv_step: "world_inv sha w \<Longrightarrow> world_inv sha (world_step sha w ev)"
proof (cases ev)
  case (Change db clock)
  then show "world_inv sha w \<Longrightarrow> ?thesis" using change_inv by simp
next
  case (FinishLoad k now fresh)
  assume inv: "world_inv sha w"
  show ?thesis
  proof (cases "k < length (w_loads w) \<and> finish_load (w_loads w ! k) now fresh \<noteq> None")
    case True
    then obtain s where s: "finish_load (w_loads w ! k) now fresh = Some s" by auto
    have "snap_inv w s" using inv True by (intro finish_load_inv [OF _ s]) (simp add: world_inv_def)
    then show ?thesis using inv True s FinishLoad by (simp add: world_inv_def load_inv_def snap_inv_def entry_inv'_def storeSnapshot_def)
  next
    case False
    then show ?thesis using inv FinishLoad by auto
  qed
next
  case (RenderEntry p v now)
  then show "world_inv sha w \<Longrightarrow> ?thesis" using render_inv by (auto split: option.split)
next
  case ReadVersion
  then show "world_inv sha w \<Longrightarrow> ?thesis" by (simp add: world_inv_def load_inv_def snap_inv_def entry_inv'_def)
next
  case (BeginLoad v)
  then show "world_inv sha w \<Longrightarrow> ?thesis" by (auto simp: world_inv_def load_inv_def snap_inv_def entry_inv'_def)
next
  case (ReadInbounds k)
  then show "world_inv sha w \<Longrightarrow> ?thesis" using update_load_inv [of sha w] by (auto simp: load_inv_def)
next
  case (ReadProxies k)
  then show "world_inv sha w \<Longrightarrow> ?thesis" using update_load_inv [of sha w] by (auto simp: load_inv_def)
next
  case (ReadCore k)
  then show "world_inv sha w \<Longrightarrow> ?thesis" using update_load_inv [of sha w] by (auto simp: load_inv_def)
qed

interpretation panel_ts: transition_system "world_step sha" "world_inv sha" for sha
  by unfold_locales (rule world_inv_step)

section \<open>A poll is answered with the current configuration\<close>

lemma equal_profiles_render: "equal_profiles p q \<Longrightarrow> render sha s p = render sha s q"
  using equal_profiles_same [of p q "sn_inbounds s" "sn_core s"] by (simp add: render_def Let_def)

lemma lookup_current:
  assumes "world_inv sha w" and "cache_lookup (w_cache w) (profile_key sha q) (w_version w) now = Some e"
    and "complete_db (w_db w)" and "\<And>p. p \<in> set (w_rendered w) \<Longrightarrow> profile_key sha p = profile_key sha q \<Longrightarrow> equal_profiles p q"
  shows "current_entry sha (w_db w) q e"
proof -
  have "(profile_key sha q, e) \<in> set (cc_entries (w_cache w))" "en_version e = w_version w"
    using assms(2) by (auto simp: cache_lookup_def split: option.splits if_splits dest: map_of_SomeD)
  then obtain p where "p \<in> set (w_rendered w)" "profile_key sha p = profile_key sha q" "current_entry sha (w_db w) p e"
    using assms(1,3) by (fastforce simp: world_inv_def entry_inv'_def)
  then show ?thesis using assms(4) equal_profiles_render by (fastforce simp: current_entry_def response_of_def)
qed

text \<open>The load of a poll whose queries all see the current data.\<close>

definition poll_load :: "world \<Rightarrow> instant \<Rightarrow> (nat \<Rightarrow> string \<times> string) \<Rightarrow> int \<Rightarrow> nodeConfigSnapshot option" where
  "poll_load w now fresh v = loadNodeConfigSnapshot v now fresh (Some (ListAutoSyncInbounds (w_db w))) (Some (ListActiveUserProxies (w_db w)))
     (Some (fd_core (w_db w)))"

lemma cachedNodeConfig_current:
  assumes "world_inv sha w" and "complete_db (w_db w)"
    and "\<And>p. p \<in> set (w_rendered w) \<Longrightarrow> profile_key sha p = profile_key sha q \<Longrightarrow> equal_profiles p q"
  shows "\<exists>e c. cachedNodeConfig sha (Some (w_version w)) (poll_load w now fresh) q now (w_cache w) = (Some e, c) \<and> current_entry sha (w_db w) q e"
proof (cases "cache_lookup (w_cache w) (profile_key sha q) (w_version w) now")
  case (Some e)
  then show ?thesis using lookup_current [OF assms(1) Some assms(2,3)] by (simp add: cachedNodeConfig_def)
next
  case None
  show ?thesis
  proof (cases "lookupSnapshot (w_cache w) (w_version w) now")
    case (Some s)
    then have "same_content s (snapshot_of (w_db w))"
      using assms(1,2) by (auto simp: lookupSnapshot_def world_inv_def snap_inv_def split: option.splits if_splits)
    then show ?thesis using None Some rendered_current by (auto simp: cachedNodeConfig_def snapshotFor_def Let_def)
  next
    case none: None
    have "same_content (build_snapshot (w_version w) now fresh (ListAutoSyncInbounds (w_db w)) (ListActiveUserProxies (w_db w)) (fd_core (w_db w)))
        (snapshot_of (w_db w))" by (rule built_same_content [OF assms(2)])
    then show ?thesis using None none rendered_current
      by (auto simp: cachedNodeConfig_def snapshotFor_def poll_load_def loadNodeConfigSnapshot_def Let_def)
  qed
qed

definition quoted_version :: "nodeConfigResponse \<Rightarrow> string" where
  "quoted_version r = CHR 0x22 # np_Version r @ [CHR 0x22]"

lemma handler_current:
  assumes "world_inv sha w" and "complete_db (w_db w)" and "profileFromNode node = Inr q"
    and "\<And>p. p \<in> set (w_rendered w) \<Longrightarrow> profile_key sha p = profile_key sha q \<Longrightarrow> equal_profiles p q"
  shows "fst (handleGetNodeConfig sha (Some node) (Some (w_version w)) (poll_load w now fresh) ifNoneMatch now (w_cache w)) =
    (let r = response_of sha (w_db w) q
     in if etagMatches ifNoneMatch (quoted_version r) then NotModified_answer (quoted_version r)
        else Config_answer (quoted_version r) (json_print (enc_response r)))"
proof -
  obtain e c where "cachedNodeConfig sha (Some (w_version w)) (poll_load w now fresh) q now (w_cache w) = (Some e, c)"
    "current_entry sha (w_db w) q e" using cachedNodeConfig_current [OF assms(1,2,4)] by blast
  then show ?thesis using assms(3) by (simp add: handleGetNodeConfig_def current_entry_def quoted_version_def Let_def)
qed

text \<open>C13. The panel never serves a stale configuration. After any interleaving of data changes, version
  reads, loads whose queries run at different times, and renderings, for any number of profiles, a
  poll that now runs undisturbed gets exactly the payload of the current data for its profile, or
  the answer that its copy is current when its entity tag matches, whether it comes from a cached
  body, a cached snapshot or a fresh load; a load that overlapped a change is never used after the
  change. Assumed is that stored settings are complete, that the hash has its length and does not
  collide on the profiles in use.\<close>

theorem polls_are_current:
  assumes "w = foldl (world_step sha) (world_init db v) events" and "complete_db (w_db w)" and "profileFromNode node = Inr q"
    and "\<And>x. length (sha x) = 32" and "profile_ok q" and "\<forall>p \<in> set (w_rendered w). profile_ok p \<and> no_collision sha p q"
  shows "fst (handleGetNodeConfig sha (Some node) (Some (w_version w)) (poll_load w now fresh) ifNoneMatch now (w_cache w)) =
    (let r = response_of sha (w_db w) q
     in if etagMatches ifNoneMatch (quoted_version r) then NotModified_answer (quoted_version r)
        else Config_answer (quoted_version r) (json_print (enc_response r)))"
proof (rule handler_current [OF _ assms(2,3)])
  show "world_inv sha w" unfolding assms(1) by (rule panel_ts.inv_run) (rule world_inv_init)
  show "equal_profiles p q" if "p \<in> set (w_rendered w)" "profile_key sha p = profile_key sha q" for p
    using equal_keys_profiles(2) [OF that(2) assms(4)] that(1) assms(5,6) by blast
qed

lemma example_complete: "complete_db example_fleet"
proof -
  have "settings_utf8 (VLESS ''u2'' ''xtls-rprx-vision'')" by (auto simp: settings_utf8_def intro!: utf8_Valid_ascii)
  from complete_stored [OF this, of "[]" "[]"] show ?thesis
    by (simp add: complete_db_def example_fleet_def example_stored settings_type_def)
qed

lemma example_response_of: "response_of zero_sha example_fleet all_profile = example_response"
proof -
  have "same_content example_snapshot (snapshot_of example_fleet)"
    unfolding example_snapshot_def by (rule built_same_content [OF example_complete])
  from render_same_content [OF this] show ?thesis by (simp add: response_of_def example_response_def)
qed

lemma all_profile_ok: "profile_ok all_profile"
  by (auto simp: profile_ok_def all_profile_def key_json_def sort_strings_def enc_slice_def enc_overrides_def zero_overrides_def omit_ptr_def
      omit_def overrides_in_range_def intro!: utf8_Valid_ascii)

definition default_fields :: nodeProfileFields where
  "default_fields = \<lparr>nf_tags = [], nf_ports = [], nf_overrides = ''{}''\<rparr>"

lemma default_fields: "profileFromNode default_fields = Inr all_profile"
  by (simp add: profileFromNode_def default_fields_def parse_empty_object all_profile_def)

text \<open>A load that overlaps a change: its entry, of version 1, is not used at version 2.\<close>

definition stale_fleet :: fleet_db where
  "stale_fleet = example_fleet\<lparr>fd_core := example_dto\<lparr>co_LogLevel := ''debug''\<rparr>\<rparr>"

definition example_events :: "world_event list" where
  "example_events = [ReadVersion, BeginLoad 1, ReadInbounds 0, ReadProxies 0, ReadCore 0, Change example_fleet 0,
     FinishLoad 0 0 no_fresh, RenderEntry all_profile 1 0]"

definition example_world :: world where
  "example_world = foldl (world_step zero_sha) (world_init stale_fleet 1) example_events"

lemma example_world: "w_db example_world = example_fleet" "w_version example_world = 2"
  "\<forall>p \<in> set (w_rendered example_world). profile_ok p \<and> no_collision zero_sha p all_profile"
proof -
  have "w_db example_world = example_fleet \<and> w_version example_world = 2 \<and> set (w_rendered example_world) \<subseteq> {all_profile}"
    by (auto simp: example_world_def example_events_def world_init_def update_load_def bump_data_version_def split: option.split)
  moreover have "no_collision zero_sha all_profile all_profile" by (simp add: no_collision_def)
  ultimately show "w_db example_world = example_fleet" "w_version example_world = 2"
    "\<forall>p \<in> set (w_rendered example_world). profile_ok p \<and> no_collision zero_sha p all_profile"
    using all_profile_ok by auto
qed

lemma zero_sha_length: "length (zero_sha x) = 32"
  by (simp add: zero_sha_def)

theorem polls_are_current_witness:
  "fst (handleGetNodeConfig zero_sha (Some default_fields) (Some 2) (poll_load example_world 5 no_fresh) [] 5 (w_cache example_world)) =
     Config_answer (CHR 0x22 # replicate 64 (CHR ''0'') @ [CHR 0x22]) (json_print (enc_response example_response))"
proof -
  have "fst (handleGetNodeConfig zero_sha (Some default_fields) (Some (w_version example_world)) (poll_load example_world 5 no_fresh) [] 5 (w_cache example_world)) =
      (if etagMatches [] (quoted_version example_response) then NotModified_answer (quoted_version example_response)
       else Config_answer (quoted_version example_response) (json_print (enc_response example_response)))"
    using polls_are_current [OF example_world_def, where node = default_fields and q = all_profile and now = 5 and fresh = no_fresh and ifNoneMatch = "[]"]
      all_profile_ok default_fields example_complete example_world zero_sha_length
    by (simp add: example_response_of Let_def)
  moreover have "np_Version example_response = replicate 64 (CHR ''0'')" by (simp add: example_response)
  moreover have "\<not> etagMatches [] (CHR 0x22 # s)" for s
    by (simp add: etagMatches_def TrimPrefix_def TrimSpace_def HasPrefix_def)
  ultimately show ?thesis by (simp add: quoted_version_def example_world)
qed

end
