(* ===== verification/ConfigDelivery.thy ===== *)
theory ConfigDelivery
  imports ConfigCache ConfigSync
begin

text \<open>
  From the panel's database to the running core of a node: the handler and its cache on one side, the
  pull of the node on the other, over the bytes of the response.
\<close>

section \<open>The panel as the node sees it\<close>

definition if_none_match :: "string option \<Rightarrow> string" where
  "if_none_match v = (case v of None \<Rightarrow> [] | Some v \<Rightarrow> CHR 0x22 # v @ [CHR 0x22])"

text \<open>The request of \<open>pullOnce\<close>: the answer's status, and its body decoded.\<close>

definition http_panel :: "(string \<Rightarrow> string) \<Rightarrow> world \<Rightarrow> nodeProfileFields \<Rightarrow> instant \<Rightarrow> (nat \<Rightarrow> string \<times> string) \<Rightarrow> string option \<Rightarrow> pull_resp" where
  "http_panel sha w node now fresh v =
     (case fst (handleGetNodeConfig sha (Some node) (Some (w_version w)) (poll_load w now fresh) (if_none_match v) now (w_cache w)) of
        ServerError \<Rightarrow> BadStatus
      | NotModified_answer _ \<Rightarrow> NotModified
      | Config_answer _ body \<Rightarrow> (case decode_pulled body of None \<Rightarrow> Undecodable | Some c \<Rightarrow> Pulled c))"

definition version_ok :: "string \<Rightarrow> bool" where
  "version_ok v \<longleftrightarrow> set v \<subseteq> set hex_digits"

lemma TrimSpace_quoted: "TrimSpace (CHR 0x22 # s @ [CHR 0x22]) = CHR 0x22 # s @ [CHR 0x22]"
proof -
  have "space_width space_runes (CHR 0x22 # s @ [CHR 0x22]) = 0" "space_width (map rev space_runes) (rev (CHR 0x22 # s @ [CHR 0x22])) = 0"
    by (simp_all add: space_width_def space_runes_def HasPrefix_def)
  then show ?thesis by (simp add: TrimSpace_def trim_left_zero Let_def)
qed

lemma etag_quoted:
  assumes "version_ok v"
  shows "etagMatches (if_none_match (Some v)) (quoted_version r) \<longleftrightarrow> v = np_Version r"
proof -
  have "CHR '','' \<notin> set (CHR 0x22 # v @ [CHR 0x22])" using assms by (auto simp: version_ok_def hex_digits_def)
  then show ?thesis
    by (auto simp: etagMatches_def if_none_match_def quoted_version_def TrimSpace_quoted TrimPrefix_def HasPrefix_def)
qed

lemma etag_absent: "\<not> etagMatches (if_none_match None) (quoted_version r)"
  by (simp add: etagMatches_def if_none_match_def quoted_version_def TrimPrefix_def TrimSpace_def HasPrefix_def)

lemma response_version: "version_ok (np_Version (response_of sha db q))"
  using hex_chars by (auto simp: version_ok_def response_of_def render_def Let_def)

lemma http_panel_current:
  assumes "world_inv sha w" and "complete_db (w_db w)" and "profileFromNode node = Inr q"
    and "\<And>p. p \<in> set (w_rendered w) \<Longrightarrow> profile_key sha p = profile_key sha q \<Longrightarrow> equal_profiles p q"
    and "payload_ok (response_of sha (w_db w) q)" and "case v of None \<Rightarrow> True | Some v \<Rightarrow> version_ok v"
  shows "http_panel sha w node now fresh v = panel_of (pulled_of (response_of sha (w_db w) q)) v"
proof -
  have "etagMatches (if_none_match v) (quoted_version (response_of sha (w_db w) q)) \<longleftrightarrow> v = Some (np_Version (response_of sha (w_db w) q))"
    using assms(6) etag_quoted etag_absent by (cases v) auto
  moreover have "fst (handleGetNodeConfig sha (Some node) (Some (w_version w)) (poll_load w now fresh) (if_none_match v) now (w_cache w)) =
      (let r = response_of sha (w_db w) q
       in if etagMatches (if_none_match v) (quoted_version r) then NotModified_answer (quoted_version r)
          else Config_answer (quoted_version r) (json_print (enc_response r)))"
    by (rule handler_current [OF assms(1-3)]) (rule assms(4))
  ultimately show ?thesis using decode_response [OF assms(5)] by (simp add: http_panel_def panel_of_def Let_def pulled_of_def)
qed

text \<open>A pull depends on the panel only by its answer to the one request it makes.\<close>

lemma pullOnce_cong:
  assumes "\<And>v. v = None \<or> (\<exists>c. sv_lastPulled s = Some c \<and> v = Some (pc_Version c)) \<Longrightarrow> panel v = panel' v"
  shows "pullOnce api ci panel s = pullOnce api ci panel' s"
proof -
  have "panel (if runningLastPulledLocked s then map_option pc_Version (sv_lastPulled s) else None) =
      panel' (if runningLastPulledLocked s then map_option pc_Version (sv_lastPulled s) else None)"
    using assms by (cases "sv_lastPulled s") auto
  then show ?thesis unfolding pullOnce_def by simp
qed

section \<open>The payload is well formed\<close>

text \<open>What the schema and the forms guarantee: tags are unique and hold no separator, protocols are known.\<close>

definition wf_fleet :: "fleet_db \<Rightarrow> bool" where
  "wf_fleet db \<longleftrightarrow> distinct (map ir_Tag (fd_inbounds db))
     \<and> (\<forall>i \<in> set (fd_inbounds db). CHR ''#'' \<notin> set (ir_Tag i) \<and> ProxyType_Valid (ir_Protocol i))"

lemma of_int_port_inject: "1 \<le> a \<Longrightarrow> a \<le> 65535 \<Longrightarrow> 1 \<le> b \<Longrightarrow> b \<le> 65535 \<Longrightarrow> (of_int a :: uint16) = of_int b \<longleftrightarrow> a = b"
proof -
  assume "1 \<le> a" "a \<le> 65535" "1 \<le> b" "b \<le> 65535"
  then have "take_bit 16 a = a" "take_bit 16 b = b" by (simp_all add: take_bit_int_eq_self)
  then show ?thesis by (simp add: word_of_int_eq_iff)
qed

lemma distinct_multi: "distinct ps \<Longrightarrow> distinct (multiListenPorts ps)"
  by (auto simp: multiListenPorts_def validHostPorts_def Let_def distinct_map inj_on_def of_int_port_inject)

lemma sync_row_props:
  assumes "r \<in> set (ListAutoSyncInbounds db)"
  shows "distinct (sy_Ports r)" and "\<exists>i \<in> set (fd_inbounds db). ir_Tag r = ir_Tag i \<and> ir_Protocol r = ir_Protocol i"
proof -
  obtain i where i: "i \<in> set (fd_inbounds db)" "sync_inbound db i = Some r"
    using assms by (auto simp: ListAutoSyncInbounds_def map_filter_def)
  then show "distinct (sy_Ports r)" "\<exists>i \<in> set (fd_inbounds db). ir_Tag r = ir_Tag i \<and> ir_Protocol r = ir_Protocol i"
    by (auto simp: sync_inbound_def inbound_row.defs split: list.splits if_splits)
qed

lemma distinct_map_map_filter:
  assumes "distinct (map g xs)" and "\<And>x y. x \<in> set xs \<Longrightarrow> f x = Some y \<Longrightarrow> h y = g x"
  shows "distinct (map h (List.map_filter f xs))"
  using assms
proof (induction xs)
  case (Cons x xs)
  have "h y \<notin> h ` set (List.map_filter f xs)" if "f x = Some y" for y
  proof
    assume "h y \<in> h ` set (List.map_filter f xs)"
    then obtain x' y' where x': "x' \<in> set xs" "f x' = Some y'" "h y' = h y" by (auto simp: map_filter_def)
    then have "g x' = g x" using Cons.prems(2) [of x' y'] Cons.prems(2) [of x y] that by simp
    then show False using Cons.prems(1) x'(1) by (auto simp: image_iff)
  qed
  then show ?case using Cons by (cases "f x") auto
qed simp

lemma distinct_sync_tags: "wf_fleet db \<Longrightarrow> distinct (map ir_Tag (ListAutoSyncInbounds db))"
proof -
  assume wf: "wf_fleet db"
  have "ir_Tag r = ir_Tag i" if "sync_inbound db i = Some r" for r :: sync_row and i
    using that by (auto simp: sync_inbound_def inbound_row.defs split: list.splits if_splits)
  then have "distinct (map ir_Tag (List.map_filter (sync_inbound db) (fd_inbounds db)))"
    using wf by (intro distinct_map_map_filter [where g = ir_Tag]) (auto simp: wf_fleet_def)
  then show ?thesis by (simp add: ListAutoSyncInbounds_def distinct_map_sort_key)
qed

lemma filterInbounds_tags:
  assumes "distinct (map in_Tag ins)"
  shows "distinct (map in_Tag (filterInbounds p ins))"
proof -
  have "in_Tag i' = in_Tag i" if "filter_inbound p i = Some i'" for i i' :: "'a inboundSpec_scheme"
    using same_but_ports_fields [OF filter_inbound_keeps(1) [OF that]] by simp
  then have "distinct (map in_Tag (List.map_filter (filter_inbound p) ins))"
    using assms by (intro distinct_map_map_filter [where g = in_Tag]) auto
  then show ?thesis using assms by (simp add: filterInbounds_def)
qed

lemma filter_inbound_distinct:
  assumes "filter_inbound p i = Some i'" and "distinct (specPorts i)"
  shows "distinct (specPorts i')"
proof -
  have "map (Pair (in_Tag i)) (specPorts i') = filter (allowed p) (map (Pair (in_Tag i)) (specPorts i))"
    using filter_inbound_ports [of i p] assms(1) by simp
  moreover have "distinct (map (Pair (in_Tag i)) (specPorts i))" using assms(2) by (simp add: distinct_map inj_on_def)
  ultimately have "distinct (map (Pair (in_Tag i)) (specPorts i'))" by simp
  then show ?thesis by (simp add: distinct_map)
qed

lemma filterInbounds_member:
  assumes "i' \<in> set (filterInbounds p ins)"
  shows "\<exists>i \<in> set ins. same_but_ports i i' \<and> (distinct (specPorts i) \<longrightarrow> distinct (specPorts i'))"
proof (cases "pf_InboundTags p = [] \<and> pf_ListenPorts p = []")
  case True
  then show ?thesis using assms by (auto simp: filterInbounds_def intro!: bexI [of _ i'])
next
  case False
  then obtain i where "i \<in> set ins" "filter_inbound p i = Some i'" using assms by (auto simp: filterInbounds_def map_filter_def)
  then show ?thesis using filter_inbound_keeps(1) filter_inbound_distinct by blast
qed

lemma specPorts_truncate: "specPorts (inboundSpec.truncate i) = specPorts i"
  by (simp add: specPorts_def inboundSpec.defs)

lemma specPorts_ports: "ports (inboundSpec.truncate i) = specPorts i"
  by (simp add: ports_def specPorts_def inboundSpec.defs)

lemma response_inbounds: "np_Inbounds (response_of sha db q) = filterInbounds q (sn_inbounds (snapshot_of db))"
  by (simp add: response_of_def render_def Let_def)

lemma snapshot_inbound:
  assumes "i \<in> set (sn_inbounds (snapshot_of db))"
  shows "\<exists>r \<in> set (ListAutoSyncInbounds db). in_Tag i = ir_Tag r \<and> distinct (specPorts i)"
proof -
  obtain m r where r: "r \<in> set (ListAutoSyncInbounds db)" "i = inbound_spec m r"
    using assms by (auto simp: snapshot_of_def build_snapshot_def Let_def)
  then have "distinct (in_ListenPorts i)" using distinct_multi [OF sync_row_props(1) [OF r(1)]] by (simp add: inbound_spec_def)
  then show ?thesis using r by (auto simp: specPorts_def inbound_spec_def)
qed

lemma response_wf:
  assumes "wf_fleet db"
  shows "wf_config (pulled_of (response_of sha db q))"
proof -
  have "map in_Tag (sn_inbounds (snapshot_of db)) = map ir_Tag (ListAutoSyncInbounds db)"
    by (simp add: snapshot_of_def build_snapshot_def Let_def inbound_spec_def)
  then have "distinct (map in_Tag (filterInbounds q (sn_inbounds (snapshot_of db))))"
    using filterInbounds_tags distinct_sync_tags [OF assms] by metis
  moreover have "CHR ''#'' \<notin> set (in_Tag i') \<and> distinct (specPorts i')" if i': "i' \<in> set (filterInbounds q (sn_inbounds (snapshot_of db)))" for i'
  proof -
    obtain i where i: "i \<in> set (sn_inbounds (snapshot_of db))" "same_but_ports i i'" "distinct (specPorts i) \<longrightarrow> distinct (specPorts i')"
      using filterInbounds_member [OF i'] by blast
    obtain r where r: "r \<in> set (ListAutoSyncInbounds db)" "in_Tag i = ir_Tag r" "distinct (specPorts i)" using snapshot_inbound [OF i(1)] by blast
    have "CHR ''#'' \<notin> set (ir_Tag r)" using sync_row_props(2) [OF r(1)] assms by (auto simp: wf_fleet_def)
    then show ?thesis using i r same_but_ports_fields [OF i(2)] by simp
  qed
  moreover have "in_Tag (inboundSpec.truncate i) = in_Tag i" for i :: nodeConfigInboundSpec by (simp add: inboundSpec.defs)
  ultimately show ?thesis by (auto simp: wf_config_def pulled_of_def response_inbounds specPorts_ports comp_def)
qed

section \<open>From the database to the core\<close>


text \<open>The fleet of one inbound, changed while a load was under way: a first pull brings up its two listeners.\<close>

lemma example_fleet_wf: "wf_fleet example_fleet"
  by (simp add: wf_fleet_def example_fleet_def ProxyType_Valid_def)

lemma example_response_builds: "\<exists>opts plan. buildOptionsPlan example_ciphers (config_request (pulled_of example_response)) = Inr (opts, plan)"
  by (simp add: pulled_of_def example_response example_inbound_spec_def inboundSpec.defs config_request_def example_config example_dto_def coreSpec.defs
      buildOptionsPlan_def add_inbound_eq inbound_error_def buildInboundTransport_def buildCoreOptions_def
      add_outbound_def leafOutboundOptions_def Let_def)


end
