(* ===== verification/UserDB.thy ===== *)
theory UserDB
  imports PanelDB ProxySettings "HOL-Library.List_Lexorder"
begin

text \<open>
  The statements the API handlers run on users, their proxies and their plans
  (\<open>internal/db/queries/users.sql\<close>, \<open>proxies.sql\<close>, \<open>next_plans.sql\<close>, \<open>usage.sql\<close>, \<open>tickets.sql\<close>), over the state of
  \<open>PanelDB\<close>. The checks, keys and cascades of the schema are part of the statements. The \<open>jsonb\<close> column
  \<open>settings\<close> holds the text that was sent; \<open>ProxySettings\<close> shows that its normalisation does not matter.
\<close>

section \<open>Users\<close>

text \<open>Characters, not bytes: those that do not continue a UTF-8 sequence.\<close>

definition char_length :: "string \<Rightarrow> nat" where
  "char_length s = length (filter (\<lambda>c. byte c < 128 \<or> 192 \<le> byte c) s)"

definition user_statuses :: "string list" where
  "user_statuses = [''active'', ''disabled'', ''limited'', ''expired'', ''on_hold'']"

definition reset_strategies :: "string list" where
  "reset_strategies = [''no_reset'', ''day'', ''week'', ''month'', ''year'']"

definition row_ok :: "panel \<Rightarrow> User \<Rightarrow> bool" where
  "row_ok p u \<longleftrightarrow> char_length (u_username u) \<le> 34 \<and> u_status u \<in> set user_statuses \<and> u_strategy u \<in> set reset_strategies
     \<and> (case u_admin_id u of None \<Rightarrow> True | Some a \<Rightarrow> a \<in> a_id ` set (p_admins p))
     \<and> (case u_note u of None \<Rightarrow> True | Some n \<Rightarrow> char_length n \<le> 500)"

text \<open>A new row: the given columns, the others at their defaults.\<close>

definition new_user :: "int \<Rightarrow> instant \<Rightarrow> string \<Rightarrow> string \<Rightarrow> int option \<Rightarrow> string \<Rightarrow> int option \<Rightarrow> int option \<Rightarrow> string option
    \<Rightarrow> int option \<Rightarrow> instant option \<Rightarrow> int option \<Rightarrow> string option \<Rightarrow> User" where
  "new_user uid now username status dataLimit strategy expire adminID note holdDuration holdTimeout autoDelete synced =
     \<lparr>u_id = uid, u_username = username, u_status = status, u_used_traffic = 0, u_data_limit = dataLimit, u_expire = expire,
      u_admin_id = adminID, u_strategy = strategy, u_created_at = now, u_edit_at = None, u_online_at = None,
      u_on_hold_timeout = holdTimeout, u_on_hold_expire_duration = holdDuration, u_last_status_change = Some now, u_note = note,
      u_auto_delete_in_days = autoDelete, u_sub_revoked_at = None, u_sub_updated_at = None, u_sub_last_user_agent = None,
      u_emergency_used_at = None, u_synced_from_panel_name = synced\<rparr>"

definition insert_user :: "(int \<Rightarrow> instant \<Rightarrow> User) \<Rightarrow> User act" where
  "insert_user row = stmt (\<lambda>p.
     (let uid = fst (p_serial p) + 1; u = row uid (p_now p)
      in if \<not> row_ok p u then (Inl DbError, p)
         else if u_username u \<in> u_username ` set (p_users p) then (Inl UniqueViolation, p)
         else (Inr u, p\<lparr>p_users := p_users p @ [u], p_serial := (uid, snd (p_serial p))\<rparr>)))"

definition CreateUser :: "string \<Rightarrow> string \<Rightarrow> int option \<Rightarrow> string \<Rightarrow> int option \<Rightarrow> int option \<Rightarrow> string option
    \<Rightarrow> int option \<Rightarrow> instant option \<Rightarrow> int option \<Rightarrow> User act" where
  "CreateUser username status dataLimit strategy expire adminID note holdDuration holdTimeout autoDelete =
     insert_user (\<lambda>uid now. new_user uid now username status dataLimit strategy expire adminID note holdDuration holdTimeout autoDelete None)"

definition CreateGatewaySyncedUser :: "string \<Rightarrow> string \<Rightarrow> int option \<Rightarrow> string \<Rightarrow> int option \<Rightarrow> string option \<Rightarrow> User act" where
  "CreateGatewaySyncedUser username status dataLimit strategy expire panel =
     insert_user (\<lambda>uid now. new_user uid now username status dataLimit strategy expire None None None None None panel)"

definition user_by_id :: "panel \<Rightarrow> int \<Rightarrow> User option" where
  "user_by_id p uid = find (\<lambda>u. u_id u = uid) (p_users p)"

definition user_by_name :: "panel \<Rightarrow> string \<Rightarrow> User option" where
  "user_by_name p name = find (\<lambda>u. u_username u = name) (p_users p)"

definition GetUserByUsername :: "string \<Rightarrow> User act" where
  "GetUserByUsername name = stmt (\<lambda>p. (case user_by_name p name of None \<Rightarrow> Inl ErrNoRows | Some u \<Rightarrow> Inr u, p))"

definition GetUserByID :: "int \<Rightarrow> User act" where
  "GetUserByID uid = stmt (\<lambda>p. (case user_by_id p uid of None \<Rightarrow> Inl ErrNoRows | Some u \<Rightarrow> Inr u, p))"

text \<open>\<open>UPDATE users SET \<dots> WHERE id = $1 RETURNING *\<close>.\<close>

definition update_user :: "int \<Rightarrow> (instant \<Rightarrow> User \<Rightarrow> User) \<Rightarrow> User act" where
  "update_user uid f = stmt (\<lambda>p.
     (case user_by_id p uid of
        None \<Rightarrow> (Inl ErrNoRows, p)
      | Some u \<Rightarrow>
          if row_ok p (f (p_now p) u)
          then (Inr (f (p_now p) u), set_users (\<lambda>v. if u_id v = uid then f (p_now p) v else v) p)
          else (Inl DbError, p)))"

definition UpdateUserCore :: "int \<Rightarrow> string \<Rightarrow> int option \<Rightarrow> string \<Rightarrow> int option \<Rightarrow> string option \<Rightarrow> int option
    \<Rightarrow> instant option \<Rightarrow> int option \<Rightarrow> User act" where
  "UpdateUserCore uid status dataLimit strategy expire note holdDuration holdTimeout autoDelete = update_user uid (\<lambda>now u.
     u\<lparr>u_status := status, u_data_limit := dataLimit, u_strategy := strategy, u_expire := expire, u_note := note,
       u_on_hold_expire_duration := holdDuration, u_on_hold_timeout := holdTimeout, u_auto_delete_in_days := autoDelete,
       u_edit_at := Some now\<rparr>)"

definition UpdateGatewaySyncedUser :: "int \<Rightarrow> string \<Rightarrow> int option \<Rightarrow> string \<Rightarrow> int option \<Rightarrow> User act" where
  "UpdateGatewaySyncedUser uid status dataLimit strategy expire = update_user uid (\<lambda>now u.
     u\<lparr>u_status := status, u_data_limit := dataLimit, u_strategy := strategy, u_expire := expire, u_edit_at := Some now\<rparr>)"

definition ResetUserTraffic :: "int \<Rightarrow> string \<Rightarrow> User act" where
  "ResetUserTraffic uid status = update_user uid (\<lambda>now u. u\<lparr>u_used_traffic := 0, u_status := status\<rparr>)"

definition SetUserSubRevoked :: "int \<Rightarrow> User act" where
  "SetUserSubRevoked uid = update_user uid (\<lambda>now u. u\<lparr>u_sub_revoked_at := Some now\<rparr>)"

definition SetUserOwner :: "int \<Rightarrow> int \<Rightarrow> User act" where
  "SetUserOwner uid aid = update_user uid (\<lambda>now u. u\<lparr>u_admin_id := Some aid\<rparr>)"

definition UpdateUserSub :: "int \<Rightarrow> string \<Rightarrow> unit act" where
  "UpdateUserSub uid agent = stmt (\<lambda>p. (Inr (), set_users (\<lambda>v. if u_id v = uid
     then v\<lparr>u_sub_updated_at := Some (p_now p), u_sub_last_user_agent := Some agent\<rparr> else v) p))"

definition recharged :: "instant \<Rightarrow> User \<Rightarrow> User" where
  "recharged now u =
     u\<lparr>u_emergency_used_at := Some now,
       u_data_limit := map_option (\<lambda>d. if d > 0 then d + 52428800 else d) (u_data_limit u),
       u_expire := map_option (\<lambda>e. if e > 0 then max e (epoch_int now) + 1800 else e) (u_expire u),
       u_status := ''active'', u_last_status_change := Some now\<rparr>"

definition ApplyEmergencyRecharge :: "int \<Rightarrow> User act" where
  "ApplyEmergencyRecharge uid = stmt (\<lambda>p.
     (case find (\<lambda>u. u_id u = uid \<and> u_emergency_used_at u = None) (p_users p) of
        None \<Rightarrow> (Inl ErrNoRows, p)
      | Some u \<Rightarrow> (Inr (recharged (p_now p) u),
          set_users (\<lambda>v. if u_id v = uid \<and> u_emergency_used_at v = None then recharged (p_now p) v else v) p)))"

text \<open>The statements of the bulk endpoints.\<close>

definition ListAllUserIDs :: "int list act" where
  "ListAllUserIDs = stmt (\<lambda>p. (Inr (map u_id (p_users p)), p))"

definition ListUserIDsByAdmin :: "int \<Rightarrow> int list act" where
  "ListUserIDsByAdmin aid = stmt (\<lambda>p. (Inr (map u_id (filter (\<lambda>u. u_admin_id u = Some aid) (p_users p))), p))"

definition reset_usage :: "User \<Rightarrow> User" where
  "reset_usage u = u\<lparr>u_used_traffic := 0,
     u_status := (if u_status u \<in> set [''on_hold'', ''expired'', ''disabled''] then u_status u else ''active'')\<rparr>"

definition ResetUsersUsageByIDs :: "int list \<Rightarrow> unit act" where
  "ResetUsersUsageByIDs ids = stmt (\<lambda>p. (Inr (), set_users (\<lambda>u. if u_id u \<in> set ids then reset_usage u else u) p))"

definition DeleteNodeUserUsagesByUserIDs :: "int list \<Rightarrow> unit act" where
  "DeleteNodeUserUsagesByUserIDs ids = stmt (\<lambda>p.
     (Inr (), p\<lparr>p_user_usages := filter (\<lambda>r. nuu_user_id r \<notin> set ids) (p_user_usages p)\<rparr>))"

definition DeleteUserUsageLogsByUserIDs :: "int list \<Rightarrow> unit act" where
  "DeleteUserUsageLogsByUserIDs ids = stmt (\<lambda>p. (Inr (), p\<lparr>p_usage_logs := filter (\<lambda>(uid, _). uid \<notin> set ids) (p_usage_logs p)\<rparr>))"

definition DeleteNextPlansByUserIDs :: "int list \<Rightarrow> unit act" where
  "DeleteNextPlansByUserIDs ids = stmt (\<lambda>p. (Inr (), p\<lparr>p_plans := filter (\<lambda>np. np_user_id np \<notin> set ids) (p_plans p)\<rparr>))"

definition is_expired_row :: "int \<Rightarrow> int \<Rightarrow> int option \<Rightarrow> User \<Rightarrow> bool" where
  "is_expired_row after before scope u \<longleftrightarrow> u_status u \<in> set [''expired'', ''limited'']
     \<and> (case u_expire u of None \<Rightarrow> False | Some e \<Rightarrow> after \<le> e \<and> e \<le> before)
     \<and> (case scope of None \<Rightarrow> True | Some aid \<Rightarrow> u_admin_id u = Some aid)"

text \<open>\<open>scope\<close> is the admin of \<open>ListExpiredUsersByAdmin\<close>, \<open>None\<close> for \<open>ListExpiredUsers\<close>.\<close>

definition ListExpiredUsers :: "int \<Rightarrow> int \<Rightarrow> int option \<Rightarrow> User list act" where
  "ListExpiredUsers after before scope = stmt (\<lambda>p. (Inr (sort_key u_id (filter (is_expired_row after before scope) (p_users p))), p))"

definition CountUsers :: "int \<Rightarrow> string list \<Rightarrow> nat act" where
  "CountUsers aid statuses = stmt (\<lambda>p.
     (Inr (length (filter (\<lambda>u. u_admin_id u = Some aid \<and> u_status u \<in> set statuses) (p_users p))), p))"

section \<open>Deleting users\<close>

text \<open>The cascades: proxies, their exclusions, plans, usage logs and hourly rows.\<close>

definition remove_users :: "int set \<Rightarrow> panel \<Rightarrow> panel" where
  "remove_users ids p =
     (let gone = pr_id ` set (filter (\<lambda>r. pr_user_id r \<in> ids) (p_proxies p))
      in p\<lparr>p_users := filter (\<lambda>u. u_id u \<notin> ids) (p_users p),
           p_proxies := filter (\<lambda>r. pr_user_id r \<notin> ids) (p_proxies p),
           p_excluded := filter (\<lambda>(pid, _). pid \<notin> gone) (p_excluded p),
           p_plans := filter (\<lambda>np. np_user_id np \<notin> ids) (p_plans p),
           p_usage_logs := filter (\<lambda>(uid, _). uid \<notin> ids) (p_usage_logs p),
           p_user_usages := filter (\<lambda>r. nuu_user_id r \<notin> ids) (p_user_usages p)\<rparr>)"

definition DeleteUser :: "int \<Rightarrow> unit act" where
  "DeleteUser uid = stmt (\<lambda>p. (Inr (), remove_users {uid} p))"

definition DeleteUsersByIDs :: "int list \<Rightarrow> unit act" where
  "DeleteUsersByIDs ids = stmt (\<lambda>p. (Inr (), remove_users (set ids) p))"

section \<open>Proxies, exclusions and plans\<close>

definition ListProxiesByUserID :: "int \<Rightarrow> Proxy list act" where
  "ListProxiesByUserID uid = stmt (\<lambda>p. (Inr (sort_key pr_id (filter (\<lambda>r. pr_user_id r = uid) (p_proxies p))), p))"

definition ListProxiesByUserIDs :: "int list \<Rightarrow> Proxy list act" where
  "ListProxiesByUserIDs ids = stmt (\<lambda>p.
     (Inr (sort_key pr_user_id (sort_key pr_id (filter (\<lambda>r. pr_user_id r \<in> set ids) (p_proxies p)))), p))"

definition CreateProxy :: "int \<Rightarrow> string \<Rightarrow> string \<Rightarrow> Proxy act" where
  "CreateProxy uid type settings = stmt (\<lambda>p.
     (let pid = snd (p_serial p) + 1; r = \<lparr>pr_id = pid, pr_user_id = uid, pr_type = type, pr_settings = settings\<rparr>
      in if \<not> ProxyType_Valid type \<or> user_by_id p uid = None then (Inl DbError, p)
         else (Inr r, p\<lparr>p_proxies := p_proxies p @ [r], p_serial := (fst (p_serial p), pid)\<rparr>)))"

definition UpdateProxySettings :: "int \<Rightarrow> string \<Rightarrow> Proxy act" where
  "UpdateProxySettings pid settings = stmt (\<lambda>p.
     (case find (\<lambda>r. pr_id r = pid) (p_proxies p) of
        None \<Rightarrow> (Inl ErrNoRows, p)
      | Some r \<Rightarrow> (Inr (r\<lparr>pr_settings := settings\<rparr>),
          p\<lparr>p_proxies := map (\<lambda>r. if pr_id r = pid then r\<lparr>pr_settings := settings\<rparr> else r) (p_proxies p)\<rparr>)))"

definition DeleteProxyByID :: "int \<Rightarrow> unit act" where
  "DeleteProxyByID pid = stmt (\<lambda>p.
     (Inr (), p\<lparr>p_proxies := filter (\<lambda>r. pr_id r \<noteq> pid) (p_proxies p), p_excluded := filter (\<lambda>(q, _). q \<noteq> pid) (p_excluded p)\<rparr>))"

definition ReplaceExcludedInbounds :: "int \<Rightarrow> string list \<Rightarrow> unit act" where
  "ReplaceExcludedInbounds pid tags = stmt (\<lambda>p.
     (if pid \<notin> pr_id ` set (p_proxies p) \<or> \<not> set tags \<subseteq> fst ` set (p_inbounds p) then (Inl DbError, p)
      else if \<not> distinct tags \<or> (\<exists>t \<in> set tags. (pid, t) \<in> set (p_excluded p)) then (Inl UniqueViolation, p)
      else (Inr (), p\<lparr>p_excluded := p_excluded p @ map (Pair pid) tags\<rparr>)))"

definition DeleteExcludedInbounds :: "int \<Rightarrow> unit act" where
  "DeleteExcludedInbounds pid = stmt (\<lambda>p. (Inr (), p\<lparr>p_excluded := filter (\<lambda>(q, _). q \<noteq> pid) (p_excluded p)\<rparr>))"

text \<open>Rows ordered by proxy id, then by tag.\<close>

definition ListExcludedInboundTagsByProxyIDs :: "int list \<Rightarrow> (int \<times> string) list act" where
  "ListExcludedInboundTagsByProxyIDs ids = stmt (\<lambda>p.
     (Inr (sort_key fst (sort_key (\<lambda>e. map byte (snd e)) (filter (\<lambda>(pid, _). pid \<in> set ids) (p_excluded p)))), p))"

definition ListInboundTagsByProtocol :: "string \<Rightarrow> string list act" where
  "ListInboundTagsByProtocol protocol = stmt (\<lambda>p.
     (Inr (sort_key (map byte) (map fst (filter (\<lambda>(_, t). t = protocol) (p_inbounds p)))), p))"

definition UpsertNextPlan :: "NextPlan \<Rightarrow> NextPlan act" where
  "UpsertNextPlan np = stmt (\<lambda>p.
     (if user_by_id p (np_user_id np) = None then (Inl DbError, p)
      else (Inr np, p\<lparr>p_plans := (if plan_of (p_plans p) (np_user_id np) = None then p_plans p @ [np]
               else map (\<lambda>q. if np_user_id q = np_user_id np then np else q) (p_plans p))\<rparr>)))"

definition GetNextPlansByUserIDs :: "int list \<Rightarrow> NextPlan list act" where
  "GetNextPlansByUserIDs ids = stmt (\<lambda>p. (Inr (filter (\<lambda>np. np_user_id np \<in> set ids) (p_plans p)), p))"

end
