(* ===== verification/UserHandlers.thy ===== *)
theory UserHandlers
  imports UserDB Auth ReviewJob SubToken
begin

text \<open>
  The user endpoints of the API (\<open>internal/httpapi/user.go\<close> and \<open>user_bulk.go\<close>): each handler as a function
  from the request and the database state to the answer and the new state. A Go map is the list of its
  entries in the order the range statement would visit them, which is any order. What the handlers
  read outside of the database is the record \<open>env\<close>: the cached reads of inbounds and admins, presence, the
  subscription token and links, the limit of the reseller API, the clock and the fresh secrets. The
  texts of the errors are left out, their status codes kept.
\<close>

section \<open>Requests and answers\<close>

record nextPlanDTO =
  nd_DataLimit :: int
  nd_Expire :: int
  nd_AddRemainingTraffic :: bool
  nd_FireOnEither :: bool

record userWriteRequest =
  rq_Status :: "string option"
  rq_Proxies :: "(string \<times> string) list"
  rq_Inbounds :: "(string \<times> string list) list"
  rq_Expire :: "int option"
  rq_DataLimit :: "int option"
  rq_Strategy :: "string option"
  rq_Note :: "string option"
  rq_OnHoldExpireDuration :: "int option"
  rq_OnHoldTimeout :: "instant option"
  rq_AutoDeleteInDays :: "int option"
  rq_NextPlan :: "nextPlanDTO option"

record userResponseDTO =
  dto_ID :: int
  dto_Username :: string
  dto_Status :: string
  dto_UsedTraffic :: int
  dto_LifetimeUsedTraffic :: int
  dto_DataLimit :: "int option"
  dto_Strategy :: string
  dto_Expire :: "int option"
  dto_Note :: "string option"
  dto_CreatedAt :: instant
  dto_OnHoldExpireDuration :: "int option"
  dto_OnHoldTimeout :: "instant option"
  dto_AutoDeleteInDays :: "int option"
  dto_SubUpdatedAt :: "instant option"
  dto_SubLastUserAgent :: "string option"
  dto_EmergencyUsedAt :: "instant option"
  dto_Admin :: "Admin option"
  dto_SyncedFromPanelName :: "string option"
  dto_Proxies :: "(string \<times> string) list"
  dto_Inbounds :: "(string \<times> string list) list"
  dto_ExcludedInbounds :: "(string \<times> string list) list"
  dto_NextPlan :: "nextPlanDTO option"
  dto_SubscriptionURL :: string
  dto_OnlineAt :: "instant option"
  dto_Online :: bool
  dto_Links :: "string list"

datatype reply =
    Fail nat
  | Ok
  | UserReply userResponseDTO
  | Names "string list"
  | UserPage "userResponseDTO list" nat

record env =
  ev_known :: "string \<Rightarrow> string list option"
  ev_inbound :: "string \<Rightarrow> bool"
  ev_admin :: "int \<Rightarrow> Admin option"
  ev_online :: "string \<Rightarrow> instant option \<Rightarrow> bool \<times> instant option"
  ev_sub_url :: "string \<Rightarrow> string"
  ev_links :: "User \<Rightarrow> string list option"
  ev_users_limit :: "string \<Rightarrow> int option"
  ev_now :: instant
  ev_fresh :: "string \<Rightarrow> string \<times> string"

type_synonym handler = "panel \<Rightarrow> reply \<times> panel"

text \<open>Run a statement; on an error answer with \<open>onerr\<close>.\<close>

definition attempt :: "'a act \<Rightarrow> (db_error \<Rightarrow> reply) \<Rightarrow> ('a \<Rightarrow> handler) \<Rightarrow> handler" where
  "attempt m onerr k p = (case m p of (Inl e, p') \<Rightarrow> (onerr e, p') | (Inr a, p') \<Rightarrow> k a p')"

abbreviation fail500 :: "db_error \<Rightarrow> reply" where
  "fail500 \<equiv> \<lambda>_. Fail 500"

definition normalizeZero :: "int option \<Rightarrow> int option" where
  "normalizeZero v = (if v = Some 0 then None else v)"

definition normalizeZeroString :: "string option \<Rightarrow> string option" where
  "normalizeZeroString v = (if v = Some [] then None else v)"

definition strOr :: "string option \<Rightarrow> string \<Rightarrow> string" where
  "strOr v fallback = (case v of None \<Rightarrow> fallback | Some s \<Rightarrow> if s = [] then fallback else s)"

definition expireFitsColumn :: "int option \<Rightarrow> bool" where
  "expireFitsColumn e = (case e of None \<Rightarrow> True | Some x \<Rightarrow> - (2 ^ 31) \<le> x \<and> x \<le> 2 ^ 31 - 1)"

definition subtractTags :: "string list \<Rightarrow> string list \<Rightarrow> string list" where
  "subtractTags all exclude = filter (\<lambda>t. t \<notin> set exclude) all"

section \<open>Proxies of a request\<close>

definition isJSONNull :: "string \<Rightarrow> bool" where
  "isJSONNull raw \<longleftrightarrow> TrimSpace raw = ''null''"

definition from_wire :: "env \<Rightarrow> string \<Rightarrow> string \<Rightarrow> Settings option" where
  "from_wire ev t raw = FromWire (fst (ev_fresh ev t)) (snd (ev_fresh ev t)) t raw"

definition resolveProxySettings :: "env \<Rightarrow> (string \<times> string) list \<Rightarrow> ((string \<times> Settings) list \<times> string list) option" where
  "resolveProxySettings ev raws =
     (if \<exists>(t, raw) \<in> set raws. \<not> ProxyType_Valid t \<or> \<not> isJSONNull raw \<and> from_wire ev t raw = None then None
      else Some (List.map_filter (\<lambda>(t, raw). if isJSONNull raw then None else map_option (Pair t) (from_wire ev t raw)) raws,
                 map fst (filter (\<lambda>(_, raw). isJSONNull raw) raws)))"

definition createProxyForUser :: "env \<Rightarrow> int \<Rightarrow> string \<Rightarrow> Settings \<Rightarrow> string list \<Rightarrow> unit act" where
  "createProxyForUser ev uid protocol settings includedTags =
     bnd (CreateProxy uid protocol (Settings_MarshalJSON settings)) (\<lambda>proxy p.
       case ev_known ev protocol of
         None \<Rightarrow> (Inl DbError, p)
       | Some known \<Rightarrow>
           (let excluded = subtractTags known includedTags
            in if excluded \<noteq> [] then ReplaceExcludedInbounds (pr_id proxy) excluded p else ret () p))"

text \<open>The map from type to proxy: of two proxies of one type the later wins.\<close>

definition by_type :: "Proxy list \<Rightarrow> (string \<times> Proxy) list" where
  "by_type proxies = foldl (\<lambda>m r. mput (pr_type r) r m) [] proxies"

definition reconcile_wanted :: "(string \<times> Proxy) list \<Rightarrow> int \<Rightarrow> string \<times> Settings \<Rightarrow> unit act" where
  "reconcile_wanted existing uid =
     (\<lambda>(protocol, settings).
        case map_of existing protocol of
          Some r \<Rightarrow> bnd (UpdateProxySettings (pr_id r) (Settings_MarshalJSON settings)) (\<lambda>_. ret ())
        | None \<Rightarrow> bnd (CreateProxy uid protocol (Settings_MarshalJSON settings)) (\<lambda>_. ret ()))"

definition reconcile_removed :: "string list \<Rightarrow> string list \<Rightarrow> bool \<Rightarrow> Proxy \<Rightarrow> unit act" where
  "reconcile_removed wanted remove deleteOmitted r =
     (if pr_type r \<in> set wanted then ret ()
      else if pr_type r \<in> set remove \<or> deleteOmitted then DeleteProxyByID (pr_id r) else ret ())"

definition reconcileProxies :: "int \<Rightarrow> (string \<times> Settings) list \<Rightarrow> string list \<Rightarrow> bool \<Rightarrow> unit act" where
  "reconcileProxies uid wanted remove deleteOmitted =
     bnd (ListProxiesByUserID uid) (\<lambda>existing.
     bnd (each (reconcile_wanted (by_type existing) uid) wanted) (\<lambda>_.
     each (reconcile_removed (map fst wanted) remove deleteOmitted) existing))"

definition reconcile_inbounds :: "env \<Rightarrow> (string \<times> Proxy) list \<Rightarrow> string \<times> string list \<Rightarrow> unit act" where
  "reconcile_inbounds ev byType =
     (\<lambda>(protocol, tags).
        case map_of byType protocol of
          None \<Rightarrow> ret ()
        | Some r \<Rightarrow>
            (\<lambda>p. case ev_known ev protocol of
               None \<Rightarrow> (Inl DbError, p)
             | Some known \<Rightarrow>
                 (let excluded = subtractTags known tags
                  in bnd (DeleteExcludedInbounds (pr_id r)) (\<lambda>_.
                     if excluded \<noteq> [] then ReplaceExcludedInbounds (pr_id r) excluded else ret ()) p)))"

definition reconcileExcludedInbounds :: "env \<Rightarrow> int \<Rightarrow> (string \<times> string list) list \<Rightarrow> unit act" where
  "reconcileExcludedInbounds ev uid wanted =
     bnd (ListProxiesByUserID uid) (\<lambda>proxies. each (reconcile_inbounds ev (by_type proxies)) wanted)"

section \<open>Answers\<close>

definition next_plan_dto :: "NextPlan \<Rightarrow> nextPlanDTO" where
  "next_plan_dto np = \<lparr>nd_DataLimit = np_data_limit np, nd_Expire = (case np_expire np of None \<Rightarrow> 0 | Some e \<Rightarrow> e),
     nd_AddRemainingTraffic = np_add_remaining_traffic np, nd_FireOnEither = np_fire_on_either np\<rparr>"

text \<open>The three maps of a response, filled proxy by proxy.\<close>

definition fill_proxies :: "(int \<Rightarrow> string list) \<Rightarrow> (string \<Rightarrow> string list) \<Rightarrow> Proxy list
    \<Rightarrow> (string \<times> string) list \<times> (string \<times> string list) list \<times> (string \<times> string list) list" where
  "fill_proxies excludedOf known proxies =
     foldl (\<lambda>(ps, is, es) r.
       (mput (pr_type r) (pr_settings r) ps,
        mput (pr_type r) (subtractTags (known (pr_type r)) (excludedOf (pr_id r))) is,
        mput (pr_type r) (excludedOf (pr_id r)) es)) ([], [], []) proxies"

definition user_dto :: "env \<Rightarrow> (int \<Rightarrow> Proxy list) \<Rightarrow> (int \<Rightarrow> string list) \<Rightarrow> (int \<Rightarrow> NextPlan option) \<Rightarrow> User \<Rightarrow> userResponseDTO" where
  "user_dto ev proxiesOf excludedOf planOf u =
     (let (online, onlineAt) = ev_online ev (u_username u) (u_online_at u);
          (ps, is, es) = fill_proxies excludedOf (\<lambda>t. case ev_known ev t of None \<Rightarrow> [] | Some k \<Rightarrow> k) (proxiesOf (u_id u))
      in \<lparr>dto_ID = u_id u, dto_Username = u_username u, dto_Status = u_status u, dto_UsedTraffic = u_used_traffic u,
          dto_LifetimeUsedTraffic = u_used_traffic u, dto_DataLimit = u_data_limit u, dto_Strategy = u_strategy u,
          dto_Expire = u_expire u, dto_Note = u_note u, dto_CreatedAt = u_created_at u,
          dto_OnHoldExpireDuration = u_on_hold_expire_duration u, dto_OnHoldTimeout = u_on_hold_timeout u,
          dto_AutoDeleteInDays = u_auto_delete_in_days u, dto_SubUpdatedAt = u_sub_updated_at u,
          dto_SubLastUserAgent = u_sub_last_user_agent u, dto_EmergencyUsedAt = u_emergency_used_at u,
          dto_Admin = (case u_admin_id u of None \<Rightarrow> None | Some aid \<Rightarrow> ev_admin ev aid),
          dto_SyncedFromPanelName = u_synced_from_panel_name u,
          dto_Proxies = ps, dto_Inbounds = is, dto_ExcludedInbounds = es, dto_NextPlan = map_option next_plan_dto (planOf (u_id u)),
          dto_SubscriptionURL = ev_sub_url ev (u_username u), dto_OnlineAt = onlineAt, dto_Online = online, dto_Links = []\<rparr>)"

text \<open>The maps by user and by proxy that the batched reads are grouped into.\<close>

definition group_by :: "('a \<Rightarrow> 'k) \<Rightarrow> ('a \<Rightarrow> 'v) \<Rightarrow> 'a list \<Rightarrow> ('k \<times> 'v list) list" where
  "group_by key val xs = foldl (\<lambda>m x. mput (key x) (mget [] m (key x) @ [val x]) m) [] xs"

definition buildUserResponses :: "env \<Rightarrow> User list \<Rightarrow> userResponseDTO list act" where
  "buildUserResponses ev users =
     (if users = [] then ret []
      else bnd (ListProxiesByUserIDs (map u_id users)) (\<lambda>allProxies.
           bnd (if allProxies = [] then ret [] else ListExcludedInboundTagsByProxyIDs (map pr_id allProxies)) (\<lambda>excludedRows.
           (if \<exists>r \<in> set allProxies. ev_known ev (pr_type r) = None then (\<lambda>p. (Inl DbError, p))
            else bnd (GetNextPlansByUserIDs (map u_id users)) (\<lambda>nextPlanRows.
              let proxiesByUser = group_by pr_user_id id allProxies;
                  excludedByProxy = group_by fst snd excludedRows;
                  nextPlanByUser = foldl (\<lambda>m np. mput (np_user_id np) np m) [] nextPlanRows
              in ret (map (user_dto ev (mget [] proxiesByUser) (mget [] excludedByProxy) (map_of nextPlanByUser)) users))))))"

definition buildUserResponse :: "env \<Rightarrow> User \<Rightarrow> userResponseDTO act" where
  "buildUserResponse ev u = bnd (buildUserResponses ev [u]) (\<lambda>out. ret (hd out))"

definition attachUserLinks :: "env \<Rightarrow> User \<Rightarrow> userResponseDTO \<Rightarrow> userResponseDTO" where
  "attachUserLinks ev u resp = resp\<lparr>dto_Links := (case ev_links ev u of None \<Rightarrow> [] | Some l \<Rightarrow> l)\<rparr>"

definition respondWithUser :: "env \<Rightarrow> User \<Rightarrow> handler" where
  "respondWithUser ev u = attempt (buildUserResponse ev u) fail500 (\<lambda>resp. Pair (UserReply (attachUserLinks ev u resp)))"

definition dto_summary :: "userResponseDTO \<Rightarrow> UserSummary" where
  "dto_summary r = \<lparr>us_Username = dto_Username r, us_DataLimit = dto_DataLimit r, us_Expire = dto_Expire r, us_Strategy = dto_Strategy r\<rparr>"

definition resolveAdminRef :: "env \<Rightarrow> int option \<Rightarrow> AdminRef option" where
  "resolveAdminRef ev adminID =
     (case adminID of
        None \<Rightarrow> None
      | Some aid \<Rightarrow> map_option (\<lambda>a. \<lparr>ref_Username = a_username a, ref_TelegramID = a_telegram_id a,
          ref_DiscordWebhook = a_discord_webhook a\<rparr>) (ev_admin ev aid))"

section \<open>Reading users\<close>

text \<open>\<open>loadAuthorizedUser\<close>: sudo sees everyone, an admin only the admin's own users.\<close>

definition loadAuthorizedUser :: "Identity \<Rightarrow> string \<Rightarrow> (User \<Rightarrow> handler) \<Rightarrow> handler" where
  "loadAuthorizedUser identity username k =
     attempt (GetUserByUsername username) (\<lambda>_. Fail 404) (\<lambda>u.
       if \<not> id_IsSudo identity \<and> u_admin_id u \<noteq> Some (id_AdminID identity) then Pair (Fail 403) else k u)"

definition handleGetUser :: "env \<Rightarrow> Identity \<Rightarrow> string \<Rightarrow> handler" where
  "handleGetUser ev identity username = loadAuthorizedUser identity username (respondWithUser ev)"

text \<open>The filters of a list request; what \<open>ILIKE\<close> matches is the argument \<open>matches\<close>.\<close>

record listUsersParams =
  lp_Statuses :: "string list option"
  lp_Search :: "string option"
  lp_Sort :: string
  lp_Limit :: "int option"
  lp_Offset :: "int option"

definition validUserSort :: "string \<Rightarrow> string" where
  "validUserSort v = (if v \<in> set [''created_at'', ''-created_at'', ''username'', ''-used_traffic'', ''expire''] then v else ''-created_at'')"

definition user_matches :: "(string \<Rightarrow> User \<Rightarrow> bool) \<Rightarrow> int option \<Rightarrow> listUsersParams \<Rightarrow> User \<Rightarrow> bool" where
  "user_matches matches scope q u \<longleftrightarrow>
     (case scope of None \<Rightarrow> True | Some aid \<Rightarrow> u_admin_id u = Some aid)
     \<and> (case lp_Statuses q of None \<Rightarrow> True | Some ss \<Rightarrow> u_status u \<in> set ss)
     \<and> (case lp_Search q of None \<Rightarrow> True | Some s \<Rightarrow> matches s u)"

text \<open>\<open>ORDER BY\<close>: the key of the requested order, then the id descending; a missing expiry sorts last.\<close>

definition sort_users :: "string \<Rightarrow> User list \<Rightarrow> User list" where
  "sort_users v us =
     (let us = sort_key (\<lambda>u. - u_id u) us
      in if v = ''created_at'' then sort_key u_created_at us
         else if v = ''-created_at'' then sort_key (\<lambda>u. - u_created_at u) us
         else if v = ''username'' then sort_key (\<lambda>u. map byte (u_username u)) us
         else if v = ''-used_traffic'' then sort_key (\<lambda>u. - u_used_traffic u) us
         else if v = ''expire'' then sort_key (\<lambda>u. u_expire u = None) (sort_key (\<lambda>u. case u_expire u of None \<Rightarrow> 0 | Some e \<Rightarrow> e) us)
         else us)"

text \<open>\<open>LIMIT\<close> and \<open>OFFSET\<close>: null is no limit and no offset, a negative number an error.\<close>

definition page_of :: "int option \<Rightarrow> int option \<Rightarrow> 'a list \<Rightarrow> 'a list" where
  "page_of limit offset xs =
     (let rest = (case offset of None \<Rightarrow> xs | Some n \<Rightarrow> drop (nat n) xs)
      in case limit of None \<Rightarrow> rest | Some n \<Rightarrow> take (nat n) rest)"

definition ListUsers :: "(string \<Rightarrow> User \<Rightarrow> bool) \<Rightarrow> int option \<Rightarrow> listUsersParams \<Rightarrow> User list act" where
  "ListUsers matches scope q = stmt (\<lambda>p.
     (if (case lp_Limit q of None \<Rightarrow> False | Some n \<Rightarrow> n < 0) \<or> (case lp_Offset q of None \<Rightarrow> False | Some n \<Rightarrow> n < 0) then Inl DbError
      else Inr (page_of (lp_Limit q) (lp_Offset q) (sort_users (lp_Sort q) (filter (user_matches matches scope q) (p_users p)))), p))"

definition CountListedUsers :: "(string \<Rightarrow> User \<Rightarrow> bool) \<Rightarrow> int option \<Rightarrow> listUsersParams \<Rightarrow> nat act" where
  "CountListedUsers matches scope q = stmt (\<lambda>p. (Inr (length (filter (user_matches matches scope q) (p_users p))), p))"

text \<open>The query string: numbers that cannot be read are ignored, others cut to 32 bits.\<close>

definition handleListUsers :: "env \<Rightarrow> (string \<Rightarrow> User \<Rightarrow> bool) \<Rightarrow> Identity \<Rightarrow> listUsersParams \<Rightarrow> handler" where
  "handleListUsers ev matches identity q =
     (let scope = (if id_IsSudo identity then None else Some (id_AdminID identity));
          q = q\<lparr>lp_Sort := validUserSort (lp_Sort q), lp_Limit := map_option to_int32 (lp_Limit q), lp_Offset := map_option to_int32 (lp_Offset q)\<rparr>
      in attempt (ListUsers matches scope q) fail500 (\<lambda>rows.
         attempt (buildUserResponses ev rows) fail500 (\<lambda>out.
         attempt (CountListedUsers matches scope q) fail500 (\<lambda>total.
         Pair (UserPage out total)))))"

section \<open>Pushing to the gateway peers\<close>

definition dispatchGatewayPush :: "gatewaySyncPayload \<Rightarrow> panel \<Rightarrow> panel" where
  "dispatchGatewayPush payload p =
     p\<lparr>p_gateway := (fst (p_gateway p), snd (p_gateway p) @ [payload\<lparr>gp_OriginPanelName := fst (p_gateway p)\<rparr>])\<rparr>"

definition sync_payload :: "User \<Rightarrow> Proxy list \<Rightarrow> gatewaySyncPayload" where
  "sync_payload u proxies =
     \<lparr>gp_OriginPanelName = [], gp_Username = u_username u, gp_Deleted = False, gp_Status = u_status u, gp_DataLimit = u_data_limit u,
      gp_Strategy = u_strategy u, gp_Expire = u_expire u,
      gp_Proxies = foldl (\<lambda>m r. mput (pr_type r) (pr_settings r) m) [] proxies\<rparr>"

definition dispatchGatewayUserSync :: "User \<Rightarrow> panel \<Rightarrow> panel" where
  "dispatchGatewayUserSync u p =
     (if u_synced_from_panel_name u \<noteq> None then p
      else (case ListProxiesByUserID (u_id u) p of
              (Inl _, p) \<Rightarrow> p
            | (Inr proxies, p) \<Rightarrow> dispatchGatewayPush (sync_payload u proxies) p))"

definition dispatchGatewayUserDelete :: "User \<Rightarrow> panel \<Rightarrow> panel" where
  "dispatchGatewayUserDelete u p =
     (if u_synced_from_panel_name u \<noteq> None then p
      else dispatchGatewayPush \<lparr>gp_OriginPanelName = [], gp_Username = u_username u, gp_Deleted = True, gp_Status = [],
             gp_DataLimit = None, gp_Strategy = [], gp_Expire = None, gp_Proxies = []\<rparr> p)"

definition report :: "report_event \<Rightarrow> panel \<Rightarrow> panel" where
  "report e p = p\<lparr>p_events := p_events p @ [e]\<rparr>"

section \<open>Creating a user\<close>

text \<open>The active-user cap of the reseller API; nothing it could fail on blocks a request.\<close>

definition enforceResellerAPIUserLimit :: "env \<Rightarrow> Identity \<Rightarrow> handler \<Rightarrow> handler" where
  "enforceResellerAPIUserLimit ev identity k p =
     (case ev_users_limit ev (id_Username identity) of
        None \<Rightarrow> k p
      | Some limit \<Rightarrow>
          (case CountUsers (id_AdminID identity) [''active'', ''on_hold''] p of
             (Inl _, p) \<Rightarrow> k p
           | (Inr n, p) \<Rightarrow> if int n \<ge> limit then (Fail 400, p) else k p))"

definition note_fits :: "string option \<Rightarrow> bool" where
  "note_fits note = (case note of None \<Rightarrow> True | Some s \<Rightarrow> length s \<le> 500)"

definition hold_fits :: "userWriteRequest \<Rightarrow> bool" where
  "hold_fits req \<longleftrightarrow> normalizeZero (rq_OnHoldExpireDuration req) \<noteq> None \<and> normalizeZero (rq_Expire req) = None"

definition strategy_fits :: "string option \<Rightarrow> bool" where
  "strategy_fits s = (case s of None \<Rightarrow> True | Some s \<Rightarrow> s \<in> set reset_strategies)"

definition next_plan_row :: "int \<Rightarrow> nextPlanDTO \<Rightarrow> NextPlan" where
  "next_plan_row uid np = \<lparr>np_user_id = uid, np_data_limit = nd_DataLimit np, np_expire = Some (to_int32 (nd_Expire np)),
     np_add_remaining_traffic = nd_AddRemainingTraffic np, np_fire_on_either = nd_FireOnEither np\<rparr>"

text \<open>The tags of every protocol of a new user: the requested ones, or all known ones.\<close>

definition resolve_inbounds :: "env \<Rightarrow> userWriteRequest \<Rightarrow> string \<Rightarrow> nat + string list" where
  "resolve_inbounds ev req protocol =
     (let tags = (case map_of (rq_Inbounds req) protocol of None \<Rightarrow> [] | Some ts \<Rightarrow> ts)
      in if tags \<noteq> [] then (if \<forall>t \<in> set tags. ev_inbound ev t then Inr tags else Inl 422)
         else (case ev_known ev protocol of None \<Rightarrow> Inl 500 | Some known \<Rightarrow> Inr known))"

fun resolve_all_inbounds :: "env \<Rightarrow> userWriteRequest \<Rightarrow> (string \<times> Settings) list \<Rightarrow> nat + (string \<times> Settings \<times> string list) list" where
  "resolve_all_inbounds ev req [] = Inr []"
| "resolve_all_inbounds ev req ((protocol, s) # rest) =
     (case resolve_inbounds ev req protocol of
        Inl code \<Rightarrow> Inl code
      | Inr tags \<Rightarrow> map_sum id (Cons (protocol, s, tags)) (resolve_all_inbounds ev req rest))"

definition finish_create :: "env \<Rightarrow> Identity \<Rightarrow> User \<Rightarrow> handler" where
  "finish_create ev identity u =
     attempt (buildUserResponse ev u) fail500 (\<lambda>resp p.
       (UserReply (attachUserLinks ev u resp),
        dispatchGatewayUserSync u (report (UserCreated (dto_summary resp) (id_Username identity) (resolveAdminRef ev (u_admin_id u))) p)))"

definition create_row :: "env \<Rightarrow> Identity \<Rightarrow> string \<Rightarrow> userWriteRequest \<Rightarrow> string \<Rightarrow> (string \<times> Settings \<times> string list) list \<Rightarrow> handler" where
  "create_row ev identity username req status wanted =
     attempt (CreateUser username status (normalizeZero (rq_DataLimit req)) (strOr (rq_Strategy req) ''no_reset'')
         (normalizeZero (rq_Expire req)) (if id_AdminID identity \<noteq> 0 then Some (id_AdminID identity) else None) (rq_Note req)
         (normalizeZero (rq_OnHoldExpireDuration req)) (rq_OnHoldTimeout req) (rq_AutoDeleteInDays req))
       (\<lambda>e. if e = UniqueViolation then Fail 409 else Fail 500) (\<lambda>u.
     attempt (each (\<lambda>(protocol, s, tags). createProxyForUser ev (u_id u) protocol s tags) wanted) fail500 (\<lambda>_.
     attempt (case rq_NextPlan req of None \<Rightarrow> ret () | Some np \<Rightarrow> bnd (UpsertNextPlan (next_plan_row (u_id u) np)) (\<lambda>_. ret ())) fail500 (\<lambda>_.
     finish_create ev identity u)))"

definition handleCreateUser :: "env \<Rightarrow> Identity \<Rightarrow> string \<Rightarrow> userWriteRequest \<Rightarrow> handler" where
  "handleCreateUser ev identity username req =
     (if \<not> validUsername username \<or> \<not> note_fits (rq_Note req) \<or> rq_Proxies req = [] then Pair (Fail 422)
      else (if id_IsSudo identity then (\<lambda>k. k) else enforceResellerAPIUserLimit ev identity)
        (let status = strOr (rq_Status req) ''active''
         in if status \<notin> set [''active'', ''on_hold''] \<or> (status = ''on_hold'' \<and> \<not> hold_fits req)
               \<or> \<not> strategy_fits (rq_Strategy req) \<or> \<not> expireFitsColumn (rq_Expire req)
            then Pair (Fail 422)
            else (case resolveProxySettings ev (rq_Proxies req) of
                    None \<Rightarrow> Pair (Fail 422)
                  | Some (wanted, _) \<Rightarrow>
                      (case resolve_all_inbounds ev req wanted of
                         Inl code \<Rightarrow> Pair (Fail code)
                       | Inr wanted \<Rightarrow> create_row ev identity username req status wanted))))"

section \<open>Modifying a user\<close>

definition base_status :: "userWriteRequest \<Rightarrow> User \<Rightarrow> string" where
  "base_status req u = strOr (rq_Status req) (u_status u)"

definition status_after_limit :: "userWriteRequest \<Rightarrow> User \<Rightarrow> string \<Rightarrow> string" where
  "status_after_limit req u st =
     (if rq_DataLimit req \<noteq> None \<and> st \<noteq> ''expired'' \<and> st \<noteq> ''disabled''
      then (if (case normalizeZero (rq_DataLimit req) of None \<Rightarrow> True | Some d \<Rightarrow> u_used_traffic u < d)
            then (if st \<noteq> ''on_hold'' then ''active'' else st)
            else ''limited'')
      else st)"

definition status_after_expire :: "instant \<Rightarrow> userWriteRequest \<Rightarrow> string \<Rightarrow> string" where
  "status_after_expire now req st =
     (if rq_Expire req \<noteq> None \<and> (st = ''active'' \<or> st = ''expired'')
      then (if (case normalizeZero (rq_Expire req) of None \<Rightarrow> True | Some e \<Rightarrow> e > unix now) then ''active'' else ''expired'')
      else st)"

definition new_status :: "instant \<Rightarrow> userWriteRequest \<Rightarrow> User \<Rightarrow> string" where
  "new_status now req u = status_after_expire now req (status_after_limit req u (base_status req u))"

abbreviation given :: "'a option \<Rightarrow> 'b \<Rightarrow> 'b \<Rightarrow> 'b" where
  "given field new old \<equiv> (if field \<noteq> None then new else old)"

definition update_row :: "instant \<Rightarrow> userWriteRequest \<Rightarrow> User \<Rightarrow> User act" where
  "update_row now req u =
     UpdateUserCore (u_id u) (new_status now req u)
       (given (rq_DataLimit req) (normalizeZero (rq_DataLimit req)) (u_data_limit u))
       (given (rq_Strategy req) (the (rq_Strategy req)) (u_strategy u))
       (given (rq_Expire req) (normalizeZero (rq_Expire req)) (u_expire u))
       (given (rq_Note req) (normalizeZeroString (rq_Note req)) (u_note u))
       (given (rq_OnHoldExpireDuration req) (normalizeZero (rq_OnHoldExpireDuration req)) (u_on_hold_expire_duration u))
       (given (rq_OnHoldTimeout req) (rq_OnHoldTimeout req) (u_on_hold_timeout u))
       (given (rq_AutoDeleteInDays req) (rq_AutoDeleteInDays req) (u_auto_delete_in_days u))"

definition finish_modify :: "env \<Rightarrow> Identity \<Rightarrow> User \<Rightarrow> User \<Rightarrow> handler" where
  "finish_modify ev identity u updated =
     attempt (buildUserResponse ev updated) fail500 (\<lambda>resp p.
       (let ref = resolveAdminRef ev (u_admin_id updated);
            p = report (UserUpdated (dto_summary resp) (id_Username identity) ref) p;
            p = (if u_status updated \<noteq> u_status u then report (StatusChange (u_username updated) (u_status updated) ref) p else p)
        in (UserReply (attachUserLinks ev updated resp), dispatchGatewayUserSync updated p)))"

definition modify_row :: "env \<Rightarrow> Identity \<Rightarrow> userWriteRequest \<Rightarrow> User \<Rightarrow> (string \<times> Settings) list \<Rightarrow> string list \<Rightarrow> handler" where
  "modify_row ev identity req u wanted remove =
     attempt (if wanted \<noteq> [] \<or> remove \<noteq> [] then reconcileProxies (u_id u) wanted remove False else ret ()) fail500 (\<lambda>_.
     attempt (if rq_Inbounds req \<noteq> [] then reconcileExcludedInbounds ev (u_id u) (rq_Inbounds req) else ret ()) fail500 (\<lambda>_.
     attempt (update_row (ev_now ev) req u) fail500 (\<lambda>updated.
     attempt (case rq_NextPlan req of
                Some np \<Rightarrow> bnd (UpsertNextPlan (next_plan_row (u_id updated) np)) (\<lambda>_. ret ())
              | None \<Rightarrow> DeleteNextPlanByUserID (u_id updated)) fail500 (\<lambda>_.
     finish_modify ev identity u updated))))"

definition handleModifyUser :: "env \<Rightarrow> Identity \<Rightarrow> string \<Rightarrow> userWriteRequest \<Rightarrow> handler" where
  "handleModifyUser ev identity username req = loadAuthorizedUser identity username (\<lambda>u.
     if u_synced_from_panel_name u \<noteq> None then Pair (Fail 409)
     else if \<not> note_fits (rq_Note req) \<or> strOr (rq_Status req) ''active'' \<notin> set [''active'', ''disabled'', ''on_hold'']
       \<or> (rq_Status req = Some ''on_hold'' \<and> \<not> hold_fits req) \<or> \<not> strategy_fits (rq_Strategy req) \<or> \<not> expireFitsColumn (rq_Expire req)
     then Pair (Fail 422)
     else (if \<not> id_IsSudo identity \<and> u_status u = ''disabled'' \<and> (rq_Status req = Some ''active'' \<or> rq_Status req = Some ''on_hold'')
           then enforceResellerAPIUserLimit ev identity else (\<lambda>k. k))
       (case resolveProxySettings ev (rq_Proxies req) of
          None \<Rightarrow> Pair (Fail 422)
        | Some (wanted, remove) \<Rightarrow>
            if \<exists>(_, tags) \<in> set (rq_Inbounds req). \<exists>t \<in> set tags. \<not> ev_inbound ev t then Pair (Fail 422)
            else modify_row ev identity req u wanted remove))"

section \<open>Deleting, resetting, revoking\<close>

definition handleDeleteUser :: "env \<Rightarrow> Identity \<Rightarrow> string \<Rightarrow> handler" where
  "handleDeleteUser ev identity username = loadAuthorizedUser identity username (\<lambda>u.
     attempt (DeleteUser (u_id u)) fail500 (\<lambda>_ p.
       (Ok, dispatchGatewayUserDelete u (report (UserDeleted (u_username u) (id_Username identity) (resolveAdminRef ev (u_admin_id u))) p))))"

definition handleResetUserDataUsage :: "env \<Rightarrow> Identity \<Rightarrow> string \<Rightarrow> handler" where
  "handleResetUserDataUsage ev identity username = loadAuthorizedUser identity username (\<lambda>u.
     attempt (CreateUserUsageLog (u_id u) (u_used_traffic u)) fail500 (\<lambda>_.
     attempt (ResetUserTraffic (u_id u) (if u_status u \<noteq> ''expired'' \<and> u_status u \<noteq> ''disabled'' then ''active'' else u_status u)) fail500 (\<lambda>updated.
     attempt (ClearNodeUserUsages (u_id updated)) fail500 (\<lambda>_.
     attempt (DeleteNextPlanByUserID (u_id updated)) fail500 (\<lambda>_.
     attempt (buildUserResponse ev updated) fail500 (\<lambda>resp p.
       (UserReply (attachUserLinks ev updated resp),
        report (UserDataUsageReset (u_username updated) (id_Username identity) (resolveAdminRef ev (u_admin_id updated))) p)))))))"

definition revoke_proxy :: "env \<Rightarrow> Proxy \<Rightarrow> unit act" where
  "revoke_proxy ev r =
     (\<lambda>p. case FromStored (fst (ev_fresh ev (pr_type r))) (snd (ev_fresh ev (pr_type r))) (pr_type r) (pr_settings r) of
        None \<Rightarrow> (Inl DbError, p)
      | Some s \<Rightarrow> bnd (UpdateProxySettings (pr_id r)
          (Settings_MarshalJSON (Revoke (fst (ev_fresh ev (pr_type r))) (snd (ev_fresh ev (pr_type r))) s))) (\<lambda>_. ret ()) p)"

definition handleRevokeUserSub :: "env \<Rightarrow> Identity \<Rightarrow> string \<Rightarrow> handler" where
  "handleRevokeUserSub ev identity username = loadAuthorizedUser identity username (\<lambda>u.
     attempt (ListProxiesByUserID (u_id u)) fail500 (\<lambda>proxies.
     attempt (each (revoke_proxy ev) proxies) fail500 (\<lambda>_.
     attempt (SetUserSubRevoked (u_id u)) fail500 (\<lambda>updated.
     attempt (buildUserResponse ev updated) fail500 (\<lambda>resp p.
       (UserReply (attachUserLinks ev updated resp),
        report (UserSubscriptionRevoked (u_username updated) (id_Username identity) (resolveAdminRef ev (u_admin_id updated))) p))))))"

section \<open>The bulk endpoints\<close>

definition handleResetAllUsersUsage :: "Identity \<Rightarrow> handler" where
  "handleResetAllUsersUsage identity =
     attempt (if id_AdminID identity = 0 then ListAllUserIDs else ListUserIDsByAdmin (id_AdminID identity)) fail500 (\<lambda>ids.
     if ids = [] then Pair Ok
     else attempt (ResetUsersUsageByIDs ids) fail500 (\<lambda>_.
          attempt (DeleteNodeUserUsagesByUserIDs ids) fail500 (\<lambda>_.
          attempt (DeleteUserUsageLogsByUserIDs ids) fail500 (\<lambda>_.
          attempt (DeleteNextPlansByUserIDs ids) fail500 (\<lambda>_. Pair Ok)))))"

text \<open>The bounds are seconds, \<open>None\<close> when the query has none.\<close>

definition expiredUsersInWindow :: "env \<Rightarrow> Identity \<Rightarrow> int option \<Rightarrow> int option \<Rightarrow> (User list \<Rightarrow> handler) \<Rightarrow> handler" where
  "expiredUsersInWindow ev identity expiredAfter expiredBefore k =
     (let after = (case expiredAfter of None \<Rightarrow> 0 | Some t \<Rightarrow> to_int32 t);
          before = to_int32 (case expiredBefore of None \<Rightarrow> unix (ev_now ev) | Some t \<Rightarrow> t)
      in if before < after then Pair (Fail 400)
         else attempt (ListExpiredUsers after before (if id_IsSudo identity then None else Some (id_AdminID identity))) fail500 k)"

definition handleGetExpiredUsers :: "env \<Rightarrow> Identity \<Rightarrow> int option \<Rightarrow> int option \<Rightarrow> handler" where
  "handleGetExpiredUsers ev identity expiredAfter expiredBefore =
     expiredUsersInWindow ev identity expiredAfter expiredBefore (\<lambda>rows. Pair (Names (map u_username rows)))"

definition handleDeleteExpiredUsers :: "env \<Rightarrow> Identity \<Rightarrow> int option \<Rightarrow> int option \<Rightarrow> handler" where
  "handleDeleteExpiredUsers ev identity expiredAfter expiredBefore =
     expiredUsersInWindow ev identity expiredAfter expiredBefore (\<lambda>rows.
       if rows = [] then Pair (Fail 404)
       else attempt (DeleteUsersByIDs (map u_id rows)) fail500 (\<lambda>_ p.
         (Names (map u_username rows),
          foldl (\<lambda>p u. report (UserDeleted (u_username u) (id_Username identity) (resolveAdminRef ev (u_admin_id u))) p) p rows)))"

definition GetAdminByUsername :: "string \<Rightarrow> Admin act" where
  "GetAdminByUsername name = stmt (\<lambda>p. (case find (\<lambda>a. a_username a = name) (p_admins p) of None \<Rightarrow> Inl ErrNoRows | Some a \<Rightarrow> Inr a, p))"

definition handleSetUserOwner :: "env \<Rightarrow> Identity \<Rightarrow> string \<Rightarrow> string \<Rightarrow> handler" where
  "handleSetUserOwner ev identity username adminUsername = loadAuthorizedUser identity username (\<lambda>u.
     if adminUsername = [] then Pair (Fail 422)
     else attempt (GetAdminByUsername adminUsername) (\<lambda>_. Fail 404) (\<lambda>a.
          attempt (SetUserOwner (u_id u) (a_id a)) fail500 (respondWithUser ev)))"

definition handleActivateNextPlan :: "env \<Rightarrow> Identity \<Rightarrow> string \<Rightarrow> handler" where
  "handleActivateNextPlan ev identity username = loadAuthorizedUser identity username (\<lambda>u.
     attempt (GetNextPlanByUserID (u_id u)) (\<lambda>_. Fail 404) (\<lambda>_.
     attempt (CreateUserUsageLog (u_id u) (u_used_traffic u)) fail500 (\<lambda>_.
     attempt (ClearNodeUserUsages (u_id u)) fail500 (\<lambda>_.
     attempt (ResetUserByNextPlan (u_id u)) fail500 (\<lambda>updated.
     attempt (DeleteNextPlanByUserID (u_id u)) fail500 (\<lambda>_.
     attempt (buildUserResponse ev updated) fail500 (\<lambda>resp p.
       (UserReply (attachUserLinks ev updated resp),
        report (UserDataResetByNext (dto_summary resp) (resolveAdminRef ev (u_admin_id updated))) p))))))))"

text \<open>The emergency recharge of the subscription page, for the user its token opened.\<close>

definition handleEmergencyRecharge :: "User \<Rightarrow> handler" where
  "handleEmergencyRecharge u =
     (if u_emergency_used_at u \<noteq> None then Pair (Fail 409)
      else if u_status u \<noteq> ''limited'' \<and> u_status u \<noteq> ''expired'' then Pair (Fail 400)
      else attempt (ApplyEmergencyRecharge (u_id u)) (\<lambda>_. Fail 409) (\<lambda>_. Pair Ok))"

end
