(* ===== verification/UserRules.thy ===== *)
theory UserRules
  imports UserHandlers
begin

text \<open>
  What the user endpoints guarantee. The first part is a small program logic for statements: an
  invariant of the database that a statement keeps whatever faults occur, and a fact about what it
  returns. The properties follow by composing the rules along the handlers.
\<close>

section \<open>Rules for statements\<close>

definition yields :: "(panel \<Rightarrow> bool) \<Rightarrow> 'a act \<Rightarrow> ('a \<Rightarrow> bool) \<Rightarrow> bool" where
  "yields I m Q \<longleftrightarrow> (\<forall>p. I p \<longrightarrow> I (snd (m p)) \<and> (\<forall>a. fst (m p) = Inr a \<longrightarrow> Q a))"

definition keeps :: "(panel \<Rightarrow> bool) \<Rightarrow> (panel \<Rightarrow> 'r \<times> panel) \<Rightarrow> bool" where
  "keeps I h \<longleftrightarrow> (\<forall>p. I p \<longrightarrow> I (snd (h p)))"

named_theorems keep

lemma yields_bnd [keep]: "yields I m Q \<Longrightarrow> (\<And>a. Q a \<Longrightarrow> yields I (f a) T) \<Longrightarrow> yields I (bnd m f) T"
  unfolding yields_def bnd_def by (fastforce split: prod.splits sum.splits)

lemma yields_ret: "Q a \<Longrightarrow> yields I (ret a) Q"
  by (simp add: yields_def ret_def)

lemma yields_ret_any [keep]: "yields I (ret a) (\<lambda>_. True)"
  by (simp add: yields_ret)

lemma yields_error [keep]: "yields I (\<lambda>p. (Inl e, p)) Q"
  by (simp add: yields_def)

lemma yields_mono: "yields I m Q \<Longrightarrow> (\<And>a. Q a \<Longrightarrow> Q' a) \<Longrightarrow> yields I m Q'"
  by (auto simp: yields_def)

lemma yields_if [keep]: "(b \<Longrightarrow> yields I m Q) \<Longrightarrow> (\<not> b \<Longrightarrow> yields I m' Q) \<Longrightarrow> yields I (if b then m else m') Q"
  by simp

lemma yields_option [keep]:
  "(x = None \<Longrightarrow> yields I m Q) \<Longrightarrow> (\<And>a. x = Some a \<Longrightarrow> yields I (f a) Q) \<Longrightarrow> yields I (case x of None \<Rightarrow> m | Some a \<Rightarrow> f a) Q"
  by (cases x) auto

lemma yields_prod [keep]: "(\<And>a b. x = (a, b) \<Longrightarrow> yields I (f a b) Q) \<Longrightarrow> yields I (case x of (a, b) \<Rightarrow> f a b) Q"
  by (cases x) auto

lemma yields_each [keep]: "(\<And>x. x \<in> set xs \<Longrightarrow> yields I (f x) (\<lambda>_. True)) \<Longrightarrow> yields I (each f xs) (\<lambda>_. True)"
proof (induction xs)
  case (Cons x xs)
  show ?case unfolding each.simps by (rule yields_bnd [where Q = "\<lambda>_. True"]) (use Cons in auto)
qed (simp add: yields_ret)

lemma keeps_Pair [keep]: "keeps I (Pair r)"
  by (simp add: keeps_def)

lemma keeps_attempt [keep]: "yields I m Q \<Longrightarrow> (\<And>a. Q a \<Longrightarrow> keeps I (k a)) \<Longrightarrow> keeps I (attempt m onerr k)"
  unfolding keeps_def yields_def attempt_def by (fastforce split: prod.splits sum.splits)

lemma keeps_if [keep]: "(b \<Longrightarrow> keeps I h) \<Longrightarrow> (\<not> b \<Longrightarrow> keeps I h') \<Longrightarrow> keeps I (if b then h else h')"
  by simp

lemma keeps_option [keep]:
  "(x = None \<Longrightarrow> keeps I h) \<Longrightarrow> (\<And>a. x = Some a \<Longrightarrow> keeps I (f a)) \<Longrightarrow> keeps I (case x of None \<Rightarrow> h | Some a \<Rightarrow> f a)"
  by (cases x) auto

lemma keeps_sum [keep]:
  "(\<And>e. x = Inl e \<Longrightarrow> keeps I (g e)) \<Longrightarrow> (\<And>a. x = Inr a \<Longrightarrow> keeps I (f a)) \<Longrightarrow> keeps I (case x of Inl e \<Rightarrow> g e | Inr a \<Rightarrow> f a)"
  by (cases x) auto

lemma keeps_prod [keep]: "(\<And>a b. x = (a, b) \<Longrightarrow> keeps I (f a b)) \<Longrightarrow> keeps I (case x of (a, b) \<Rightarrow> f a b)"
  by (cases x) auto

text \<open>A statement: it counts as a call, and keeps the invariant when its body does.\<close>

lemma yields_stmt:
  assumes "\<And>p. I p \<Longrightarrow> I (p\<lparr>p_calls := p_calls p + 1\<rparr>)"
    and "\<And>p. I p \<Longrightarrow> I (snd (f p))" and "\<And>p a. I p \<Longrightarrow> fst (f p) = Inr a \<Longrightarrow> Q a"
  shows "yields I (stmt f) Q"
  using assms unfolding yields_def stmt_def Let_def by auto

section \<open>The rows of one user\<close>

definition view :: "int \<Rightarrow> panel \<Rightarrow> User list \<times> Proxy list \<times> (int \<times> string) list \<times> NextPlan list \<times> (int \<times> int) list \<times> NodeUserUsage list" where
  "view uid p =
     (let proxies = filter (\<lambda>r. pr_user_id r = uid) (p_proxies p)
      in (filter (\<lambda>u. u_id u = uid) (p_users p), proxies, filter (\<lambda>(pid, _). pid \<in> pr_id ` set proxies) (p_excluded p),
          filter (\<lambda>np. np_user_id np = uid) (p_plans p), filter (\<lambda>(i, _). i = uid) (p_usage_logs p),
          filter (\<lambda>r. nuu_user_id r = uid) (p_user_usages p)))"

text \<open>Keys are unique and below the counters, and names are unique.\<close>

definition wf_db :: "panel \<Rightarrow> bool" where
  "wf_db p \<longleftrightarrow> distinct (map u_id (p_users p)) \<and> distinct (map u_username (p_users p)) \<and> distinct (map pr_id (p_proxies p))
     \<and> (\<forall>u \<in> set (p_users p). u_id u \<le> fst (p_serial p)) \<and> (\<forall>r \<in> set (p_proxies p). pr_id r \<le> snd (p_serial p))"

text \<open>Since the state \<open>p0\<close> the rows of the users \<open>F\<close> have not changed.\<close>

definition untouched :: "int set \<Rightarrow> panel \<Rightarrow> panel \<Rightarrow> bool" where
  "untouched F p0 p \<longleftrightarrow> wf_db p \<and> (\<forall>uid \<in> F. view uid p = view uid p0)
     \<and> F \<subseteq> u_id ` set (p_users p0) \<and> wf_db p0 \<and> fst (p_serial p0) \<le> fst (p_serial p) \<and> snd (p_serial p0) \<le> snd (p_serial p)"

definition proxies_of :: "int set \<Rightarrow> panel \<Rightarrow> int set" where
  "proxies_of F p = pr_id ` {r \<in> set (p_proxies p). pr_user_id r \<in> F}"

lemma view_frame:
  assumes "p_users q = p_users p" "p_proxies q = p_proxies p" "p_excluded q = p_excluded p" "p_plans q = p_plans p"
    "p_usage_logs q = p_usage_logs p" "p_user_usages q = p_user_usages p"
  shows "view uid q = view uid p"
  using assms by (simp add: view_def)

lemma untouched_refl: "wf_db p \<Longrightarrow> F \<subseteq> u_id ` set (p_users p) \<Longrightarrow> untouched F p p"
  by (simp add: untouched_def)

lemma untouched_proxies:
  assumes "untouched F p0 p" and "uid \<in> F"
  shows "filter (\<lambda>r. pr_user_id r = uid) (p_proxies p) = filter (\<lambda>r. pr_user_id r = uid) (p_proxies p0)"
    and "filter (\<lambda>u. u_id u = uid) (p_users p) = filter (\<lambda>u. u_id u = uid) (p_users p0)"
  using assms unfolding untouched_def view_def Let_def by (metis prod.inject)+

lemma untouched_owned:
  assumes "untouched F p0 p" and "r \<in> set (p_proxies p)" and "pr_user_id r \<in> F"
  shows "pr_id r \<in> proxies_of F p0"
proof -
  have "r \<in> set (filter (\<lambda>x. pr_user_id x = pr_user_id r) (p_proxies p))" using assms(2) by simp
  then have "r \<in> set (p_proxies p0)" using untouched_proxies(1) [OF assms(1,3)] by auto
  then show ?thesis using assms(3) by (auto simp: proxies_of_def)
qed

lemma untouched_foreign:
  assumes "untouched F p0 p" and "r \<in> set (p_proxies p)" and "pr_user_id r \<notin> F"
  shows "pr_id r \<notin> proxies_of F p0"
proof
  assume "pr_id r \<in> proxies_of F p0"
  then obtain s where s: "s \<in> set (p_proxies p0)" "pr_user_id s \<in> F" "pr_id s = pr_id r" by (auto simp: proxies_of_def)
  then have "s \<in> set (filter (\<lambda>x. pr_user_id x = pr_user_id s) (p_proxies p))"
    using untouched_proxies(1) [OF assms(1) s(2)] by simp
  then have "s \<in> set (p_proxies p)" by simp
  moreover have "distinct (map pr_id (p_proxies p))" using assms(1) by (simp add: untouched_def wf_db_def)
  ultimately have "s = r" using s(3) assms(2) by (auto simp: distinct_map dest: inj_onD)
  then show False using s(2) assms(3) by simp
qed

lemma untouched_serials:
  assumes "untouched F p0 p"
  shows "uid \<in> F \<Longrightarrow> uid \<le> fst (p_serial p)" and "pid \<in> proxies_of F p0 \<Longrightarrow> pid \<le> snd (p_serial p)"
  using assms by (force simp: untouched_def wf_db_def proxies_of_def)+

text \<open>One step: keys stay unique and every row of a user in \<open>F\<close> stays.\<close>

lemma untouched_step:
  assumes "untouched F p0 p" and "wf_db q" and "fst (p_serial p) \<le> fst (p_serial q)" "snd (p_serial p) \<le> snd (p_serial q)"
    and "\<And>uid. uid \<in> F \<Longrightarrow> view uid q = view uid p"
  shows "untouched F p0 q"
  using assms unfolding untouched_def by auto

lemma untouched_wf: "untouched F p0 p \<Longrightarrow> wf_db p"
  by (simp add: untouched_def)

lemma wf_db_frame:
  "p_users q = p_users p \<Longrightarrow> p_proxies q = p_proxies p \<Longrightarrow> p_serial q = p_serial p \<Longrightarrow> wf_db q = wf_db p"
  by (simp add: wf_db_def)

lemma wf_db_proxies:
  "wf_db p \<Longrightarrow> distinct (map pr_id rs) \<Longrightarrow> \<forall>r \<in> set rs. pr_id r \<le> snd (p_serial p) \<Longrightarrow> wf_db (p\<lparr>p_proxies := rs\<rparr>)"
  by (simp add: wf_db_def)

lemma untouched_calls: "untouched F p0 p \<Longrightarrow> untouched F p0 (p\<lparr>p_calls := k\<rparr>)"
proof (rule untouched_step)
  show "wf_db (p\<lparr>p_calls := k\<rparr>)" if "untouched F p0 p" using untouched_wf [OF that] by (simp add: wf_db_def)
qed (simp_all add: view_def)

lemma yields_stmt_untouched:
  assumes "\<And>p. untouched F p0 p \<Longrightarrow> untouched F p0 (snd (f p))"
    and "\<And>p a. untouched F p0 p \<Longrightarrow> fst (f p) = Inr a \<Longrightarrow> Q a"
  shows "yields (untouched F p0) (stmt f) Q"
  by (rule yields_stmt) (fact untouched_calls assms)+

lemma yields_read:
  assumes "\<And>p. snd (f p) = p" and "\<And>p a. untouched F p0 p \<Longrightarrow> fst (f p) = Inr a \<Longrightarrow> Q a"
  shows "yields (untouched F p0) (stmt f) Q"
  by (rule yields_stmt_untouched) (use assms in auto)


subsection \<open>Users\<close>

lemma filter_filter_imp: "(\<And>x. x \<in> set xs \<Longrightarrow> P x \<Longrightarrow> Q x) \<Longrightarrow> filter P (filter Q xs) = filter P xs"
  by (induction xs) auto

lemma filter_map_same: "(\<And>x. P (g x) = P x) \<Longrightarrow> (\<And>x. P x \<Longrightarrow> g x = x) \<Longrightarrow> filter P (map g xs) = filter P xs"
  by (induction xs) auto

lemma untouched_set_users:
  assumes "untouched F p0 p" and "\<And>u. u_id (g u) = u_id u" and "\<And>u. u_username (g u) = u_username u"
    and "\<And>u. u_id u \<in> F \<Longrightarrow> g u = u"
  shows "untouched F p0 (set_users g p)"
proof (rule untouched_step [OF assms(1)])
  show "wf_db (set_users g p)" using untouched_wf [OF assms(1)] by (simp add: wf_db_def set_users_def assms(2,3) comp_def)
  show "view uid (set_users g p) = view uid p" if "uid \<in> F" for uid
  proof -
    have "filter (\<lambda>u. u_id u = uid) (map g us) = filter (\<lambda>u. u_id u = uid) us" for us
      by (rule filter_map_same) (use assms(2,4) that in auto)
    then show ?thesis by (simp add: view_def set_users_def)
  qed
qed (simp_all add: set_users_def)

lemma yields_update_user [keep]:
  assumes "uid \<notin> F" and "\<And>t u. u_id (f t u) = u_id u" and "\<And>t u. u_username (f t u) = u_username u"
  shows "yields (untouched F p0) (update_user uid f) (\<lambda>u. u_id u = uid)"
  unfolding update_user_def
  by (rule yields_stmt_untouched)
     (use assms in \<open>auto simp: user_by_id_def find_Some_iff split: option.splits if_splits intro!: untouched_set_users\<close>)

lemmas update_user_defs = UpdateUserCore_def UpdateGatewaySyncedUser_def ResetUserTraffic_def SetUserSubRevoked_def SetUserOwner_def

lemma find_user_id: "find (\<lambda>u. u_id u = uid) us = Some u \<Longrightarrow> u_id u = uid"
  by (auto simp: find_Some_iff)

lemma yields_ResetUserByNextPlan [keep]:
  assumes "uid \<notin> F"
  shows "yields (untouched F p0) (ResetUserByNextPlan uid) (\<lambda>u. u_id u = uid)"
  unfolding ResetUserByNextPlan_def
  by (rule yields_stmt_untouched)
     (use assms in \<open>auto simp: apply_plan_def dest!: find_user_id split: option.splits intro!: untouched_set_users\<close>)

lemma yields_ApplyEmergencyRecharge [keep]:
  assumes "uid \<notin> F"
  shows "yields (untouched F p0) (ApplyEmergencyRecharge uid) (\<lambda>u. u_id u = uid)"
  unfolding ApplyEmergencyRecharge_def
  by (rule yields_stmt_untouched)
     (use assms in \<open>auto simp: recharged_def find_Some_iff split: option.splits intro!: untouched_set_users\<close>)

lemma yields_ResetUsersUsageByIDs [keep]: "set ids \<inter> F = {} \<Longrightarrow> yields (untouched F p0) (ResetUsersUsageByIDs ids) (\<lambda>_. True)"
  unfolding ResetUsersUsageByIDs_def
  by (rule yields_stmt_untouched) (auto simp: reset_usage_def intro!: untouched_set_users)

lemma yields_insert_user:
  assumes "\<And>i t. u_id (row i t) = i"
  shows "yields (untouched F p0) (insert_user row) (\<lambda>u. u_id u \<notin> F)"
  unfolding insert_user_def
proof (rule yields_stmt_untouched)
  fix p assume p: "untouched F p0 p"
  let ?uid = "fst (p_serial p) + 1"
  let ?u = "row ?uid (p_now p)"
  let ?q = "p\<lparr>p_users := p_users p @ [?u], p_serial := (?uid, snd (p_serial p))\<rparr>"
  have fresh: "?uid \<notin> F" "?uid \<notin> u_id ` set (p_users p)"
    using untouched_serials(1) [OF p, of ?uid] untouched_wf [OF p] by (auto simp: wf_db_def)
  have "untouched F p0 ?q" if "u_username ?u \<notin> u_username ` set (p_users p)"
  proof (rule untouched_step [OF p])
    show "wf_db ?q" using untouched_wf [OF p] fresh(2) that assms by (auto simp: wf_db_def)
    show "view uid ?q = view uid p" if "uid \<in> F" for uid using that fresh(1) assms by (auto simp: view_def)
  qed simp_all
  then show "untouched F p0 (snd (let uid = fst (p_serial p) + 1; u = row uid (p_now p)
      in if \<not> row_ok p u then (Inl DbError, p)
         else if u_username u \<in> u_username ` set (p_users p) then (Inl UniqueViolation, p)
         else (Inr u, p\<lparr>p_users := p_users p @ [u], p_serial := (uid, snd (p_serial p))\<rparr>)))"
    using p by (simp add: Let_def)
next
  fix p a assume p: "untouched F p0 p" and a: "fst (let uid = fst (p_serial p) + 1; u = row uid (p_now p)
      in if \<not> row_ok p u then (Inl DbError, p)
         else if u_username u \<in> u_username ` set (p_users p) then (Inl UniqueViolation, p)
         else (Inr u, p\<lparr>p_users := p_users p @ [u], p_serial := (uid, snd (p_serial p))\<rparr>)) = Inr a"
  then have "u_id a = fst (p_serial p) + 1" by (auto simp: Let_def assms split: if_splits)
  then show "u_id a \<notin> F" using untouched_serials(1) [OF p, of "u_id a"] by auto
qed

lemma yields_CreateUser [keep]:
  "yields (untouched F p0) (CreateUser n s d st e a nt hdu hti ad) (\<lambda>u. u_id u \<notin> F)"
  "yields (untouched F p0) (CreateGatewaySyncedUser n s d st e pan) (\<lambda>u. u_id u \<notin> F)"
  unfolding CreateUser_def CreateGatewaySyncedUser_def by (rule yields_insert_user; simp add: new_user_def)+

lemma view_remove_users: "uid \<notin> ids \<Longrightarrow> distinct (map pr_id (p_proxies p)) \<Longrightarrow> view uid (remove_users ids p) = view uid p"
proof -
  assume uid: "uid \<notin> ids" and dist: "distinct (map pr_id (p_proxies p))"
  have "pr_id r \<noteq> pr_id s" if "r \<in> set (p_proxies p)" "pr_user_id r = uid" "s \<in> set (p_proxies p)" "pr_user_id s \<in> ids" for r s
    using dist that uid by (auto simp: distinct_map dest: inj_onD)
  then have gone: "pid \<notin> pr_id ` set (filter (\<lambda>r. pr_user_id r \<in> ids) (p_proxies p))"
    if "pid \<in> pr_id ` set (filter (\<lambda>r. pr_user_id r = uid) (p_proxies p))" for pid
    using that by auto
  have "filter (\<lambda>u. u_id u = uid) (filter (\<lambda>u. u_id u \<notin> ids) us) = filter (\<lambda>u. u_id u = uid) us"
    "filter (\<lambda>r. pr_user_id r = uid) (filter (\<lambda>r. pr_user_id r \<notin> ids) rs) = filter (\<lambda>r. pr_user_id r = uid) rs"
    "filter (\<lambda>np. np_user_id np = uid) (filter (\<lambda>np. np_user_id np \<notin> ids) nps) = filter (\<lambda>np. np_user_id np = uid) nps"
    "filter (\<lambda>r. nuu_user_id r = uid) (filter (\<lambda>r. nuu_user_id r \<notin> ids) hs) = filter (\<lambda>r. nuu_user_id r = uid) hs"
    "filter (\<lambda>(i, _). i = uid) (filter (\<lambda>(i, _). i \<notin> ids) ls) = filter (\<lambda>(i, _). i = uid) ls"
    for us :: "User list" and rs :: "Proxy list" and nps :: "NextPlan list" and hs :: "NodeUserUsage list" and ls :: "(int \<times> int) list"
    by (rule filter_filter_imp; use uid in auto)+
  moreover have "filter (\<lambda>(pid, _). pid \<in> pr_id ` set (filter (\<lambda>r. pr_user_id r = uid) (p_proxies p)))
        (filter (\<lambda>(pid, _). pid \<notin> pr_id ` set (filter (\<lambda>r. pr_user_id r \<in> ids) (p_proxies p))) es) =
      filter (\<lambda>(pid, _). pid \<in> pr_id ` set (filter (\<lambda>r. pr_user_id r = uid) (p_proxies p))) es" for es :: "(int \<times> string) list"
    by (rule filter_filter_imp) (use gone in blast)
  ultimately show ?thesis unfolding view_def remove_users_def Let_def by (simp del: filter_filter set_filter)
qed

lemma untouched_remove_users:
  assumes "untouched F p0 p" and "ids \<inter> F = {}"
  shows "untouched F p0 (remove_users ids p)"
proof (rule untouched_step [OF assms(1)])
  have wf: "wf_db p" by (rule untouched_wf [OF assms(1)])
  then show "wf_db (remove_users ids p)" by (auto simp: wf_db_def remove_users_def Let_def distinct_map_filter)
  show "view uid (remove_users ids p) = view uid p" if "uid \<in> F" for uid
    using view_remove_users that assms(2) wf by (auto simp: wf_db_def)
qed (simp_all add: remove_users_def Let_def)

lemma yields_DeleteUser [keep]:
  "uid \<notin> F \<Longrightarrow> yields (untouched F p0) (DeleteUser uid) (\<lambda>_. True)"
  "set ids \<inter> F = {} \<Longrightarrow> yields (untouched F p0) (DeleteUsersByIDs ids) (\<lambda>_. True)"
  unfolding DeleteUser_def DeleteUsersByIDs_def by (rule yields_stmt_untouched; auto intro: untouched_remove_users)+


subsection \<open>Proxies, exclusions, plans and logs\<close>

lemma yields_ListProxiesByUserID [keep]:
  "uid \<notin> F \<Longrightarrow> yields (untouched F p0) (ListProxiesByUserID uid) (\<lambda>rs. \<forall>r \<in> set rs. pr_id r \<notin> proxies_of F p0 \<and> pr_user_id r = uid)"
  unfolding ListProxiesByUserID_def by (rule yields_read) (auto dest: untouched_foreign)

lemma yields_CreateProxy [keep]:
  assumes "uid \<notin> F"
  shows "yields (untouched F p0) (CreateProxy uid t s) (\<lambda>r. pr_id r \<notin> proxies_of F p0)"
  unfolding CreateProxy_def
proof (rule yields_stmt_untouched)
  fix p assume p: "untouched F p0 p"
  let ?pid = "snd (p_serial p) + 1"
  let ?r = "\<lparr>pr_id = ?pid, pr_user_id = uid, pr_type = t, pr_settings = s\<rparr>"
  have "?pid \<notin> pr_id ` set (p_proxies p)" using untouched_wf [OF p] by (auto simp: wf_db_def)
  then have "wf_db (p\<lparr>p_proxies := p_proxies p @ [?r], p_serial := (fst (p_serial p), ?pid)\<rparr>)"
    using untouched_wf [OF p] by (auto simp: wf_db_def)
  moreover have "view i (p\<lparr>p_proxies := p_proxies p @ [?r], p_serial := (fst (p_serial p), ?pid)\<rparr>) = view i p" if "i \<in> F" for i
    using that assms by (auto simp: view_def)
  ultimately have "untouched F p0 (p\<lparr>p_proxies := p_proxies p @ [?r], p_serial := (fst (p_serial p), ?pid)\<rparr>)"
    by (intro untouched_step [OF p]) simp_all
  then show "untouched F p0 (snd (let pid = snd (p_serial p) + 1; r = \<lparr>pr_id = pid, pr_user_id = uid, pr_type = t, pr_settings = s\<rparr>
      in if \<not> ProxyType_Valid t \<or> user_by_id p uid = None then (Inl DbError, p)
         else (Inr r, p\<lparr>p_proxies := p_proxies p @ [r], p_serial := (fst (p_serial p), pid)\<rparr>)))"
    using p by (simp add: Let_def)
next
  fix p a assume p: "untouched F p0 p" and a: "fst (let pid = snd (p_serial p) + 1; r = \<lparr>pr_id = pid, pr_user_id = uid, pr_type = t, pr_settings = s\<rparr>
      in if \<not> ProxyType_Valid t \<or> user_by_id p uid = None then (Inl DbError, p)
         else (Inr r, p\<lparr>p_proxies := p_proxies p @ [r], p_serial := (fst (p_serial p), pid)\<rparr>)) = Inr a"
  then have "pr_id a = snd (p_serial p) + 1" by (auto simp: Let_def split: if_splits)
  then show "pr_id a \<notin> proxies_of F p0" using untouched_serials(2) [OF p, of "pr_id a"] by auto
qed

text \<open>The proxies of the users in \<open>F\<close> are those of \<open>p0\<close>.\<close>

lemma untouched_pids:
  assumes "untouched F p0 p" and "uid \<in> F" and "pid \<notin> proxies_of F p0" and "r \<in> set (p_proxies p)" and "pr_user_id r = uid"
  shows "pr_id r \<noteq> pid"
  using untouched_owned [OF assms(1,4)] assms by auto

lemma yields_UpdateProxySettings [keep]:
  assumes "pid \<notin> proxies_of F p0"
  shows "yields (untouched F p0) (UpdateProxySettings pid s) (\<lambda>_. True)"
  unfolding UpdateProxySettings_def
proof (rule yields_stmt_untouched)
  fix p assume p: "untouched F p0 p"
  let ?g = "\<lambda>r. if pr_id r = pid then r\<lparr>pr_settings := s\<rparr> else r"
  have ids: "map pr_id (map ?g rs) = map pr_id rs" for rs by (induction rs) auto
  have "wf_db (p\<lparr>p_proxies := map ?g (p_proxies p)\<rparr>)"
    using untouched_wf [OF p] by (intro wf_db_proxies) (simp_all only: ids wf_db_def, auto)
  moreover have "view uid (p\<lparr>p_proxies := map ?g (p_proxies p)\<rparr>) = view uid p" if "uid \<in> F" for uid
  proof -
    have "map ?g (filter (\<lambda>r. pr_user_id r = uid) (p_proxies p)) = filter (\<lambda>r. pr_user_id r = uid) (p_proxies p)"
      by (rule map_idI) (use untouched_pids [OF p that assms] in auto)
    moreover have "filter (\<lambda>r. pr_user_id r = uid) (map ?g (p_proxies p)) = map ?g (filter (\<lambda>r. pr_user_id r = uid) (p_proxies p))"
      by (simp add: filter_map comp_def if_distrib [of pr_user_id] cong: filter_cong if_cong)
    ultimately show ?thesis by (simp add: view_def del: set_filter)
  qed
  ultimately have "untouched F p0 (p\<lparr>p_proxies := map ?g (p_proxies p)\<rparr>)" by (intro untouched_step [OF p]) simp_all
  then show "untouched F p0 (snd (case find (\<lambda>r. pr_id r = pid) (p_proxies p) of None \<Rightarrow> (Inl ErrNoRows, p)
      | Some r \<Rightarrow> (Inr (r\<lparr>pr_settings := s\<rparr>), p\<lparr>p_proxies := map ?g (p_proxies p)\<rparr>)))"
    using p by (simp split: option.split)
qed simp

lemma untouched_excluded:
  assumes "untouched F p0 p" and "\<And>e. fst e \<in> proxies_of F p0 \<Longrightarrow> P e" and "\<And>e. e \<in> set es \<Longrightarrow> fst e \<notin> proxies_of F p0"
  shows "untouched F p0 (p\<lparr>p_excluded := filter P (p_excluded p) @ es\<rparr>)"
proof (rule untouched_step [OF assms(1)])
  show "wf_db (p\<lparr>p_excluded := filter P (p_excluded p) @ es\<rparr>)" using untouched_wf [OF assms(1)] by (simp add: wf_db_def)
  show "view uid (p\<lparr>p_excluded := filter P (p_excluded p) @ es\<rparr>) = view uid p" if "uid \<in> F" for uid
  proof -
    have mine: "pid \<in> proxies_of F p0" if "pid \<in> pr_id ` set (filter (\<lambda>r. pr_user_id r = uid) (p_proxies p))" for pid
      using that untouched_owned [OF assms(1)] \<open>uid \<in> F\<close> by auto
    let ?Q = "\<lambda>(pid, _). pid \<in> pr_id ` set (filter (\<lambda>r. pr_user_id r = uid) (p_proxies p))"
    have "filter ?Q (filter P (p_excluded p)) = filter ?Q (p_excluded p)"
      by (rule filter_filter_imp) (use mine assms(2) in force)
    moreover have "filter ?Q es = []" using mine assms(3) by (fastforce simp: filter_empty_conv)
    ultimately show ?thesis unfolding view_def Let_def by (simp del: filter_filter set_filter)
  qed
qed simp_all

lemma untouched_forget:
  assumes "untouched F p0 p" and "pid \<notin> proxies_of F p0"
  shows "untouched F p0 (p\<lparr>p_excluded := filter (\<lambda>(q, _). q \<noteq> pid) (p_excluded p)\<rparr>)"
proof -
  have "untouched F p0 (p\<lparr>p_excluded := filter (\<lambda>(q, _). q \<noteq> pid) (p_excluded p) @ []\<rparr>)"
    by (rule untouched_excluded [OF assms(1)]) (use assms(2) in auto)
  then show ?thesis by simp
qed

lemma yields_excluded [keep]:
  assumes "pid \<notin> proxies_of F p0"
  shows "yields (untouched F p0) (ReplaceExcludedInbounds pid tags) (\<lambda>_. True)"
    and "yields (untouched F p0) (DeleteExcludedInbounds pid) (\<lambda>_. True)"
proof -
  have "untouched F p0 (p\<lparr>p_excluded := p_excluded p @ map (Pair pid) tags\<rparr>)" if "untouched F p0 p" for p
    using untouched_excluded [OF that, of "\<lambda>_. True" "map (Pair pid) tags"] assms by fastforce
  then show "yields (untouched F p0) (ReplaceExcludedInbounds pid tags) (\<lambda>_. True)"
    unfolding ReplaceExcludedInbounds_def by (intro yields_stmt_untouched) auto
  show "yields (untouched F p0) (DeleteExcludedInbounds pid) (\<lambda>_. True)"
    unfolding DeleteExcludedInbounds_def by (rule yields_stmt_untouched) (simp only: snd_conv untouched_forget [OF _ assms], simp)
qed

lemma yields_DeleteProxyByID [keep]:
  assumes "pid \<notin> proxies_of F p0"
  shows "yields (untouched F p0) (DeleteProxyByID pid) (\<lambda>_. True)"
  unfolding DeleteProxyByID_def
proof (rule yields_stmt_untouched)
  fix p assume p: "untouched F p0 p"
  let ?p = "p\<lparr>p_excluded := filter (\<lambda>(q, _). q \<noteq> pid) (p_excluded p)\<rparr>"
  let ?q = "p\<lparr>p_proxies := filter (\<lambda>r. pr_id r \<noteq> pid) (p_proxies p), p_excluded := filter (\<lambda>(q, _). q \<noteq> pid) (p_excluded p)\<rparr>"
  have p': "untouched F p0 ?p" by (rule untouched_forget [OF p assms])
  have "untouched F p0 ?q"
  proof (rule untouched_step [OF p'])
    show "wf_db ?q" using untouched_wf [OF p] by (auto simp: wf_db_def distinct_map_filter)
    show "view uid ?q = view uid ?p" if "uid \<in> F" for uid
    proof -
      have "filter (\<lambda>r. pr_user_id r = uid) (filter (\<lambda>r. pr_id r \<noteq> pid) (p_proxies p)) = filter (\<lambda>r. pr_user_id r = uid) (p_proxies p)"
        by (rule filter_filter_imp) (use untouched_pids [OF p that assms] in auto)
      then show ?thesis by (simp add: view_def del: filter_filter set_filter)
    qed
  qed simp_all
  then show "untouched F p0 (snd (Inr (), p\<lparr>p_proxies := filter (\<lambda>r. pr_id r \<noteq> pid) (p_proxies p), p_excluded := filter (\<lambda>(q, _). q \<noteq> pid) (p_excluded p)\<rparr>))"
    by simp
qed simp

text \<open>The tables keyed by the user alone.\<close>

lemma untouched_keyed:
  assumes "untouched F p0 p"
    and "\<And>uid. uid \<in> F \<Longrightarrow> filter (\<lambda>np. np_user_id np = uid) plans = filter (\<lambda>np. np_user_id np = uid) (p_plans p)"
    and "\<And>uid. uid \<in> F \<Longrightarrow> filter (\<lambda>(i, _). i = uid) logs = filter (\<lambda>(i, _). i = uid) (p_usage_logs p)"
    and "\<And>uid. uid \<in> F \<Longrightarrow> filter (\<lambda>r. nuu_user_id r = uid) hours = filter (\<lambda>r. nuu_user_id r = uid) (p_user_usages p)"
  shows "untouched F p0 (p\<lparr>p_plans := plans, p_usage_logs := logs, p_user_usages := hours\<rparr>)"
proof (rule untouched_step [OF assms(1)])
  show "wf_db (p\<lparr>p_plans := plans, p_usage_logs := logs, p_user_usages := hours\<rparr>)" using untouched_wf [OF assms(1)] by (simp add: wf_db_def)
qed (use assms(2-4) in \<open>simp_all add: view_def\<close>)

lemma untouched_plans:
  assumes "untouched F p0 p" and "\<And>uid. uid \<in> F \<Longrightarrow> filter (\<lambda>np. np_user_id np = uid) plans = filter (\<lambda>np. np_user_id np = uid) (p_plans p)"
  shows "untouched F p0 (p\<lparr>p_plans := plans\<rparr>)"
  using untouched_keyed [OF assms(1), of plans "p_usage_logs p" "p_user_usages p"] assms(2) by simp

lemma untouched_logs:
  assumes "untouched F p0 p" and "\<And>uid. uid \<in> F \<Longrightarrow> filter (\<lambda>(i, _). i = uid) logs = filter (\<lambda>(i, _). i = uid) (p_usage_logs p)"
  shows "untouched F p0 (p\<lparr>p_usage_logs := logs\<rparr>)"
  using untouched_keyed [OF assms(1), of "p_plans p" logs "p_user_usages p"] assms(2) by simp

lemma untouched_hours:
  assumes "untouched F p0 p" and "\<And>uid. uid \<in> F \<Longrightarrow> filter (\<lambda>r. nuu_user_id r = uid) hours = filter (\<lambda>r. nuu_user_id r = uid) (p_user_usages p)"
  shows "untouched F p0 (p\<lparr>p_user_usages := hours\<rparr>)"
  using untouched_keyed [OF assms(1), of "p_plans p" "p_usage_logs p" hours] assms(2) by simp

lemma yields_UpsertNextPlan [keep]:
  assumes "np_user_id np \<notin> F"
  shows "yields (untouched F p0) (UpsertNextPlan np) (\<lambda>_. True)"
  unfolding UpsertNextPlan_def
proof (rule yields_stmt_untouched)
  fix p assume p: "untouched F p0 p"
  let ?g = "\<lambda>q. if np_user_id q = np_user_id np then np else q"
  have "filter (\<lambda>q. np_user_id q = uid) (map ?g qs) = filter (\<lambda>q. np_user_id q = uid) qs" if "uid \<in> F" for uid qs
    by (rule filter_map_same) (use that assms in auto)
  moreover have "filter (\<lambda>q. np_user_id q = uid) (qs @ [np]) = filter (\<lambda>q. np_user_id q = uid) qs" if "uid \<in> F" for uid qs
    using that assms by auto
  ultimately show "untouched F p0 (snd (if user_by_id p (np_user_id np) = None then (Inl DbError, p)
      else (Inr np, p\<lparr>p_plans := (if plan_of (p_plans p) (np_user_id np) = None then p_plans p @ [np] else map ?g (p_plans p))\<rparr>)))"
    using p untouched_plans [OF p] by (simp del: filter_append)
qed simp

lemma yields_keyed [keep]:
  "uid \<notin> F \<Longrightarrow> yields (untouched F p0) (DeleteNextPlanByUserID uid) (\<lambda>_. True)"
  "uid \<notin> F \<Longrightarrow> yields (untouched F p0) (CreateUserUsageLog uid n) (\<lambda>_. True)"
  "uid \<notin> F \<Longrightarrow> yields (untouched F p0) (ClearNodeUserUsages uid) (\<lambda>_. True)"
  unfolding DeleteNextPlanByUserID_def CreateUserUsageLog_def ClearNodeUserUsages_def
  by (rule yields_stmt_untouched;
      auto intro!: untouched_plans untouched_logs untouched_hours filter_filter_imp simp del: filter_filter)+

lemma yields_keyed_bulk [keep]:
  "set ids \<inter> F = {} \<Longrightarrow> yields (untouched F p0) (DeleteNextPlansByUserIDs ids) (\<lambda>_. True)"
  "set ids \<inter> F = {} \<Longrightarrow> yields (untouched F p0) (DeleteUserUsageLogsByUserIDs ids) (\<lambda>_. True)"
  "set ids \<inter> F = {} \<Longrightarrow> yields (untouched F p0) (DeleteNodeUserUsagesByUserIDs ids) (\<lambda>_. True)"
  unfolding DeleteNextPlansByUserIDs_def DeleteUserUsageLogsByUserIDs_def DeleteNodeUserUsagesByUserIDs_def
  by (rule yields_stmt_untouched;
      auto intro!: untouched_plans untouched_logs untouched_hours filter_filter_imp simp del: filter_filter)+

subsection \<open>Reads\<close>

text \<open>Every invariant that ignores the call counter is kept by a statement that only reads.\<close>

definition reads :: "'a act \<Rightarrow> bool" where
  "reads m \<longleftrightarrow> (\<forall>p. \<exists>k. snd (m p) = p\<lparr>p_calls := k\<rparr>)"

named_theorems read

lemma reads_stmt: "(\<And>p. snd (f p) = p) \<Longrightarrow> reads (stmt f)"
  unfolding reads_def stmt_def Let_def by auto

lemma reads_ret [read]: "reads (ret a)"
  unfolding reads_def ret_def by (rule allI, rule_tac x = "p_calls p" in exI) simp

lemma reads_error [read]: "reads (\<lambda>p. (Inl e, p))"
  unfolding reads_def by (rule allI, rule_tac x = "p_calls p" in exI) simp

lemma reads_bnd [read]: "reads m \<Longrightarrow> (\<And>a. reads (f a)) \<Longrightarrow> reads (bnd m f)"
proof -
  assume m: "reads m" and f: "\<And>a. reads (f a)"
  have "\<exists>k. snd (bnd m f p) = p\<lparr>p_calls := k\<rparr>" for p
  proof -
    obtain r q where q: "m p = (r, q)" by force
    with m obtain k where k: "q = p\<lparr>p_calls := k\<rparr>" unfolding reads_def by (metis snd_conv)
    show ?thesis
    proof (cases r)
      case (Inr a)
      from f [of a] obtain j where "snd (f a q) = q\<lparr>p_calls := j\<rparr>" unfolding reads_def by blast
      then show ?thesis using q k Inr by (auto simp: bnd_def)
    qed (use q k in \<open>auto simp: bnd_def\<close>)
  qed
  then show ?thesis unfolding reads_def by blast
qed

lemma reads_if [read]: "reads m \<Longrightarrow> reads m' \<Longrightarrow> reads (if b then m else m')"
  by simp

lemma reads_statements [read]:
  "reads (GetUserByUsername name)" "reads (ListProxiesByUserID uid)" "reads (ListProxiesByUserIDs ids)"
  "reads (ListExcludedInboundTagsByProxyIDs pids)" "reads (GetNextPlansByUserIDs ids)" "reads (GetNextPlanByUserID uid)"
  "reads (ListUsers matches scope q)" "reads (CountListedUsers matches scope q)" "reads (CountUsers aid sts)"
  "reads (ListExpiredUsers after before scope)" "reads (GetAdminByUsername name)"
  unfolding GetUserByUsername_def ListProxiesByUserID_def ListProxiesByUserIDs_def ListExcludedInboundTagsByProxyIDs_def
    GetNextPlansByUserIDs_def GetNextPlanByUserID_def ListUsers_def CountListedUsers_def CountUsers_def ListExpiredUsers_def GetAdminByUsername_def
  by (rule reads_stmt; simp)+

lemma reads_buildUserResponses [read]: "reads (buildUserResponses ev us)"
  unfolding buildUserResponses_def Let_def by (intro read)

lemma reads_buildUserResponse [read]: "reads (buildUserResponse ev u)"
  unfolding buildUserResponse_def by (intro read)

lemma yields_reads: "reads m \<Longrightarrow> yields (untouched F p0) m (\<lambda>_. True)"
  unfolding reads_def yields_def by (metis untouched_calls)

lemmas keep_reads [keep] = reads_statements(1,3-) [THEN yields_reads] reads_buildUserResponses [THEN yields_reads] reads_buildUserResponse [THEN yields_reads]

end
