(* ===== verification/UserSafety.thy ===== *)
theory UserSafety
  imports UserRules
begin

text \<open>
  The router's user endpoints as one function, and what an admin without sudo rights cannot do through it
  (\<open>internal/httpapi/router.go\<close>, \<open>user.go\<close>, \<open>user_bulk.go\<close>).
\<close>

section \<open>The user routes\<close>

datatype user_request =
    GET_user string
  | GET_users listUsersParams
  | POST_user string userWriteRequest
  | PUT_user string userWriteRequest
  | DELETE_user string
  | POST_reset string
  | POST_revoke_sub string
  | POST_active_next string
  | PUT_set_owner string string
  | GET_users_expired "int option" "int option"
  | DELETE_users_expired "int option" "int option"
  | POST_users_reset

definition sudo_only :: "Identity \<Rightarrow> handler \<Rightarrow> handler" where
  "sudo_only identity h = (case RequireSudo (Inr identity) of Passed _ \<Rightarrow> h | Forbidden403 \<Rightarrow> Pair (Fail 403) | Unauthorized401 _ \<Rightarrow> Pair (Fail 401))"

fun serve_user :: "env \<Rightarrow> (string \<Rightarrow> User \<Rightarrow> bool) \<Rightarrow> Identity \<Rightarrow> user_request \<Rightarrow> handler" where
  "serve_user ev matches i (GET_user name) = handleGetUser ev i name"
| "serve_user ev matches i (GET_users q) = handleListUsers ev matches i q"
| "serve_user ev matches i (POST_user name req) = handleCreateUser ev i name req"
| "serve_user ev matches i (PUT_user name req) = handleModifyUser ev i name req"
| "serve_user ev matches i (DELETE_user name) = handleDeleteUser ev i name"
| "serve_user ev matches i (POST_reset name) = handleResetUserDataUsage ev i name"
| "serve_user ev matches i (POST_revoke_sub name) = handleRevokeUserSub ev i name"
| "serve_user ev matches i (POST_active_next name) = handleActivateNextPlan ev i name"
| "serve_user ev matches i (PUT_set_owner name admin) = sudo_only i (handleSetUserOwner ev i name admin)"
| "serve_user ev matches i (GET_users_expired a b) = handleGetExpiredUsers ev i a b"
| "serve_user ev matches i (DELETE_users_expired a b) = handleDeleteExpiredUsers ev i a b"
| "serve_user ev matches i POST_users_reset = sudo_only i (handleResetAllUsersUsage i)"

text \<open>Requests of any admins, one after the other, each in the environment of its moment.\<close>

fun serve_all :: "(string \<Rightarrow> User \<Rightarrow> bool) \<Rightarrow> (Identity \<times> env \<times> user_request) list \<Rightarrow> panel \<Rightarrow> reply list \<times> panel" where
  "serve_all matches [] p = ([], p)"
| "serve_all matches ((i, ev, r) # rs) p =
     (let (answer, p) = serve_user ev matches i r p; (answers, p) = serve_all matches rs p in (answer # answers, p))"

section \<open>The handlers keep foreign users\<close>

abbreviation foreign_ids :: "int \<Rightarrow> panel \<Rightarrow> int set" where
  "foreign_ids aid p \<equiv> u_id ` {u \<in> set (p_users p). u_admin_id u \<noteq> Some aid}"

lemma own_not_foreign:
  assumes "untouched (foreign_ids aid p0) p0 p" and "u \<in> set (p_users p)" and "u_admin_id u = Some aid"
  shows "u_id u \<notin> foreign_ids aid p0"
proof
  assume F: "u_id u \<in> foreign_ids aid p0"
  then obtain v where v: "v \<in> set (p_users p0)" "u_id v = u_id u" "u_admin_id v \<noteq> Some aid" by auto
  have "u \<in> set (filter (\<lambda>x. u_id x = u_id u) (p_users p0))"
    using untouched_proxies(2) [OF assms(1) F] assms(2) by (metis (mono_tags, lifting) filter_id_conv mem_Collect_eq set_filter)
  then have "u \<in> set (p_users p0)" by simp
  moreover have "distinct (map u_id (p_users p0))" using assms(1) by (simp add: untouched_def wf_db_def)
  ultimately have "u = v" using v(1,2) by (auto simp: distinct_map dest: inj_onD)
  then show False using v(3) assms(3) by simp
qed

text \<open>Events, and the payloads for the peers, are outside of the tables.\<close>

lemma untouched_outside:
  assumes "untouched F p0 p" and "p_users q = p_users p" "p_proxies q = p_proxies p" "p_excluded q = p_excluded p" "p_plans q = p_plans p"
    "p_usage_logs q = p_usage_logs p" "p_user_usages q = p_user_usages p" "p_serial q = p_serial p"
  shows "untouched F p0 q"
proof (rule untouched_step [OF assms(1)])
  show "wf_db q" using wf_db_frame [of q p] assms untouched_wf [OF assms(1)] by simp
  show "view uid q = view uid p" for uid by (rule view_frame) (use assms in auto)
qed (use assms in auto)

lemma untouched_report: "untouched F p0 p \<Longrightarrow> untouched F p0 (report e p)"
  by (rule untouched_outside) (simp_all add: report_def)

lemma untouched_push: "untouched F p0 p \<Longrightarrow> untouched F p0 (dispatchGatewayPush payload p)"
  by (rule untouched_outside) (simp_all add: dispatchGatewayPush_def)

lemma untouched_sync: "untouched F p0 p \<Longrightarrow> untouched F p0 (dispatchGatewayUserSync u p)"
proof -
  assume p: "untouched F p0 p"
  obtain r q where q: "ListProxiesByUserID (u_id u) p = (r, q)" by force
  then have "untouched F p0 q" using yields_reads [OF reads_statements(2), of F p0 "u_id u"] p unfolding yields_def by (metis snd_conv)
  then show ?thesis using p q by (auto simp: dispatchGatewayUserSync_def intro: untouched_push split: sum.split)
qed

lemma untouched_sync_delete: "untouched F p0 p \<Longrightarrow> untouched F p0 (dispatchGatewayUserDelete u p)"
  unfolding dispatchGatewayUserDelete_def by (auto intro: untouched_push)

lemmas after_effects = untouched_report untouched_sync untouched_sync_delete

lemma keeps_after: "(\<And>p. I p \<Longrightarrow> I (f p)) \<Longrightarrow> keeps I (\<lambda>p. (a, f p))"
  by (simp add: keeps_def)

lemma yields_createProxyForUser [keep]:
  assumes "uid \<notin> F"
  shows "yields (untouched F p0) (createProxyForUser ev uid t s tags) (\<lambda>_. True)"
  unfolding createProxyForUser_def
proof (rule yields_bnd [OF yields_CreateProxy [OF assms]], goal_cases)
  case (1 r)
  show ?case
  proof (cases "ev_known ev t")
    case (Some known)
    then show ?thesis using yields_excluded(1) [OF 1] by (cases "subtractTags known tags = []") (simp_all add: yields_ret)
  qed (simp add: yields_error)
qed

lemma by_type_sub: "map_of (by_type rs) t = Some r \<Longrightarrow> r \<in> set rs"
proof -
  have "map_of (foldl (\<lambda>m r. mput (pr_type r) r m) m0 rs) t = Some r \<Longrightarrow> r \<in> set rs \<or> map_of m0 t = Some r" for m0
    by (induction rs arbitrary: m0) (fastforce split: if_splits)+
  then show "map_of (by_type rs) t = Some r \<Longrightarrow> r \<in> set rs" by (fastforce simp: by_type_def)
qed

lemma yields_reconcileProxies [keep]:
  assumes "uid \<notin> F"
  shows "yields (untouched F p0) (reconcileProxies uid wanted remove del) (\<lambda>_. True)"
  unfolding reconcileProxies_def
proof (rule yields_bnd [OF yields_ListProxiesByUserID [OF assms]], rule yields_bnd [where Q = "\<lambda>_. True"], goal_cases)
  case (1 rs)
  have "yields (untouched F p0) (reconcile_wanted (by_type rs) uid w) (\<lambda>_. True)" for w
    unfolding reconcile_wanted_def using 1 assms by (auto dest!: by_type_sub intro!: keep split: prod.split option.split)
  then show ?case by (rule yields_each)
next
  case (2 rs)
  then show ?case by (auto simp: reconcile_removed_def intro!: keep)
qed

lemma yields_reconcileExcludedInbounds [keep]:
  assumes "uid \<notin> F"
  shows "yields (untouched F p0) (reconcileExcludedInbounds ev uid wanted) (\<lambda>_. True)"
  unfolding reconcileExcludedInbounds_def
proof (rule yields_bnd [OF yields_ListProxiesByUserID [OF assms]], rule yields_each, goal_cases)
  case (1 rs w)
  obtain t tags where w: "w = (t, tags)" by force
  show ?case
  proof (cases "map_of (by_type rs) t")
    case (Some r)
    then have "pr_id r \<notin> proxies_of F p0" using 1 by (auto dest: by_type_sub)
    then show ?thesis using w Some by (cases "ev_known ev t") (auto simp: reconcile_inbounds_def Let_def intro!: keep)
  qed (simp add: w reconcile_inbounds_def yields_ret)
qed

lemma yields_GetUserByUsername:
  "yields (untouched (foreign_ids aid p0) p0) (GetUserByUsername name) (\<lambda>u. u_admin_id u = Some aid \<longrightarrow> u_id u \<notin> foreign_ids aid p0)"
  unfolding GetUserByUsername_def
proof (rule yields_read)
  fix p u assume p: "untouched (foreign_ids aid p0) p0 p"
    and u: "fst (case user_by_name p name of None \<Rightarrow> Inl ErrNoRows | Some u \<Rightarrow> Inr u, p) = Inr u"
  from u have "u \<in> set (p_users p)" by (auto simp: user_by_name_def find_Some_iff split: option.splits)
  then show "u_admin_id u = Some aid \<longrightarrow> u_id u \<notin> foreign_ids aid p0" using own_not_foreign [OF p] by blast
qed simp

text \<open>The users out of reach: none for a sudo admin.\<close>

definition out_of_reach :: "Identity \<Rightarrow> panel \<Rightarrow> int set" where
  "out_of_reach i p = (if id_IsSudo i then {} else foreign_ids (id_AdminID i) p)"

lemma keeps_loadAuthorizedUser:
  assumes "\<And>u. u_id u \<notin> out_of_reach i p0 \<Longrightarrow> keeps (untouched (out_of_reach i p0) p0) (k u)"
  shows "keeps (untouched (out_of_reach i p0) p0) (loadAuthorizedUser i name k)"
proof (cases "id_IsSudo i")
  case True
  then show ?thesis using assms unfolding loadAuthorizedUser_def
    by (intro keeps_attempt [OF keep_reads(1)]) (auto simp: out_of_reach_def)
next
  case False
  then have F: "out_of_reach i p0 = foreign_ids (id_AdminID i) p0" by (simp add: out_of_reach_def)
  show ?thesis
    using assms False unfolding loadAuthorizedUser_def F
    by (intro keeps_attempt [OF yields_GetUserByUsername]) (auto simp del: not_not intro: keeps_Pair)
qed

lemma keeps_respondWithUser [keep]: "keeps (untouched F p0) (respondWithUser ev u)"
  unfolding respondWithUser_def by (rule keep)+

lemma keeps_enforce [keep]:
  assumes k: "keeps (untouched F p0) k"
  shows "keeps (untouched F p0) (enforceResellerAPIUserLimit ev i k)"
  unfolding keeps_def
proof (intro allI impI)
  fix p assume p: "untouched F p0 p"
  obtain r q where q: "CountUsers (id_AdminID i) [''active'', ''on_hold''] p = (r, q)" by force
  have "untouched F p0 q" using yields_reads [OF reads_statements(9)] p q unfolding yields_def by (metis snd_conv)
  then show "untouched F p0 (snd (enforceResellerAPIUserLimit ev i k p))"
    using k p q by (auto simp: keeps_def enforceResellerAPIUserLimit_def split: option.split sum.split)
qed

lemma keeps_finish [keep]:
  "keeps (untouched F p0) (finish_create ev i u)" "keeps (untouched F p0) (finish_modify ev i u v)"
  unfolding finish_create_def finish_modify_def Let_def
  by (rule keeps_attempt [OF yields_reads [OF reads_buildUserResponse]]; simp add: keeps_def after_effects)+

lemma yields_upsert:
  "uid \<notin> F \<Longrightarrow> yields (untouched F p0) (case x of None \<Rightarrow> ret () | Some np \<Rightarrow> bnd (UpsertNextPlan (next_plan_row uid np)) (\<lambda>_. ret ())) (\<lambda>_. True)"
  by (cases x) (auto simp: next_plan_row_def intro!: yields_bnd [OF yields_UpsertNextPlan] yields_ret)

lemma keeps_create_row [keep]: "keeps (untouched F p0) (create_row ev i name req status wanted)"
  unfolding create_row_def
proof (rule keeps_attempt [OF yields_CreateUser(1)], rule keeps_attempt [OF yields_each], goal_cases)
  case (1 u w)
  then show ?case by (cases w) (auto intro: yields_createProxyForUser)
next
  case (2 u)
  show ?case by (rule keeps_attempt [OF yields_upsert]) (use 2 in \<open>auto intro: keep\<close>)
qed

lemma keeps_modify_row [keep]: "u_id u \<notin> F \<Longrightarrow> keeps (untouched F p0) (modify_row ev i req u wanted remove)"
  unfolding modify_row_def update_row_def update_user_defs
  by (rule keep | simp add: next_plan_row_def)+

lemma keeps_guard [keep]: "keeps I h \<Longrightarrow> keeps I (g h) \<Longrightarrow> keeps I ((if b then g else (\<lambda>k. k)) h)"
  "keeps I h \<Longrightarrow> keeps I (g h) \<Longrightarrow> keeps I ((if b then (\<lambda>k. k) else g) h)"
  by simp_all

lemma keeps_handleCreateUser: "keeps (untouched F p0) (handleCreateUser ev i name req)"
  unfolding handleCreateUser_def Let_def by (rule keep)+

lemma keeps_handleModifyUser:
  shows "keeps (untouched (out_of_reach i p0) p0) (handleModifyUser ev i name req)"
  unfolding handleModifyUser_def by (rule keeps_loadAuthorizedUser) (rule keep | assumption)+

lemma keeps_handleDeleteUser:
  shows "keeps (untouched (out_of_reach i p0) p0) (handleDeleteUser ev i name)"
  unfolding handleDeleteUser_def
  by (rule keeps_loadAuthorizedUser) (rule keeps_attempt [OF yields_DeleteUser(1)]; simp add: keeps_def after_effects)

lemma keeps_report [keep]: "keeps (untouched F p0) (\<lambda>p. (a, report e p))"
  by (simp add: keeps_def after_effects)

lemma keeps_handleResetUserDataUsage:
  shows "keeps (untouched (out_of_reach i p0) p0) (handleResetUserDataUsage ev i name)"
  unfolding handleResetUserDataUsage_def update_user_defs
  by (rule keeps_loadAuthorizedUser) (rule keep | assumption | (simp; fail))+

lemma yields_revoke_proxy:
  assumes "pr_id r \<notin> proxies_of F p0"
  shows "yields (untouched F p0) (revoke_proxy ev r) (\<lambda>_. True)"
proof (cases "FromStored (fst (ev_fresh ev (pr_type r))) (snd (ev_fresh ev (pr_type r))) (pr_type r) (pr_settings r)")
  case (Some s)
  have "yields (untouched F p0) (bnd (UpdateProxySettings (pr_id r) x) (\<lambda>_. ret ())) (\<lambda>_. True)" for x
    by (rule keep assms)+
  then show ?thesis by (simp add: revoke_proxy_def Some)
qed (simp add: revoke_proxy_def yields_error)

lemma keeps_handleRevokeUserSub:
  shows "keeps (untouched (out_of_reach i p0) p0) (handleRevokeUserSub ev i name)"
  unfolding handleRevokeUserSub_def update_user_defs
proof (rule keeps_loadAuthorizedUser, rule keeps_attempt [OF yields_ListProxiesByUserID], assumption, goal_cases)
  case (1 u rs)
  show ?case by (rule keeps_attempt [OF yields_each]) (use 1 in \<open>auto intro!: yields_revoke_proxy keep\<close>)
qed

lemma keeps_handleActivateNextPlan:
  shows "keeps (untouched (out_of_reach i p0) p0) (handleActivateNextPlan ev i name)"
  unfolding handleActivateNextPlan_def
  by (rule keeps_loadAuthorizedUser) (rule keep | assumption)+

lemma keeps_lists:
  "keeps (untouched F p0) (handleListUsers ev matches i q)"
  "keeps (untouched F p0) (handleGetExpiredUsers ev i a b)"
  unfolding handleListUsers_def handleGetExpiredUsers_def expiredUsersInWindow_def Let_def by ((rule keep)+)+

lemma yields_expired_own:
  "yields (untouched (out_of_reach i p0) p0) (ListExpiredUsers a b (if id_IsSudo i then None else Some (id_AdminID i)))
     (\<lambda>us. u_id ` set us \<inter> out_of_reach i p0 = {})"
  unfolding ListExpiredUsers_def
proof (rule yields_read)
  fix p us assume p: "untouched (out_of_reach i p0) p0 p"
    and us: "fst (Inr (sort_key u_id (filter (is_expired_row a b (if id_IsSudo i then None else Some (id_AdminID i))) (p_users p))), p) = Inr us"
  have "u_id u \<notin> foreign_ids (id_AdminID i) p0" if "\<not> id_IsSudo i" "u \<in> set us" for u
    by (rule own_not_foreign) (use that us p in \<open>auto simp: is_expired_row_def out_of_reach_def\<close>)
  then show "u_id ` set us \<inter> out_of_reach i p0 = {}" by (auto simp: out_of_reach_def simp del: image_eqI)
qed simp

lemma untouched_reports: "untouched F p0 p \<Longrightarrow> untouched F p0 (foldl (\<lambda>p u. report (f u) p) p us)"
  by (induction us arbitrary: p) (auto intro: untouched_report)

lemma keeps_handleDeleteExpiredUsers:
  "keeps (untouched (out_of_reach i p0) p0) (handleDeleteExpiredUsers ev i a b)"
  unfolding handleDeleteExpiredUsers_def expiredUsersInWindow_def Let_def
proof (rule keeps_if, rule keeps_Pair, rule keeps_attempt [OF yields_expired_own], rule keeps_if, rule keeps_Pair,
    rule keeps_attempt [OF yields_DeleteUser(2)], goal_cases)
  case (2 us)
  then show ?case by (simp add: keeps_def untouched_reports)
qed simp

lemma keeps_sudo_only: "(id_IsSudo i \<Longrightarrow> keeps I h) \<Longrightarrow> keeps I (sudo_only i h)"
  by (simp add: sudo_only_def RequireSudo_def keep)

lemma keeps_handleSetUserOwner: "keeps (untouched (out_of_reach i p0) p0) (handleSetUserOwner ev i name admin)"
  unfolding handleSetUserOwner_def update_user_defs
  by (rule keeps_loadAuthorizedUser) (rule keep | assumption | (simp; fail))+

lemma keeps_handleResetAllUsersUsage: "keeps (untouched {} p0) (handleResetAllUsersUsage i)"
proof -
  have "reads ListAllUserIDs" "reads (ListUserIDsByAdmin aid)" for aid
    unfolding ListAllUserIDs_def ListUserIDsByAdmin_def by (rule reads_stmt; simp)+
  then have "yields (untouched {} p0) (if id_AdminID i = 0 then ListAllUserIDs else ListUserIDsByAdmin (id_AdminID i)) (\<lambda>_. True)"
    by (simp add: yields_reads)
  then show ?thesis unfolding handleResetAllUsersUsage_def
    by (rule keeps_attempt) (rule keep | (simp; fail))+
qed

lemma keeps_serve_user: "keeps (untouched (out_of_reach i p0) p0) (serve_user ev matches i r)"
proof (cases r)
  case POST_users_reset
  then show ?thesis using keeps_handleResetAllUsersUsage [of p0 i] by (auto simp: out_of_reach_def intro!: keeps_sudo_only)
qed (simp_all add: handleGetUser_def keeps_sudo_only keeps_loadAuthorizedUser keep keeps_lists keeps_handleSetUserOwner
      keeps_handleCreateUser keeps_handleModifyUser keeps_handleDeleteUser keeps_handleResetUserDataUsage keeps_handleRevokeUserSub
      keeps_handleActivateNextPlan keeps_handleDeleteExpiredUsers)

lemma untouched_serve_user:
  assumes "wf_db p"
  shows "untouched (out_of_reach i p) p (snd (serve_user ev matches i r p))"
proof -
  have "untouched (out_of_reach i p) p p" by (rule untouched_refl [OF assms]) (auto simp: out_of_reach_def)
  then show ?thesis using keeps_serve_user unfolding keeps_def by blast
qed


text \<open>
  C3. An admin without sudo rights reaches only the admin's own users: the row, the proxies with their
  exclusions, the plan and the usage of a user stay as they are through any requests of admins who neither
  are sudo nor own the user, whatever statements fail on the way.
\<close>

theorem admins_touch_only_their_users:
  assumes "wf_db p" and "u \<in> set (p_users p)"
    and "\<forall>(i, _) \<in> set rs. \<not> id_IsSudo i \<and> u_admin_id u \<noteq> Some (id_AdminID i)"
  shows "view (u_id u) (snd (serve_all matches rs p)) = view (u_id u) p"
  using assms
proof (induction rs arbitrary: p)
  case (Cons r rs)
  obtain i ev req where r: "r = (i, ev, req)" by (cases r) auto
  let ?q = "snd (serve_user ev matches i req p)"
  have F: "u_id u \<in> out_of_reach i p" using Cons.prems by (auto simp: r out_of_reach_def)
  have q: "untouched (out_of_reach i p) p ?q" by (rule untouched_serve_user [OF Cons.prems(1)])
  have "u \<in> set (filter (\<lambda>v. u_id v = u_id u) (p_users ?q))"
    unfolding untouched_proxies(2) [OF q F] using Cons.prems(2) by simp
  then have "view (u_id u) (snd (serve_all matches rs ?q)) = view (u_id u) ?q"
    using Cons.IH [OF untouched_wf [OF q]] Cons.prems(3) by (auto simp: r)
  also have "\<dots> = view (u_id u) p" using q F by (simp add: untouched_def)
  finally show ?case by (simp add: r Let_def case_prod_beta)
qed simp

section \<open>Examples\<close>

text \<open>Two sellers, each with one user.\<close>

definition seller :: "int \<Rightarrow> Identity" where
  "seller aid = \<lparr>id_AdminID = aid, id_Username = ''seller'', id_IsSudo = False, id_IsOwner = False\<rparr>"

definition seller_row :: "int \<Rightarrow> string \<Rightarrow> Admin" where
  "seller_row aid name = \<lparr>a_id = aid, a_username = name, a_users_usage = 0, a_telegram_id = None, a_discord_webhook = None,
     a_hashed_password = [], a_is_sudo = False, a_is_owner = False, a_password_reset_at = None, a_created_at = 0\<rparr>"

definition market :: panel where
  "market = (example_panel [] (\<lambda>_. False))\<lparr>p_admins := [seller_row 1 ''eve'', seller_row 2 ''sam''],
     p_users := [example_user\<lparr>u_admin_id := Some 1\<rparr>, example_user\<lparr>u_id := 2, u_username := ''bob'', u_admin_id := Some 2\<rparr>],
     p_proxies := [\<lparr>pr_id = 1, pr_user_id = 2, pr_type = ''trojan'', pr_settings = ''{}''\<rparr>], p_serial := (2, 1)\<rparr>"

definition plain_env :: env where
  "plain_env = \<lparr>ev_known = (\<lambda>_. Some [''in'']), ev_inbound = (\<lambda>_. True), ev_admin = (\<lambda>_. None), ev_online = (\<lambda>_ t. (False, t)),
     ev_sub_url = (\<lambda>u. u), ev_links = (\<lambda>_. None), ev_users_limit = (\<lambda>_. None), ev_now = 7000000000, ev_fresh = (\<lambda>_. (''u'', ''p''))\<rparr>"

lemma market_wf: "wf_db market"
  by (simp add: wf_db_def market_def example_panel_def example_user_def)

definition market_day :: "(Identity \<times> env \<times> user_request) list" where
  "market_day = [(seller 1, plain_env, DELETE_user ''bob''), (seller 1, plain_env, POST_reset ''ann''),
     (seller 1, plain_env, DELETE_users_expired None None), (seller 1, plain_env, POST_users_reset), (seller 1, plain_env, DELETE_user ''ann'')]"


lemma market_day_answers:
  "(case serve_all (\<lambda>_ _. True) market_day market of (answers, p) \<Rightarrow>
      answers ! 0 = Fail 403 \<and> answers ! 2 = Fail 404 \<and> answers ! 3 = Fail 403 \<and> answers ! 4 = Ok \<and> map u_username (p_users p) = [''bob''])"
  by code_simp

theorem admins_touch_only_their_users_witness:
  "view 2 (snd (serve_all (\<lambda>_ _. True) market_day market)) = view 2 market"
  using admins_touch_only_their_users [OF market_wf, of "example_user\<lparr>u_id := 2, u_username := ''bob'', u_admin_id := Some 2\<rparr>" market_day "\<lambda>_ _. True"]
  by (simp add: market_day_def seller_def market_def)

end
