(* ===== verification/UserChanges.thy ===== *)
theory UserChanges
  imports UserSafety
begin

text \<open>
  What the user endpoints do when the database answers: the proxies after a modification, the status
  that is written, and the answers to a page of users (\<open>internal/httpapi/user.go\<close>).
\<close>

section \<open>Proxies by protocol\<close>

text \<open>The credentials of a user, as a map from protocol to settings.\<close>

definition settings_of :: "panel \<Rightarrow> int \<Rightarrow> string \<Rightarrow> string option" where
  "settings_of p uid t = map_option pr_settings (find (\<lambda>r. pr_user_id r = uid \<and> pr_type r = t) (p_proxies p))"

definition one_per_type :: "panel \<Rightarrow> bool" where
  "one_per_type p \<longleftrightarrow> distinct (map (\<lambda>r. (pr_user_id r, pr_type r)) (p_proxies p))"

definition proxy_keys :: "panel \<Rightarrow> (int \<times> int \<times> string) list" where
  "proxy_keys p = map (\<lambda>r. (pr_id r, pr_user_id r, pr_type r)) (p_proxies p)"

definition ready :: "panel \<Rightarrow> int \<Rightarrow> bool" where
  "ready p uid \<longleftrightarrow> no_faults p \<and> wf_db p \<and> one_per_type p \<and> uid \<in> u_id ` set (p_users p)"

lemma settings_of_iff:
  assumes "one_per_type p"
  shows "settings_of p uid t = Some s \<longleftrightarrow> (\<exists>r \<in> set (p_proxies p). pr_user_id r = uid \<and> pr_type r = t \<and> pr_settings r = s)"
proof -
  have "find (\<lambda>r. pr_user_id r = uid \<and> pr_type r = t) rs = Some r \<longleftrightarrow> r \<in> set rs \<and> pr_user_id r = uid \<and> pr_type r = t"
    if "distinct (map (\<lambda>r. (pr_user_id r, pr_type r)) rs)" for rs :: "Proxy list" and r
    using that by (induction rs) force+
  then show ?thesis using assms by (auto simp: settings_of_def one_per_type_def)
qed

lemma settings_of_None:
  "settings_of p uid t = None \<longleftrightarrow> (\<forall>r \<in> set (p_proxies p). \<not> (pr_user_id r = uid \<and> pr_type r = t))"
  by (auto simp: settings_of_def find_None_iff)

lemma no_faults_step: "no_faults p \<Longrightarrow> \<not> p_fault p (p_calls p) \<and> no_faults (p\<lparr>p_calls := p_calls p + 1\<rparr>)"
  by (auto simp: no_faults_def)

lemma ready_calls: "ready p uid \<Longrightarrow> ready (p\<lparr>p_calls := p_calls p + 1\<rparr>) uid"
  using no_faults_step [of p] by (auto simp: ready_def wf_db_def one_per_type_def)

lemma settings_of_calls [simp]: "settings_of (p\<lparr>p_calls := k\<rparr>) uid t = settings_of p uid t"
  by (simp add: settings_of_def)

lemma find_SomeD: "find P xs = Some x \<Longrightarrow> x \<in> set xs \<and> P x"
  by (induction xs) (auto split: if_splits)

lemma map_put_same:
  "(\<And>x. f (x\<lparr>pr_settings := s\<rparr>) = f x) \<Longrightarrow> map f (map (\<lambda>x. if pr_id x = pid then x\<lparr>pr_settings := s\<rparr> else x) rs) = map f rs" for rs :: "Proxy list"
  by (induction rs) auto

text \<open>The three statements on one proxy.\<close>

lemma UpdateProxySettings_effect:
  fixes s t :: string
  assumes "ready p uid" and r: "r \<in> set (p_proxies p)" "pr_user_id r = uid"
  defines "q \<equiv> snd (UpdateProxySettings (pr_id r) s p)"
  shows "\<exists>x. fst (UpdateProxySettings (pr_id r) s p) = Inr x" "ready q uid"
    "settings_of q uid t = (if t = pr_type r then Some s else settings_of p uid t)"
    "proxy_keys q = proxy_keys p"
proof -
  let ?g = "\<lambda>x. if pr_id x = pr_id r then x\<lparr>pr_settings := s\<rparr> else x"
  let ?p = "p\<lparr>p_calls := p_calls p + 1\<rparr>"
  have p: "no_faults p" "wf_db p" "one_per_type p" using assms(1) by (auto simp: ready_def)
  obtain x where x: "find (\<lambda>x. pr_id x = pr_id r) (p_proxies p) = Some x" using r(1) by (fastforce simp: find_None_iff)
  have run: "UpdateProxySettings (pr_id r) s p = (Inr (x\<lparr>pr_settings := s\<rparr>), ?p\<lparr>p_proxies := map ?g (p_proxies p)\<rparr>)"
    using no_faults_step [OF p(1)] x by (simp add: UpdateProxySettings_def stmt_ok)
  then show "\<exists>x. fst (UpdateProxySettings (pr_id r) s p) = Inr x" by simp
  have q: "q = ?p\<lparr>p_proxies := map ?g (p_proxies p)\<rparr>" by (simp add: q_def run)
  note same = map_put_same [where pid = "pr_id r" and s = s]
  have ids: "map pr_id (map ?g (p_proxies p)) = map pr_id (p_proxies p)" by (rule same) simp
  have uniq: "x = r" if "x \<in> set (p_proxies p)" "pr_id x = pr_id r" for x
    using p(2) that r(1) by (auto simp: wf_db_def distinct_map dest: inj_onD)
  have one: "one_per_type q" using p(3) same [of "\<lambda>r. (pr_user_id r, pr_type r)"] by (simp add: q one_per_type_def del: map_map)
  have "set (map pr_id (map ?g (p_proxies p))) = set (map pr_id (p_proxies p))" by (simp only: ids)
  then have "pr_id x \<le> snd (p_serial p)" if "x \<in> set (map ?g (p_proxies p))" for x
    using p(2) that unfolding wf_db_def by (metis (no_types, lifting) image_eqI image_iff list.set_map)
  moreover have "wf_db ?p" using p(2) by (simp add: wf_db_def)
  moreover have "distinct (map pr_id (map ?g (p_proxies p)))" unfolding ids using p(2) by (simp add: wf_db_def)
  ultimately have "wf_db q" unfolding q by (intro wf_db_proxies) simp_all
  then show "ready q uid" using assms(1) one no_faults_step [OF p(1)] by (auto simp: ready_def q no_faults_def)
  show "settings_of q uid t = (if t = pr_type r then Some s else settings_of p uid t)"
  proof (cases "t = pr_type r")
    case True
    have "\<exists>x \<in> set (p_proxies q). pr_user_id x = uid \<and> pr_type x = t \<and> pr_settings x = s"
      using r True by (intro bexI [of _ "?g r"]) (auto simp: q)
    then show ?thesis using settings_of_iff [OF one] True by auto
  next
    case False
    have "settings_of q uid t = Some y \<longleftrightarrow> settings_of p uid t = Some y" for y
      using False uniq unfolding settings_of_iff [OF one] settings_of_iff [OF p(3)] by (fastforce simp: q)
    then show ?thesis using False by (metis option.exhaust)
  qed
  show "proxy_keys q = proxy_keys p" by (simp add: proxy_keys_def q del: map_map) (rule same, simp)
qed

lemma CreateProxy_effect:
  fixes s t t' :: string
  assumes "ready p uid" and "settings_of p uid t = None" and "ProxyType_Valid t"
  defines "q \<equiv> snd (CreateProxy uid t s p)"
  shows "\<exists>x. fst (CreateProxy uid t s p) = Inr x" "ready q uid"
    "settings_of q uid t' = (if t' = t then Some s else settings_of p uid t')"
    "\<exists>pid. pid \<notin> pr_id ` set (p_proxies p) \<and> proxy_keys q = proxy_keys p @ [(pid, uid, t)]"
proof -
  let ?p = "p\<lparr>p_calls := p_calls p + 1\<rparr>"
  let ?pid = "snd (p_serial p) + 1"
  let ?r = "\<lparr>pr_id = ?pid, pr_user_id = uid, pr_type = t, pr_settings = s\<rparr>"
  have p: "no_faults p" "wf_db p" "one_per_type p" "uid \<in> u_id ` set (p_users p)" using assms(1) by (auto simp: ready_def)
  have run: "CreateProxy uid t s p = (Inr ?r, ?p\<lparr>p_proxies := p_proxies p @ [?r], p_serial := (fst (p_serial p), ?pid)\<rparr>)"
    using no_faults_step [OF p(1)] p(4) assms(3) by (auto simp: CreateProxy_def stmt_ok Let_def user_by_id_def find_None_iff)
  then show "\<exists>x. fst (CreateProxy uid t s p) = Inr x" by simp
  have q: "p_proxies q = p_proxies p @ [?r]" "p_users q = p_users p" "p_serial q = (fst (p_serial p), ?pid)"
    by (simp_all add: q_def run)
  have one: "one_per_type q" using p(3) assms(2) by (auto simp: one_per_type_def q settings_of_None)
  have fresh: "?pid \<notin> pr_id ` set (p_proxies p)" using p(2) by (auto simp: wf_db_def)
  then have "wf_db q" using p(2) by (auto simp: wf_db_def q)
  moreover have "no_faults q" using no_faults_step [OF p(1)] by (simp add: no_faults_def q_def run)
  ultimately show "ready q uid" using assms(1) one by (simp add: ready_def q)
  show "settings_of q uid t' = (if t' = t then Some s else settings_of p uid t')"
    by (cases "t' = t") (use assms(2) in \<open>auto simp: settings_of_def q find_snoc split: option.split\<close>)
  show "\<exists>pid. pid \<notin> pr_id ` set (p_proxies p) \<and> proxy_keys q = proxy_keys p @ [(pid, uid, t)]"
    using fresh by (auto simp: proxy_keys_def q)
qed

lemma DeleteProxyByID_effect:
  fixes t :: string
  assumes "ready p uid" and r: "(pid, uid, t0) \<in> set (proxy_keys p)"
  defines "q \<equiv> snd (DeleteProxyByID pid p)"
  shows "fst (DeleteProxyByID pid p) = Inr ()" "ready q uid"
    "settings_of q uid t = (if t = t0 then None else settings_of p uid t)"
    "proxy_keys q = filter (\<lambda>(i, _). i \<noteq> pid) (proxy_keys p)"
proof -
  have p: "no_faults p" "wf_db p" "one_per_type p" using assms(1) by (auto simp: ready_def)
  have run: "DeleteProxyByID pid p = (Inr (), p\<lparr>p_calls := p_calls p + 1, p_proxies := filter (\<lambda>r. pr_id r \<noteq> pid) (p_proxies p),
      p_excluded := filter (\<lambda>(q, _). q \<noteq> pid) (p_excluded p)\<rparr>)"
    using no_faults_step [OF p(1)] by (simp add: DeleteProxyByID_def stmt_ok)
  then show "fst (DeleteProxyByID pid p) = Inr ()" by simp
  have q: "p_proxies q = filter (\<lambda>r. pr_id r \<noteq> pid) (p_proxies p)" "p_users q = p_users p" "p_serial q = p_serial p"
    by (simp_all add: q_def run)
  obtain r where r: "r \<in> set (p_proxies p)" "pr_id r = pid" "pr_user_id r = uid" "pr_type r = t0" using r by (auto simp: proxy_keys_def)
  have uniq: "x = r" if "x \<in> set (p_proxies p)" "pr_id x = pid" for x
    using p(2) that r(1,2) by (auto simp: wf_db_def distinct_map dest: inj_onD)
  have only: "x = r" if "x \<in> set (p_proxies p)" "pr_user_id x = uid" "pr_type x = t0" for x
    using p(3) that r by (auto simp: one_per_type_def distinct_map dest: inj_onD)
  have one: "one_per_type q" using p(3) by (simp add: one_per_type_def q distinct_map_filter)
  moreover have "wf_db q" using p(2) by (auto simp: wf_db_def q distinct_map_filter)
  moreover have "no_faults q" using no_faults_step [OF p(1)] by (simp add: no_faults_def q_def run)
  ultimately show "ready q uid" using assms(1) by (simp add: ready_def q)
  have "settings_of q uid t = Some y \<longleftrightarrow> t \<noteq> t0 \<and> settings_of p uid t = Some y" for y
    using uniq only r(2,4) unfolding settings_of_iff [OF one] settings_of_iff [OF p(3)] by (auto 4 4 simp: q)
  then show "settings_of q uid t = (if t = t0 then None else settings_of p uid t)" by (metis option.exhaust)
  show "proxy_keys q = filter (\<lambda>(i, _). i \<noteq> pid) (proxy_keys p)" by (simp add: proxy_keys_def q filter_map comp_def)
qed

lemma UpdateProxySettings_key:
  assumes "ready p uid" and "(pid, uid, t0) \<in> set (proxy_keys p)"
  obtains x q where "UpdateProxySettings pid s p = (Inr x, q)" "ready q uid" "proxy_keys q = proxy_keys p"
    "settings_of q uid = (settings_of p uid)(t0 := Some s)"
proof -
  obtain r where r: "r \<in> set (p_proxies p)" "pr_id r = pid" "pr_user_id r = uid" "pr_type r = t0" using assms(2) by (auto simp: proxy_keys_def)
  obtain x where "fst (UpdateProxySettings pid s p) = Inr x" using UpdateProxySettings_effect(1) [OF assms(1) r(1,3), of s] r(2) by auto
  then have "UpdateProxySettings pid s p = (Inr x, snd (UpdateProxySettings pid s p))" by (simp add: prod_eq_iff)
  then show thesis
    by (rule that) (use UpdateProxySettings_effect(2-4) [OF assms(1) r(1,3), of s] r(2,4) in \<open>auto simp: fun_eq_iff\<close>)
qed

lemma CreateProxy_key:
  assumes "ready p uid" and "settings_of p uid t = None" and "ProxyType_Valid t"
  obtains x q pid where "CreateProxy uid t s p = (Inr x, q)" "ready q uid" "pid \<notin> pr_id ` set (p_proxies p)"
    "proxy_keys q = proxy_keys p @ [(pid, uid, t)]" "settings_of q uid = (settings_of p uid)(t := Some s)"
proof -
  obtain x where "fst (CreateProxy uid t s p) = Inr x" using CreateProxy_effect(1) [OF assms] by blast
  then have run: "CreateProxy uid t s p = (Inr x, snd (CreateProxy uid t s p))" by (simp add: prod_eq_iff)
  obtain pid where pid: "pid \<notin> pr_id ` set (p_proxies p)" "proxy_keys (snd (CreateProxy uid t s p)) = proxy_keys p @ [(pid, uid, t)]"
    using CreateProxy_effect(4) [OF assms] by blast
  show thesis by (rule that [OF run CreateProxy_effect(2) [OF assms] pid]) (use CreateProxy_effect(3) [OF assms] in \<open>auto simp: fun_eq_iff\<close>)
qed

lemma settings_of_key: "settings_of p uid t \<noteq> None \<longleftrightarrow> (\<exists>pid. (pid, uid, t) \<in> set (proxy_keys p))"
  unfolding settings_of_None by (force simp: proxy_keys_def)

subsection \<open>The loops of \<open>reconcileProxies\<close>\<close>

lemma wanted_loop:
  assumes "ready p uid" and "distinct (map fst wanted)" and "\<forall>t \<in> fst ` set wanted. ProxyType_Valid t"
    and "\<And>t r. map_of m t = Some r \<Longrightarrow> (pr_id r, uid, t) \<in> set (proxy_keys p)"
    and "\<And>t. t \<in> fst ` set wanted \<Longrightarrow> map_of m t = None \<Longrightarrow> settings_of p uid t = None"
  obtains q where "each (reconcile_wanted m uid) wanted p = (Inr (), q)" "ready q uid" "set (proxy_keys p) \<subseteq> set (proxy_keys q)"
    "settings_of q uid = settings_of p uid ++ (map_option Settings_MarshalJSON \<circ> map_of wanted)"
proof -
  have "\<exists>q. each (reconcile_wanted m uid) wanted p = (Inr (), q) \<and> ready q uid \<and> set (proxy_keys p) \<subseteq> set (proxy_keys q)
      \<and> settings_of q uid = settings_of p uid ++ (map_option Settings_MarshalJSON \<circ> map_of wanted)"
    using assms
  proof (induction wanted arbitrary: p)
    case Nil
    then show ?case by (auto simp: ret_def fun_eq_iff map_add_def)
  next
    case (Cons w wanted)
    obtain t s where w: "w = (t, s)" by force
    have "\<exists>q. reconcile_wanted m uid w p = (Inr (), q) \<and> ready q uid \<and> set (proxy_keys p) \<subseteq> set (proxy_keys q)
        \<and> settings_of q uid = (settings_of p uid)(t \<mapsto> Settings_MarshalJSON s)"
    proof (cases "map_of m t")
      case None
      then have "settings_of p uid t = None" "ProxyType_Valid t" using Cons.prems(3,5) by (auto simp: w)
      then show ?thesis
        by (rule CreateProxy_key [OF Cons.prems(1), where s = "Settings_MarshalJSON s"]) (auto simp: w reconcile_wanted_def None bnd_def ret_def)
    next
      case (Some r)
      show ?thesis
        by (rule UpdateProxySettings_key [OF Cons.prems(1) Cons.prems(4) [OF Some], where s = "Settings_MarshalJSON s"]) (auto simp: w reconcile_wanted_def Some bnd_def ret_def)
    qed
    then obtain q where q: "reconcile_wanted m uid w p = (Inr (), q)" "ready q uid" "set (proxy_keys p) \<subseteq> set (proxy_keys q)"
      "settings_of q uid = (settings_of p uid)(t \<mapsto> Settings_MarshalJSON s)" by blast
    have "\<exists>q'. each (reconcile_wanted m uid) wanted q = (Inr (), q') \<and> ready q' uid \<and> set (proxy_keys q) \<subseteq> set (proxy_keys q')
        \<and> settings_of q' uid = settings_of q uid ++ (map_option Settings_MarshalJSON \<circ> map_of wanted)"
      by (rule Cons.IH) (use q Cons.prems in \<open>auto simp: w\<close>)
    moreover have "t \<notin> fst ` set wanted" using Cons.prems(2) by (simp add: w)
    then have "map_of wanted t = None" by (simp add: map_of_eq_None_iff)
    ultimately show ?case using q by (auto simp: w bnd_def fun_eq_iff map_add_def split: option.split)
  qed
  then show thesis using that by blast
qed

lemma removed_loop:
  assumes "ready p uid" and "\<forall>r \<in> set es. (pr_id r, uid, pr_type r) \<in> set (proxy_keys p)"
    and "distinct (map pr_id es)" and "distinct (map pr_type es)"
  obtains q where "each (reconcile_removed ws remove del) es p = (Inr (), q)" "ready q uid"
    "\<And>t. settings_of q uid t = (if t \<in> pr_type ` set es \<and> t \<notin> set ws \<and> (t \<in> set remove \<or> del) then None else settings_of p uid t)"
proof -
  have "\<exists>q. each (reconcile_removed ws remove del) es p = (Inr (), q) \<and> ready q uid
      \<and> (\<forall>t. settings_of q uid t = (if t \<in> pr_type ` set es \<and> t \<notin> set ws \<and> (t \<in> set remove \<or> del) then None else settings_of p uid t))"
    using assms
  proof (induction es arbitrary: p)
    case Nil
    then show ?case by (auto simp: ret_def)
  next
    case (Cons r es)
    let ?gone = "pr_type r \<notin> set ws \<and> (pr_type r \<in> set remove \<or> del)"
    have key: "(pr_id r, uid, pr_type r) \<in> set (proxy_keys p)" using Cons.prems(2) by simp
    obtain q where q: "reconcile_removed ws remove del r p = (Inr (), q)" "ready q uid"
      "\<And>k. k \<in> set (proxy_keys p) \<Longrightarrow> fst k \<noteq> pr_id r \<Longrightarrow> k \<in> set (proxy_keys q)"
      "\<And>t. settings_of q uid t = (if t = pr_type r \<and> ?gone then None else settings_of p uid t)"
    proof (cases ?gone)
      case True
      have "DeleteProxyByID (pr_id r) p = (Inr (), snd (DeleteProxyByID (pr_id r) p))"
        using DeleteProxyByID_effect(1) [OF Cons.prems(1) key] by (simp add: prod_eq_iff)
      then show thesis
        using that [of "snd (DeleteProxyByID (pr_id r) p)"] DeleteProxyByID_effect(2-) [OF Cons.prems(1) key] True
        by (auto simp: reconcile_removed_def)
    next
      case False
      then show thesis using that [of p] Cons.prems(1) by (auto simp: reconcile_removed_def ret_def)
    qed
    have "\<exists>q'. each (reconcile_removed ws remove del) es q = (Inr (), q') \<and> ready q' uid
        \<and> (\<forall>t. settings_of q' uid t = (if t \<in> pr_type ` set es \<and> t \<notin> set ws \<and> (t \<in> set remove \<or> del) then None else settings_of q uid t))"
    proof (rule Cons.IH [OF q(2)])
      show "\<forall>r' \<in> set es. (pr_id r', uid, pr_type r') \<in> set (proxy_keys q)"
        using Cons.prems(2,3) by (auto intro!: q(3) simp: rev_image_eqI)
    qed (use Cons.prems in auto)
    then obtain q' where q': "each (reconcile_removed ws remove del) es q = (Inr (), q')" "ready q' uid"
      "\<And>t. settings_of q' uid t = (if t \<in> pr_type ` set es \<and> t \<notin> set ws \<and> (t \<in> set remove \<or> del) then None else settings_of q uid t)" by blast
    have "each (reconcile_removed ws remove del) (r # es) p = (Inr (), q')" using q(1) q'(1) by (simp add: bnd_def)
    then show ?case using q'(2) by (intro exI [of _ q']) (auto simp: q(4) q'(3))
  qed
  then show thesis using that by blast
qed

text \<open>What \<open>reconcileProxies\<close> comes to.\<close>

lemma map_of_by_type:
  assumes "distinct (map pr_type rs)"
  shows "map_of (by_type rs) t = find (\<lambda>r. pr_type r = t) rs"
proof -
  have "map_of (foldl (\<lambda>m r. mput (pr_type r) r m) m0 rs) t = (case find (\<lambda>r. pr_type r = t) rs of None \<Rightarrow> map_of m0 t | Some r \<Rightarrow> Some r)" for m0
    using assms
  proof (induction rs arbitrary: m0)
    case (Cons r rs)
    have "find (\<lambda>x. pr_type x = pr_type r) rs = None" using Cons.prems by (auto simp: find_None_iff intro: rev_image_eqI)
    then show ?case using Cons.IH Cons.prems by (cases "t = pr_type r") (simp_all split: option.split)
  qed simp
  then show ?thesis by (simp add: by_type_def split: option.split)
qed

lemma reconcileProxies_effect:
  assumes "ready p uid" and "distinct (map fst wanted)" and "\<forall>t \<in> fst ` set wanted. ProxyType_Valid t"
  obtains q where "reconcileProxies uid wanted remove del p = (Inr (), q)" "ready q uid"
    "\<And>t. settings_of q uid t = (case map_of wanted t of Some s \<Rightarrow> Some (Settings_MarshalJSON s)
        | None \<Rightarrow> if t \<in> set remove \<or> del then None else settings_of p uid t)"
proof -
  let ?p = "p\<lparr>p_calls := p_calls p + 1\<rparr>"
  let ?es = "sort_key pr_id (filter (\<lambda>r. pr_user_id r = uid) (p_proxies p))"
  have ready: "ready ?p uid" by (rule ready_calls [OF assms(1)])
  have p: "no_faults p" "wf_db p" "one_per_type p" using assms(1) by (auto simp: ready_def)
  have list: "ListProxiesByUserID uid p = (Inr ?es, ?p)"
    using no_faults_step [OF p(1)] by (simp add: ListProxiesByUserID_def stmt_ok)
  have types: "distinct (map pr_type ?es)" 
    using p(3) by (auto simp: one_per_type_def distinct_map inj_on_def)
  have keys: "(pr_id r, uid, pr_type r) \<in> set (proxy_keys ?p)" if "r \<in> set ?es" for r using that by (force simp: proxy_keys_def)
  have find: "map_of (by_type ?es) t = find (\<lambda>r. pr_type r = t) ?es" for t by (rule map_of_by_type [OF types])
  obtain q where q: "each (reconcile_wanted (by_type ?es) uid) wanted ?p = (Inr (), q)" "ready q uid"
    "set (proxy_keys ?p) \<subseteq> set (proxy_keys q)"
    "settings_of q uid = settings_of ?p uid ++ (map_option Settings_MarshalJSON \<circ> map_of wanted)"
  proof (rule wanted_loop [OF ready assms(2,3)])
    show "(pr_id r, uid, t) \<in> set (proxy_keys ?p)" if "map_of (by_type ?es) t = Some r" for t r
      using keys [of r] that by (auto simp: find dest!: find_SomeD simp del: set_sort)
    show "settings_of ?p uid t = None" if "map_of (by_type ?es) t = None" for t
      using that by (auto simp: find find_None_iff settings_of_None)
  qed
  obtain q' where q': "each (reconcile_removed (map fst wanted) remove del) ?es q = (Inr (), q')" "ready q' uid"
    "\<And>t. settings_of q' uid t = (if t \<in> pr_type ` set ?es \<and> t \<notin> set (map fst wanted) \<and> (t \<in> set remove \<or> del) then None else settings_of q uid t)"
  proof (rule removed_loop [OF q(2), where ws = "map fst wanted" and remove = remove and del = del])
    show "\<forall>r \<in> set ?es. (pr_id r, uid, pr_type r) \<in> set (proxy_keys q)" using keys q(3) by blast
    show "distinct (map pr_id ?es)" using p(2) by (simp add: wf_db_def distinct_map inj_on_def)
  qed (use types in \<open>simp_all\<close>)
  show thesis
  proof (rule that [of q'])
    show "reconcileProxies uid wanted remove del p = (Inr (), q')" by (simp only: reconcileProxies_def bnd_def list q(1) q'(1) prod.case sum.case)
    show "settings_of q' uid t = (case map_of wanted t of Some s \<Rightarrow> Some (Settings_MarshalJSON s)
        | None \<Rightarrow> if t \<in> set remove \<or> del then None else settings_of p uid t)" for t
    proof (cases "map_of wanted t")
      case None
      then have "t \<notin> set (map fst wanted)" by (simp add: map_of_eq_None_iff)
      moreover have "settings_of p uid t = None" if "t \<notin> pr_type ` set ?es" using that by (auto simp: settings_of_None)
      ultimately show ?thesis using None by (simp add: q'(3) q(4) map_add_def)
    next
      case (Some s)
      then have "t \<in> set (map fst wanted)" by (auto dest: map_of_SomeD intro: rev_image_eqI)
      then show ?thesis using Some by (simp add: q'(3) q(4) map_add_def)
    qed
  qed (rule q'(2))
qed

section \<open>Modifying a user\<close>

lemma attempt_reply:
  assumes "attempt m onerr k p = (UserReply d, q)" and "\<And>e. onerr e \<noteq> UserReply d"
  obtains a p' where "m p = (Inr a, p')" "k a p' = (UserReply d, q)"
  using assms by (auto simp: attempt_def split: prod.splits sum.splits)

lemma wanted_of_request:
  assumes "resolveProxySettings ev raws = Some (wanted, remove)" and "distinct (map fst raws)"
  shows "distinct (map fst wanted)" "\<forall>t \<in> fst ` set wanted. ProxyType_Valid t"
    "map_of wanted t = (case map_of raws t of None \<Rightarrow> None | Some raw \<Rightarrow> if isJSONNull raw then None else from_wire ev t raw)"
    "t \<in> set remove \<longleftrightarrow> (\<exists>raw. map_of raws t = Some raw \<and> isJSONNull raw)"
proof -
  let ?f = "\<lambda>(t, raw). if isJSONNull raw then None else map_option (Pair t) (from_wire ev t raw)"
  have w: "wanted = List.map_filter ?f raws" and r: "remove = map fst (filter (\<lambda>(_, raw). isJSONNull raw) raws)"
    and ok: "\<forall>(t, raw) \<in> set raws. ProxyType_Valid t"
    using assms(1) by (auto simp: resolveProxySettings_def split: if_splits)
  have sub: "fst ` set (List.map_filter ?f rs) \<subseteq> fst ` set rs" for rs
    by (induction rs) (auto simp: map_filter_simps split: option.split if_splits)
  then show "\<forall>t \<in> fst ` set wanted. ProxyType_Valid t" using ok by (fastforce simp: w)
  have "distinct (map fst rs) \<Longrightarrow> distinct (map fst (List.map_filter ?f rs)) \<and>
      map_of (List.map_filter ?f rs) t = (case map_of rs t of None \<Rightarrow> None | Some raw \<Rightarrow> if isJSONNull raw then None else from_wire ev t raw)" for rs
  proof (induction rs)
    case (Cons x rs)
    obtain t' raw where x: "x = (t', raw)" by force
    have none: "map_of rs t' = None" using Cons.prems by (simp add: x map_of_eq_None_iff)
    then show ?case using Cons sub [of rs]
      by (auto simp: x map_filter_simps map_of_eq_None_iff split: option.split if_splits)
  qed (simp add: map_filter_simps)
  then show "distinct (map fst wanted)"
    "map_of wanted t = (case map_of raws t of None \<Rightarrow> None | Some raw \<Rightarrow> if isJSONNull raw then None else from_wire ev t raw)"
    using assms(2) by (simp_all add: w)
  show "t \<in> set remove \<longleftrightarrow> (\<exists>raw. map_of raws t = Some raw \<and> isJSONNull raw)"
    using assms(2) by (force simp: r map_of_eq_Some_iff)
qed

text \<open>Only the exclusions and the call counter move.\<close>

definition exclusions_only :: "panel \<Rightarrow> panel \<Rightarrow> bool" where
  "exclusions_only p q \<longleftrightarrow> (\<exists>es k. p_calls p \<le> k \<and> q = p\<lparr>p_excluded := es, p_calls := k\<rparr>)"

lemma exclusions_only_calls: "exclusions_only p q \<Longrightarrow> exclusions_only p (q\<lparr>p_calls := p_calls q + 1\<rparr>)"
  unfolding exclusions_only_def by (elim exE conjE, rule_tac x = es in exI, rule_tac x = "k + 1" in exI) simp

lemma exclusions_only_set: "exclusions_only p q \<Longrightarrow> exclusions_only p (q\<lparr>p_excluded := xs\<rparr>)"
  unfolding exclusions_only_def by (elim exE conjE, rule_tac x = xs in exI, rule_tac x = k in exI) simp

lemma yields_stmt_exclusions:
  assumes "\<And>q. exclusions_only p q \<Longrightarrow> exclusions_only p (snd (f q))"
  shows "yields (exclusions_only p) (stmt f) (\<lambda>_. True)"
  by (rule yields_stmt) (fact exclusions_only_calls assms | simp)+

lemma reconcileExcludedInbounds_frame: "yields (exclusions_only p) (reconcileExcludedInbounds ev uid wanted) (\<lambda>_. True)"
proof -
  have st: "yields (exclusions_only p) (ListProxiesByUserID i) (\<lambda>_. True)" "yields (exclusions_only p) (DeleteExcludedInbounds j) (\<lambda>_. True)"
    "yields (exclusions_only p) (ReplaceExcludedInbounds j ts) (\<lambda>_. True)" for i j ts
    unfolding ListProxiesByUserID_def DeleteExcludedInbounds_def ReplaceExcludedInbounds_def
    by (rule yields_stmt_exclusions; auto intro: exclusions_only_set)+
  have "yields (exclusions_only p) (reconcile_inbounds ev m w) (\<lambda>_. True)" for m w
  proof -
    obtain t tags where w: "w = (t, tags)" by force
    have del: "yields (exclusions_only p) (bnd (DeleteExcludedInbounds j) (\<lambda>_. if ts \<noteq> [] then ReplaceExcludedInbounds j ts else ret ())) (\<lambda>_. True)" for j ts
      by (rule yields_bnd [OF st(2)]) (auto intro: st yields_ret)
    show ?thesis
    proof (cases "map_of m t")
      case (Some r)
      then show ?thesis using del by (cases "ev_known ev t") (auto simp: w reconcile_inbounds_def Let_def yields_error)
    qed (simp add: w reconcile_inbounds_def yields_ret)
  qed
  then show ?thesis unfolding reconcileExcludedInbounds_def by (intro yields_bnd [OF st(1)] yields_each)
qed

text \<open>Only proxies and their exclusions move.\<close>

definition sans_proxies :: "panel \<Rightarrow> panel" where
  "sans_proxies p = p\<lparr>p_proxies := [], p_excluded := [], p_serial := (0, 0), p_calls := 0\<rparr>"

definition proxies_only :: "panel \<Rightarrow> panel \<Rightarrow> bool" where
  "proxies_only p q \<longleftrightarrow> sans_proxies q = sans_proxies p"

lemma proxies_onlyI:
  "proxies_only p q \<Longrightarrow> proxies_only p (q\<lparr>p_calls := k\<rparr>)" "proxies_only p q \<Longrightarrow> proxies_only p (q\<lparr>p_excluded := es\<rparr>)"
  "proxies_only p q \<Longrightarrow> proxies_only p (q\<lparr>p_proxies := rs\<rparr>)" "proxies_only p q \<Longrightarrow> proxies_only p (q\<lparr>p_serial := sr\<rparr>)"
  by (simp_all add: proxies_only_def sans_proxies_def)

lemma proxies_onlyD:
  assumes "proxies_only p q"
  shows "p_users q = p_users p" "p_now q = p_now p" "p_plans q = p_plans p" "p_admins q = p_admins p" "p_inbounds q = p_inbounds p"
proof -
  show "p_users q = p_users p" using arg_cong [OF assms [unfolded proxies_only_def], of p_users] by (simp add: sans_proxies_def)
  show "p_now q = p_now p" using arg_cong [OF assms [unfolded proxies_only_def], of p_now] by (simp add: sans_proxies_def)
  show "p_plans q = p_plans p" using arg_cong [OF assms [unfolded proxies_only_def], of p_plans] by (simp add: sans_proxies_def)
  show "p_admins q = p_admins p" using arg_cong [OF assms [unfolded proxies_only_def], of p_admins] by (simp add: sans_proxies_def)
  show "p_inbounds q = p_inbounds p" using arg_cong [OF assms [unfolded proxies_only_def], of p_inbounds] by (simp add: sans_proxies_def)
qed

lemma yields_stmt_proxies:
  assumes "\<And>q. proxies_only p q \<Longrightarrow> proxies_only p (snd (f q))"
  shows "yields (proxies_only p) (stmt f) (\<lambda>_. True)"
  by (rule yields_stmt) (fact proxies_onlyI(1) assms | simp)+

lemma reconcileProxies_frame: "yields (proxies_only p) (reconcileProxies uid wanted remove del) (\<lambda>_. True)"
proof -
  have st: "yields (proxies_only p) (ListProxiesByUserID i) (\<lambda>_. True)" "yields (proxies_only p) (CreateProxy i x y) (\<lambda>_. True)"
    "yields (proxies_only p) (UpdateProxySettings i y) (\<lambda>_. True)" "yields (proxies_only p) (DeleteProxyByID i) (\<lambda>_. True)" for i x y
    unfolding ListProxiesByUserID_def CreateProxy_def UpdateProxySettings_def DeleteProxyByID_def Let_def
    by (rule yields_stmt_proxies; simp add: proxies_onlyI split: option.split)+
  have unit: "yields (proxies_only p) (bnd m (\<lambda>_. ret ())) (\<lambda>_. True)" if "yields (proxies_only p) m (\<lambda>_. True)" for m :: "Proxy act"
    by (rule yields_bnd [OF that]) (simp add: yields_ret)
  have wanted: "yields (proxies_only p) (reconcile_wanted m i w) (\<lambda>_. True)" for m i w
    by (cases w) (auto simp: reconcile_wanted_def intro: unit st split: option.split)
  have removed: "yields (proxies_only p) (reconcile_removed ws rm d r) (\<lambda>_. True)" for ws rm d r
    by (auto simp: reconcile_removed_def intro: st yields_ret)
  show ?thesis unfolding reconcileProxies_def
    by (intro yields_bnd [OF st(1)] yields_bnd [where Q = "\<lambda>_. True"] yields_each wanted removed)
qed

text \<open>The row a modification asks for.\<close>

definition requested :: "instant \<Rightarrow> instant \<Rightarrow> userWriteRequest \<Rightarrow> User \<Rightarrow> User" where
  "requested now edited req u =
     u\<lparr>u_status := new_status now req u, u_edit_at := Some edited,
       u_data_limit := (if rq_DataLimit req = None then u_data_limit u else normalizeZero (rq_DataLimit req)),
       u_expire := (if rq_Expire req = None then u_expire u else normalizeZero (rq_Expire req)),
       u_strategy := (case rq_Strategy req of None \<Rightarrow> u_strategy u | Some s \<Rightarrow> s),
       u_note := (if rq_Note req = None then u_note u else normalizeZeroString (rq_Note req)),
       u_on_hold_expire_duration := (if rq_OnHoldExpireDuration req = None then u_on_hold_expire_duration u
          else normalizeZero (rq_OnHoldExpireDuration req)),
       u_on_hold_timeout := (if rq_OnHoldTimeout req = None then u_on_hold_timeout u else rq_OnHoldTimeout req),
       u_auto_delete_in_days := (if rq_AutoDeleteInDays req = None then u_auto_delete_in_days u else rq_AutoDeleteInDays req)\<rparr>"

lemma find_distinct_id: "distinct (map u_id us) \<Longrightarrow> u \<in> set us \<Longrightarrow> find (\<lambda>v. u_id v = u_id u) us = Some u"
  by (induction us) auto

lemma update_user_effect:
  assumes "no_faults p" and "wf_db p" and "u \<in> set (p_users p)" and run: "update_user (u_id u) f p = (Inr v, q)"
  shows "v = f (p_now p) u \<and> q = p\<lparr>p_calls := p_calls p + 1, p_users := map (\<lambda>x. if u_id x = u_id u then f (p_now p) u else x) (p_users p)\<rparr>"
proof -
  let ?p = "p\<lparr>p_calls := p_calls p + 1\<rparr>"
  have find: "user_by_id ?p (u_id u) = Some u"
    using assms(2,3) by (auto simp: user_by_id_def wf_db_def intro: find_distinct_id)
  have same: "x = u" if "x \<in> set (p_users p)" "u_id x = u_id u" for x
    using assms(2,3) that by (auto simp: wf_db_def distinct_map dest: inj_onD)
  have "update_user (u_id u) f p = (if row_ok ?p (f (p_now p) u) then (Inr (f (p_now p) u), set_users (\<lambda>v. if u_id v = u_id u then f (p_now p) v else v) ?p)
      else (Inl DbError, ?p))"
    using no_faults_step [OF assms(1)] by (simp add: update_user_def stmt_ok find del: One_nat_def add_Suc_right cong: if_cong)
  with run have "v = f (p_now p) u \<and> q = set_users (\<lambda>v. if u_id v = u_id u then f (p_now p) v else v) ?p" by (simp split: if_splits)
  moreover have "map (\<lambda>v. if u_id v = u_id u then f (p_now p) v else v) (p_users p) = map (\<lambda>x. if u_id x = u_id u then f (p_now p) u else x) (p_users p)"
    by (rule map_cong) (use same in auto)
  ultimately show ?thesis by (simp add: set_users_def)
qed

lemma update_row_effect:
  assumes "no_faults p" and "wf_db p" and "u \<in> set (p_users p)" and "update_row now req u p = (Inr v, q)"
  shows "v = requested now (p_now p) req u \<and>
    q = p\<lparr>p_calls := p_calls p + 1, p_users := map (\<lambda>x. if u_id x = u_id u then requested now (p_now p) req u else x) (p_users p)\<rparr>"
proof -
  let ?f = "\<lambda>edited x. x\<lparr>u_status := new_status now req u,
       u_data_limit := given (rq_DataLimit req) (normalizeZero (rq_DataLimit req)) (u_data_limit u),
       u_strategy := given (rq_Strategy req) (the (rq_Strategy req)) (u_strategy u),
       u_expire := given (rq_Expire req) (normalizeZero (rq_Expire req)) (u_expire u),
       u_note := given (rq_Note req) (normalizeZeroString (rq_Note req)) (u_note u),
       u_on_hold_expire_duration := given (rq_OnHoldExpireDuration req) (normalizeZero (rq_OnHoldExpireDuration req)) (u_on_hold_expire_duration u),
       u_on_hold_timeout := given (rq_OnHoldTimeout req) (rq_OnHoldTimeout req) (u_on_hold_timeout u),
       u_auto_delete_in_days := given (rq_AutoDeleteInDays req) (rq_AutoDeleteInDays req) (u_auto_delete_in_days u), u_edit_at := Some edited\<rparr>"
  have "?f t u = requested now t req u" for t by (cases "rq_Strategy req") (simp_all add: requested_def)
  then show ?thesis
    using update_user_effect [OF assms(1-3), of ?f v q] assms(4) by (simp add: update_row_def UpdateUserCore_def)
qed

lemma reports_frame [simp]:
  "p_users (report e p) = p_users p" "p_proxies (report e p) = p_proxies p" "p_plans (report e p) = p_plans p"
  "p_users (dispatchGatewayPush x p) = p_users p" "p_proxies (dispatchGatewayPush x p) = p_proxies p" "p_plans (dispatchGatewayPush x p) = p_plans p"
  by (simp_all add: report_def dispatchGatewayPush_def)

lemma sync_frame [simp]:
  "p_users (dispatchGatewayUserSync u p) = p_users p" "p_proxies (dispatchGatewayUserSync u p) = p_proxies p"
  "p_plans (dispatchGatewayUserSync u p) = p_plans p"
proof -
  obtain r q where q: "ListProxiesByUserID (u_id u) p = (r, q)" by force
  then obtain k where "q = p\<lparr>p_calls := k\<rparr>" using reads_statements(2) [of "u_id u"] unfolding reads_def by (metis snd_conv)
  then show "p_users (dispatchGatewayUserSync u p) = p_users p" "p_proxies (dispatchGatewayUserSync u p) = p_proxies p"
    "p_plans (dispatchGatewayUserSync u p) = p_plans p"
    using q by (auto simp: dispatchGatewayUserSync_def split: sum.split)
qed

lemma finish_modify_frame:
  assumes "finish_modify ev i u v p = (UserReply d, q)"
  shows "p_users q = p_users p" "p_proxies q = p_proxies p" "p_plans q = p_plans p"
proof -
  obtain resp p' where p': "buildUserResponse ev v p = (Inr resp, p')"
    and q: "q = snd (let ref = resolveAdminRef ev (u_admin_id v);
            p = report (UserUpdated (dto_summary resp) (id_Username i) ref) p';
            p = (if u_status v \<noteq> u_status u then report (StatusChange (u_username v) (u_status v) ref) p else p)
        in (UserReply (attachUserLinks ev v resp), dispatchGatewayUserSync v p))"
    using assms unfolding finish_modify_def by (rule attempt_reply) (auto simp: Let_def)
  obtain k where "p' = p\<lparr>p_calls := k\<rparr>" using reads_buildUserResponse [of ev v] p' unfolding reads_def by (metis snd_conv)
  then show "p_users q = p_users p" "p_proxies q = p_proxies p" "p_plans q = p_plans p" by (simp_all add: q Let_def)
qed

lemma plan_of_upsert:
  "UpsertNextPlan np p = (Inr x, q) \<Longrightarrow> plan_of (p_plans q) (np_user_id np) = Some np \<and> p_users q = p_users p \<and> p_proxies q = p_proxies p"
proof -
  have "find (\<lambda>r. np_user_id r = uid) (map (\<lambda>r. if np_user_id r = uid then np else r) ps) = Some np"
    if "find (\<lambda>r. np_user_id r = uid) ps \<noteq> None" "np_user_id np = uid" for ps uid
    using that by (induction ps) auto
  then show "UpsertNextPlan np p = (Inr x, q) \<Longrightarrow> plan_of (p_plans q) (np_user_id np) = Some np \<and> p_users q = p_users p \<and> p_proxies q = p_proxies p"
    by (auto simp: UpsertNextPlan_def stmt_def Let_def plan_of_def find_snoc split: if_splits)
qed

lemma deleted_plan:
  "DeleteNextPlanByUserID uid p = (Inr x, q) \<Longrightarrow> plan_of (p_plans q) uid = None \<and> p_users q = p_users p \<and> p_proxies q = p_proxies p"
  by (auto simp: DeleteNextPlanByUserID_def stmt_def Let_def plan_of_def find_None_iff split: if_splits)

lemma yields_run: "yields I m (\<lambda>_. True) \<Longrightarrow> I p \<Longrightarrow> m p = (r, q) \<Longrightarrow> I q"
  unfolding yields_def by (metis snd_conv)

lemma reconcile_request:
  assumes ready: "ready p uid" and raws: "resolveProxySettings ev raws = Some (wanted, remove)" "distinct (map fst raws)"
  obtains q where "(if wanted \<noteq> [] \<or> remove \<noteq> [] then reconcileProxies uid wanted remove False else ret ()) p = (Inr (), q)"
    "ready q uid" "proxies_only p q"
    "\<And>t. settings_of q uid t = (case map_of raws t of None \<Rightarrow> settings_of p uid t
        | Some raw \<Rightarrow> if isJSONNull raw then None else map_option Settings_MarshalJSON (from_wire ev t raw))"
proof -
  have spec: "(case map_of wanted t of Some s \<Rightarrow> Some (Settings_MarshalJSON s) | None \<Rightarrow> if t \<in> set remove \<or> False then None else settings_of p uid t)
      = (case map_of raws t of None \<Rightarrow> settings_of p uid t
        | Some raw \<Rightarrow> if isJSONNull raw then None else map_option Settings_MarshalJSON (from_wire ev t raw))" for t
  proof (cases "map_of raws t")
    case (Some raw)
    then have "(t, raw) \<in> set raws" by (rule map_of_SomeD)
    then have "isJSONNull raw \<or> from_wire ev t raw \<noteq> None"
      using raws(1) by (auto simp: resolveProxySettings_def split: if_splits)
    then show ?thesis using wanted_of_request(3,4) [OF raws] Some by auto
  qed (use wanted_of_request(3,4) [OF raws] in simp)
  show thesis
  proof (cases "wanted \<noteq> [] \<or> remove \<noteq> []")
    case True
    obtain q where q: "reconcileProxies uid wanted remove False p = (Inr (), q)" "ready q uid"
      "\<And>t. settings_of q uid t = (case map_of wanted t of Some s \<Rightarrow> Some (Settings_MarshalJSON s)
        | None \<Rightarrow> if t \<in> set remove \<or> False then None else settings_of p uid t)"
      by (rule reconcileProxies_effect [OF ready wanted_of_request(1,2) [OF raws], where remove = remove and del = False]) blast
    have "proxies_only p q" by (rule yields_run [OF reconcileProxies_frame _ q(1)]) (simp add: proxies_only_def)
    then show thesis using that [of q] q spec True by simp
  next
    case False
    then show thesis using that [of p] spec ready by (simp add: ret_def proxies_only_def)
  qed
qed

lemma modify_row_effect:
  assumes ready: "ready p (u_id u)" and u: "u \<in> set (p_users p)" and raws: "resolveProxySettings ev raws = Some (wanted, remove)" "distinct (map fst raws)"
    and run: "modify_row ev i req u wanted remove p = (UserReply d, q)"
  shows "p_users q = map (\<lambda>x. if u_id x = u_id u then requested (ev_now ev) (p_now p) req u else x) (p_users p)
    \<and> (\<forall>t. settings_of q (u_id u) t = (case map_of raws t of None \<Rightarrow> settings_of p (u_id u) t
        | Some raw \<Rightarrow> if isJSONNull raw then None else map_option Settings_MarshalJSON (from_wire ev t raw)))
    \<and> plan_of (p_plans q) (u_id u) = map_option (next_plan_row (u_id u)) (rq_NextPlan req)"
proof -
  obtain p1 where p1: "(if wanted \<noteq> [] \<or> remove \<noteq> [] then reconcileProxies (u_id u) wanted remove False else ret ()) p = (Inr (), p1)"
    "ready p1 (u_id u)" "proxies_only p p1"
    "\<And>t. settings_of p1 (u_id u) t = (case map_of raws t of None \<Rightarrow> settings_of p (u_id u) t
        | Some raw \<Rightarrow> if isJSONNull raw then None else map_option Settings_MarshalJSON (from_wire ev t raw))"
    by (rule reconcile_request [OF ready raws]) (rule that)
  let ?excl = "if rq_Inbounds req \<noteq> [] then reconcileExcludedInbounds ev (u_id u) (rq_Inbounds req) else ret ()"
  obtain p2 where p2: "?excl p1 = (Inr (), p2)" and run2: "attempt (update_row (ev_now ev) req u) fail500 (\<lambda>updated.
     attempt (case rq_NextPlan req of
                Some np \<Rightarrow> bnd (UpsertNextPlan (next_plan_row (u_id updated) np)) (\<lambda>_. ret ())
              | None \<Rightarrow> DeleteNextPlanByUserID (u_id updated)) fail500 (\<lambda>_.
     finish_modify ev i u updated)) p2 = (UserReply d, q)"
    using run unfolding modify_row_def attempt_def [of _ _ _ p] p1(1) prod.case sum.case by (rule attempt_reply) auto
  have "yields (exclusions_only p1) ?excl (\<lambda>_. True)" by (simp add: reconcileExcludedInbounds_frame yields_ret)
  moreover have "exclusions_only p1 p1" unfolding exclusions_only_def by (intro exI [of _ "p_excluded p1"] exI [of _ "p_calls p1"]) simp
  ultimately have "exclusions_only p1 p2" using p2 yields_run by blast
  then obtain es k where k: "p_calls p1 \<le> k" "p2 = p1\<lparr>p_excluded := es, p_calls := k\<rparr>" unfolding exclusions_only_def by blast
  have same: "p_users p2 = p_users p" "p_now p2 = p_now p" "p_proxies p2 = p_proxies p1" using proxies_onlyD [OF p1(3)] k by simp_all
  have ready2: "no_faults p2" "wf_db p2" using p1(2) k by (auto simp: ready_def no_faults_def wf_db_def)
  obtain v p3 where v: "update_row (ev_now ev) req u p2 = (Inr v, p3)" and run3: "attempt (case rq_NextPlan req of
                Some np \<Rightarrow> bnd (UpsertNextPlan (next_plan_row (u_id v) np)) (\<lambda>_. ret ())
              | None \<Rightarrow> DeleteNextPlanByUserID (u_id v)) fail500 (\<lambda>_. finish_modify ev i u v) p3 = (UserReply d, q)"
    using run2 by (rule attempt_reply) auto
  have v': "v = requested (ev_now ev) (p_now p) req u"
    "p_users p3 = map (\<lambda>x. if u_id x = u_id u then requested (ev_now ev) (p_now p) req u else x) (p_users p)" "p_proxies p3 = p_proxies p1"
    using update_row_effect [OF ready2 _ v] u same by simp_all
  have uid: "u_id v = u_id u" by (simp add: v'(1) requested_def)
  obtain p4 where p4: "(case rq_NextPlan req of
                Some np \<Rightarrow> bnd (UpsertNextPlan (next_plan_row (u_id v) np)) (\<lambda>_. ret ())
              | None \<Rightarrow> DeleteNextPlanByUserID (u_id v)) p3 = (Inr (), p4)" and run4: "finish_modify ev i u v p4 = (UserReply d, q)"
    using run3 by (rule attempt_reply) auto
  have "plan_of (p_plans p4) (u_id u) = map_option (next_plan_row (u_id u)) (rq_NextPlan req) \<and> p_users p4 = p_users p3 \<and> p_proxies p4 = p_proxies p3"
  proof (cases "rq_NextPlan req")
    case None
    then show ?thesis using deleted_plan p4 uid by fastforce
  next
    case (Some np)
    then obtain x where "UpsertNextPlan (next_plan_row (u_id v) np) p3 = (Inr x, p4)"
      using p4 by (auto simp: bnd_def ret_def split: prod.splits sum.splits)
    from plan_of_upsert [OF this] show ?thesis using Some uid by (simp add: next_plan_row_def)
  qed
  then show ?thesis using finish_modify_frame [OF run4] v'(2,3) p1(4) by (simp add: settings_of_def)
qed

lemma enforce_reply:
  assumes "enforceResellerAPIUserLimit ev i k p = (UserReply d, q)"
  shows "\<exists>n \<ge> p_calls p. k (p\<lparr>p_calls := n\<rparr>) = (UserReply d, q)"
proof -
  have self: "p\<lparr>p_calls := p_calls p\<rparr> = p" by simp
  show ?thesis
    using assms unfolding enforceResellerAPIUserLimit_def CountUsers_def stmt_def Let_def
    by (auto split: option.splits if_splits simp: self intro: exI [of _ "p_calls p"] exI [of _ "Suc (p_calls p)"])
qed

text \<open>
  C4. A modification that is answered with the user is stored, and nothing else of the user changes. The row
  is the old one with the fields that were sent and the status \<open>new_status\<close> derives; a protocol that was
  sent has the settings its text was read as, one that was sent as \<open>null\<close> is gone, and the others keep
  their credentials; the pending plan is the one that was sent, and a request without a plan removes it.
  The rows of the other users stay.
\<close>

theorem modified_user_is_what_was_sent:
  assumes "wf_db p" and "one_per_type p" and "no_faults p" and "user_by_name p username = Some u"
    and "distinct (map fst (rq_Proxies req))" and "handleModifyUser ev i username req p = (UserReply d, q)"
  shows "p_users q = map (\<lambda>x. if u_id x = u_id u then requested (ev_now ev) (p_now p) req u else x) (p_users p)
    \<and> (\<forall>t. settings_of q (u_id u) t = (case map_of (rq_Proxies req) t of None \<Rightarrow> settings_of p (u_id u) t
        | Some raw \<Rightarrow> if isJSONNull raw then None else map_option Settings_MarshalJSON (from_wire ev t raw)))
    \<and> plan_of (p_plans q) (u_id u) = map_option (next_plan_row (u_id u)) (rq_NextPlan req)"
proof -
  let ?p = "p\<lparr>p_calls := p_calls p + 1\<rparr>"
  have u: "u \<in> set (p_users p)" using assms(4) by (auto simp: user_by_name_def dest: find_SomeD)
  have get: "GetUserByUsername username p = (Inr u, ?p)"
    using no_faults_step [OF assms(3)] assms(4) by (simp add: GetUserByUsername_def stmt_ok user_by_name_def)
  let ?k = "case resolveProxySettings ev (rq_Proxies req) of
          None \<Rightarrow> Pair (Fail 422)
        | Some (wanted, remove) \<Rightarrow>
            if \<exists>(_, tags) \<in> set (rq_Inbounds req). \<exists>t \<in> set tags. \<not> ev_inbound ev t then Pair (Fail 422)
            else modify_row ev i req u wanted remove"
  obtain b where b: "(if b then enforceResellerAPIUserLimit ev i else (\<lambda>k. k)) ?k ?p = (UserReply d, q)"
    using assms(6) get unfolding handleModifyUser_def loadAuthorizedUser_def attempt_def prod.case by (simp only: prod.case sum.case split: if_splits) auto
  have "\<exists>n \<ge> p_calls p. ?k (p\<lparr>p_calls := n\<rparr>) = (UserReply d, q)"
  proof (cases b)
    case True
    then show ?thesis using b enforce_reply [of ev i ?k ?p d q] by (auto intro: Suc_leD)
  next
    case False
    then show ?thesis using b by (intro exI [of _ "p_calls p + 1"]) simp
  qed
  then obtain wanted remove n where w: "resolveProxySettings ev (rq_Proxies req) = Some (wanted, remove)" "p_calls p \<le> n"
    "modify_row ev i req u wanted remove (p\<lparr>p_calls := n\<rparr>) = (UserReply d, q)"
    by (auto split: option.splits if_splits)
  have ready: "ready (p\<lparr>p_calls := n\<rparr>) (u_id u)" using assms(1-3) u w(2) by (auto simp: ready_def no_faults_def wf_db_def one_per_type_def)
  show ?thesis using modify_row_effect [OF ready _ w(1) assms(5) w(3)] u by (simp cong: option.case_cong if_cong)
qed

definition reset_request :: userWriteRequest where
  "reset_request = \<lparr>rq_Status = None, rq_Proxies = [(''trojan'', ''{}'')], rq_Inbounds = [], rq_Expire = None, rq_DataLimit = Some 500,
     rq_Strategy = None, rq_Note = None, rq_OnHoldExpireDuration = None, rq_OnHoldTimeout = None, rq_AutoDeleteInDays = None,
     rq_NextPlan = None\<rparr>"

theorem modified_user_is_what_was_sent_witness:
  "let q = snd (handleModifyUser plain_env (seller 1) ''ann'' reset_request market)
   in map u_data_limit (p_users q) = [Some 500, Some 10]
    \<and> settings_of q 1 ''trojan'' = map_option Settings_MarshalJSON (from_wire plain_env ''trojan'' ''{}'')"
proof -
  let ?run = "handleModifyUser plain_env (seller 1) ''ann'' reset_request market"
  have "case fst ?run of UserReply _ \<Rightarrow> True | _ \<Rightarrow> False" by code_simp
  then obtain d where d: "?run = (UserReply d, snd ?run)" by (cases "fst ?run") (auto simp: prod_eq_iff)
  have ok: "one_per_type market" "no_faults market" "user_by_name market ''ann'' = Some (example_user\<lparr>u_admin_id := Some 1\<rparr>)"
    "distinct (map fst (rq_Proxies reset_request))"
    by (simp_all add: one_per_type_def no_faults_def market_def example_panel_def user_by_name_def example_user_def reset_request_def)
  have "\<not> isJSONNull ''{}''" by code_simp
  then show ?thesis
    using modified_user_is_what_was_sent [OF market_wf ok d]
    by (simp add: Let_def market_def example_panel_def example_user_def requested_def reset_request_def normalizeZero_def)
qed

end
