(* ===== verification/UserPage.thy ===== *)
theory UserPage
  imports UserChanges
begin

text \<open>
  What a user endpoint answers: the status a modification derives against the rules of the review job,
  and the batched answer to a page of users against the answer for each user alone
  (\<open>handleModifyUser\<close>, \<open>buildUserResponses\<close> and \<open>buildUserResponse\<close> of \<open>internal/httpapi/user.go\<close>).
\<close>

section \<open>The derived status\<close>

text \<open>
  C8. A request that sends both the data limit and the expiry leaves the user with a status that the review
  job would not change at that moment, with one exception: an expired user whose expiry is moved into
  the future becomes active even when the traffic is over the limit, since only the expiry is looked at
  then; that user is served until the next review.
\<close>

theorem modification_settles_status:
  assumes "rq_DataLimit req \<noteq> None" and "rq_Expire req \<noteq> None"
  shows "needs_review (unix now) (requested now edited req u) \<longleftrightarrow>
    base_status req u = ''expired''
    \<and> (case normalizeZero (rq_DataLimit req) of None \<Rightarrow> False | Some d \<Rightarrow> 0 < d \<and> d \<le> u_used_traffic u)
    \<and> (case normalizeZero (rq_Expire req) of None \<Rightarrow> True | Some e \<Rightarrow> unix now < e)"
  using assms
  by (cases "normalizeZero (rq_DataLimit req)"; cases "normalizeZero (rq_Expire req)")
     (auto simp: needs_review_def requested_def new_status_def status_after_expire_def status_after_limit_def normalizeZero_def split: if_splits)

theorem modification_settles_status_witness:
  "\<not> needs_review 7 (requested 7000000000 0 (reset_request\<lparr>rq_Expire := Some 9\<rparr>) example_user)
   \<and> needs_review 7 (requested 7000000000 0 (reset_request\<lparr>rq_Expire := Some 9, rq_DataLimit := Some 5\<rparr>) (example_user\<lparr>u_status := ''expired''\<rparr>))"
  using modification_settles_status [of "reset_request\<lparr>rq_Expire := Some 9\<rparr>" 7000000000 0 example_user]
    modification_settles_status [of "reset_request\<lparr>rq_Expire := Some 9, rq_DataLimit := Some 5\<rparr>" 7000000000 0 "example_user\<lparr>u_status := ''expired''\<rparr>"]
  by (simp add: reset_request_def unix_def normalizeZero_def base_status_def strOr_def example_user_def)

section \<open>Pages\<close>

lemma group_by_get: "mget [] (group_by key val xs) k = map val (filter (\<lambda>x. key x = k) xs)"
proof -
  have "mget [] (foldl (\<lambda>m x. mput (key x) (mget [] m (key x) @ [val x]) m) m0 xs) k = mget [] m0 k @ map val (filter (\<lambda>x. key x = k) xs)" for m0
    by (induction xs arbitrary: m0) simp_all
  then show ?thesis by (simp add: group_by_def mget_def)
qed

lemma last_plan:
  assumes "distinct (map np_user_id nps)"
  shows "map_of (foldl (\<lambda>m np. mput (np_user_id np) np m) [] nps) uid = plan_of nps uid"
proof -
  have "map_of (foldl (\<lambda>m np. mput (np_user_id np) np m) m0 nps) uid = (case plan_of nps uid of None \<Rightarrow> map_of m0 uid | Some np \<Rightarrow> Some np)" for m0
    using assms
  proof (induction nps arbitrary: m0)
    case (Cons np nps)
    have "plan_of nps (np_user_id np) = None" using Cons.prems by (auto simp: plan_of_def find_None_iff intro: rev_image_eqI)
    then show ?case using Cons by (cases "uid = np_user_id np") (simp_all add: plan_of_def split: option.split)
  qed (simp add: plan_of_def)
  then show ?thesis by (simp split: option.split)
qed

lemma fill_proxies_cong: "(\<And>r. r \<in> set rs \<Longrightarrow> f (pr_id r) = g (pr_id r)) \<Longrightarrow> fill_proxies f k rs = fill_proxies g k rs"
  unfolding fill_proxies_def by (rule foldl_cong) (auto split: prod.split)

text \<open>The answer for one user, from the tables.\<close>

definition answer_of :: "env \<Rightarrow> panel \<Rightarrow> User \<Rightarrow> userResponseDTO" where
  "answer_of ev p = user_dto ev (\<lambda>uid. sort_key pr_id (filter (\<lambda>r. pr_user_id r = uid) (p_proxies p)))
     (\<lambda>pid. map snd (sort_key (\<lambda>e. map byte (snd e)) (filter (\<lambda>(i, _). i = pid) (p_excluded p)))) (plan_of (p_plans p))"

lemma buildUserResponses_answers:
  assumes "no_faults p" and "distinct (map np_user_id (p_plans p))"
    and "\<forall>r \<in> set (p_proxies p). ev_known ev (pr_type r) \<noteq> None"
  shows "fst (buildUserResponses ev us p) = Inr (map (answer_of ev p) us)"
proof (cases "us = []")
  case False
  let ?ps = "sort_key pr_user_id (sort_key pr_id (filter (\<lambda>r. pr_user_id r \<in> u_id ` set us) (p_proxies p)))"
  let ?es = "if ?ps = [] then [] else sort_key fst (sort_key (\<lambda>e. map byte (snd e)) (filter (\<lambda>(i, _). i \<in> pr_id ` set ?ps) (p_excluded p)))"
  let ?nps = "filter (\<lambda>np. np_user_id np \<in> u_id ` set us) (p_plans p)"
  have nf: "\<not> p_fault p k" if "k \<ge> p_calls p" for k using assms(1) that by (simp add: no_faults_def)
  have mine: "filter (\<lambda>r. pr_user_id r = uid) ?ps = sort_key pr_id (filter (\<lambda>r. pr_user_id r = uid) (p_proxies p))" if "uid \<in> u_id ` set us" for uid
  proof -
    have "filter (\<lambda>r. pr_user_id r = uid) ?ps = sort_key pr_id (filter (\<lambda>r. pr_user_id r = uid) (filter (\<lambda>r. pr_user_id r \<in> u_id ` set us) (p_proxies p)))"
      by (simp only: sort_key_stable filter_sort)
    then show ?thesis using that by (simp add: conj_commute cong: conj_cong)
  qed
  have tags: "map snd (filter (\<lambda>e. fst e = pid) ?es) = map snd (sort_key (\<lambda>e. map byte (snd e)) (filter (\<lambda>(i, _). i = pid) (p_excluded p)))"
    if "pid \<in> pr_id ` set ?ps" for pid
  proof -
    have "filter (\<lambda>e. fst e = pid) (sort_key fst (sort_key (\<lambda>e. map byte (snd e)) (filter (\<lambda>(i, _). i \<in> pr_id ` set ?ps) (p_excluded p))))
        = sort_key (\<lambda>e. map byte (snd e)) (filter (\<lambda>e. fst e = pid) (filter (\<lambda>(i, _). i \<in> pr_id ` set ?ps) (p_excluded p)))"
      by (simp only: sort_key_stable filter_sort)
    also have "filter (\<lambda>e. fst e = pid) (filter (\<lambda>(i, _). i \<in> pr_id ` set ?ps) (p_excluded p)) = filter (\<lambda>(i, _). i = pid) (p_excluded p)"
      unfolding filter_filter by (rule filter_cong) (use that in auto)
    finally have "filter (\<lambda>e. fst e = pid) (sort_key fst (sort_key (\<lambda>e. map byte (snd e)) (filter (\<lambda>(i, _). i \<in> pr_id ` set ?ps) (p_excluded p))))
        = sort_key (\<lambda>e. map byte (snd e)) (filter (\<lambda>(i, _). i = pid) (p_excluded p))" .
    moreover have "?ps \<noteq> []" using that by (metis empty_iff empty_set image_empty)
    ultimately show ?thesis by (simp only: if_False)
  qed
  have plans: "plan_of ?nps uid = plan_of (p_plans p) uid" if "uid \<in> u_id ` set us" for uid
  proof -
    have "find (\<lambda>np. np_user_id np = uid) (filter (\<lambda>np. np_user_id np \<in> u_id ` set us) nps) = find (\<lambda>np. np_user_id np = uid) nps" for nps
      by (induction nps) (use that in auto)
    then show ?thesis by (simp add: plan_of_def)
  qed
  have distinct: "distinct (map np_user_id ?nps)" using assms(2) by (rule distinct_map_filter)
  have dto: "user_dto ev (mget [] (group_by pr_user_id id ?ps)) (mget [] (group_by fst snd ?es)) (map_of (foldl (\<lambda>m np. mput (np_user_id np) np m) [] ?nps)) u
      = answer_of ev p u" if u: "u \<in> set us" for u
  proof -
    have uid: "u_id u \<in> u_id ` set us" using u by simp
    have "fill_proxies (mget [] (group_by fst snd ?es)) k (filter (\<lambda>r. pr_user_id r = u_id u) ?ps) =
        fill_proxies (\<lambda>pid. map snd (sort_key (\<lambda>e. map byte (snd e)) (filter (\<lambda>(i, _). i = pid) (p_excluded p)))) k (filter (\<lambda>r. pr_user_id r = u_id u) ?ps)" for k
      by (rule fill_proxies_cong, subst group_by_get, rule tags) auto
    then show ?thesis
      unfolding user_dto_def answer_of_def group_by_get last_plan [OF distinct] plans [OF uid] list.map_id mine [OF uid] by simp
  qed
  have known: "\<not> (\<exists>r \<in> set ?ps. ev_known ev (pr_type r) = None)" using assms(3) by auto
  have s1: "ListProxiesByUserIDs (map u_id us) p = (Inr ?ps, p\<lparr>p_calls := p_calls p + 1\<rparr>)"
    using nf by (simp add: ListProxiesByUserIDs_def stmt_ok)
  obtain k where k: "p_calls p \<le> k" and s2: "(if ?ps = [] then ret [] else ListExcludedInboundTagsByProxyIDs (map pr_id ?ps)) (p\<lparr>p_calls := p_calls p + 1\<rparr>)
      = (Inr ?es, p\<lparr>p_calls := k\<rparr>)"
  proof (cases "?ps = []")
    case True
    show thesis by (rule that [of "p_calls p + 1"]) (simp_all only: True if_True, simp_all add: ret_def)
  next
    case False
    have e: "ListExcludedInboundTagsByProxyIDs (map pr_id ?ps) (p\<lparr>p_calls := p_calls p + 1\<rparr>) = (Inr ?es, p\<lparr>p_calls := p_calls p + 2\<rparr>)"
      using False nf by (simp add: ListExcludedInboundTagsByProxyIDs_def stmt_ok)
    show thesis by (rule that [of "p_calls p + 2"]) (simp, simp only: False if_False e)
  qed
  have s3: "GetNextPlansByUserIDs (map u_id us) (p\<lparr>p_calls := k\<rparr>) = (Inr ?nps, p\<lparr>p_calls := k + 1\<rparr>)"
    using nf k by (simp add: GetNextPlansByUserIDs_def stmt_ok)
  have "fst (buildUserResponses ev us p) = Inr (map (user_dto ev (mget [] (group_by pr_user_id id ?ps)) (mget [] (group_by fst snd ?es))
      (map_of (foldl (\<lambda>m np. mput (np_user_id np) np m) [] ?nps))) us)"
    by (simp only: buildUserResponses_def False if_False bnd_def s1 prod.case sum.case s2 known s3 Let_def ret_def fst_conv)
  also have "\<dots> = Inr (map (answer_of ev p) us)" using dto by simp
  finally show ?thesis .
qed (simp add: buildUserResponses_def ret_def)

text \<open>
  C7. The batched answer to a page is, user by user, the answer for that user alone: grouping the rows of
  the three batched reads by user and by proxy loses, mixes and reorders nothing.
\<close>

theorem page_is_the_single_answers:
  assumes "no_faults p" and "distinct (map np_user_id (p_plans p))"
    and "\<forall>r \<in> set (p_proxies p). ev_known ev (pr_type r) \<noteq> None"
  shows "fst (buildUserResponses ev us p) = Inr (map (answer_of ev p) us)
    \<and> (\<forall>u \<in> set us. fst (buildUserResponse ev u p) = Inr (answer_of ev p u))"
proof -
  have "fst (buildUserResponse ev u p) = Inr (answer_of ev p u)" for u
    using buildUserResponses_answers [OF assms, of "[u]"]
    by (cases "buildUserResponses ev [u] p") (simp add: buildUserResponse_def bnd_def ret_def)
  then show ?thesis using buildUserResponses_answers [OF assms] by blast
qed

theorem page_is_the_single_answers_witness:
  "fst (buildUserResponses plain_env (p_users market) market) = Inr (map (answer_of plain_env market) (p_users market))
   \<and> map dto_Proxies (map (answer_of plain_env market) (p_users market)) = [[], [(''trojan'', ''{}'')]]"
proof -
  have "no_faults market" "distinct (map np_user_id (p_plans market))" "\<forall>r \<in> set (p_proxies market). ev_known plain_env (pr_type r) \<noteq> None"
    by (simp_all add: no_faults_def market_def example_panel_def plain_env_def)
  then have "fst (buildUserResponses plain_env (p_users market) market) = Inr (map (answer_of plain_env market) (p_users market))"
    using page_is_the_single_answers [of market plain_env "p_users market"] by blast
  moreover have "map dto_Proxies (map (answer_of plain_env market) (p_users market)) = [[], [(''trojan'', ''{}'')]]" by code_simp
  ultimately show ?thesis by blast
qed

end
