(* ===== verification/GatewaySync.thy ===== *)
theory GatewaySync
  imports UserChanges
begin

text \<open>
  Replication of users between panels (\<open>internal/httpapi/gateway_sync.go\<close>). The sending side, \<open>dispatchGatewayUserSync\<close>
  and \<open>dispatchGatewayUserDelete\<close>, is part of \<open>UserHandlers\<close>; this theory holds the receiving handler
  and what the two come to together.
\<close>

section \<open>The receiving handler\<close>

definition isReplica :: "User \<Rightarrow> bool" where
  "isReplica u \<longleftrightarrow> u_synced_from_panel_name u \<noteq> None"

definition delete_replica :: "User option \<Rightarrow> handler" where
  "delete_replica existing =
     (case existing of
        None \<Rightarrow> Pair Ok
      | Some u \<Rightarrow> if \<not> isReplica u then Pair (Fail 409) else attempt (DeleteUser (u_id u)) fail500 (\<lambda>_. Pair Ok))"

definition update_replica :: "gatewaySyncPayload \<Rightarrow> (string \<times> Settings) list \<Rightarrow> User \<Rightarrow> handler" where
  "update_replica req settings u =
     attempt (UpdateGatewaySyncedUser (u_id u) (gp_Status req) (gp_DataLimit req) (strOr (Some (gp_Strategy req)) ''no_reset'')
       (map_option to_int32 (gp_Expire req))) fail500 (\<lambda>row.
     attempt (reconcileProxies (u_id row) settings [] True) fail500 (\<lambda>_. Pair Ok))"

definition create_replica :: "env \<Rightarrow> gatewaySyncPayload \<Rightarrow> (string \<times> Settings) list \<Rightarrow> handler" where
  "create_replica ev req settings =
     attempt (CreateGatewaySyncedUser (gp_Username req) (gp_Status req) (gp_DataLimit req) (strOr (Some (gp_Strategy req)) ''no_reset'')
       (map_option to_int32 (gp_Expire req)) (Some (gp_OriginPanelName req)))
       (\<lambda>e. if e = UniqueViolation then Fail 409 else Fail 500) (\<lambda>row.
     attempt (each (\<lambda>(protocol, s) p. case ev_known ev protocol of
         None \<Rightarrow> (Inl DbError, p) | Some known \<Rightarrow> createProxyForUser ev (u_id row) protocol s known p) settings) fail500 (\<lambda>_. Pair Ok))"

text \<open>A failed read of the user other than \<open>ErrNoRows\<close> ends the request; a payload without a name is refused.\<close>

definition handleGatewaySyncUser :: "env \<Rightarrow> gatewaySyncPayload \<Rightarrow> handler" where
  "handleGatewaySyncUser ev req p =
     (if gp_Username req = [] then (Fail 422, p)
      else (case GetUserByUsername (gp_Username req) p of
        (Inl DbError, p) \<Rightarrow> (Fail 500, p)
      | (Inl UniqueViolation, p) \<Rightarrow> (Fail 500, p)
      | (found, p) \<Rightarrow>
          (let existing = (case found of Inr u \<Rightarrow> Some u | Inl _ \<Rightarrow> None)
           in if gp_Deleted req then delete_replica existing p
              else if \<exists>u \<in> set_option existing. \<not> isReplica u then (Fail 409, p)
              else (case resolveProxySettings ev (gp_Proxies req) of
                      None \<Rightarrow> (Fail 422, p)
                    | Some (settings, _) \<Rightarrow>
                        (case existing of Some u \<Rightarrow> update_replica req settings u p | None \<Rightarrow> create_replica ev req settings p)))))"

section \<open>Local users are out of a peer's reach\<close>

abbreviation local_ids :: "panel \<Rightarrow> int set" where
  "local_ids p \<equiv> u_id ` {u \<in> set (p_users p). \<not> isReplica u}"

lemma replica_not_local:
  assumes "untouched (local_ids p0) p0 p" and "u \<in> set (p_users p)" and "isReplica u"
  shows "u_id u \<notin> local_ids p0"
proof
  assume F: "u_id u \<in> local_ids p0"
  then obtain v where v: "v \<in> set (p_users p0)" "u_id v = u_id u" "\<not> isReplica v" by auto
  have "u \<in> set (filter (\<lambda>x. u_id x = u_id u) (p_users p0))"
    using untouched_proxies(2) [OF assms(1) F] assms(2) by (metis (mono_tags, lifting) filter_id_conv mem_Collect_eq set_filter)
  then have "u \<in> set (p_users p0)" by simp
  moreover have "distinct (map u_id (p_users p0))" using assms(1) by (simp add: untouched_def wf_db_def)
  ultimately have "u = v" using v(1,2) by (auto simp: distinct_map dest: inj_onD)
  then show False using v(3) assms(3) by simp
qed

lemma keeps_delete_replica: "(\<And>u. x = Some u \<Longrightarrow> isReplica u \<Longrightarrow> u_id u \<notin> F) \<Longrightarrow> keeps (untouched F p0) (delete_replica x)"
  unfolding delete_replica_def by (rule keep | simp)+

lemma keeps_update_replica: "u_id u \<notin> F \<Longrightarrow> keeps (untouched F p0) (update_replica req settings u)"
  unfolding update_replica_def update_user_defs by (rule keep | simp)+

lemma keeps_create_replica: "keeps (untouched F p0) (create_replica ev req settings)"
  unfolding create_replica_def
proof (rule keeps_attempt [OF yields_CreateUser(2)], rule keeps_attempt [OF yields_each], goal_cases)
  case (1 row w)
  obtain t s where w: "w = (t, s)" by force
  show ?case using yields_createProxyForUser [OF 1(1)] by (cases "ev_known ev t") (simp_all add: w yields_error)
qed (rule keeps_Pair)

lemma keeps_handleGatewaySyncUser: "keeps (untouched (local_ids p0) p0) (handleGatewaySyncUser ev req)"
  unfolding keeps_def
proof (intro allI impI)
  let ?I = "untouched (local_ids p0) p0"
  fix p assume p: "?I p"
  obtain r q where q: "GetUserByUsername (gp_Username req) p = (r, q)" by force
  then have I: "?I q" using yields_reads [OF reads_statements(1)] p unfolding yields_def by (metis snd_conv)
  have users: "p_users q = p_users p" using q by (auto simp: GetUserByUsername_def stmt_def Let_def split: if_splits)
  have far: "u_id u \<notin> local_ids p0" if "r = Inr u" "isReplica u" for u
    by (rule replica_not_local [OF I _ that(2)])
       (use q that(1) users in \<open>auto simp: GetUserByUsername_def stmt_def Let_def user_by_name_def dest: find_SomeD split: if_splits option.splits\<close>)
  show "?I (snd (handleGatewaySyncUser ev req p))"
  proof (cases r)
    case (Inl e)
    then show ?thesis using p I q keeps_delete_replica [of None] keeps_create_replica
      by (cases e) (auto simp: handleGatewaySyncUser_def keeps_def split: option.split)
  next
    case (Inr u)
    have "?I (snd (delete_replica (Some u) q))" using keeps_delete_replica [of "Some u"] far [OF Inr] I unfolding keeps_def by blast
    moreover have "?I (snd (update_replica req settings u q))" if "isReplica u" for settings
      using keeps_update_replica [OF far [OF Inr that]] I unfolding keeps_def by blast
    ultimately show ?thesis using p I q Inr by (auto simp: handleGatewaySyncUser_def Let_def split: option.split)
  qed
qed

text \<open>Pushes of peers, one after the other.\<close>

fun receive_all :: "(env \<times> gatewaySyncPayload) list \<Rightarrow> panel \<Rightarrow> panel" where
  "receive_all [] p = p"
| "receive_all ((ev, req) # rest) p = receive_all rest (snd (handleGatewaySyncUser ev req p))"

text \<open>
  C6. Peers reach only replicas: whatever payloads arrive, under whatever names, and whatever statements
  fail, the row, proxies, exclusions, plan and usage of every user that was created on this panel stay
  as they are, and ids and names stay unique.
\<close>

theorem peers_reach_only_replicas:
  assumes "wf_db p" and "u \<in> set (p_users p)" and "\<not> isReplica u"
  shows "view (u_id u) (receive_all pushes p) = view (u_id u) p \<and> wf_db (receive_all pushes p)"
proof -
  have "untouched (local_ids p) p (receive_all pushes q)" if "untouched (local_ids p) p q" for q
    using that
  proof (induction pushes arbitrary: q)
    case (Cons x pushes)
    then show ?case using keeps_handleGatewaySyncUser [of p] by (cases x) (auto simp: keeps_def)
  qed simp
  moreover have "untouched (local_ids p) p p" by (rule untouched_refl [OF assms(1)]) auto
  ultimately have "untouched (local_ids p) p (receive_all pushes p)" by blast
  moreover have "u_id u \<in> local_ids p" using assms(2,3) by blast
  ultimately show ?thesis unfolding untouched_def by blast
qed

section \<open>A replica matches its origin\<close>

lemma subtract_self [simp]: "subtractTags ts ts = []"
  by (simp add: subtractTags_def)

lemma payload_settings:
  fixes u :: User and t :: string
  assumes "one_per_type a"
  defines "ps \<equiv> gp_Proxies (sync_payload u (sort_key pr_id (filter (\<lambda>r. pr_user_id r = u_id u) (p_proxies a))))"
  shows "distinct (map fst ps)" and "map_of ps t = settings_of a (u_id u) t"
proof -
  let ?rs = "sort_key pr_id (filter (\<lambda>r. pr_user_id r = u_id u) (p_proxies a))"
  have ps: "ps = foldl (\<lambda>m r. mput (pr_type r) (pr_settings r) m) [] ?rs" by (simp add: ps_def sync_payload_def)
  have "wf_map m \<Longrightarrow> wf_map (foldl (\<lambda>m r. mput (pr_type r) (pr_settings r) m) m rs)" for m rs
    by (induction rs arbitrary: m) auto
  from this [OF wf_map_Nil] show "distinct (map fst ps)" unfolding ps wf_map_def .
  have types: "distinct (map pr_type ?rs)" using assms(1) by (auto simp: one_per_type_def distinct_map inj_on_def)
  have "map_of (foldl (\<lambda>m r. mput (pr_type r) (pr_settings r) m) m rs) t = (case find (\<lambda>r. pr_type r = t) rs of None \<Rightarrow> map_of m t | Some r \<Rightarrow> Some (pr_settings r))"
    if "distinct (map pr_type rs)" for m rs
    using that
  proof (induction rs arbitrary: m)
    case (Cons r rs)
    have "find (\<lambda>x. pr_type x = pr_type r) rs = None" using Cons.prems by (auto simp: find_None_iff intro: rev_image_eqI)
    then show ?case using Cons by (cases "t = pr_type r") (simp_all split: option.split)
  qed simp
  from this [OF types] have eq: "map_of ps t = map_option pr_settings (find (\<lambda>r. pr_type r = t) ?rs)" by (simp add: ps split: option.split)
  show "map_of ps t = settings_of a (u_id u) t"
  proof (cases "find (\<lambda>r. pr_type r = t) ?rs")
    case None
    then have "settings_of a (u_id u) t = None" by (auto simp: settings_of_None find_None_iff)
    then show ?thesis using None eq by simp
  next
    case (Some r)
    then have "r \<in> set ?rs \<and> pr_type r = t" by (rule find_SomeD)
    then have "settings_of a (u_id u) t = Some (pr_settings r)" using settings_of_iff [OF assms(1)] by auto
    then show ?thesis using Some eq by simp
  qed
qed

lemma create_proxies_loop:
  assumes "ready p uid" and "distinct (map fst ws)" and "\<forall>t \<in> fst ` set ws. ProxyType_Valid t" and "\<And>t. t \<in> fst ` set ws \<Longrightarrow> settings_of p uid t = None"
    and run: "each (\<lambda>(protocol, s) p. case ev_known ev protocol of
         None \<Rightarrow> (Inl DbError, p) | Some known \<Rightarrow> createProxyForUser ev uid protocol s known p) ws p = (Inr x, q)"
  shows "settings_of q uid = settings_of p uid ++ (map_option Settings_MarshalJSON \<circ> map_of ws) \<and> p_users q = p_users p"
  using assms
proof (induction ws arbitrary: p)
  case Nil
  then show ?case by (auto simp: ret_def fun_eq_iff map_add_def)
next
  case (Cons w ws)
  obtain t s where w: "w = (t, s)" by force
  let ?one = "\<lambda>(protocol, s) p. case ev_known ev protocol of None \<Rightarrow> (Inl DbError, p) | Some known \<Rightarrow> createProxyForUser ev uid protocol s known p"
  obtain known where known: "ev_known ev t = Some known"
    using Cons.prems(5) by (cases "ev_known ev t") (auto simp: w bnd_def)
  have "settings_of p uid t = None" "ProxyType_Valid t" using Cons.prems(3,4) by (auto simp: w)
  then obtain r p1 pid where p1: "CreateProxy uid t (Settings_MarshalJSON s) p = (Inr r, p1)" "ready p1 uid"
    "settings_of p1 uid = (settings_of p uid)(t \<mapsto> Settings_MarshalJSON s)"
    by (rule CreateProxy_key [OF Cons.prems(1), where s = "Settings_MarshalJSON s"]) blast
  have one: "?one w p = (Inr (), p1)" using p1(1) by (simp add: w known createProxyForUser_def bnd_def ret_def)
  have users: "p_users p1 = p_users p" using p1(1) by (auto simp: CreateProxy_def stmt_def Let_def split: if_splits)
  have "settings_of q uid = settings_of p1 uid ++ (map_option Settings_MarshalJSON \<circ> map_of ws) \<and> p_users q = p_users p1"
  proof (rule Cons.IH [OF p1(2)])
    show "each ?one ws p1 = (Inr x, q)" using Cons.prems(5) one unfolding each.simps bnd_def by simp
    show "settings_of p1 uid t' = None" if "t' \<in> fst ` set ws" for t'
      using Cons.prems(2,4) that by (auto simp: p1(3) w)
  qed (use Cons.prems in auto)
  moreover have "map_of ws t = None" using Cons.prems(2) by (simp add: w map_of_eq_None_iff)
  ultimately show ?case using users by (auto simp: p1(3) w fun_eq_iff map_add_def split: option.split)
qed

text \<open>The payload a panel pushes for a user, and what it says of the user.\<close>

definition pushed :: "User \<Rightarrow> panel \<Rightarrow> gatewaySyncPayload" where
  "pushed u a = (sync_payload u (sort_key pr_id (filter (\<lambda>r. pr_user_id r = u_id u) (p_proxies a))))\<lparr>gp_OriginPanelName := fst (p_gateway a)\<rparr>"

lemma dispatch_pushes:
  assumes "no_faults a" and "\<not> isReplica u"
  shows "snd (p_gateway (dispatchGatewayUserSync u a)) = snd (p_gateway a) @ [pushed u a]"
  using assms no_faults_step [OF assms(1)]
  by (simp add: dispatchGatewayUserSync_def isReplica_def ListProxiesByUserID_def stmt_ok dispatchGatewayPush_def pushed_def)

definition mirrors :: "env \<Rightarrow> User \<Rightarrow> panel \<Rightarrow> User \<Rightarrow> panel \<Rightarrow> bool" where
  "mirrors ev u a v b \<longleftrightarrow> u_status v = u_status u \<and> u_data_limit v = u_data_limit u \<and> u_strategy v = u_strategy u \<and> u_expire v = u_expire u
     \<and> settings_of b (u_id v) = (\<lambda>t. case settings_of a (u_id u) t of None \<Rightarrow> None
          | Some raw \<Rightarrow> if isJSONNull raw then None else map_option Settings_MarshalJSON (from_wire ev t raw))"

lemma wanted_mirror:
  assumes "one_per_type a" and "resolveProxySettings ev (gp_Proxies (pushed u a)) = Some (wanted, remove)"
  shows "distinct (map fst wanted)" "\<forall>t \<in> fst ` set wanted. ProxyType_Valid t"
    "map_option Settings_MarshalJSON (map_of wanted t) = (case settings_of a (u_id u) t of None \<Rightarrow> None
          | Some raw \<Rightarrow> if isJSONNull raw then None else map_option Settings_MarshalJSON (from_wire ev t raw))"
  using wanted_of_request [OF assms(2)] payload_settings [OF assms(1), of u]
  by (auto simp: pushed_def split: option.split)

lemma expire_column: "u_expire u = None \<or> (\<exists>e. u_expire u = Some e \<and> - (2 ^ 31) \<le> e \<and> e < 2 ^ 31) \<Longrightarrow> map_option to_int32 (u_expire u) = u_expire u"
  by (auto simp: to_int32_small)

lemma ready_users:
  assumes "ready p uid" and "map u_id us = map u_id (p_users p)" and "map u_username us = map u_username (p_users p)"
  shows "ready (p\<lparr>p_calls := p_calls p + 1, p_users := us\<rparr>) uid"
proof -
  have "set (map u_id us) = set (map u_id (p_users p))" using assms(2) by simp
  then have ids: "u_id ` set us = u_id ` set (p_users p)" by simp
  have "\<forall>i \<in> u_id ` set (p_users p). i \<le> fst (p_serial p)" using assms(1) by (simp add: ready_def wf_db_def)
  then have "\<forall>u \<in> set us. u_id u \<le> fst (p_serial p)" unfolding ids [symmetric] by simp
  then show ?thesis using assms ids by (auto simp: ready_def wf_db_def one_per_type_def no_faults_def)
qed

lemma update_replica_mirrors:
  assumes "ready b (u_id v)" and "v \<in> set (p_users b)" and "one_per_type a" and "row_ok a u"
    and "u_expire u = None \<or> (\<exists>e. u_expire u = Some e \<and> - (2 ^ 31) \<le> e \<and> e < 2 ^ 31)"
    and "resolveProxySettings ev (gp_Proxies (pushed u a)) = Some (wanted, remove)"
    and run: "update_replica (pushed u a) wanted v b = (Ok, q)"
  shows "\<exists>v'. p_users q = map (\<lambda>x. if u_id x = u_id v then v' else x) (p_users b) \<and> u_id v' = u_id v \<and> u_username v' = u_username v
    \<and> u_synced_from_panel_name v' = u_synced_from_panel_name v \<and> mirrors ev u a v' q"
proof -
  have b: "no_faults b" "wf_db b" using assms(1) by (auto simp: ready_def)
  have strategy: "strOr (Some (u_strategy u)) ''no_reset'' = u_strategy u" using assms(4) by (auto simp: row_ok_def strOr_def reset_strategies_def)
  let ?f = "\<lambda>now x. x\<lparr>u_status := u_status u, u_data_limit := u_data_limit u, u_strategy := u_strategy u, u_expire := u_expire u, u_edit_at := Some now\<rparr>"
  have up: "UpdateGatewaySyncedUser (u_id v) (gp_Status (pushed u a)) (gp_DataLimit (pushed u a)) (strOr (Some (gp_Strategy (pushed u a))) ''no_reset'')
      (map_option to_int32 (gp_Expire (pushed u a))) = update_user (u_id v) ?f"
    by (simp add: UpdateGatewaySyncedUser_def pushed_def sync_payload_def strategy expire_column [OF assms(5)])
  obtain row p1 where p1: "update_user (u_id v) ?f b = (Inr row, p1)" and run1: "attempt (reconcileProxies (u_id row) wanted [] True) fail500 (\<lambda>_. Pair Ok) p1 = (Ok, q)"
    using run unfolding update_replica_def up by (auto simp: attempt_def split: prod.splits sum.splits)
  have row: "row = ?f (p_now b) v" "p1 = b\<lparr>p_calls := p_calls b + 1, p_users := map (\<lambda>x. if u_id x = u_id v then ?f (p_now b) v else x) (p_users b)\<rparr>"
    using update_user_effect [OF b assms(2) p1] by simp_all
  have ids: "map u_id (p_users p1) = map u_id (p_users b)" "map u_username (p_users p1) = map u_username (p_users b)"
  proof -
    have "x = v" if "x \<in> set (p_users b)" "u_id x = u_id v" for x
      using b(2) assms(2) that by (auto simp: wf_db_def distinct_map dest: inj_onD)
    then show "map u_id (p_users p1) = map u_id (p_users b)" "map u_username (p_users p1) = map u_username (p_users b)" by (auto simp: row(2))
  qed
  have "ready p1 (u_id v)" unfolding row(2) by (rule ready_users [OF assms(1)]) (use ids row(2) in simp_all)
  then obtain p2 where p2: "reconcileProxies (u_id v) wanted [] True p1 = (Inr (), p2)"
    "\<And>t. settings_of p2 (u_id v) t = (case map_of wanted t of Some s \<Rightarrow> Some (Settings_MarshalJSON s) | None \<Rightarrow> if t \<in> set [] \<or> True then None else settings_of p1 (u_id v) t)"
    by (rule reconcileProxies_effect [OF _ wanted_mirror(1,2) [OF assms(3,6)], where remove = "[]" and del = True]) blast
  have q: "q = p2" using run1 p2(1) by (simp add: row(1) attempt_def)
  have "proxies_only p1 p2" by (rule yields_run [OF reconcileProxies_frame _ p2(1)]) (simp add: proxies_only_def)
  then have users: "p_users q = map (\<lambda>x. if u_id x = u_id v then ?f (p_now b) v else x) (p_users b)" using proxies_onlyD(1) [of p1 p2] by (simp add: q row(2))
  have "settings_of q (u_id v) = (\<lambda>t. map_option Settings_MarshalJSON (map_of wanted t))"
    by (rule ext) (simp add: q p2(2) split: option.split)
  then have "mirrors ev u a (?f (p_now b) v) q" using wanted_mirror(3) [OF assms(3,6)] by (simp add: mirrors_def)
  then show ?thesis using users by (intro exI [of _ "?f (p_now b) v"]) simp
qed

lemma create_replica_mirrors:
  assumes "no_faults b" and "wf_db b" and "one_per_type b" and "\<forall>r \<in> set (p_proxies b). pr_user_id r \<in> u_id ` set (p_users b)"
    and "one_per_type a" and "row_ok a u" and "u_expire u = None \<or> (\<exists>e. u_expire u = Some e \<and> - (2 ^ 31) \<le> e \<and> e < 2 ^ 31)"
    and "resolveProxySettings ev (gp_Proxies (pushed u a)) = Some (wanted, remove)"
    and run: "create_replica ev (pushed u a) wanted b = (Ok, q)"
  shows "\<exists>v. p_users q = p_users b @ [v] \<and> u_username v = u_username u \<and> u_username v \<notin> u_username ` set (p_users b)
    \<and> u_synced_from_panel_name v = Some (fst (p_gateway a)) \<and> mirrors ev u a v q"
proof -
  let ?uid = "fst (p_serial b) + 1"
  let ?v = "new_user ?uid (p_now b) (u_username u) (u_status u) (u_data_limit u) (u_strategy u) (u_expire u) None None None None None (Some (fst (p_gateway a)))"
  let ?p1 = "b\<lparr>p_calls := p_calls b + 1, p_users := p_users b @ [?v], p_serial := (?uid, snd (p_serial b))\<rparr>"
  have strategy: "strOr (Some (u_strategy u)) ''no_reset'' = u_strategy u" using assms(6) by (auto simp: row_ok_def strOr_def reset_strategies_def)
  have create: "CreateGatewaySyncedUser (gp_Username (pushed u a)) (gp_Status (pushed u a)) (gp_DataLimit (pushed u a))
      (strOr (Some (gp_Strategy (pushed u a))) ''no_reset'') (map_option to_int32 (gp_Expire (pushed u a))) (Some (gp_OriginPanelName (pushed u a)))
    = insert_user (\<lambda>uid now. new_user uid now (u_username u) (u_status u) (u_data_limit u) (u_strategy u) (u_expire u) None None None None None (Some (fst (p_gateway a))))"
    by (simp add: CreateGatewaySyncedUser_def pushed_def sync_payload_def strategy expire_column [OF assms(7)])
  have new: "u_id ?v = ?uid" "u_username ?v = u_username u" by (simp_all add: new_user_def)
  obtain row p1 where "insert_user (\<lambda>uid now. new_user uid now (u_username u) (u_status u) (u_data_limit u) (u_strategy u) (u_expire u) None None None None None (Some (fst (p_gateway a)))) b
      = (Inr row, p1)" and run1: "attempt (each (\<lambda>(protocol, s) p. case ev_known ev protocol of
         None \<Rightarrow> (Inl DbError, p) | Some known \<Rightarrow> createProxyForUser ev (u_id row) protocol s known p) wanted) fail500 (\<lambda>_. Pair Ok) p1 = (Ok, q)"
    using run unfolding create_replica_def create by (auto simp: attempt_def split: prod.splits sum.splits if_splits)
  then have row: "row = ?v" "p1 = ?p1" and fresh: "u_username ?v \<notin> u_username ` set (p_users b)"
    using no_faults_step [OF assms(1)] by (auto simp: insert_user_def stmt_ok Let_def split: if_splits)
  have "?uid \<notin> u_id ` set (p_users b)" using assms(2) by (auto simp: wf_db_def)
  then have none: "settings_of ?p1 ?uid t = None" for t using assms(4) by (auto simp: settings_of_None) metis
  have "wf_db ?p1" using assms(2) fresh \<open>?uid \<notin> _\<close> by (auto simp: wf_db_def new)
  then have ready: "ready ?p1 ?uid" using assms(1,3) by (auto simp: ready_def one_per_type_def no_faults_def new)
  have run2: "each (\<lambda>(protocol, s) p. case ev_known ev protocol of
         None \<Rightarrow> (Inl DbError, p) | Some known \<Rightarrow> createProxyForUser ev ?uid protocol s known p) wanted ?p1 = (Inr (), q)"
    using run1 unfolding row new(1) by (auto simp: attempt_def split: prod.splits sum.splits)
  have loop: "settings_of q ?uid = settings_of ?p1 ?uid ++ (map_option Settings_MarshalJSON \<circ> map_of wanted)" "p_users q = p_users ?p1"
    using create_proxies_loop [OF ready wanted_mirror(1,2) [OF assms(5,8)] none run2] by simp_all
  have "settings_of q ?uid = (\<lambda>t. map_option Settings_MarshalJSON (map_of wanted t))"
    by (rule ext, simp only: loop(1) map_add_def none comp_def) (simp split: option.split)
  then have "mirrors ev u a ?v q" using wanted_mirror(3) [OF assms(5,8)] by (simp add: mirrors_def new_user_def)
  then show ?thesis using loop(2) fresh by (intro exI [of _ ?v]) (simp add: new_user_def)
qed

text \<open>
  C5. A push that a peer accepts leaves the peer with a replica that matches the user: the peer has exactly
  one row of that name, marked as a replica, with the user's status, data limit, reset strategy and expiry,
  and for every protocol of the user, and for no other, the settings the peer reads from the user's. It
  does not matter whether the replica was new or had other credentials before.
\<close>

theorem replica_matches_origin:
  assumes "no_faults b" and "wf_db b" and "one_per_type b" and "\<forall>r \<in> set (p_proxies b). pr_user_id r \<in> u_id ` set (p_users b)"
    and "one_per_type a" and "row_ok a u" and "u_username u \<noteq> []"
    and "u_expire u = None \<or> (\<exists>e. u_expire u = Some e \<and> - (2 ^ 31) \<le> e \<and> e < 2 ^ 31)"
    and run: "handleGatewaySyncUser ev (pushed u a) b = (Ok, q)"
  shows "\<exists>v. filter (\<lambda>x. u_username x = u_username u) (p_users q) = [v] \<and> isReplica v \<and> mirrors ev u a v q"
proof -
  let ?b = "b\<lparr>p_calls := p_calls b + 1\<rparr>"
  have get: "GetUserByUsername (u_username u) b = (case user_by_name b (u_username u) of None \<Rightarrow> Inl ErrNoRows | Some v \<Rightarrow> Inr v, ?b)"
    using no_faults_step [OF assms(1)] by (simp add: GetUserByUsername_def stmt_ok user_by_name_def)
  have name: "gp_Username (pushed u a) = u_username u" "gp_Deleted (pushed u a) = False" by (simp_all add: pushed_def sync_payload_def)
  obtain wanted remove where w: "resolveProxySettings ev (gp_Proxies (pushed u a)) = Some (wanted, remove)"
    and step: "(case user_by_name b (u_username u) of Some v \<Rightarrow> isReplica v \<and> update_replica (pushed u a) wanted v ?b = (Ok, q)
      | None \<Rightarrow> create_replica ev (pushed u a) wanted ?b = (Ok, q))"
    using run assms(7) unfolding handleGatewaySyncUser_def name get by (auto simp: Let_def split: option.splits if_splits)
  have b: "no_faults ?b" "wf_db ?b" "one_per_type ?b" using no_faults_step [OF assms(1)] assms(2,3) by (simp_all add: wf_db_def one_per_type_def)
  show ?thesis
  proof (cases "user_by_name b (u_username u)")
    case None
    then have fresh: "filter (\<lambda>x. u_username x = u_username u) (p_users b) = []" by (auto simp: user_by_name_def find_None_iff filter_empty_conv)
    obtain v where v: "p_users q = p_users ?b @ [v]" "u_username v = u_username u" "u_synced_from_panel_name v = Some (fst (p_gateway a))" "mirrors ev u a v q"
      using create_replica_mirrors [OF b _ assms(5,6,8) w] assms(4) step None by auto
    then show ?thesis using fresh by (intro exI [of _ v]) (simp add: isReplica_def)
  next
    case (Some v)
    then have v: "v \<in> set (p_users b)" "u_username v = u_username u" "isReplica v" "update_replica (pushed u a) wanted v ?b = (Ok, q)"
      using step by (auto simp: user_by_name_def dest: find_SomeD)
    have ready: "ready ?b (u_id v)" using b v(1) by (simp add: ready_def)
    obtain v' where v': "p_users q = map (\<lambda>x. if u_id x = u_id v then v' else x) (p_users b)" "u_id v' = u_id v" "u_username v' = u_username v"
      "u_synced_from_panel_name v' = u_synced_from_panel_name v" "mirrors ev u a v' q"
      using update_replica_mirrors [OF ready _ assms(5,6,8) w v(4)] v(1) by auto
    have "filter (\<lambda>x. u_username x = u_username v) (map (\<lambda>x. if u_id x = u_id v then v' else x) us) = [v']"
      if "distinct (map u_id us)" "distinct (map u_username us)" "v \<in> set us" for us
      using that
    proof (induction us)
      case (Cons x us)
      have none: "filter (\<lambda>y. u_username y = u_username v) (map (\<lambda>y. if u_id y = u_id v then v' else y) us) = []" if "x = v"
        using Cons.prems that by (auto simp: filter_empty_conv v'(3) rev_image_eqI)
      show ?case
      proof (cases "x = v")
        case False
        then have "v \<in> set us" "u_id x \<noteq> u_id v" "u_username x \<noteq> u_username v" using Cons.prems by (auto simp: rev_image_eqI)
        then show ?thesis using Cons by simp
      qed (simp add: none v'(3))
    qed simp
    then show ?thesis using v v' assms(2) by (intro exI [of _ v']) (auto simp: wf_db_def isReplica_def)
  qed
qed

section \<open>Examples\<close>

text \<open>A peer with a user of its own and a replica of \<open>bob\<close> that still has other credentials.\<close>

definition peer_panel :: panel where
  "peer_panel = market\<lparr>p_users := [example_user, example_user\<lparr>u_id := 2, u_username := ''bob'', u_synced_from_panel_name := Some ''east''\<rparr>],
     p_proxies := [\<lparr>pr_id = 1, pr_user_id = 2, pr_type = ''vmess'', pr_settings = ''{}''\<rparr>]\<rparr>"

definition bob :: User where
  "bob = example_user\<lparr>u_id := 2, u_username := ''bob'', u_status := ''limited'', u_admin_id := Some 2\<rparr>"

theorem peers_reach_only_replicas_witness:
  "view 1 (receive_all [(plain_env, (pushed bob market)\<lparr>gp_Username := ''ann''\<rparr>), (plain_env, pushed bob market)] peer_panel) = view 1 peer_panel"
proof -
  have "wf_db peer_panel" by (simp add: wf_db_def peer_panel_def market_def example_panel_def example_user_def)
  moreover have "example_user \<in> set (p_users peer_panel)" "\<not> isReplica example_user"
    by (simp_all add: peer_panel_def isReplica_def example_user_def)
  ultimately show ?thesis
    using peers_reach_only_replicas [of peer_panel example_user "[(plain_env, (pushed bob market)\<lparr>gp_Username := ''ann''\<rparr>), (plain_env, pushed bob market)]"]
    by (simp add: example_user_def)
qed

theorem replica_matches_origin_witness:
  "\<exists>v. filter (\<lambda>x. u_username x = ''bob'') (p_users (snd (handleGatewaySyncUser plain_env (pushed bob market) peer_panel))) = [v]
     \<and> u_status v = ''limited'' \<and> settings_of (snd (handleGatewaySyncUser plain_env (pushed bob market) peer_panel)) (u_id v) ''vmess'' = None"
proof -
  let ?run = "handleGatewaySyncUser plain_env (pushed bob market) peer_panel"
  have "fst ?run = Ok" by code_simp
  then have run: "?run = (Ok, snd ?run)" by (simp add: prod_eq_iff)
  have ok: "no_faults peer_panel" "wf_db peer_panel" "one_per_type peer_panel" "\<forall>r \<in> set (p_proxies peer_panel). pr_user_id r \<in> u_id ` set (p_users peer_panel)"
    "one_per_type market" "row_ok market bob" "u_username bob \<noteq> []" "u_expire bob = None \<or> (\<exists>e. u_expire bob = Some e \<and> - (2 ^ 31) \<le> e \<and> e < 2 ^ 31)"
    by (simp_all add: no_faults_def wf_db_def one_per_type_def row_ok_def peer_panel_def market_def example_panel_def example_user_def bob_def
        char_length_def user_statuses_def reset_strategies_def seller_row_def)
  obtain v where v: "filter (\<lambda>x. u_username x = u_username bob) (p_users (snd ?run)) = [v]" "mirrors plain_env bob market v (snd ?run)"
    using replica_matches_origin [OF ok run] by blast
  have "settings_of market (u_id bob) ''vmess'' = None" by code_simp
  then have "settings_of (snd ?run) (u_id v) ''vmess'' = None" "u_status v = ''limited''" using v(2) by (simp_all add: mirrors_def bob_def)
  then show ?thesis using v(1) by (auto simp: bob_def)
qed

text \<open>Which panel a replica came from is not looked at: another peer's deletion of its own user of that
  name removes the replica.\<close>

lemma replica_deleted_by_other_peer:
  "let gone = (pushed bob market)\<lparr>gp_OriginPanelName := ''west'', gp_Deleted := True\<rparr>
   in fst (handleGatewaySyncUser plain_env gone peer_panel) = Ok
    \<and> map u_synced_from_panel_name (filter (\<lambda>u. u_username u = ''bob'') (p_users peer_panel)) = [Some ''east'']
    \<and> filter (\<lambda>u. u_username u = ''bob'') (p_users (snd (handleGatewaySyncUser plain_env gone peer_panel))) = []"
  by code_simp

end
