(* ===== verification/AdminAccounts.thy ===== *)
theory AdminAccounts
  imports UserSafety
begin

text \<open>
  The admin endpoints (\<open>internal/httpapi/admin.go\<close> apart from the login, which is in \<open>Auth\<close>) and their statements
  (\<open>internal/db/queries/admins.sql\<close>). All of the routes require sudo. The password hash and the answer of Redis to the
  invalidation of the cached row are arguments.
\<close>

section \<open>Statements\<close>

definition admin_by_name :: "panel \<Rightarrow> string \<Rightarrow> Admin option" where
  "admin_by_name p name = find (\<lambda>a. a_username a = name) (p_admins p)"

text \<open>The columns: the name has at most 34 characters, the hash 128, the webhook 1024.\<close>

definition admin_fits :: "Admin \<Rightarrow> bool" where
  "admin_fits a \<longleftrightarrow> char_length (a_username a) \<le> 34 \<and> char_length (a_hashed_password a) \<le> 128
     \<and> (case a_discord_webhook a of None \<Rightarrow> True | Some w \<Rightarrow> char_length w \<le> 1024)"

definition CreateAdmin :: "string \<Rightarrow> string \<Rightarrow> bool \<Rightarrow> int option \<Rightarrow> string option \<Rightarrow> Admin act" where
  "CreateAdmin username hashed isSudo telegram webhook = stmt (\<lambda>p.
     (let aid = p_admin_serial p + 1;
          a = \<lparr>a_id = aid, a_username = username, a_users_usage = 0, a_telegram_id = telegram, a_discord_webhook = webhook,
               a_hashed_password = hashed, a_is_sudo = isSudo, a_is_owner = False, a_password_reset_at = None, a_created_at = p_now p\<rparr>
      in if \<not> admin_fits a then (Inl DbError, p)
         else if username \<in> a_username ` set (p_admins p) then (Inl UniqueViolation, p)
         else (Inr a, p\<lparr>p_admins := p_admins p @ [a], p_admin_serial := aid\<rparr>)))"

definition UpdateAdmin :: "Admin \<Rightarrow> Admin act" where
  "UpdateAdmin row = stmt (\<lambda>p.
     (case find (\<lambda>a. a_id a = a_id row) (p_admins p) of
        None \<Rightarrow> (Inl ErrNoRows, p)
      | Some a \<Rightarrow>
          (let set_row = (\<lambda>a. a\<lparr>a_is_sudo := a_is_sudo row, a_hashed_password := a_hashed_password row,
                 a_password_reset_at := a_password_reset_at row, a_telegram_id := a_telegram_id row,
                 a_discord_webhook := a_discord_webhook row, a_is_owner := a_is_owner row\<rparr>)
           in if \<not> admin_fits (set_row a) then (Inl DbError, p)
              else (Inr (set_row a), p\<lparr>p_admins := map (\<lambda>a. if a_id a = a_id row then set_row a else a) (p_admins p)\<rparr>))))"

text \<open>Users and usage logs refer to the admin: as long as there are any, the deletion is refused.\<close>

definition DeleteAdmin :: "int \<Rightarrow> unit act" where
  "DeleteAdmin aid = stmt (\<lambda>p.
     (if aid \<in> a_id ` set (p_admins p) \<and> (Some aid \<in> u_admin_id ` set (p_users p) \<or> aid \<in> fst ` set (p_admin_logs p)) then (Inl DbError, p)
      else (Inr (), p\<lparr>p_admins := filter (\<lambda>a. a_id a \<noteq> aid) (p_admins p), p_queue := filter (\<lambda>q. q_admin_id q \<noteq> aid) (p_queue p)\<rparr>)))"

definition ResetAdminUsage :: "int \<Rightarrow> Admin act" where
  "ResetAdminUsage aid = stmt (\<lambda>p.
     (case find (\<lambda>a. a_id a = aid) (p_admins p) of
        None \<Rightarrow> (Inl ErrNoRows, p)
      | Some a \<Rightarrow> (Inr (a\<lparr>a_users_usage := 0\<rparr>),
          p\<lparr>p_admins := map (\<lambda>a. if a_id a = aid then a\<lparr>a_users_usage := 0\<rparr> else a) (p_admins p),
            p_admin_logs := p_admin_logs p @ (if a_users_usage a \<noteq> 0 then [(aid, a_users_usage a)] else [])\<rparr>)))"

text \<open>The last edit or creation of a user of the admin, or else the creation of the admin itself.\<close>

definition last_activity :: "panel \<Rightarrow> Admin \<Rightarrow> instant" where
  "last_activity p a =
     (let times = map (\<lambda>u. case u_edit_at u of None \<Rightarrow> u_created_at u | Some t \<Rightarrow> t) (filter (\<lambda>u. u_admin_id u = Some (a_id a)) (p_users p))
      in if times = [] then a_created_at a else Max (set times))"

definition GetInactiveAdmins :: "instant \<Rightarrow> (Admin \<times> instant \<times> nat) list act" where
  "GetInactiveAdmins cutoff = stmt (\<lambda>p.
     (Inr (map (\<lambda>a. (a, last_activity p a, length (filter (\<lambda>u. u_admin_id u = Some (a_id a)) (p_users p))))
            (sort_key (last_activity p) (filter (\<lambda>a. \<not> a_is_sudo a \<and> last_activity p a < cutoff) (p_admins p)))), p))"

definition DeleteUsersByAdminID :: "int \<Rightarrow> User list act" where
  "DeleteUsersByAdminID aid = stmt (\<lambda>p.
     (let mine = filter (\<lambda>u. u_admin_id u = Some aid) (p_users p) in (Inr mine, remove_users (u_id ` set mine) p)))"

definition set_statuses :: "(User \<Rightarrow> bool) \<Rightarrow> string \<Rightarrow> User list act" where
  "set_statuses which status = stmt (\<lambda>p.
     (let f = (\<lambda>u. u\<lparr>u_status := status, u_last_status_change := Some (p_now p)\<rparr>)
      in (Inr (map f (filter which (p_users p))), set_users (\<lambda>u. if which u then f u else u) p)))"

definition DisableActiveUsersByAdminID :: "int \<Rightarrow> User list act" where
  "DisableActiveUsersByAdminID aid = set_statuses (\<lambda>u. u_admin_id u = Some aid \<and> u_status u \<in> set [''active'', ''on_hold'']) ''disabled''"

definition ActivateDisabledUsersByAdminID :: "int \<Rightarrow> User list act" where
  "ActivateDisabledUsersByAdminID aid = set_statuses (\<lambda>u. u_admin_id u = Some aid \<and> u_status u = ''disabled'') ''active''"

section \<open>Handlers\<close>

record adminCreateRequest =
  ac_Username :: string
  ac_Password :: string
  ac_IsSudo :: bool
  ac_TelegramID :: "int option"
  ac_DiscordWebhook :: "string option"

record adminModifyRequest =
  am_Password :: "string option"
  am_IsSudo :: "bool option"
  am_IsOwner :: "bool option"
  am_TelegramID :: "int option"
  am_DiscordWebhook :: "string option"

datatype admin_reply =
    AFail nat
  | ADone
  | AdminReply Admin
  | Affected nat
  | Inactive "(string \<times> instant \<times> nat) list" nat

text \<open>What the handlers read outside of the database: the hash of a password (with its random salt), whether
  Redis confirms an invalidation, and the clock.\<close>

record admin_env =
  ae_hash :: "string \<Rightarrow> string option"
  ae_invalidates :: bool
  ae_now :: instant

type_synonym admin_handler = "panel \<Rightarrow> admin_reply \<times> panel"

definition try_act :: "'a act \<Rightarrow> (db_error \<Rightarrow> admin_reply) \<Rightarrow> ('a \<Rightarrow> admin_handler) \<Rightarrow> admin_handler" where
  "try_act m onerr k p = (case m p of (Inl e, p') \<Rightarrow> (onerr e, p') | (Inr a, p') \<Rightarrow> k a p')"

definition validateDiscordWebhook :: "string option \<Rightarrow> bool" where
  "validateDiscordWebhook v = (case v of None \<Rightarrow> True | Some w \<Rightarrow> w = [] \<or> HasPrefix w ''https://discord.com'')"

definition handleCreateAdmin :: "admin_env \<Rightarrow> adminCreateRequest \<Rightarrow> admin_handler" where
  "handleCreateAdmin ev req =
     (if ac_Username req = [] \<or> ac_Password req = [] \<or> \<not> validateDiscordWebhook (ac_DiscordWebhook req) then Pair (AFail 422)
      else (case ae_hash ev (ac_Password req) of
              None \<Rightarrow> Pair (AFail 500)
            | Some hashed \<Rightarrow>
                try_act (CreateAdmin (ac_Username req) hashed (ac_IsSudo req) (ac_TelegramID req) (ac_DiscordWebhook req))
                  (\<lambda>e. if e = UniqueViolation then AFail 409 else AFail 500) (\<lambda>a. Pair (AdminReply a))))"

text \<open>The flags after the permission checks; \<open>None\<close> is a refusal.\<close>

definition new_sudo :: "Identity \<Rightarrow> adminModifyRequest \<Rightarrow> Admin \<Rightarrow> bool option" where
  "new_sudo current req a =
     (case am_IsSudo req of
        None \<Rightarrow> Some (a_is_sudo a)
      | Some v \<Rightarrow> if v = a_is_sudo a then Some v else if v then Some True else if id_IsOwner current then Some False else None)"

definition new_owner :: "Identity \<Rightarrow> adminModifyRequest \<Rightarrow> Admin \<Rightarrow> bool option" where
  "new_owner current req a =
     (case am_IsOwner req of
        None \<Rightarrow> Some (a_is_owner a)
      | Some v \<Rightarrow> if v = a_is_owner a then Some v
                  else if \<not> id_IsOwner current then None
                  else if a_username a = id_Username current \<and> \<not> v then None else Some v)"

definition new_password :: "admin_env \<Rightarrow> adminModifyRequest \<Rightarrow> Admin \<Rightarrow> (string \<times> instant option) option" where
  "new_password ev req a =
     (case am_Password req of
        None \<Rightarrow> Some (a_hashed_password a, a_password_reset_at a)
      | Some pw \<Rightarrow>
          if pw = [] then Some (a_hashed_password a, a_password_reset_at a)
          else (case ae_hash ev pw of
                  None \<Rightarrow> None
                | Some h \<Rightarrow> Some (if h \<noteq> a_hashed_password a then (h, Some (ae_now ev)) else (a_hashed_password a, a_password_reset_at a))))"

definition save_admin :: "admin_env \<Rightarrow> Admin \<Rightarrow> admin_handler" where
  "save_admin ev row = try_act (UpdateAdmin row) (\<lambda>_. AFail 500) (\<lambda>a. Pair (if ae_invalidates ev then AdminReply a else AFail 500))"

definition handleUpdateAdmin :: "admin_env \<Rightarrow> Identity \<Rightarrow> string \<Rightarrow> adminModifyRequest \<Rightarrow> admin_handler" where
  "handleUpdateAdmin ev current username req =
     try_act (GetAdminByUsername username) (\<lambda>_. AFail 404) (\<lambda>a.
       if a_username a \<noteq> id_Username current \<and> a_is_sudo a \<and> \<not> id_IsOwner current then Pair (AFail 403)
       else if \<not> validateDiscordWebhook (am_DiscordWebhook req) then Pair (AFail 422)
       else (case (new_sudo current req a, new_owner current req a) of
               (Some sudo, Some owner) \<Rightarrow>
                 (case new_password ev req a of
                    None \<Rightarrow> Pair (AFail 500)
                  | Some (hashed, reset) \<Rightarrow>
                      save_admin ev (a\<lparr>a_is_sudo := sudo, a_is_owner := owner, a_hashed_password := hashed, a_password_reset_at := reset,
                        a_telegram_id := (case am_TelegramID req of None \<Rightarrow> a_telegram_id a | Some t \<Rightarrow> if t = 0 then a_telegram_id a else Some t),
                        a_discord_webhook := (case am_DiscordWebhook req of None \<Rightarrow> a_discord_webhook a | Some w \<Rightarrow> if w = [] then a_discord_webhook a else Some w)\<rparr>))
             | _ \<Rightarrow> Pair (AFail 403)))"

definition handleDeleteAdmin :: "admin_env \<Rightarrow> string \<Rightarrow> admin_handler" where
  "handleDeleteAdmin ev username =
     try_act (GetAdminByUsername username) (\<lambda>_. AFail 404) (\<lambda>a.
       if a_is_sudo a then Pair (AFail 403)
       else try_act (DeleteAdmin (a_id a)) (\<lambda>_. AFail 500) (\<lambda>_. Pair (if ae_invalidates ev then ADone else AFail 500)))"

definition handleDisableAdminUsers :: "string \<Rightarrow> admin_handler" where
  "handleDisableAdminUsers username =
     try_act (GetAdminByUsername username) (\<lambda>_. AFail 404) (\<lambda>a.
     try_act (DisableActiveUsersByAdminID (a_id a)) (\<lambda>_. AFail 500) (\<lambda>us. Pair (Affected (length us))))"

definition handleActivateAdminUsers :: "string \<Rightarrow> admin_handler" where
  "handleActivateAdminUsers username =
     try_act (GetAdminByUsername username) (\<lambda>_. AFail 404) (\<lambda>a.
     try_act (ActivateDisabledUsersByAdminID (a_id a)) (\<lambda>_. AFail 500) (\<lambda>us. Pair (Affected (length us))))"

definition handleResetAdminUsage :: "admin_env \<Rightarrow> string \<Rightarrow> admin_handler" where
  "handleResetAdminUsage ev username =
     try_act (GetAdminByUsername username) (\<lambda>_. AFail 404) (\<lambda>a.
     try_act (ResetAdminUsage (a_id a)) (\<lambda>_. AFail 500) (\<lambda>a. Pair (if ae_invalidates ev then AdminReply a else AFail 500)))"

text \<open>The days are at least one; a number that cannot be read means 90. A day is counted as 24 hours.\<close>

definition inactive_cutoff :: "admin_env \<Rightarrow> int option \<Rightarrow> instant" where
  "inactive_cutoff ev days = ae_now ev - (case days of None \<Rightarrow> 90 | Some n \<Rightarrow> if n \<ge> 1 then n else 90) * 24 * 3600 * 1000000000"

definition inactive_dto :: "Admin \<times> instant \<times> nat \<Rightarrow> string \<times> instant \<times> nat" where
  "inactive_dto = (\<lambda>(a, t, n). (a_username a, t, n))"

definition handleGetInactiveAdmins :: "admin_env \<Rightarrow> int option \<Rightarrow> admin_handler" where
  "handleGetInactiveAdmins ev days =
     try_act (GetInactiveAdmins (inactive_cutoff ev days)) (\<lambda>_. AFail 500) (\<lambda>rows. Pair (Inactive (map inactive_dto rows) 0))"

fun delete_inactive :: "admin_env \<Rightarrow> (Admin \<times> instant \<times> nat) list \<Rightarrow> (string \<times> instant \<times> nat) list \<Rightarrow> nat \<Rightarrow> admin_handler" where
  "delete_inactive ev [] removed n p = (Inactive removed n, p)"
| "delete_inactive ev (r # rows) removed n p =
     try_act (DeleteUsersByAdminID (a_id (fst r))) (\<lambda>_. AFail 500) (\<lambda>users.
     try_act (DeleteAdmin (a_id (fst r))) (\<lambda>_. AFail 500) (\<lambda>_ p.
       if \<not> ae_invalidates ev then (AFail 500, p) else delete_inactive ev rows (removed @ [inactive_dto r]) (n + length users) p)) p"

definition handleDeleteInactiveAdmins :: "admin_env \<Rightarrow> int option \<Rightarrow> admin_handler" where
  "handleDeleteInactiveAdmins ev days =
     try_act (GetInactiveAdmins (inactive_cutoff ev days)) (\<lambda>_. AFail 500) (\<lambda>rows. delete_inactive ev rows [] 0)"

section \<open>Routes\<close>

datatype admin_request =
    POST_admin adminCreateRequest
  | PUT_admin string adminModifyRequest
  | DELETE_admin string
  | POST_disable string
  | POST_activate string
  | POST_usage_reset string
  | GET_inactive "int option"
  | DELETE_inactive "int option"

definition sudo_route :: "Identity \<Rightarrow> admin_handler \<Rightarrow> admin_handler" where
  "sudo_route i h = (case RequireSudo (Inr i) of Passed _ \<Rightarrow> h | Forbidden403 \<Rightarrow> Pair (AFail 403) | Unauthorized401 _ \<Rightarrow> Pair (AFail 401))"

fun serve_admin :: "admin_env \<Rightarrow> Identity \<Rightarrow> admin_request \<Rightarrow> admin_handler" where
  "serve_admin ev i (POST_admin req) = sudo_route i (handleCreateAdmin ev req)"
| "serve_admin ev i (PUT_admin name req) = sudo_route i (handleUpdateAdmin ev i name req)"
| "serve_admin ev i (DELETE_admin name) = sudo_route i (handleDeleteAdmin ev name)"
| "serve_admin ev i (POST_disable name) = sudo_route i (handleDisableAdminUsers name)"
| "serve_admin ev i (POST_activate name) = sudo_route i (handleActivateAdminUsers name)"
| "serve_admin ev i (POST_usage_reset name) = sudo_route i (handleResetAdminUsage ev name)"
| "serve_admin ev i (GET_inactive days) = sudo_route i (handleGetInactiveAdmins ev days)"
| "serve_admin ev i (DELETE_inactive days) = sudo_route i (handleDeleteInactiveAdmins ev days)"

fun serve_admins :: "(Identity \<times> admin_env \<times> admin_request) list \<Rightarrow> panel \<Rightarrow> panel" where
  "serve_admins [] p = p"
| "serve_admins ((i, ev, r) # rs) p = serve_admins rs (snd (serve_admin ev i r p))"

section \<open>Who may change a sudo account\<close>

definition sans_usage :: "Admin \<Rightarrow> Admin" where
  "sans_usage a = a\<lparr>a_users_usage := 0\<rparr>"

lemma sans_usage_reset [simp]: "sans_usage (a\<lparr>a_users_usage := n\<rparr>) = sans_usage a"
  by (simp add: sans_usage_def)

definition admins_wf :: "panel \<Rightarrow> bool" where
  "admins_wf p \<longleftrightarrow> distinct (map a_id (p_admins p)) \<and> distinct (map a_username (p_admins p)) \<and> (\<forall>a \<in> set (p_admins p). a_id a \<le> p_admin_serial p)"

text \<open>The accounts \<open>A\<close> are still there as they were, and every owner is one of \<open>owners\<close>.\<close>

definition guarded :: "Admin set \<Rightarrow> int set \<Rightarrow> panel \<Rightarrow> bool" where
  "guarded A owners p \<longleftrightarrow> admins_wf p \<and> (\<forall>a \<in> A. \<exists>b \<in> set (p_admins p). sans_usage b = sans_usage a)
     \<and> (\<forall>b \<in> set (p_admins p). a_is_owner b \<longrightarrow> a_id b \<in> owners)"

lemma guarded_has: "guarded A owners p \<Longrightarrow> a \<in> A \<Longrightarrow> \<exists>b \<in> set (p_admins p). sans_usage b = sans_usage a"
  by (simp add: guarded_def)

lemma guarded_owner: "guarded A owners p \<Longrightarrow> b \<in> set (p_admins p) \<Longrightarrow> a_is_owner b \<Longrightarrow> a_id b \<in> owners"
  by (simp add: guarded_def)

lemma keeps_try [keep]: "yields I m Q \<Longrightarrow> (\<And>a. Q a \<Longrightarrow> keeps I (k a)) \<Longrightarrow> keeps I (try_act m onerr k)"
  unfolding keeps_def yields_def try_act_def by (fastforce split: prod.splits sum.splits)

lemma guarded_frame: "guarded A owners p \<Longrightarrow> p_admins q = p_admins p \<Longrightarrow> p_admin_serial q = p_admin_serial p \<Longrightarrow> guarded A owners q"
  by (simp add: guarded_def admins_wf_def)

lemma yields_stmt_guarded:
  assumes "\<And>p. guarded A owners p \<Longrightarrow> guarded A owners (snd (f p))"
    and "\<And>p a. guarded A owners p \<Longrightarrow> fst (f p) = Inr a \<Longrightarrow> Q a"
  shows "yields (guarded A owners) (stmt f) Q"
proof (rule yields_stmt)
  show "guarded A owners (p\<lparr>p_calls := p_calls p + 1\<rparr>)" if "guarded A owners p" for p by (rule guarded_frame [OF that]) simp_all
qed (fact assms)+

lemma sans_usage_fields: "sans_usage b = sans_usage a \<Longrightarrow> a_is_sudo b = a_is_sudo a \<and> a_username b = a_username a \<and> a_id b = a_id a"
  by (drule arg_cong [where f = "\<lambda>x. (a_is_sudo x, a_username x, a_id x)"]) (simp add: sans_usage_def)

text \<open>A row that has the id of a guarded account is that account.\<close>

lemma guarded_row:
  assumes "guarded A owners p" and "b \<in> set (p_admins p)" and "a_id b \<in> a_id ` A"
  shows "\<exists>a \<in> A. sans_usage b = sans_usage a"
proof -
  obtain a where a: "a \<in> A" "a_id b = a_id a" using assms(3) by auto
  then obtain c where c: "c \<in> set (p_admins p)" "sans_usage c = sans_usage a" using guarded_has [OF assms(1)] by blast
  have inj: "inj_on a_id (set (p_admins p))" using assms(1) by (simp add: guarded_def admins_wf_def distinct_map)
  have "a_id c = a_id b" using sans_usage_fields [OF c(2)] a(2) by simp
  then have "c = b" by (rule inj_onD [OF inj _ c(1) assms(2)])
  then show ?thesis using a(1) c(2) by auto
qed

lemma not_guarded:
  "a_id b \<in> a_id ` A \<longrightarrow> (\<exists>a \<in> A. sans_usage b = sans_usage a) \<Longrightarrow> (\<And>a. a \<in> A \<Longrightarrow> sans_usage b = sans_usage a \<Longrightarrow> False) \<Longrightarrow> a_id b \<notin> a_id ` A"
  by blast

lemma yields_GetAdminByUsername:
  "yields (guarded A owners) (GetAdminByUsername name)
     (\<lambda>b. (a_id b \<in> a_id ` A \<longrightarrow> (\<exists>a \<in> A. sans_usage b = sans_usage a)) \<and> (a_is_owner b \<longrightarrow> a_id b \<in> owners))"
  unfolding GetAdminByUsername_def
proof (rule yields_stmt_guarded)
  fix p b assume p: "guarded A owners p" and "fst (case find (\<lambda>a. a_username a = name) (p_admins p) of None \<Rightarrow> Inl ErrNoRows | Some a \<Rightarrow> Inr a, p) = Inr b"
  then have "b \<in> set (p_admins p)" by (auto simp: find_Some_iff split: option.splits)
  then show "(a_id b \<in> a_id ` A \<longrightarrow> (\<exists>a \<in> A. sans_usage b = sans_usage a)) \<and> (a_is_owner b \<longrightarrow> a_id b \<in> owners)"
    using guarded_row [OF p] p by (auto simp: guarded_def)
qed simp

lemma guarded_map:
  assumes "guarded A owners p" and "\<And>b. a_id (g b) = a_id b \<and> a_username (g b) = a_username b"
    and "\<And>b. a_id b \<in> a_id ` A \<Longrightarrow> sans_usage (g b) = sans_usage b" and "\<And>b. b \<in> set (p_admins p) \<Longrightarrow> a_is_owner (g b) \<Longrightarrow> a_id b \<in> owners"
  shows "guarded A owners (p\<lparr>p_admins := map g (p_admins p)\<rparr>)"
proof -
  have "a_id \<circ> g = a_id" "a_username \<circ> g = a_username" using assms(2) by (auto simp: fun_eq_iff)
  then have "admins_wf (p\<lparr>p_admins := map g (p_admins p)\<rparr>)" using assms(1,2) by (auto simp: guarded_def admins_wf_def)
  moreover have "\<exists>c \<in> set (map g (p_admins p)). sans_usage c = sans_usage a" if aA: "a \<in> A" for a
  proof -
    obtain b where b: "b \<in> set (p_admins p)" "sans_usage b = sans_usage a" using guarded_has [OF assms(1) aA] by blast
    have "a_id b \<in> a_id ` A" using sans_usage_fields [OF b(2)] aA by (metis imageI)
    then have "sans_usage (g b) = sans_usage a" using assms(3) b(2) by simp
    then show ?thesis using b(1) by auto
  qed
  ultimately show ?thesis using assms(2,4) by (auto simp: guarded_def)
qed

lemma yields_UpdateAdmin:
  assumes "a_id row \<notin> a_id ` A" and "a_is_owner row \<Longrightarrow> a_id row \<in> owners"
  shows "yields (guarded A owners) (UpdateAdmin row) (\<lambda>_. True)"
  unfolding UpdateAdmin_def Let_def
proof (rule yields_stmt_guarded)
  fix p assume p: "guarded A owners p"
  let ?g = "\<lambda>a. if a_id a = a_id row then a\<lparr>a_is_sudo := a_is_sudo row, a_hashed_password := a_hashed_password row,
       a_password_reset_at := a_password_reset_at row, a_telegram_id := a_telegram_id row,
       a_discord_webhook := a_discord_webhook row, a_is_owner := a_is_owner row\<rparr> else a"
  have "guarded A owners (p\<lparr>p_admins := map ?g (p_admins p)\<rparr>)"
    by (rule guarded_map [OF p]) (use assms p in \<open>auto simp: guarded_def split: if_splits\<close>)
  then show "guarded A owners (snd (case find (\<lambda>a. a_id a = a_id row) (p_admins p) of None \<Rightarrow> (Inl ErrNoRows, p)
      | Some a \<Rightarrow> if \<not> admin_fits (a\<lparr>a_is_sudo := a_is_sudo row, a_hashed_password := a_hashed_password row,
                 a_password_reset_at := a_password_reset_at row, a_telegram_id := a_telegram_id row,
                 a_discord_webhook := a_discord_webhook row, a_is_owner := a_is_owner row\<rparr>) then (Inl DbError, p)
              else (Inr (a\<lparr>a_is_sudo := a_is_sudo row, a_hashed_password := a_hashed_password row,
                 a_password_reset_at := a_password_reset_at row, a_telegram_id := a_telegram_id row,
                 a_discord_webhook := a_discord_webhook row, a_is_owner := a_is_owner row\<rparr>), p\<lparr>p_admins := map ?g (p_admins p)\<rparr>)))"
    using p by (simp split: option.split)
qed simp

lemma yields_DeleteAdmin:
  assumes "aid \<notin> a_id ` A"
  shows "yields (guarded A owners) (DeleteAdmin aid) (\<lambda>_. True)"
  unfolding DeleteAdmin_def
proof (rule yields_stmt_guarded)
  fix p assume p: "guarded A owners p"
  have rest: "\<exists>b \<in> set (p_admins p). a_id b \<noteq> aid \<and> sans_usage b = sans_usage a" if aA: "a \<in> A" for a
  proof -
    obtain b where b: "b \<in> set (p_admins p)" "sans_usage b = sans_usage a" using guarded_has [OF p aA] by blast
    moreover have "a_id b \<noteq> aid" using sans_usage_fields [OF b(2)] assms aA by (metis imageI)
    ultimately show ?thesis by blast
  qed
  let ?q = "p\<lparr>p_admins := filter (\<lambda>a. a_id a \<noteq> aid) (p_admins p), p_queue := filter (\<lambda>q. q_admin_id q \<noteq> aid) (p_queue p)\<rparr>"
  have "admins_wf ?q" using p by (simp add: guarded_def admins_wf_def distinct_map_filter)
  moreover have "\<forall>a \<in> A. \<exists>b \<in> set (p_admins ?q). sans_usage b = sans_usage a" using rest by force
  ultimately have "guarded A owners ?q" using guarded_owner [OF p] by (simp add: guarded_def)
  then show "guarded A owners (snd (if aid \<in> a_id ` set (p_admins p) \<and> (Some aid \<in> u_admin_id ` set (p_users p) \<or> aid \<in> fst ` set (p_admin_logs p)) then (Inl DbError, p)
      else (Inr (), p\<lparr>p_admins := filter (\<lambda>a. a_id a \<noteq> aid) (p_admins p), p_queue := filter (\<lambda>q. q_admin_id q \<noteq> aid) (p_queue p)\<rparr>)))"
    using p by simp
qed simp

lemma yields_ResetAdminUsage: "yields (guarded A owners) (ResetAdminUsage aid) (\<lambda>_. True)"
  unfolding ResetAdminUsage_def
proof (rule yields_stmt_guarded)
  fix p assume p: "guarded A owners p"
  let ?g = "\<lambda>a. if a_id a = aid then a\<lparr>a_users_usage := 0\<rparr> else a"
  have "guarded A owners (p\<lparr>p_admins := map ?g (p_admins p)\<rparr>)"
    by (rule guarded_map [OF p]) (use p in \<open>auto simp: guarded_def split: if_splits\<close>)
  then have "guarded A owners (p\<lparr>p_admins := map ?g (p_admins p), p_admin_logs := ls\<rparr>)" for ls by (rule guarded_frame) simp_all
  then show "guarded A owners (snd (case find (\<lambda>a. a_id a = aid) (p_admins p) of None \<Rightarrow> (Inl ErrNoRows, p)
      | Some a \<Rightarrow> (Inr (a\<lparr>a_users_usage := 0\<rparr>), p\<lparr>p_admins := map ?g (p_admins p),
            p_admin_logs := p_admin_logs p @ (if a_users_usage a \<noteq> 0 then [(aid, a_users_usage a)] else [])\<rparr>)))"
    using p by (simp split: option.split)
qed simp

lemma yields_CreateAdmin: "yields (guarded A owners) (CreateAdmin n h s t w) (\<lambda>_. True)"
  unfolding CreateAdmin_def Let_def
  by (rule yields_stmt_guarded) (auto simp: guarded_def admins_wf_def)

lemma yields_users_only:
  "yields (guarded A owners) (DeleteUsersByAdminID aid) (\<lambda>_. True)" "yields (guarded A owners) (set_statuses which st) (\<lambda>_. True)"
  unfolding DeleteUsersByAdminID_def set_statuses_def Let_def remove_users_def set_users_def
  by (rule yields_stmt_guarded; auto intro: guarded_frame)+

lemma yields_GetInactiveAdmins:
  assumes "\<forall>a \<in> A. a_is_sudo a"
  shows "yields (guarded A owners) (GetInactiveAdmins cutoff) (\<lambda>rows. \<forall>r \<in> set rows. a_id (fst r) \<notin> a_id ` A)"
  unfolding GetInactiveAdmins_def
proof (rule yields_stmt_guarded)
  fix p rows assume p: "guarded A owners p" and "fst (Inr (map (\<lambda>a. (a, last_activity p a, length (filter (\<lambda>u. u_admin_id u = Some (a_id a)) (p_users p))))
            (sort_key (last_activity p) (filter (\<lambda>a. \<not> a_is_sudo a \<and> last_activity p a < cutoff) (p_admins p)))), p) = Inr rows"
  then have "fst r \<in> set (p_admins p) \<and> \<not> a_is_sudo (fst r)" if "r \<in> set rows" for r using that by auto
  then show "\<forall>r \<in> set rows. a_id (fst r) \<notin> a_id ` A"
    using guarded_row [OF p] assms sans_usage_fields by (intro ballI not_guarded) blast+
qed simp

lemma keeps_delete_inactive:
  "\<forall>r \<in> set rows. a_id (fst r) \<notin> a_id ` A \<Longrightarrow> keeps (guarded A owners) (delete_inactive ev rows removed n)"
proof (induction rows arbitrary: removed n)
  case (Cons r rows)
  have "keeps (guarded A owners) (\<lambda>p. if \<not> ae_invalidates ev then (AFail 500, p) else delete_inactive ev rows (removed @ [inactive_dto r]) k p)" for k
    using Cons by (auto simp: keeps_def)
  then have "keeps (guarded A owners) (try_act (DeleteUsersByAdminID (a_id (fst r))) (\<lambda>_. AFail 500) (\<lambda>users.
     try_act (DeleteAdmin (a_id (fst r))) (\<lambda>_. AFail 500) (\<lambda>_ p.
       if \<not> ae_invalidates ev then (AFail 500, p) else delete_inactive ev rows (removed @ [inactive_dto r]) (n + length users) p)))"
    using Cons.prems by (intro keeps_try [OF yields_users_only(1)] keeps_try [OF yields_DeleteAdmin]) auto
  then show ?case by (simp add: keeps_def)
qed (simp add: keeps_def)

lemma keeps_handleUpdateAdmin:
  assumes "\<forall>a \<in> A. a_is_sudo a \<and> a_username a \<noteq> id_Username i" and "\<not> id_IsOwner i"
  shows "keeps (guarded A owners) (handleUpdateAdmin ev i name req)"
  unfolding handleUpdateAdmin_def
proof (rule keeps_try [OF yields_GetAdminByUsername], rule keeps_if, rule keeps_Pair, rule keeps_if, rule keeps_Pair, goal_cases)
  case (1 a)
  have far: "a_id a \<notin> a_id ` A"
    by (rule not_guarded [OF conjunct1 [OF 1(1)]]) (use 1(2) assms sans_usage_fields in \<open>metis\<close>)
  have save: "keeps (guarded A owners) (save_admin ev row)" if "a_id row = a_id a" "a_is_owner row = a_is_owner a" for row
    unfolding save_admin_def by (rule keeps_try [OF yields_UpdateAdmin]) (use far that 1(1) keeps_Pair in auto)
  have "new_owner i req a = Some b \<Longrightarrow> b = a_is_owner a" for b using assms(2) by (auto simp: new_owner_def split: option.splits if_splits)
  then show ?case by (auto intro!: save keeps_Pair split: option.split)
qed

lemma keeps_serve_admin:
  assumes "\<forall>a \<in> A. a_is_sudo a \<and> a_username a \<noteq> id_Username i" and "\<not> id_IsOwner i"
  shows "keeps (guarded A owners) (serve_admin ev i r)"
proof -
  have sudo: "\<forall>a \<in> A. a_is_sudo a" using assms(1) by blast
  have route: "keeps (guarded A owners) h \<Longrightarrow> keeps (guarded A owners) (sudo_route i h)" for h
    by (simp add: sudo_route_def RequireSudo_def keeps_Pair)
  have delete: "keeps (guarded A owners) (handleDeleteAdmin ev name)" for name
    unfolding handleDeleteAdmin_def
  proof (rule keeps_try [OF yields_GetAdminByUsername], rule keeps_if, rule keeps_Pair, rule keeps_try [OF yields_DeleteAdmin], goal_cases)
    case (1 a)
    show ?case by (rule not_guarded [OF conjunct1 [OF 1(1)]]) (use 1(2) sudo sans_usage_fields in \<open>metis\<close>)
  qed (rule keeps_Pair)
  have create: "keeps (guarded A owners) (handleCreateAdmin ev req)" for req
    unfolding handleCreateAdmin_def by (rule keeps_if, rule keeps_Pair, rule keeps_option, rule keeps_Pair, rule keeps_try [OF yields_CreateAdmin], rule keeps_Pair)
  have bulk: "keeps (guarded A owners) (handleDisableAdminUsers name)" "keeps (guarded A owners) (handleActivateAdminUsers name)" for name
    unfolding handleDisableAdminUsers_def handleActivateAdminUsers_def DisableActiveUsersByAdminID_def ActivateDisabledUsersByAdminID_def
    by (rule keeps_try [OF yields_GetAdminByUsername], rule keeps_try [OF yields_users_only(2)], rule keeps_Pair)+
  have reset: "keeps (guarded A owners) (handleResetAdminUsage ev name)" for name
    unfolding handleResetAdminUsage_def by (rule keeps_try [OF yields_GetAdminByUsername], rule keeps_try [OF yields_ResetAdminUsage], rule keeps_Pair)
  have inactive: "keeps (guarded A owners) (handleGetInactiveAdmins ev days)" "keeps (guarded A owners) (handleDeleteInactiveAdmins ev days)" for days
    unfolding handleGetInactiveAdmins_def handleDeleteInactiveAdmins_def
    by (rule keeps_try [OF yields_GetInactiveAdmins [OF sudo]], rule keeps_Pair keeps_delete_inactive, assumption?)+
  show ?thesis by (cases r) (simp_all add: route delete create bulk reset inactive keeps_handleUpdateAdmin [OF assms])
qed

text \<open>
  C38. Sudo accounts are safe from each other: through any requests of admins who are not owners, every sudo
  account other than the requesters' own stays as it is (apart from its usage counter), whatever
  statements fail, and nobody becomes an owner.
\<close>

theorem sudo_accounts_are_guarded:
  assumes "admins_wf p" and "a \<in> set (p_admins p)" and "a_is_sudo a"
    and "\<forall>(i, _) \<in> set rs. \<not> id_IsOwner i \<and> id_Username i \<noteq> a_username a"
  shows "(\<exists>b \<in> set (p_admins (serve_admins rs p)). sans_usage b = sans_usage a)
    \<and> (\<forall>b \<in> set (p_admins (serve_admins rs p)). a_is_owner b \<longrightarrow> (\<exists>c \<in> set (p_admins p). a_is_owner c \<and> a_id c = a_id b))"
proof -
  let ?owners = "a_id ` {c \<in> set (p_admins p). a_is_owner c}"
  have "guarded {a} ?owners (serve_admins rs q)" if "guarded {a} ?owners q" for q
    using that assms(4)
  proof (induction rs arbitrary: q)
    case (Cons r rs)
    obtain i ev req where r: "r = (i, ev, req)" by (cases r) auto
    have "guarded {a} ?owners (snd (serve_admin ev i req q))"
      using keeps_serve_admin [of "{a}" i] Cons.prems assms(3) unfolding keeps_def by (auto simp: r)
    from Cons.IH [OF this] show ?case using Cons.prems(2) by (simp add: r)
  qed simp
  moreover have "guarded {a} ?owners p" using assms(1,2) by (auto simp: guarded_def)
  ultimately have q: "guarded {a} ?owners (serve_admins rs p)" by blast
  show ?thesis using guarded_has [OF q] guarded_owner [OF q] by force
qed

section \<open>Examples and limits\<close>

definition staff :: "int \<Rightarrow> string \<Rightarrow> bool \<Rightarrow> bool \<Rightarrow> Admin" where
  "staff aid name sudo owner = (seller_row aid name)\<lparr>a_is_sudo := sudo, a_is_owner := owner, a_hashed_password := ''old''\<rparr>"

definition staff_id :: "Admin \<Rightarrow> Identity" where
  "staff_id a = \<lparr>id_AdminID = a_id a, id_Username = a_username a, id_IsSudo = a_is_sudo a, id_IsOwner = a_is_owner a\<rparr>"

definition office :: panel where
  "office = market\<lparr>p_admins := [staff 1 ''eve'' True False, staff 2 ''sam'' False False, staff 3 ''pat'' True True, staff 4 ''kim'' False True]\<rparr>"

definition plain_admin_env :: admin_env where
  "plain_admin_env = \<lparr>ae_hash = Some, ae_invalidates = True, ae_now = 10 ^ 18\<rparr>"

definition no_change :: adminModifyRequest where
  "no_change = \<lparr>am_Password = None, am_IsSudo = None, am_IsOwner = None, am_TelegramID = None, am_DiscordWebhook = None\<rparr>"

theorem sudo_accounts_are_guarded_witness:
  "\<exists>b \<in> set (p_admins (serve_admins [(staff_id (staff 1 ''eve'' True False), plain_admin_env, PUT_admin ''pat'' (no_change\<lparr>am_Password := Some ''x''\<rparr>)),
       (staff_id (staff 1 ''eve'' True False), plain_admin_env, DELETE_admin ''pat'')] office)). sans_usage b = sans_usage (staff 3 ''pat'' True True)"
proof -
  have "admins_wf office" "staff 3 ''pat'' True True \<in> set (p_admins office)" "a_is_sudo (staff 3 ''pat'' True True)"
    by (simp_all add: admins_wf_def office_def market_def example_panel_def staff_def seller_row_def)
  then show ?thesis
    using sudo_accounts_are_guarded [of office "staff 3 ''pat'' True True"
        "[(staff_id (staff 1 ''eve'' True False), plain_admin_env, PUT_admin ''pat'' (no_change\<lparr>am_Password := Some ''x''\<rparr>)),
          (staff_id (staff 1 ''eve'' True False), plain_admin_env, DELETE_admin ''pat'')]"]
    by (simp add: staff_id_def staff_def seller_row_def)
qed

text \<open>An owner without sudo is outside of the guard: any sudo admin can give the account a new password and
  sudo again, and so act as an owner.\<close>

lemma sudo_takes_over_demoted_owner:
  "let p = serve_admins [(staff_id (staff 1 ''eve'' True False), plain_admin_env, PUT_admin ''kim'' (no_change\<lparr>am_Password := Some ''mine'', am_IsSudo := Some True\<rparr>))] office
   in map (\<lambda>a. (a_username a, a_hashed_password a, a_is_sudo a, a_is_owner a)) (filter (\<lambda>a. a_username a = ''kim'') (p_admins p)) = [(''kim'', ''mine'', True, True)]"
  by code_simp

text \<open>A usage reset leaves a log row that refers to the admin without a cascade: the admin can never be deleted
  again, and the cleanup of inactive admins stops there, after it has already deleted the admin's users.\<close>

lemma usage_log_blocks_deletion:
  "let p = office\<lparr>p_admin_logs := [(2, 5)]\<rparr>; (answer, q) = handleDeleteInactiveAdmins plain_admin_env (Some 1) p
   in answer = AFail 500 \<and> map u_username (p_users p) = [''ann'', ''bob''] \<and> map u_username (p_users q) = [''ann'']
      \<and> map a_username (p_admins q) = [''eve'', ''sam'', ''pat'', ''kim'']"
  by code_simp

text \<open>Disabling and activating the users of an admin turns a user on hold into an active one without an expiry.\<close>

lemma activation_skips_hold:
  "let p = office\<lparr>p_users := [example_user\<lparr>u_admin_id := Some 2, u_status := ''on_hold'', u_on_hold_expire_duration := Some 60, u_data_limit := None\<rparr>]\<rparr>;
       q = snd (handleActivateAdminUsers ''sam'' (snd (handleDisableAdminUsers ''sam'' p)))
   in map (\<lambda>u. (u_status u, u_expire u)) (p_users q) = [(''active'', None)] \<and> \<not> needs_review 7 (hd (p_users q))"
  by code_simp

end
