(* ===== verification/Spec2Isabelle.thy ===== *)
theory Spec2Isabelle
  imports Traffic Presence ConnGroup TunnelHealth Fallback NodeLog LogStream RedisCache Auth PanelDB ReviewJob NodeReport LoadFlight SubToken
    CoreConfig ConfigSync UsageFlow ConfigDelivery UserPage GatewaySync AdminAccounts
begin

text \<open>
  Verification of the core of the rapido panel and node.
\<close>

section \<open>Failover: from probes to routing\<close>

text \<open>The probe rounds of the monitor (\<open>Monitor.Run\<close>): what was discovered and the results in order of arrival.\<close>

type_synonym probe_round = "string list \<times> (string \<times> instant \<times> probe_result) list"

definition run_rounds :: "Monitor \<Rightarrow> probe_round list \<Rightarrow> Monitor" where
  "run_rounds m rounds = foldl (\<lambda>m (discovered, arrivals). Monitor_Tick m discovered arrivals) m rounds"

text \<open>Every round probes each tracked tunnel once, the tunnel \<open>n\<close> among them.\<close>

definition proper_round :: "Monitor \<Rightarrow> string \<Rightarrow> probe_round \<Rightarrow> bool" where
  "proper_round m n r \<longleftrightarrow> mset (map fst (snd r)) = mset (trackedNames m (fst r)) \<and> n \<in> set (fst r) \<union> set (mo_watched m)"

definition result_of :: "string \<Rightarrow> probe_round \<Rightarrow> instant \<times> probe_result" where
  "result_of n r = the (map_of (snd r) n)"

lemma Tick_frame [simp]:
  "mo_opts (Monitor_Tick m d a) = mo_opts m" "mo_watched (Monitor_Tick m d a) = mo_watched m"
  by (simp_all add: Monitor_Tick_def Let_def)

lemma run_rounds_status:
  assumes "monitor_inv m" and "Monitor_Status m n = Some e" and "\<forall>r \<in> set rounds. proper_round m n r"
  shows "Monitor_Status (run_rounds m rounds) n = Some (record_all (mo_opts m) e (map (result_of n) rounds))"
  using assms
proof (induction rounds arbitrary: m e)
  case (Cons r rounds)
  obtain d a where r: "r = (d, a)" by force
  have round: "mset (map fst a) = mset (trackedNames m d)" "n \<in> set d \<union> set (mo_watched m)"
    using Cons.prems(3) by (simp_all add: r proper_round_def)
  note tick = Tick_status [OF Cons.prems(1) round(1), of n]
  then obtain now res where at: "map_of a n = Some (now, res)" using round(2) by auto
  then have "Monitor_Status (Monitor_Tick m d a) n = Some (record_entry (mo_opts m) False now res e)"
    using tick Cons.prems(2) by (simp add: Monitor_Status_def old_entry_def)
  moreover have "\<forall>x \<in> set rounds. proper_round (Monitor_Tick m d a) n x"
    using Cons.prems(3) by (simp add: proper_round_def trackedNames_def)
  ultimately have "Monitor_Status (run_rounds (Monitor_Tick m d a) rounds) n =
      Some (record_all (mo_opts m) (record_entry (mo_opts m) False now res e) (map (result_of n) rounds))"
    using Cons.IH [of "Monitor_Tick m d a"] tick by simp
  moreover have "result_of n r = (now, res)" by (simp add: result_of_def r at)
  ultimately show ?case by (simp add: run_rounds_def r)
qed (simp add: run_rounds_def)

lemma Up_of_status: "Monitor_Status m n = Some e \<Longrightarrow> e_Probed e \<Longrightarrow> Monitor_Up m n = e_Up e"
  by (simp add: Monitor_Up_def Monitor_Status_def)

lemma rounds_up:
  assumes "monitor_inv m" and "Monitor_Status m n = Some e" and "\<forall>r \<in> set rounds. proper_round m n r"
  shows "Monitor_Up (run_rounds m rounds) n = e_Up (record_all (mo_opts m) e (map (result_of n) rounds))"
    and "entry_inv (mo_opts m) e" and "opts_ok (mo_opts m)"
proof -
  show inv: "entry_inv (mo_opts m) e" and ok: "opts_ok (mo_opts m)"
    using assms(1,2) by (auto simp: monitor_inv_def Monitor_Status_def dest: map_of_SomeD)
  show "Monitor_Up (run_rounds m rounds) n = e_Up (record_all (mo_opts m) e (map (result_of n) rounds))"
    using Up_of_status [OF run_rounds_status [OF assms]] record_all_inv [OF ok inv] by (simp add: entry_inv_def)
qed

text \<open>C10. Failover from end to end. Take an exit with a direct fallback whose selector runs, and a
  monitor that has seen its tunnel. If the tunnel was up without a failing probe, and every probe
  of the following rounds times out, then one pass of the supervisor after them routes the exit
  over the tunnel while fewer rounds than the threshold have failed, and directly from then on. If
  the tunnel was down without a good probe and every following probe succeeds, it stays on the
  direct route until the recovery threshold and is back on the tunnel from then on. This holds in
  whatever order the probes of a round answer and whatever happens to other tunnels.\<close>

theorem failover_and_recovery:
  assumes "selector_laws api member" and "distinct (map fg_Group groups)"
    and "\<forall>h \<in> set groups. CHR 0x00 \<notin> set (fg_Interface h)"
    and "g \<in> set groups" and "group_usable api member (su_box s) g"
    and "monitor_inv m" and "Monitor_Status m (fg_Interface g) = Some e"
    and "\<forall>r \<in> set rounds. proper_round m (fg_Interface g) r"
  shows "let s' = Reconcile api (Monitor_Up (run_rounds m rounds)) foreign groups s
    in (e_Up e \<and> e_failStreak e = 0 \<and> (\<forall>r \<in> set rounds. is_fail (snd (result_of (fg_Interface g) r))) \<longrightarrow>
          box_now api (su_box s') (fg_Group g) =
            (if int (length rounds) < opt_DownAfter (mo_opts m) then fg_Primary g else fg_Fallback g))
     \<and> (\<not> e_Up e \<and> e_okStreak e = 0 \<and> (\<forall>r \<in> set rounds. is_ok (snd (result_of (fg_Interface g) r))) \<longrightarrow>
          box_now api (su_box s') (fg_Group g) =
            (if int (length rounds) < opt_UpAfter (mo_opts m) then fg_Fallback g else fg_Primary g))"
proof -
  note up = rounds_up [OF assms(6-8)]
  have route: "box_now api (su_box (Reconcile api (Monitor_Up (run_rounds m rounds)) foreign groups s)) (fg_Group g) =
      (if e_Up (record_all (mo_opts m) e (map (result_of (fg_Interface g)) rounds)) then fg_Primary g else fg_Fallback g)"
    using Reconcile_settles [OF assms(1-5), of "Monitor_Up (run_rounds m rounds)" foreign] by (simp add: wanted_def up(1))
  show ?thesis unfolding Let_def route
    using record_all_failing [OF up(3,2), of "map (result_of (fg_Interface g)) rounds"]
      record_all_good [OF up(3,2), of "map (result_of (fg_Interface g)) rounds"]
    by (auto simp: list_all_iff)
qed

theorem failover_and_recovery_witness:
  "let g = \<lparr>fg_Group = ''de'', fg_Primary = ''de~wg'', fg_Fallback = ''de~direct'', fg_Interface = ''wg0''\<rparr>;
       m0 = Monitor_New \<lparr>opt_Interval = 0, opt_DownAfter = 0, opt_UpAfter = 0, opt_ProbeTimeout = 0\<rparr>;
       m = Monitor_Tick m0 [''wg0''] [(''wg0'', 1, ProbeOk 5)];
       fail = (\<lambda>t. ([''wg0''], [(''wg0'', t, ProbeErr False ''timeout'')]));
       s = \<lparr>su_box = [''de'' \<mapsto> ([''de~wg'', ''de~direct''], ''de~wg'')], su_active = [], su_log = []\<rparr>
   in box_now table_api (su_box (Reconcile table_api (Monitor_Up (run_rounds m [fail 2])) None [g] s)) ''de'' = ''de~wg''
    \<and> box_now table_api (su_box (Reconcile table_api (Monitor_Up (run_rounds m [fail 2, fail 3])) None [g] s)) ''de'' = ''de~direct''"
proof -
  let ?g = "\<lparr>fg_Group = ''de'', fg_Primary = ''de~wg'', fg_Fallback = ''de~direct'', fg_Interface = ''wg0''\<rparr>"
  let ?m0 = "Monitor_New \<lparr>opt_Interval = 0, opt_DownAfter = 0, opt_UpAfter = 0, opt_ProbeTimeout = 0\<rparr>"
  let ?m = "Monitor_Tick ?m0 [''wg0''] [(''wg0'', 1, ProbeOk 5)]"
  let ?s = "\<lparr>su_box = [''de'' \<mapsto> ([''de~wg'', ''de~direct''], ''de~wg'')], su_active = [], su_log = []\<rparr>"
  let ?fail = "\<lambda>t. ([''wg0''], [(''wg0'', t, ProbeErr False ''timeout'')])"
  define e where "e = record_entry (mo_opts ?m0) True 1 (ProbeOk 5) (new_entry ''wg0'' 1)"
  have inv: "monitor_inv ?m" by (intro monitor_inv_Tick monitor_inv_New)
  have st: "Monitor_Status ?m ''wg0'' = Some e"
    by (simp add: e_def Monitor_Status_def Monitor_Tick_def Monitor_New_def trackedNames_def record_probe_def Let_def)
  have e: "e_Up e" "e_failStreak e = 0" by (simp_all add: e_def record_entry_def new_entry_def Let_def)
  have proper: "proper_round ?m ''wg0'' (?fail t)" for t by (simp add: proper_round_def trackedNames_def Monitor_New_def)
  have down: "opt_DownAfter (mo_opts ?m) = 2" by (simp add: Monitor_New_def)
  have "box_now table_api (su_box (Reconcile table_api (Monitor_Up (run_rounds ?m (map ?fail ts))) None [?g] ?s)) ''de'' =
      (if int (length ts) < 2 then ''de~wg'' else ''de~direct'')" for ts
    using failover_and_recovery [OF table_laws, of "[?g]" ?g ?s ?m e "map ?fail ts" None] inv st e proper down
    by (simp add: group_usable_def table_api_def table_member_def Let_def result_of_def)
  from this [of "[2]"] this [of "[2, 3]"] show ?thesis by (simp add: Let_def)
qed

section \<open>Usage: from connections to accounts\<close>

text \<open>C2. Every delivered byte reaches its user's account exactly once. Start from empty counters and let
  connections count bytes and the node push after every interval, any number of times. With the
  database answering and the counts of each interval fitting their 64-bit counters, every user's
  used traffic has then grown by exactly the bytes counted for that name in the intervals whose
  push reached the panel; nothing is counted twice, nothing is credited to another user, and
  nothing stays behind in the node. The bytes of an interval whose push was lost are not credited
  later: they are gone.\<close>

theorem usage_credited_once:
  assumes "accounts_ok p" and "\<forall>r \<in> set rounds. counts_fit (rd_adds r)"
  shows "let (m', t', p') = push_intervals json nid (NewManager, t, p) rounds
    in map (\<lambda>u. (u_username u, u_used_traffic u)) (p_users p') =
         map (\<lambda>u. (u_username u, u_used_traffic u
           + sum_list (map (\<lambda>r. bytes_of (rd_adds r) (u_username u)) (filter rd_delivered rounds)))) (p_users p)
     \<and> (\<forall>k. pending_bytes m' k = 0)"
proof -
  obtain m' t' p' where run: "push_intervals json nid (NewManager, t, p) rounds = (m', t', p')" by (metis prod_cases3)
  have "wf_map NewManager" "pending_bytes NewManager k = 0" for k by (simp_all add: NewManager_def pending_bytes_def)
  from push_intervals_credit [OF this assms run] show ?thesis by (simp add: run credited_def)
qed

theorem usage_credited_once_witness:
  "let round = (\<lambda>n d. \<lparr>rd_adds = [(''bob'', n, 1), (''eve'', 7, 7), (''bob'', 0, 2)], rd_delivered = d, rd_now = 7, rd_settings = None, rd_host = example_sample\<rparr>);
       (m', t', p') = push_intervals (\<lambda>_. None) 3 (NewManager, [], example_db) [round 4 True, round 9 False, round 5 True]
   in map (\<lambda>u. (u_username u, u_used_traffic u)) (p_users p') = [(''ann'', 100), (''bob'', 115)]"
proof -
  let ?round = "\<lambda>n d. \<lparr>rd_adds = [(''bob'', n, 1), (''eve'', 7, 7), (''bob'', 0, 2)], rd_delivered = d, rd_now = 7, rd_settings = None, rd_host = example_sample\<rparr>"
  have "accounts_ok example_db" by (simp add: accounts_ok_def no_faults_def example_db_def example_users_def)
  moreover have "\<forall>r \<in> set [?round 4 True, ?round 9 False, ?round 5 True]. counts_fit (rd_adds r)" by (simp add: counts_fit_def)
  ultimately show ?thesis
    using usage_credited_once [of example_db "[?round 4 True, ?round 9 False, ?round 5 True]" "\<lambda>_. None" 3 "[]"]
    by (auto simp: Let_def bytes_of_def example_db_def example_users_def split: prod.splits)
qed

end
